(* ===== verification/Prelude.thy ===== *)
theory Prelude
  imports Main "HOL-Library.Word"
begin

text \<open>
  Shared vocabulary of the development: fixed-width integers, the exceptions and
  undefined behaviours a C++ operation can end in, unsigned 64-bit subtraction on sizes, and
  the generic facts on lists of equally long blocks that the block-structured buffer needs.
\<close>

unbundle bit_operations_syntax

type_synonym u8 = "8 word"
type_synonym u16 = "16 word"
type_synonym u32 = "32 word"
type_synonym u64 = "64 word"
type_synonym bytes = "8 word list"

text \<open>
  How an operation can fail. The first group are C++ exceptions that the code throws and a
  caller can catch; the second group are behaviours the language leaves undefined or that
  never return (a null dereference, the use of an uninitialised variable, an index outside a vector, a division by zero, a failed
  \<open>SYLAR_ASSERT\<close> which calls \<open>abort\<close>, a loop that makes no progress).
\<close>

datatype cpp_error =
    Out_of_range
  | Logic_error
  | Runtime_error
  | Invalid_argument
  | Null_deref
  | Indeterminate_value
  | Out_of_bounds
  | Division_by_zero
  | Assertion_failed
  | Nontermination

text \<open>An operation on an object of type \<open>'s\<close>: the object survives a thrown exception.\<close>

type_synonym ('s, 'a) outcome = "(cpp_error + 'a) \<times> 's"

definition map_outcome :: "('a \<Rightarrow> 'b) \<Rightarrow> ('s, 'a) outcome \<Rightarrow> ('s, 'b) outcome" where
  "map_outcome f r = (map_sum id f (fst r), snd r)"

lemma map_outcome_simps [simp]:
  "map_outcome f (Inl e, s) = (Inl e, s)" "map_outcome f (Inr v, s) = (Inr (f v), s)"
  by (simp_all add: map_outcome_def)

text \<open>Sequential composition: an exception (or abort) of the first part ends the whole.\<close>

definition and_then :: "('s, 'a) outcome \<Rightarrow> ('a \<Rightarrow> 's \<Rightarrow> ('s, 'b) outcome) \<Rightarrow> ('s, 'b) outcome" where
  "and_then r k = (case r of (Inl e, s) \<Rightarrow> (Inl e, s) | (Inr v, s) \<Rightarrow> k v s)"

lemma and_then_simps [simp]:
  "and_then (Inl e, s) k = (Inl e, s)" "and_then (Inr v, s) k = k v s"
  by (simp_all add: and_then_def)

lemma and_then_Inr:
  "and_then r k = (Inr w, s') \<longleftrightarrow> (\<exists>v s. r = (Inr v, s) \<and> k v s = (Inr w, s'))"
  by (auto simp: and_then_def split: prod.splits sum.splits)

named_theorems outcome_simps \<open>facts that evaluate the outcome of an operation\<close>
named_theorems wf_intros \<open>an operation keeps the well-formedness invariant\<close>
named_theorems wf_simps \<open>consequences of well-formedness used as rewrite rules\<close>
named_theorems block_simps \<open>flattening of equally long blocks\<close>

text \<open>
  Subtraction on \<open>size_t\<close>: it wraps around when the subtrahend is larger. Sizes are
  \<open>nat\<close>; for arguments below \<open>2 ^ 64\<close> this is the machine operation.
\<close>

definition sub64 :: "nat \<Rightarrow> nat \<Rightarrow> nat" where
  "sub64 a b = (if b \<le> a then a - b else a + 2 ^ 64 - b)"

lemma sub64_le [simp]: "b \<le> a \<Longrightarrow> sub64 a b = a - b"
  by (simp add: sub64_def)

lemma sub64_word:
  assumes "a < 2 ^ 64" and "b < 2 ^ 64"
  shows "sub64 a b = unat (of_nat a - of_nat b :: u64)"
proof -
  have "of_nat b \<le> (of_nat a :: u64) \<longleftrightarrow> b \<le> a"
    using assms by (simp add: word_le_nat_alt unat_of_nat)
  then show ?thesis
    using assms by (simp add: sub64_def unat_sub_if' unat_of_nat)
qed

text \<open>
  A loop that moves \<open>min (b - p mod b) todo\<close> bytes per round makes progress as long as the block
  size \<open>b\<close> is positive.
\<close>

lemma chunk_pos: "0 < b \<Longrightarrow> 0 < todo \<Longrightarrow> 0 < min (b - p mod b) (todo :: nat)"
  by simp

lemma chunk_progress: "0 < b \<Longrightarrow> 0 < todo \<Longrightarrow> todo - min (b - p mod b) todo < (todo :: nat)"
  using chunk_pos [of b todo p] by linarith

lemma chunk_progress_idx:
  "0 < b \<Longrightarrow> i < n \<Longrightarrow> n - (i + min (b - p mod b) (n - i)) < n - (i :: nat)"
  using chunk_pos [of b "n - i" p] by linarith

section \<open>Words\<close>

lemma clear_low: "x AND NOT (mask n) = x - take_bit n (x :: 'a::len word)"
proof -
  have "(x AND NOT (mask n)) + (x AND mask n) = (x AND NOT (mask n)) OR (x AND mask n)"
    by (rule disjunctive_add_eq_or) (rule bit_word_eqI, simp add: bit_simps)
  also have "\<dots> = x" by (rule bit_word_eqI) (auto simp: bit_simps)
  finally show ?thesis by (simp add: take_bit_eq_mask eq_diff_eq)
qed

lemma unat_take_bit: "unat (take_bit n (x :: 'a::len word)) = unat x mod 2 ^ n"
  by (simp add: unsigned_take_bit_eq flip: take_bit_eq_mod)

lemma unat_clear_low: "unat (x AND NOT (mask n)) = unat x - unat x mod 2 ^ n" for x :: "'a::len word"
proof -
  have "take_bit n x \<le> x" by (simp add: word_le_nat_alt unat_take_bit)
  then show ?thesis by (simp add: clear_low unat_sub unat_take_bit)
qed
section \<open>Overwriting a stretch of a byte list\<close>

text \<open>\<open>memcpy (m + p, xs, length xs)\<close> on the memory \<open>m\<close>.\<close>

definition overlay :: "nat \<Rightarrow> 'a list \<Rightarrow> 'a list \<Rightarrow> 'a list" where
  "overlay p xs m = take p m @ xs @ drop (p + length xs) m"

lemma length_overlay [simp]:
  "p + length xs \<le> length m \<Longrightarrow> length (overlay p xs m) = length m"
  by (simp add: overlay_def)

lemma overlay_Nil [simp]: "overlay p [] m = m"
  by (simp add: overlay_def)

lemma take_overlay: "p + length xs \<le> length m \<Longrightarrow> take (p + length xs) (overlay p xs m) = take p m @ xs"
  by (simp add: overlay_def)

lemma overlay_overlay:
  assumes "p + length xs + length ys \<le> length m"
  shows "overlay (p + length xs) ys (overlay p xs m) = overlay p (xs @ ys) m"
  using assms by (simp add: overlay_def ac_simps)

lemma take_min_length [simp]: "take (min n (length xs)) xs = take n xs"
  by (simp add: min_def)

section \<open>Lists of equally long blocks\<close>

definition uniform :: "nat \<Rightarrow> 'a list list \<Rightarrow> bool" where
  "uniform b bs \<longleftrightarrow> (\<forall>x \<in> set bs. length x = b)"

lemma uniform_Nil [simp]: "uniform b []"
  by (simp add: uniform_def)

lemma uniform_Cons [simp]: "uniform b (x # xs) \<longleftrightarrow> length x = b \<and> uniform b xs"
  by (simp add: uniform_def)

lemma uniform_append [simp]: "uniform b (xs @ ys) \<longleftrightarrow> uniform b xs \<and> uniform b ys"
  by (auto simp: uniform_def)

lemma uniform_nth: "uniform b bs \<Longrightarrow> i < length bs \<Longrightarrow> length (bs ! i) = b"
  by (simp add: uniform_def)

lemma uniform_update: "uniform b bs \<Longrightarrow> length x = b \<Longrightarrow> uniform b (bs[i := x])"
  by (auto simp: uniform_def dest: set_update_subset_insert [THEN subsetD])

lemma length_concat_uniform [block_simps]:
  "uniform b bs \<Longrightarrow> length (concat bs) = length bs * b"
  by (induction bs) (auto simp: algebra_simps)

lemma take_drop_block:
  assumes "uniform b bs" and "i < length bs" and "p + n \<le> b"
  shows "take n (drop p (bs ! i)) = take n (drop (i * b + p) (concat bs))"
  using assms
proof (induction bs arbitrary: i)
  case Nil
  then show ?case by simp
next
  case (Cons x xs)
  show ?case
  proof (cases i)
    case 0
    with Cons.prems show ?thesis by simp
  next
    case (Suc j)
    with Cons.prems have "take n (drop p (xs ! j)) = take n (drop (j * b + p) (concat xs))"
      by (intro Cons.IH) auto
    with Suc Cons.prems show ?thesis by (simp add: add.assoc)
  qed
qed

lemma concat_update_overlay:
  assumes "uniform b bs" and "i < length bs" and "p + length xs \<le> b"
  shows "concat (bs[i := overlay p xs (bs ! i)]) = overlay (i * b + p) xs (concat bs)"
  using assms
proof (induction bs arbitrary: i)
  case Nil
  then show ?case by simp
next
  case (Cons y ys)
  show ?case
  proof (cases i)
    case 0
    with Cons.prems show ?thesis by (simp add: overlay_def)
  next
    case (Suc j)
    with Cons.prems have IH: "concat (ys[j := overlay p xs (ys ! j)]) = overlay (j * b + p) xs (concat ys)"
      by (intro Cons.IH) auto
    from Suc Cons.prems show ?thesis
      by (simp add: IH) (simp add: overlay_def add.assoc)
  qed
qed

end
