(* ===== verification/Byte_Array.thy ===== *)
theory Byte_Array
  imports Prelude
begin

text \<open>
  The class \<open>ByteArray\<close> (src/sylar/bytearry.h, src/sylar/bytearry.cpp): a growable byte queue
  kept in a singly linked list of memory blocks of equal size, with a read and a write
  cursor. The theory holds the raw buffer: allocation, \<open>write\<close>, \<open>read\<close>, the positions, the
  scatter/gather views, the hex dump and the file operations. The typed readers and
  writers are in the theory on codecs.

  The blocks reachable from \<open>root_\<close> are the list \<open>blocks\<close>; a block pointer is an index
  into it and \<open>None\<close> is \<open>nullptr\<close>. The contents \<open>operator new[]\<close> leaves in a fresh block
  are unknown, so they are read from the field \<open>junk\<close> (block number, offset).
\<close>

section \<open>State\<close>

record bytearray =
  block_size :: nat
  capacity :: nat
  blocks :: "bytes list"
  read_pos :: nat
  write_pos :: nat
  read_cur :: "nat option"
  write_cur :: "nat option"
  junk :: "nat \<Rightarrow> nat \<Rightarrow> u8"

definition MemoryBlock :: "bytearray \<Rightarrow> bytes" where
  "MemoryBlock ba = map (junk ba (length (blocks ba))) [0..<block_size ba]"

definition ByteArray :: "nat \<Rightarrow> (nat \<Rightarrow> nat \<Rightarrow> u8) \<Rightarrow> bytearray" where
  "ByteArray bs jk = \<lparr>block_size = bs, capacity = 0, blocks = [], read_pos = 0, write_pos = 0,
     read_cur = None, write_cur = None, junk = jk\<rparr>"

definition get_size :: "bytearray \<Rightarrow> nat" where
  "get_size ba = write_pos ba"

definition get_unread_size :: "bytearray \<Rightarrow> nat" where
  "get_unread_size ba = sub64 (write_pos ba) (read_pos ba)"

definition get_spare_capacity :: "bytearray \<Rightarrow> nat" where
  "get_spare_capacity ba = sub64 (capacity ba) (write_pos ba)"

definition root :: "bytearray \<Rightarrow> nat option" where
  "root ba = (if blocks ba = [] then None else Some 0)"

definition next_block :: "bytearray \<Rightarrow> nat \<Rightarrow> nat option" where
  "next_block ba i = (if Suc i < length (blocks ba) then Some (Suc i) else None)"

text \<open>The block a pointer refers to: \<open>None\<close> for a null (or dangling) pointer.\<close>

definition deref :: "bytearray \<Rightarrow> nat option \<Rightarrow> bytes option" where
  "deref ba p = (case p of None \<Rightarrow> None
     | Some i \<Rightarrow> if i < length (blocks ba) then Some (blocks ba ! i) else None)"

definition advance :: "bytearray \<Rightarrow> nat option \<Rightarrow> nat option" where
  "advance ba p = (case p of None \<Rightarrow> None | Some i \<Rightarrow> next_block ba i)"

section \<open>Allocation\<close>

definition add_block :: "bytearray \<Rightarrow> bytearray" where
  "add_block ba = ba\<lparr>blocks := blocks ba @ [MemoryBlock ba], capacity := capacity ba + block_size ba\<rparr>"

function expand_loop :: "nat \<Rightarrow> bytearray \<Rightarrow> (bytearray, unit) outcome" where
  "expand_loop sz ba =
     (if get_spare_capacity ba \<le> sz
      then if block_size ba = 0 then (Inl Nontermination, ba) else expand_loop sz (add_block ba)
      else (Inr (), ba))"
  by pat_completeness auto
termination
  by (relation "measure (\<lambda>(sz, ba). Suc (sz + write_pos ba) - capacity ba)")
    (auto simp: add_block_def get_spare_capacity_def sub64_def split: if_splits)

text \<open>
  The first \<open>while\<close> of \<open>expand_capacity\<close> walks from \<open>write_cur_\<close> to the last block, so it
  dereferences \<open>write_cur_\<close>; new blocks are then linked behind the last one.
\<close>

definition expand_capacity :: "nat \<Rightarrow> bytearray \<Rightarrow> (bytearray, unit) outcome" where
  "expand_capacity sz ba =
     (let ba1 = (if root ba = None
                 then ba\<lparr>blocks := [MemoryBlock ba], write_cur := Some 0, read_cur := Some 0,
                         capacity := block_size ba\<rparr>
                 else ba)
      in if deref ba1 (write_cur ba1) = None then (Inl Null_deref, ba1)
         else expand_loop sz ba1)"

section \<open>Raw write and read\<close>

definition write_step :: "nat \<Rightarrow> bytes \<Rightarrow> bytes \<Rightarrow> nat \<Rightarrow> bytearray \<Rightarrow> bytearray" where
  "write_step n chunk blk i ba =
     (let ba1 = ba\<lparr>blocks := (blocks ba)[i := overlay (write_pos ba mod block_size ba) chunk blk],
                   write_pos := write_pos ba + n\<rparr>
      in if write_pos ba1 mod block_size ba1 = 0
         then ba1\<lparr>write_cur := advance ba1 (write_cur ba1)\<rparr> else ba1)"

function write_loop :: "nat \<Rightarrow> bytes \<Rightarrow> bytearray \<Rightarrow> (bytearray, unit) outcome" where
  "write_loop data_idx src ba =
     (if data_idx < length src
      then if block_size ba = 0 then (Inl Division_by_zero, ba)
      else let block_pos = write_pos ba mod block_size ba;
               block_space = block_size ba - block_pos;
               write_size = min block_space (length src - data_idx)
           in case deref ba (write_cur ba) of
                None \<Rightarrow> (Inl Null_deref, ba)
              | Some blk \<Rightarrow>
                  write_loop (data_idx + write_size) src
                    (write_step write_size (take write_size (drop data_idx src)) blk
                       (the (write_cur ba)) ba)
      else (Inr (), ba))"
  by pat_completeness auto
termination
  by (relation "measure (\<lambda>(data_idx, src, ba). length src - data_idx)") (auto intro: chunk_progress_idx)

definition ByteArray_write :: "bytes \<Rightarrow> bytearray \<Rightarrow> (bytearray, unit) outcome" where
  "ByteArray_write data ba =
     (if length data = 0 then (Inr (), ba)
      else case expand_capacity (length data) ba of
             (Inl e, ba1) \<Rightarrow> (Inl e, ba1)
           | (Inr _, ba1) \<Rightarrow> write_loop 0 data ba1)"

definition read_step :: "nat \<Rightarrow> bytearray \<Rightarrow> bytearray" where
  "read_step n ba =
     (let ba1 = ba\<lparr>read_pos := read_pos ba + n\<rparr>
      in if read_pos ba1 mod block_size ba1 = 0
         then ba1\<lparr>read_cur := advance ba1 (read_cur ba1)\<rparr> else ba1)"

text \<open>\<open>todo\<close> is \<open>size - buf_idx\<close>; \<open>buf\<close> is what has been copied to the caller so far.\<close>

function read_loop :: "nat \<Rightarrow> bytes \<Rightarrow> bytearray \<Rightarrow> (bytearray, bytes) outcome" where
  "read_loop todo buf ba =
     (if 0 < todo
      then if block_size ba = 0 then (Inl Division_by_zero, ba)
      else let block_pos = read_pos ba mod block_size ba;
               block_space = block_size ba - block_pos;
               read_size = min block_space todo
           in case deref ba (read_cur ba) of
                None \<Rightarrow> (Inl Null_deref, ba)
              | Some blk \<Rightarrow>
                  read_loop (todo - read_size) (buf @ take read_size (drop block_pos blk))
                    (read_step read_size ba)
      else (Inr buf, ba))"
  by pat_completeness auto
termination
  by (relation "measure (\<lambda>(todo, buf, ba). todo)") (auto intro: chunk_progress)

declare expand_loop.simps [simp del] write_loop.simps [simp del] read_loop.simps [simp del]

text \<open>\<open>read\<close> returns the bytes it copied to the caller's buffer; the C++ result is their number.\<close>

definition ByteArray_read :: "nat \<Rightarrow> bytearray \<Rightarrow> (bytearray, bytes) outcome" where
  "ByteArray_read sz ba =
     (let n = min sz (get_unread_size ba)
      in if n = 0 then (Inr [], ba) else read_loop n [] ba)"

section \<open>Positions\<close>

fun walk :: "bytearray \<Rightarrow> nat option \<Rightarrow> nat \<Rightarrow> cpp_error + nat option" where
  "walk ba p 0 = Inr p"
| "walk ba p (Suc n) =
     (case deref ba p of None \<Rightarrow> Inl Null_deref | Some _ \<Rightarrow> walk ba (advance ba p) n)"

definition set_read_position :: "nat \<Rightarrow> bytearray \<Rightarrow> (bytearray, unit) outcome" where
  "set_read_position pos ba =
     (if write_pos ba < pos then (Inl Out_of_range, ba)
      else let ba1 = ba\<lparr>read_pos := pos, read_cur := root ba\<rparr>
           in if block_size ba1 = 0 then (Inl Division_by_zero, ba1)
              else case walk ba1 (read_cur ba1) (pos div block_size ba1) of
                     Inl e \<Rightarrow> (Inl e, ba1)
                   | Inr p \<Rightarrow> (Inr (), ba1\<lparr>read_cur := p\<rparr>))"

definition set_write_position :: "nat \<Rightarrow> bytearray \<Rightarrow> (bytearray, unit) outcome" where
  "set_write_position pos ba =
     (case (if capacity ba < pos then expand_capacity (pos - capacity ba) ba else (Inr (), ba)) of
        (Inl e, ba1) \<Rightarrow> (Inl e, ba1)
      | (Inr _, ba1) \<Rightarrow>
          let ba2 = ba1\<lparr>write_pos := pos, write_cur := root ba1\<rparr>
          in if block_size ba2 = 0 then (Inl Division_by_zero, ba2)
             else case walk ba2 (write_cur ba2) (pos div block_size ba2) of
                    Inl e \<Rightarrow> (Inl e, ba2)
                  | Inr p \<Rightarrow> (Inr (), ba2\<lparr>write_cur := p\<rparr>))"

definition ByteArray_clear :: "bytearray \<Rightarrow> bytearray" where
  "ByteArray_clear ba = ba\<lparr>blocks := [], read_cur := None, write_cur := None,
     write_pos := 0, read_pos := 0, capacity := 0\<rparr>"


section \<open>Scatter/gather views\<close>

record iovec =
  iov_block :: nat
  iov_off :: nat
  iov_len :: nat

function iovec_loop :: "bytearray \<Rightarrow> nat \<Rightarrow> nat \<Rightarrow> nat option \<Rightarrow> iovec list \<Rightarrow> cpp_error + iovec list" where
  "iovec_loop ba todo pos cur buffers =
     (if 0 < todo
      then if block_size ba = 0 then Inl Division_by_zero
      else let block_pos = pos mod block_size ba;
               block_space = block_size ba - block_pos;
               n = min block_space todo
           in case deref ba cur of
                None \<Rightarrow> Inl Null_deref
              | Some _ \<Rightarrow>
                  iovec_loop ba (todo - n) (pos + n)
                    (if (pos + n) mod block_size ba = 0 then advance ba cur else cur)
                    (buffers @ [\<lparr>iov_block = the cur, iov_off = block_pos, iov_len = n\<rparr>])
      else Inr buffers)"
  by pat_completeness auto
termination
  by (relation "measure (\<lambda>(ba, todo, pos, cur, buffers). todo)") (auto intro: chunk_progress)

declare iovec_loop.simps [simp del]

definition get_read_buffers :: "iovec list \<Rightarrow> nat \<Rightarrow> bytearray \<Rightarrow> cpp_error + iovec list" where
  "get_read_buffers buffers len ba =
     (let n = min len (get_unread_size ba)
      in if n = 0 then Inr buffers else iovec_loop ba n (read_pos ba) (read_cur ba) buffers)"

definition get_write_buffers :: "iovec list \<Rightarrow> nat \<Rightarrow> bytearray \<Rightarrow> (bytearray, iovec list) outcome" where
  "get_write_buffers buffers len ba =
     (if len = 0 then (Inr buffers, ba)
      else case expand_capacity len ba of
             (Inl e, ba1) \<Rightarrow> (Inl e, ba1)
           | (Inr _, ba1) \<Rightarrow> (iovec_loop ba1 len (write_pos ba1) (write_cur ba1) buffers, ba1))"

text \<open>The bytes an \<open>iovec\<close> refers to.\<close>

definition iovec_bytes :: "bytearray \<Rightarrow> iovec \<Rightarrow> bytes" where
  "iovec_bytes ba v = take (iov_len v) (drop (iov_off v) (blocks ba ! iov_block v))"

section \<open>Hex dump\<close>

definition hex_digit :: "nat \<Rightarrow> char" where
  "hex_digit n = (if n < 10 then char_of (48 + n) else char_of (87 + n))"

definition hex_byte :: "u8 \<Rightarrow> string" where
  "hex_byte b = [hex_digit (unat b div 16), hex_digit (unat b mod 16), CHR '' '']"

definition to_hex_string :: "bytearray \<Rightarrow> (bytearray, string) outcome" where
  "to_hex_string ba =
     (let old_read_pos = read_pos ba
      in case ByteArray_read (get_unread_size ba) ba of
           (Inl e, ba1) \<Rightarrow> (Inl e, ba1)
         | (Inr str, ba1) \<Rightarrow>
             (case set_read_position old_read_pos ba1 of
                (Inl e, ba2) \<Rightarrow> (Inl e, ba2)
              | (Inr _, ba2) \<Rightarrow> (Inr (concat (map hex_byte str)), ba2)))"

section \<open>Files\<close>

text \<open>
  A file opened for writing takes \<open>room\<close> more bytes; \<open>fwrite\<close> stores as many bytes as fit and
  returns their number. The result of the loop is \<open>Inr False\<close> after a short write.
\<close>

function write_file_loop ::
    "nat \<Rightarrow> nat \<Rightarrow> bytes \<Rightarrow> bytearray \<Rightarrow> (cpp_error + bool) \<times> bytes \<times> bytearray" where
  "write_file_loop to_write room out ba =
     (if 0 < to_write
      then if block_size ba = 0 then (Inl Division_by_zero, out, ba)
      else let block_pos = read_pos ba mod block_size ba;
               block_space = block_size ba - block_pos;
               write_size = min block_space to_write
           in case deref ba (read_cur ba) of
                None \<Rightarrow> (Inl Null_deref, out, ba)
              | Some blk \<Rightarrow>
                  let n = min write_size room;
                      out' = out @ take n (drop block_pos blk)
                  in if n \<noteq> write_size then (Inr False, out', ba)
                     else write_file_loop (to_write - write_size) (room - n) out'
                            (read_step write_size ba)
      else (Inr True, out, ba))"
  by pat_completeness auto
termination
  by (relation "measure (\<lambda>(to_write, room, out, ba). to_write)") (auto intro: chunk_progress)

declare write_file_loop.simps [simp del]

definition write_to_file :: "bool \<Rightarrow> nat \<Rightarrow> bytearray \<Rightarrow> (cpp_error + unit) \<times> bytes \<times> bytearray" where
  "write_to_file opened room ba =
     (if \<not> opened then (Inl Logic_error, [], ba)
      else let old_read_pos = read_pos ba
           in case set_read_position 0 ba of
                (Inl e, ba1) \<Rightarrow> (Inl e, [], ba1)
              | (Inr _, ba1) \<Rightarrow>
                  (case write_file_loop (write_pos ba1) room [] ba1 of
                     (Inl e, out, ba2) \<Rightarrow> (Inl e, out, ba2)
                   | (Inr complete, out, ba2) \<Rightarrow>
                       (case set_read_position old_read_pos ba2 of
                          (Inl e, ba3) \<Rightarrow> (Inl e, out, ba3)
                        | (Inr _, ba3) \<Rightarrow>
                            ((if complete then Inr () else Inl Logic_error), out, ba3))))"

text \<open>
  The \<open>do ... while (n == block_size_)\<close> loop; \<open>rest\<close> is what \<open>fread\<close> has not delivered yet.
  With a block size of zero it never ends.
\<close>

function read_file_loop :: "bytes \<Rightarrow> bytearray \<Rightarrow> (bytearray, unit) outcome" where
  "read_file_loop rest ba =
     (if block_size ba = 0 then (Inl Nontermination, ba)
      else case expand_capacity (block_size ba) ba of
             (Inl e, ba1) \<Rightarrow> (Inl e, ba1)
           | (Inr _, ba1) \<Rightarrow>
               (case deref ba1 (write_cur ba1) of
                  None \<Rightarrow> (Inl Null_deref, ba1)
                | Some blk \<Rightarrow>
                    let n = min (block_size ba) (length rest);
                        ba2 = ba1\<lparr>blocks := (blocks ba1)[the (write_cur ba1) := overlay 0 (take n rest) blk],
                                  write_pos := write_pos ba1 + n\<rparr>
                    in if n = block_size ba
                       then read_file_loop (drop n rest) (ba2\<lparr>write_cur := advance ba2 (write_cur ba2)\<rparr>)
                       else (Inr (), ba2)))"
  by pat_completeness auto
termination
  by (relation "measure (\<lambda>(rest, ba). length rest)") (auto simp: min_def split: if_splits)

declare read_file_loop.simps [simp del]

definition read_from_file :: "bytes option \<Rightarrow> bytearray \<Rightarrow> (bytearray, unit) outcome" where
  "read_from_file file ba =
     (case file of
        None \<Rightarrow> (Inl Logic_error, ba)
      | Some content \<Rightarrow>
          let ba1 = ByteArray_clear ba;
              ba2 = ba1\<lparr>blocks := [MemoryBlock ba1], read_cur := Some 0, write_cur := Some 0,
                        capacity := block_size ba1\<rparr>
          in case read_file_loop content ba2 of
               (Inl e, ba3) \<Rightarrow> (Inl e, ba3)
             | (Inr _, ba3) \<Rightarrow> (Inr (), ba3\<lparr>read_pos := 0, read_cur := root ba3\<rparr>))"


section \<open>Invariant and abstraction\<close>

text \<open>
  What every public operation relies on: the cursors point at the blocks that hold their
  positions, and once a block exists there is always at least one spare byte, so that the
  write cursor is never null.
\<close>

definition ba_wf :: "bytearray \<Rightarrow> bool" where
  "ba_wf ba \<longleftrightarrow> 0 < block_size ba \<and> uniform (block_size ba) (blocks ba)
     \<and> capacity ba = length (blocks ba) * block_size ba \<and> read_pos ba \<le> write_pos ba
     \<and> (if blocks ba = [] then write_pos ba = 0 \<and> read_cur ba = None \<and> write_cur ba = None
        else write_pos ba < capacity ba \<and> read_cur ba = Some (read_pos ba div block_size ba)
           \<and> write_cur ba = Some (write_pos ba div block_size ba))"

text \<open>The abstract state: the bytes written so far, and those not yet read.\<close>

definition contents :: "bytearray \<Rightarrow> bytes" where
  "contents ba = take (write_pos ba) (concat (blocks ba))"

definition unread :: "bytearray \<Rightarrow> bytes" where
  "unread ba = drop (read_pos ba) (contents ba)"

text \<open>The buffer with its read position moved to \<open>p\<close>.\<close>

definition seek :: "nat \<Rightarrow> bytearray \<Rightarrow> bytearray" where
  "seek p ba = ba\<lparr>read_pos := p,
     read_cur := (if blocks ba = [] then None else Some (p div block_size ba))\<rparr>"

text \<open>\<open>ba'\<close> is \<open>ba\<close> with \<open>d\<close> appended behind the write position, the reader not moved.\<close>

definition appended :: "bytes \<Rightarrow> bytearray \<Rightarrow> bytearray \<Rightarrow> bool" where
  "appended d ba ba' \<longleftrightarrow> ba_wf ba' \<and> contents ba' = contents ba @ d
     \<and> read_pos ba' = read_pos ba \<and> block_size ba' = block_size ba"

lemma wf_pos [wf_simps]: "ba_wf ba \<Longrightarrow> 0 < block_size ba"
  by (simp add: ba_wf_def)

lemma wf_nz [wf_simps]: "ba_wf ba \<Longrightarrow> block_size ba \<noteq> 0"
  by (simp add: ba_wf_def)

lemma wf_uniform: "ba_wf ba \<Longrightarrow> uniform (block_size ba) (blocks ba)"
  by (simp add: ba_wf_def)

lemma wf_read_le: "ba_wf ba \<Longrightarrow> read_pos ba \<le> write_pos ba"
  by (simp add: ba_wf_def)

lemma wf_le_capacity: "ba_wf ba \<Longrightarrow> write_pos ba \<le> capacity ba"
  by (auto simp: ba_wf_def split: if_splits)

lemma length_mem [block_simps]: "ba_wf ba \<Longrightarrow> length (concat (blocks ba)) = capacity ba"
  by (simp add: ba_wf_def length_concat_uniform)

lemma length_contents [wf_simps]: "ba_wf ba \<Longrightarrow> length (contents ba) = write_pos ba"
  by (simp add: contents_def length_mem wf_le_capacity)

lemma length_unread [wf_simps]: "ba_wf ba \<Longrightarrow> length (unread ba) = write_pos ba - read_pos ba"
  by (simp add: wf_simps unread_def)

lemma unread_size [wf_simps]: "ba_wf ba \<Longrightarrow> get_unread_size ba = length (unread ba)"
  by (simp add: wf_simps get_unread_size_def wf_read_le)

lemma wf_new [wf_intros]: "0 < bs \<Longrightarrow> ba_wf (ByteArray bs jk)"
  by (simp add: ba_wf_def ByteArray_def)

lemma contents_new [simp]: "contents (ByteArray bs jk) = []"
  by (simp add: contents_def ByteArray_def)

lemma unread_new [simp]: "unread (ByteArray bs jk) = []"
  by (simp add: unread_def)

lemma read_pos_new [simp]: "read_pos (ByteArray bs jk) = 0"
  by (simp add: ByteArray_def)

lemma wf_clear [wf_intros]: "ba_wf ba \<Longrightarrow> ba_wf (ByteArray_clear ba)"
  by (simp add: ba_wf_def ByteArray_clear_def)

lemma contents_clear [simp]: "contents (ByteArray_clear ba) = []"
  by (simp add: contents_def ByteArray_clear_def)

lemma appended_unread:
  "ba_wf ba \<Longrightarrow> appended d ba ba' \<Longrightarrow> unread ba' = unread ba @ d"
  by (simp add: wf_simps appended_def unread_def wf_read_le)

lemma appended_trans:
  "appended d ba ba' \<Longrightarrow> appended e ba' ba'' \<Longrightarrow> appended (d @ e) ba ba''"
  by (simp add: appended_def)

lemma appended_refl [wf_simps]: "ba_wf ba \<Longrightarrow> appended [] ba ba"
  by (simp add: appended_def)

lemma appended_wf [dest]: "appended d ba ba' \<Longrightarrow> ba_wf ba'"
  by (simp add: appended_def)

subsection \<open>The cursor blocks\<close>

lemma write_block_exists:
  assumes "ba_wf ba" and "blocks ba \<noteq> []"
  shows "write_pos ba div block_size ba < length (blocks ba)"
  using assms by (simp add: ba_wf_def less_mult_imp_div_less)

lemma read_block_exists:
  assumes "ba_wf ba" and "blocks ba \<noteq> []"
  shows "read_pos ba div block_size ba < length (blocks ba)"
proof -
  have "read_pos ba < length (blocks ba) * block_size ba"
    using assms by (auto simp: ba_wf_def)
  then show ?thesis by (rule less_mult_imp_div_less)
qed

lemma deref_write_cur:
  "ba_wf ba \<Longrightarrow> blocks ba \<noteq> [] \<Longrightarrow>
     deref ba (write_cur ba) = Some (blocks ba ! (write_pos ba div block_size ba))"
  using write_block_exists [of ba] by (simp add: deref_def ba_wf_def)

lemma deref_read_cur:
  "ba_wf ba \<Longrightarrow> blocks ba \<noteq> [] \<Longrightarrow>
     deref ba (read_cur ba) = Some (blocks ba ! (read_pos ba div block_size ba))"
  using read_block_exists [of ba] by (simp add: deref_def ba_wf_def)

text \<open>
  Moving \<open>n\<close> bytes ahead inside one block: the cursor moves to the next block exactly when the
  block is used up.
\<close>

lemma div_step:
  fixes b p n :: nat
  assumes "0 < b" and "0 < n" and "n \<le> b - p mod b"
  shows "(p + n) div b = (if (p + n) mod b = 0 then Suc (p div b) else p div b)"
proof -
  have p: "p = p div b * b + p mod b" by simp
  have pm: "p mod b < b" using assms(1) by simp
  show ?thesis
  proof (cases "p mod b + n = b")
    case True
    then have "p + n = Suc (p div b) * b" using p by (metis add.assoc add.commute mult_Suc)
    then show ?thesis using assms(1) by simp
  next
    case False
    with assms(3) pm have lt: "p mod b + n < b" by linarith
    have "p + n = (p mod b + n) + p div b * b" using p by linarith
    then have "(p + n) div b = p div b" and "(p + n) mod b = p mod b + n"
      using lt assms(1) by (metis add.commute add.left_neutral div_less div_mult_self1 less_nat_zero_code not_gr_zero,
          metis lt mod_less mod_mult_self1 add.commute)
    then show ?thesis using assms(2) by simp
  qed
qed


subsection \<open>Growing the buffer\<close>

text \<open>\<open>ba'\<close> has the same positions and contents as \<open>ba\<close> and more blocks behind them.\<close>

definition grown :: "bytearray \<Rightarrow> bytearray \<Rightarrow> bool" where
  "grown ba ba' \<longleftrightarrow> ba_wf ba' \<and> blocks ba' \<noteq> [] \<and> (\<exists>ext. blocks ba' = blocks ba @ ext)
     \<and> read_pos ba' = read_pos ba \<and> write_pos ba' = write_pos ba
     \<and> block_size ba' = block_size ba \<and> junk ba' = junk ba"

lemma grown_refl: "ba_wf ba \<Longrightarrow> blocks ba \<noteq> [] \<Longrightarrow> grown ba ba"
  by (simp add: grown_def)

lemma grown_trans: "grown ba ba' \<Longrightarrow> grown ba' ba'' \<Longrightarrow> grown ba ba''"
  by (auto simp: grown_def)

lemma grown_contents:
  assumes "ba_wf ba" and "grown ba ba'"
  shows "contents ba' = contents ba"
proof -
  have "write_pos ba \<le> length (concat (blocks ba))"
    using assms(1) by (simp add: length_mem wf_le_capacity)
  then show ?thesis using assms(2) by (auto simp: grown_def contents_def)
qed

lemma grown_appended: "ba_wf ba \<Longrightarrow> grown ba ba' \<Longrightarrow> appended [] ba ba'"
  by (simp add: appended_def grown_contents) (simp add: grown_def)

lemma add_block_grown: "ba_wf ba \<Longrightarrow> blocks ba \<noteq> [] \<Longrightarrow> grown ba (add_block ba)"
  by (simp add: grown_def ba_wf_def add_block_def MemoryBlock_def)

lemma expand_loop_spec:
  "ba_wf ba \<Longrightarrow> blocks ba \<noteq> [] \<Longrightarrow>
     \<exists>ba'. expand_loop sz ba = (Inr (), ba') \<and> grown ba ba' \<and> write_pos ba' + sz < capacity ba'"
proof (induction sz ba rule: expand_loop.induct)
  case (1 sz ba)
  show ?case
  proof (cases "get_spare_capacity ba \<le> sz")
    case True
    have g: "grown ba (add_block ba)" using "1.prems" by (rule add_block_grown)
    then obtain ba' where "expand_loop sz (add_block ba) = (Inr (), ba')"
      "grown (add_block ba) ba'" "write_pos ba' + sz < capacity ba'"
      using "1.IH" True "1.prems" by (auto simp: wf_simps grown_def)
    with True "1.prems" g show ?thesis
      by (auto simp: wf_simps expand_loop.simps [of sz ba] intro: grown_trans)
  next
    case False
    with "1.prems" show ?thesis
      by (auto simp: expand_loop.simps [of sz ba] get_spare_capacity_def wf_le_capacity grown_refl)
  qed
qed

lemma expand_capacity_spec:
  assumes "ba_wf ba"
  shows "\<exists>ba'. expand_capacity sz ba = (Inr (), ba') \<and> grown ba ba' \<and> write_pos ba' + sz < capacity ba'"
proof (cases "blocks ba = []")
  case False
  with assms expand_loop_spec [of ba sz] show ?thesis
    by (simp add: expand_capacity_def root_def deref_write_cur)
next
  case True
  define ba1 where "ba1 = ba\<lparr>blocks := [MemoryBlock ba], write_cur := Some 0, read_cur := Some 0,
    capacity := block_size ba\<rparr>"
  have wf1: "ba_wf ba1" and ne: "blocks ba1 \<noteq> []"
    using assms True by (auto simp: ba_wf_def ba1_def MemoryBlock_def)
  have "expand_capacity sz ba = expand_loop sz ba1"
    using True by (simp add: expand_capacity_def root_def ba1_def deref_def)
  moreover obtain ba' where "expand_loop sz ba1 = (Inr (), ba')" "grown ba1 ba'"
    "write_pos ba' + sz < capacity ba'"
    using expand_loop_spec [OF wf1 ne] by blast
  moreover have "grown ba ba'"
    using \<open>grown ba1 ba'\<close> True by (auto simp: grown_def ba1_def)
  ultimately show ?thesis by auto
qed

subsection \<open>Writing\<close>

lemma write_step_spec:
  assumes ba_wf: "ba_wf ba" and ne: "blocks ba \<noteq> []" and n: "0 < n" "length chunk = n"
    and fits: "n \<le> block_size ba - write_pos ba mod block_size ba"
    and room: "write_pos ba + n < capacity ba"
  defines "ba' \<equiv> write_step n chunk (blocks ba ! (write_pos ba div block_size ba))
                   (the (write_cur ba)) ba"
  shows "ba_wf ba'" and "blocks ba' \<noteq> []" and "write_pos ba' = write_pos ba + n"
    and "concat (blocks ba') = overlay (write_pos ba) chunk (concat (blocks ba))"
    and "capacity ba' = capacity ba" and "read_pos ba' = read_pos ba"
    and "block_size ba' = block_size ba"
proof -
  let ?b = "block_size ba" and ?i = "write_pos ba div block_size ba"
  have i: "?i < length (blocks ba)" using ba_wf ne by (rule write_block_exists)
  have cur: "write_cur ba = Some ?i" using ba_wf ne by (simp add: ba_wf_def)
  have b: "0 < ?b" using ba_wf by (simp add: wf_simps)
  have "(write_pos ba + n) div ?b < length (blocks ba)"
    using room ba_wf by (simp add: ba_wf_def less_mult_imp_div_less)
  then have nxt: "(write_pos ba + n) mod ?b = 0 \<Longrightarrow> Suc ?i < length (blocks ba)"
    using div_step [OF b n(1) fits] by simp
  have fits': "write_pos ba mod ?b + length chunk \<le> ?b" using fits n by linarith
  have len: "length (overlay (write_pos ba mod ?b) chunk (blocks ba ! ?i)) = ?b"
    using fits' uniform_nth [OF wf_uniform [OF ba_wf] i] by simp
  show "write_pos ba' = write_pos ba + n" "blocks ba' \<noteq> []" "capacity ba' = capacity ba"
    "read_pos ba' = read_pos ba" "block_size ba' = block_size ba"
    using ne by (simp_all add: ba'_def write_step_def Let_def)
  show "concat (blocks ba') = overlay (write_pos ba) chunk (concat (blocks ba))"
    using concat_update_overlay [OF wf_uniform [OF ba_wf] i fits'] cur
    by (simp add: ba'_def write_step_def Let_def)
  show "ba_wf ba'"
    using ba_wf ne cur room nxt uniform_update [OF wf_uniform [OF ba_wf] len] div_step [OF b n(1) fits]
    by (auto simp: ba_wf_def ba'_def write_step_def Let_def advance_def next_block_def)
qed

lemma write_step_contents:
  assumes "ba_wf ba" and "blocks ba \<noteq> []" and "0 < n" and "length chunk = n"
    and "n \<le> block_size ba - write_pos ba mod block_size ba" and "write_pos ba + n < capacity ba"
  defines "ba' \<equiv> write_step n chunk (blocks ba ! (write_pos ba div block_size ba))
                   (the (write_cur ba)) ba"
  shows "ba_wf ba'" and "blocks ba' \<noteq> []" and "write_pos ba' = write_pos ba + n"
    and "contents ba' = contents ba @ chunk" and "read_pos ba' = read_pos ba"
    and "block_size ba' = block_size ba"
proof -
  note st = write_step_spec [OF assms(1-6), folded ba'_def]
  show "ba_wf ba'" "blocks ba' \<noteq> []" "write_pos ba' = write_pos ba + n"
    "read_pos ba' = read_pos ba" "block_size ba' = block_size ba"
    by (fact st)+
  show "contents ba' = contents ba @ chunk"
    using assms(4,6) take_overlay [of "write_pos ba" chunk "concat (blocks ba)"]
    by (simp add: contents_def st length_mem [OF assms(1)])
qed

lemma write_loop_spec:
  "ba_wf ba \<Longrightarrow> blocks ba \<noteq> [] \<Longrightarrow> write_pos ba + (length src - i) < capacity ba \<Longrightarrow>
     \<exists>ba'. write_loop i src ba = (Inr (), ba') \<and> ba_wf ba' \<and> read_pos ba' = read_pos ba
       \<and> block_size ba' = block_size ba \<and> write_pos ba' = write_pos ba + (length src - i)
       \<and> concat (blocks ba') = overlay (write_pos ba) (drop i src) (concat (blocks ba))"
proof (induction i src ba rule: write_loop.induct)
  case (1 i src ba)
  show ?case
  proof (cases "i < length src")
    case False
    with "1.prems" show ?thesis by (simp add: write_loop.simps [of i src ba])
  next
    case True
    let ?n = "min (block_size ba - write_pos ba mod block_size ba) (length src - i)"
    let ?blk = "blocks ba ! (write_pos ba div block_size ba)"
    define ba1 where "ba1 = write_step ?n (take ?n (drop i src)) ?blk (the (write_cur ba)) ba"
    have np: "0 < ?n" using "1.prems"(1) True by (simp add: wf_simps)
    have len: "length (take ?n (drop i src)) = ?n" by simp
    note step = write_step_spec [OF "1.prems"(1,2) np len, folded ba1_def]
    have room: "write_pos ba + ?n < capacity ba" using "1.prems"(3) by simp
    note st = step [OF min.cobounded1 room]
    have deref: "deref ba (write_cur ba) = Some ?blk"
      using "1.prems"(1,2) by (rule deref_write_cur)
    have "write_pos ba1 + (length src - (i + ?n)) < capacity ba1"
      using "1.prems"(3) st(3,5) True by linarith
    then obtain ba' where ba': "write_loop (i + ?n) src ba1 = (Inr (), ba')" "ba_wf ba'"
      "read_pos ba' = read_pos ba1" "block_size ba' = block_size ba1"
      "write_pos ba' = write_pos ba1 + (length src - (i + ?n))"
      "concat (blocks ba') = overlay (write_pos ba1) (drop (i + ?n) src) (concat (blocks ba1))"
      using "1.IH" [OF True _ refl refl refl deref, folded ba1_def] "1.prems"(1) st(1,2) by (auto simp: wf_simps)
    have "drop i src = take ?n (drop i src) @ drop (i + ?n) src"
      by (metis add.commute append_take_drop_id drop_drop)
    moreover have "write_pos ba + ?n + length (drop (i + ?n) src) \<le> length (concat (blocks ba))"
      using "1.prems"(1,3) True by (simp add: length_mem)
    ultimately have "concat (blocks ba') = overlay (write_pos ba) (drop i src) (concat (blocks ba))"
      using overlay_overlay [of "write_pos ba" "take ?n (drop i src)" "drop (i + ?n) src"
        "concat (blocks ba)"] unfolding ba'(6) st(3,4) len by simp
    moreover have "write_loop i src ba = write_loop (i + ?n) src ba1"
      using True "1.prems"(1) deref by (simp add: wf_simps write_loop.simps [of i src ba] ba1_def Let_def)
    moreover have "write_pos ba' = write_pos ba + (length src - i)"
      using ba'(5) st(3) True by linarith
    ultimately show ?thesis using ba'(1-4) st(6,7) by auto
  qed
qed


text \<open>\<open>write\<close> appends its argument, whatever the block size and however many blocks it spans.\<close>

lemma write_spec:
  assumes "ba_wf ba"
  shows "\<exists>ba'. ByteArray_write d ba = (Inr (), ba') \<and> appended d ba ba'"
proof (cases "d = []")
  case True
  with assms show ?thesis by (simp add: wf_simps ByteArray_write_def)
next
  case False
  obtain ba1 where ex: "expand_capacity (length d) ba = (Inr (), ba1)" and g: "grown ba ba1"
    and room: "write_pos ba1 + length d < capacity ba1"
    using expand_capacity_spec [OF assms] by blast
  from g have wf1: "ba_wf ba1" and ne: "blocks ba1 \<noteq> []" by (auto simp: grown_def)
  then obtain ba' where wl: "write_loop 0 d ba1 = (Inr (), ba')" and ba_wf': "ba_wf ba'"
    and rp: "read_pos ba' = read_pos ba1" and bs: "block_size ba' = block_size ba1"
    and wp: "write_pos ba' = write_pos ba1 + length d"
    and mem: "concat (blocks ba') = overlay (write_pos ba1) d (concat (blocks ba1))"
    using write_loop_spec [of ba1 d 0] room by auto
  have "contents ba' = contents ba1 @ d"
    using take_overlay [of "write_pos ba1" d "concat (blocks ba1)"] room wf1
    by (simp add: contents_def wp mem length_mem)
  then have "appended d ba ba'"
    using ba_wf' rp bs g grown_contents [OF assms g] by (simp add: appended_def grown_def)
  then show ?thesis using False ex wl by (simp add: ByteArray_write_def)
qed

subsection \<open>Reading and seeking\<close>

lemma seek_simps [simp]:
  "read_pos (seek p ba) = p" "write_pos (seek p ba) = write_pos ba"
  "blocks (seek p ba) = blocks ba" "block_size (seek p ba) = block_size ba"
  "capacity (seek p ba) = capacity ba" "write_cur (seek p ba) = write_cur ba"
  "contents (seek p ba) = contents ba" "junk (seek p ba) = junk ba"
  "seek q (seek p ba) = seek q ba"
  by (simp_all add: seek_def contents_def)

lemma seek_same [wf_simps]: "ba_wf ba \<Longrightarrow> seek (read_pos ba) ba = ba"
  by (auto simp: seek_def ba_wf_def)

lemma wf_seek [wf_intros]: "ba_wf ba \<Longrightarrow> p \<le> write_pos ba \<Longrightarrow> ba_wf (seek p ba)"
  by (auto simp: ba_wf_def seek_def)

lemma unread_seek [simp]: "unread (seek p ba) = drop p (contents ba)"
  by (simp add: unread_def)

lemma read_step_seek:
  assumes ba_wf: "ba_wf ba" and ne: "blocks ba \<noteq> []" and n: "0 < n"
    and fits: "n \<le> block_size ba - read_pos ba mod block_size ba"
    and room: "read_pos ba + n \<le> write_pos ba"
  shows "read_step n ba = seek (read_pos ba + n) ba"
proof -
  let ?b = "block_size ba" and ?i = "read_pos ba div block_size ba"
  have b: "0 < ?b" using ba_wf by (simp add: wf_simps)
  have cur: "read_cur ba = Some ?i" using ba_wf ne by (simp add: ba_wf_def)
  have "read_pos ba + n < length (blocks ba) * ?b" using room ba_wf ne by (simp add: ba_wf_def)
  then have "(read_pos ba + n) div ?b < length (blocks ba)" by (rule less_mult_imp_div_less)
  then show ?thesis
    using div_step [OF b n fits] cur ne
    by (auto simp: read_step_def seek_def Let_def advance_def next_block_def split: if_splits)
qed

lemma read_chunk:
  assumes ba_wf: "ba_wf ba" and ne: "blocks ba \<noteq> []"
    and fits: "n \<le> block_size ba - read_pos ba mod block_size ba"
    and room: "read_pos ba + n \<le> write_pos ba"
  shows "take n (drop (read_pos ba mod block_size ba) (blocks ba ! (read_pos ba div block_size ba)))
         = take n (unread ba)"
proof -
  have "read_pos ba mod block_size ba + n \<le> block_size ba"
    using fits wf_pos [OF ba_wf] mod_less_divisor [OF wf_pos [OF ba_wf], of "read_pos ba"] by linarith
  from take_drop_block [OF wf_uniform [OF ba_wf] read_block_exists [OF ba_wf ne] this]
  show ?thesis using room by (simp add: unread_def contents_def drop_take min_def)
qed

lemma read_loop_spec:
  "ba_wf ba \<Longrightarrow> todo \<le> length (unread ba) \<Longrightarrow>
     read_loop todo buf ba = (Inr (buf @ take todo (unread ba)), seek (read_pos ba + todo) ba)"
proof (induction todo buf ba rule: read_loop.induct)
  case (1 todo buf ba)
  show ?case
  proof (cases "0 < todo")
    case False
    with "1.prems" show ?thesis by (simp add: wf_simps read_loop.simps [of 0 buf ba])
  next
    case True
    define n where "n = min (block_size ba - read_pos ba mod block_size ba) todo"
    have ne: "blocks ba \<noteq> []" using "1.prems" True by (auto simp: ba_wf_def unread_def contents_def)
    have n: "0 < n" "n \<le> todo" "n \<le> block_size ba - read_pos ba mod block_size ba"
      using True "1.prems"(1) by (auto simp: wf_simps n_def)
    have room: "read_pos ba + n \<le> write_pos ba" using "1.prems" n(2) wf_read_le [of ba] by (simp add: wf_simps)
    note step = read_step_seek [OF "1.prems"(1) ne n(1,3) room]
    note chunk = read_chunk [OF "1.prems"(1) ne n(3) room]
    have "read_loop todo buf ba = read_loop (todo - n) (buf @ take n (unread ba)) (seek (read_pos ba + n) ba)"
      using True "1.prems"(1) deref_read_cur [OF "1.prems"(1) ne] step chunk
      by (simp add: wf_simps read_loop.simps [of todo buf ba] Let_def flip: n_def)
    also have "\<dots> = (Inr (buf @ take n (unread ba) @ take (todo - n) (drop (read_pos ba + n) (contents ba))),
        seek (read_pos ba + todo) ba)"
      using "1.IH" [OF True _ refl refl n_def deref_read_cur [OF "1.prems"(1) ne]] "1.prems" step chunk n
        wf_seek [OF "1.prems"(1) room] by (simp add: wf_simps)
    also have "take n (unread ba) @ take (todo - n) (drop (read_pos ba + n) (contents ba)) = take todo (unread ba)"
      using n(2) by (simp add: unread_def flip: take_add) (metis add.commute drop_drop le_add_diff_inverse take_add)
    finally show ?thesis .
  qed
qed


lemma read_eq [outcome_simps]:
  assumes "ba_wf ba"
  shows "ByteArray_read n ba =
    (Inr (take n (unread ba)), seek (read_pos ba + min n (length (unread ba))) ba)"
proof -
  have "ByteArray_read n ba = (Inr (take (min n (length (unread ba))) (unread ba)),
      seek (read_pos ba + min n (length (unread ba))) ba)"
    using assms read_loop_spec [OF assms, of "min n (length (unread ba))" "[]"]
    by (auto simp: ByteArray_read_def Let_def wf_simps)
  then show ?thesis by simp
qed

lemma walk_spec:
  "i + n < length (blocks ba) \<Longrightarrow> walk ba (Some i) n = Inr (Some (i + n))"
proof (induction n arbitrary: i)
  case 0
  then show ?case by simp
next
  case (Suc n)
  then have "walk ba (Some (Suc i)) n = Inr (Some (Suc i + n))" by (intro Suc.IH) simp
  with Suc.prems show ?case by (simp add: deref_def advance_def next_block_def)
qed

lemma set_read_position_eq [outcome_simps]:
  assumes wf: "ba_wf ba" and p: "p \<le> write_pos ba"
  shows "set_read_position p ba = (Inr (), seek p ba)"
proof (cases "blocks ba = []")
  case True
  with assms show ?thesis
    by (auto simp: set_read_position_def seek_def root_def ba_wf_def)
next
  case False
  have "p < length (blocks ba) * block_size ba" using assms False by (auto simp: ba_wf_def)
  then have "p div block_size ba < length (blocks ba)" by (rule less_mult_imp_div_less)
  then have "walk (ba\<lparr>read_pos := p, read_cur := Some 0\<rparr>) (Some 0) (p div block_size ba)
      = Inr (Some (p div block_size ba))"
    using walk_spec [of 0 _ "ba\<lparr>read_pos := p, read_cur := Some 0\<rparr>"] by simp
  with False p wf_nz [OF wf] show ?thesis
    by (simp add: set_read_position_def seek_def root_def)
qed

lemma set_read_position_error [outcome_simps]:
  "write_pos ba < p \<Longrightarrow> set_read_position p ba = (Inl Out_of_range, ba)"
  by (simp add: set_read_position_def)

lemma set_write_position_inside:
  assumes wf: "ba_wf ba" and p: "p < capacity ba"
  shows "set_write_position p ba =
    (Inr (), ba\<lparr>write_pos := p, write_cur := Some (p div block_size ba)\<rparr>)"
proof -
  have ne: "blocks ba \<noteq> []" using assms by (auto simp: ba_wf_def)
  have "p div block_size ba < length (blocks ba)"
    using p wf by (simp add: ba_wf_def less_mult_imp_div_less)
  then have "walk (ba\<lparr>write_pos := p, write_cur := Some 0\<rparr>) (Some 0) (p div block_size ba)
      = Inr (Some (p div block_size ba))"
    using walk_spec [of 0 _ "ba\<lparr>write_pos := p, write_cur := Some 0\<rparr>"] by simp
  with ne p wf_nz [OF wf] show ?thesis
    by (simp add: set_write_position_def root_def)
qed

lemma wf_set_write_position:
  "ba_wf ba \<Longrightarrow> p < capacity ba \<Longrightarrow> read_pos ba \<le> p \<Longrightarrow>
     ba_wf (ba\<lparr>write_pos := p, write_cur := Some (p div block_size ba)\<rparr>)"
  by (auto simp: ba_wf_def)

subsection \<open>Scatter/gather views\<close>

text \<open>
  The \<open>iovec\<close>s cover the stretch of memory from \<open>pos\<close> on, in order, as long as that stretch ends
  inside the blocks.
\<close>

lemma iovec_loop_spec:
  "0 < block_size ba \<Longrightarrow> uniform (block_size ba) (blocks ba) \<Longrightarrow>
   pos + todo < length (blocks ba) * block_size ba \<Longrightarrow> cur = Some (pos div block_size ba) \<Longrightarrow>
     \<exists>vs. iovec_loop ba todo pos cur buffers = Inr (buffers @ vs)
       \<and> concat (map (iovec_bytes ba) vs) = take todo (drop pos (concat (blocks ba)))
       \<and> sum_list (map iov_len vs) = todo"
proof (induction ba todo pos cur buffers rule: iovec_loop.induct)
  case (1 ba todo pos cur buffers)
  show ?case
  proof (cases "0 < todo")
    case False
    then show ?thesis by (simp add: iovec_loop.simps [of ba 0])
  next
    case True
    define n where "n = min (block_size ba - pos mod block_size ba) todo"
    let ?i = "pos div block_size ba"
    let ?cur = "if (pos + n) mod block_size ba = 0 then advance ba cur else cur"
    let ?v = "\<lparr>iov_block = ?i, iov_off = pos mod block_size ba, iov_len = n\<rparr>"
    have n: "0 < n" "n \<le> todo" "n \<le> block_size ba - pos mod block_size ba"
      using True "1.prems"(1) by (auto simp: n_def)
    have i: "?i < length (blocks ba)" and i': "(pos + n) div block_size ba < length (blocks ba)"
      using "1.prems"(3) n(2) by (auto intro!: less_mult_imp_div_less)
    have cur: "?cur = Some ((pos + n) div block_size ba)"
      using "1.prems"(1,4) i' div_step [OF "1.prems"(1) n(1,3)]
      by (auto simp: advance_def next_block_def split: if_splits)
    have the_cur: "the cur = ?i" using "1.prems"(4) by simp
    have deref: "deref ba cur = Some (blocks ba ! ?i)" using "1.prems"(4) i by (simp add: deref_def)
    have "pos mod block_size ba + n \<le> block_size ba"
      using n(3) mod_less_divisor [OF "1.prems"(1), of pos] by linarith
    from take_drop_block [OF "1.prems"(2) i this]
    have v: "iovec_bytes ba ?v = take n (drop pos (concat (blocks ba)))" by (simp add: iovec_bytes_def)
    obtain vs where vs: "iovec_loop ba (todo - n) (pos + n) ?cur (buffers @ [?v]) = Inr (buffers @ [?v] @ vs)"
      "concat (map (iovec_bytes ba) vs) = take (todo - n) (drop (pos + n) (concat (blocks ba)))"
      "sum_list (map iov_len vs) = todo - n"
      using "1.IH" [OF True _ refl refl n_def deref] "1.prems" cur n(2) by auto
    have "iovec_loop ba todo pos cur buffers = Inr (buffers @ ?v # vs)"
      using True "1.prems"(1) deref vs(1) the_cur
      by (simp add: iovec_loop.simps [of ba todo pos cur buffers] Let_def flip: n_def)
    moreover have "take n (drop pos (concat (blocks ba))) @ take (todo - n) (drop (pos + n) (concat (blocks ba)))
        = take todo (drop pos (concat (blocks ba)))"
      using n(2) take_add [of n "todo - n" "drop pos (concat (blocks ba))"] by (simp add: add.commute)
    ultimately show ?thesis using v vs(2,3) n(2) by (intro exI [of _ "?v # vs"]) simp
  qed
qed

lemma get_read_buffers_spec:
  assumes wf: "ba_wf ba"
  shows "\<exists>vs. get_read_buffers buffers len ba = Inr (buffers @ vs)
    \<and> concat (map (iovec_bytes ba) vs) = take len (unread ba)
    \<and> sum_list (map iov_len vs) = min len (length (unread ba))"
proof (cases "min len (length (unread ba)) = 0")
  case True
  then have "len = 0 \<or> unread ba = []" by (auto simp: min_def split: if_splits)
  then show ?thesis by (auto simp: get_read_buffers_def unread_size [OF wf] Let_def)
next
  case False
  let ?n = "min len (length (unread ba))"
  have ne: "blocks ba \<noteq> []" using wf False by (auto simp: unread_def contents_def)
  have "read_pos ba + ?n < length (blocks ba) * block_size ba"
    using wf ne length_unread [OF wf] wf_read_le [OF wf] by (auto simp: ba_wf_def)
  with iovec_loop_spec [of ba "read_pos ba" ?n "read_cur ba" buffers] wf ne
  obtain vs where "iovec_loop ba ?n (read_pos ba) (read_cur ba) buffers = Inr (buffers @ vs)"
    "concat (map (iovec_bytes ba) vs) = take ?n (drop (read_pos ba) (concat (blocks ba)))"
    "sum_list (map iov_len vs) = ?n"
    by (auto simp: ba_wf_def)
  moreover have "take ?n (drop (read_pos ba) (concat (blocks ba))) = take len (unread ba)"
  proof -
    have "unread ba = take (write_pos ba - read_pos ba) (drop (read_pos ba) (concat (blocks ba)))"
      by (simp add: unread_def contents_def drop_take)
    then show ?thesis unfolding length_unread [OF wf] by simp
  qed
  ultimately show ?thesis using False by (simp add: get_read_buffers_def unread_size [OF wf] Let_def)
qed

lemma get_write_buffers_spec:
  assumes wf: "ba_wf ba" and len: "0 < len"
  shows "\<exists>vs ba'. get_write_buffers buffers len ba = (Inr (buffers @ vs), ba') \<and> grown ba ba'
    \<and> concat (map (iovec_bytes ba') vs) = take len (drop (write_pos ba') (concat (blocks ba')))
    \<and> sum_list (map iov_len vs) = len \<and> write_pos ba' + len < capacity ba'"
proof -
  obtain ba' where ex: "expand_capacity len ba = (Inr (), ba')" and g: "grown ba ba'"
    and room: "write_pos ba' + len < capacity ba'"
    using expand_capacity_spec [OF wf] by blast
  from g have wf': "ba_wf ba'" and "blocks ba' \<noteq> []" by (simp_all add: grown_def)
  then have cur: "write_cur ba' = Some (write_pos ba' div block_size ba')"
    and cap: "capacity ba' = length (blocks ba') * block_size ba'" by (simp_all add: ba_wf_def)
  obtain vs where "iovec_loop ba' len (write_pos ba') (write_cur ba') buffers = Inr (buffers @ vs)"
    "concat (map (iovec_bytes ba') vs) = take len (drop (write_pos ba') (concat (blocks ba')))"
    "sum_list (map iov_len vs) = len"
    using iovec_loop_spec [OF wf_pos [OF wf'] wf_uniform [OF wf'] room [unfolded cap] cur] by blast
  then show ?thesis using ex g room len by (auto simp: get_write_buffers_def)
qed


subsection \<open>Hex dump and files\<close>

lemma to_hex_string_eq [outcome_simps]:
  "ba_wf ba \<Longrightarrow> to_hex_string ba = (Inr (concat (map hex_byte (unread ba))), ba)"
  using wf_read_le [of ba]
  by (simp add: to_hex_string_def read_eq set_read_position_eq wf_seek wf_simps)

lemma write_file_loop_spec:
  "ba_wf ba \<Longrightarrow> todo \<le> length (unread ba) \<Longrightarrow>
     \<exists>q \<le> write_pos ba. write_file_loop todo room out ba =
       (Inr (todo \<le> room), out @ take (min todo room) (unread ba), seek q ba)"
proof (induction todo room out ba rule: write_file_loop.induct)
  case (1 todo room out ba)
  show ?case
  proof (cases "0 < todo")
    case False
    with "1.prems" show ?thesis
      by (intro exI [of _ "read_pos ba"]) (simp add: write_file_loop.simps [of 0] wf_simps wf_read_le)
  next
    case True
    define n where "n = min (block_size ba - read_pos ba mod block_size ba) todo"
    have ne: "blocks ba \<noteq> []" using "1.prems" True by (auto simp: unread_def contents_def)
    have n: "0 < n" "n \<le> todo" "n \<le> block_size ba - read_pos ba mod block_size ba"
      using True wf_pos [OF "1.prems"(1)] by (auto simp: n_def)
    have room: "read_pos ba + n \<le> write_pos ba"
      using "1.prems" n(2) wf_read_le [of ba] by (simp add: wf_simps)
    note step = read_step_seek [OF "1.prems"(1) ne n(1,3) room]
    have chunk: "take m (drop (read_pos ba mod block_size ba)
        (blocks ba ! (read_pos ba div block_size ba))) = take m (unread ba)" if "m \<le> n" for m
      using read_chunk [OF "1.prems"(1) ne, of m] n(3) room that by simp
    note unfold = write_file_loop.simps [of todo room out ba, folded n_def]
      deref_read_cur [OF "1.prems"(1) ne] wf_nz [OF "1.prems"(1)] step
    show ?thesis
    proof (cases "n \<le> room")
      case False
      then have mins: "min n room = room" "min todo room = room" "room \<noteq> n" "\<not> todo \<le> room"
        using n(2) by auto
      have "write_file_loop todo room out ba = (Inr False, out @ take room (unread ba), ba)"
        using True False chunk [of room] by (simp add: unfold Let_def mins flip: n_def)
      then show ?thesis using "1.prems"(1) wf_read_le [of ba] mins
        by (intro exI [of _ "read_pos ba"]) (simp add: wf_simps)
    next
      case nr: True
      then have mins: "min n room = n" by simp
      have eq: "write_file_loop todo room out ba =
          write_file_loop (todo - n) (room - n) (out @ take n (unread ba)) (seek (read_pos ba + n) ba)"
        using True chunk [of n] by (simp add: unfold Let_def mins flip: n_def)
      have "todo - n \<le> write_pos ba - (read_pos ba + n)"
        using "1.prems" n(2) by (simp add: wf_simps)
      then obtain q where q: "q \<le> write_pos ba" "write_file_loop (todo - n) (room - n)
          (out @ take n (unread ba)) (seek (read_pos ba + n) ba) =
          (Inr (todo - n \<le> room - n), (out @ take n (unread ba)) @
             take (min (todo - n) (room - n)) (drop (read_pos ba + n) (contents ba)), seek q ba)"
        using "1.IH" [OF True _ refl refl n_def deref_read_cur [OF "1.prems"(1) ne] refl refl]
          "1.prems" step chunk [of n] n mins wf_seek [OF "1.prems"(1) room] by (auto simp: wf_simps)
      have "take n (unread ba) @ take (min (todo - n) (room - n)) (drop (read_pos ba + n) (contents ba))
          = take (min todo room) (unread ba)"
        using n(2) nr take_add [of n "min (todo - n) (room - n)" "unread ba"]
        by (simp add: unread_def add.commute min_def split: if_splits)
      moreover have "todo - n \<le> room - n \<longleftrightarrow> todo \<le> room" using nr n(2) by linarith
      ultimately show ?thesis using q eq by (intro exI [of _ q]) simp
    qed
  qed
qed

lemma write_to_file_eq [outcome_simps]:
  assumes "ba_wf ba"
  shows "write_to_file True room ba =
    ((if write_pos ba \<le> room then Inr () else Inl Logic_error), take room (contents ba), ba)"
proof -
  have wf0: "ba_wf (seek 0 ba)" using assms by (rule wf_seek) simp
  obtain q where q: "q \<le> write_pos ba" "write_file_loop (write_pos ba) room [] (seek 0 ba) =
      (Inr (write_pos ba \<le> room), take (min (write_pos ba) room) (contents ba), seek q ba)"
    using write_file_loop_spec [OF wf0, of "write_pos ba" room "[]"] assms
    by (auto simp: length_contents)
  have "take (min (write_pos ba) room) (contents ba) = take room (contents ba)"
    using take_min_length [of room "contents ba"] length_contents [OF assms] by (simp add: min.commute)
  then show ?thesis
    using q assms wf_read_le [OF assms] wf_seek [OF assms q(1)]
    by (simp add: write_to_file_def set_read_position_eq wf_simps)
qed


text \<open>One round of the reading loop is one step of the writing loop, at the start of a block.\<close>

lemma read_file_round:
  assumes "ba_wf ba" and "blocks ba \<noteq> []" and "write_pos ba mod block_size ba = 0"
    and "0 < n" and "n \<le> block_size ba" and "length chunk = n"
  defines "blk \<equiv> blocks ba ! (write_pos ba div block_size ba)"
    and "ba2 \<equiv> ba\<lparr>blocks := (blocks ba)[the (write_cur ba) :=
          overlay 0 chunk (blocks ba ! (write_pos ba div block_size ba))], write_pos := write_pos ba + n\<rparr>"
  shows "write_step n chunk blk (the (write_cur ba)) ba =
    (if n = block_size ba then ba2\<lparr>write_cur := advance ba2 (write_cur ba2)\<rparr> else ba2)"
proof -
  have "(write_pos ba + n) mod block_size ba = 0 \<longleftrightarrow> n = block_size ba"
    using assms(3-5) by (metis add.commute add.right_neutral le_neq_implies_less mod_add_left_eq
        mod_less mod_self neq0_conv add_0)
  then show ?thesis using assms(3) by (simp add: write_step_def blk_def ba2_def Let_def)
qed

lemma read_file_loop_spec:
  "ba_wf ba \<Longrightarrow> blocks ba \<noteq> [] \<Longrightarrow> write_pos ba mod block_size ba = 0 \<Longrightarrow>
     \<exists>ba'. read_file_loop rest ba = (Inr (), ba') \<and> appended rest ba ba'"
proof (induction rest ba rule: read_file_loop.induct)
  case (1 rest ba)
  obtain ba1 where ex: "expand_capacity (block_size ba) ba = (Inr (), ba1)" and g: "grown ba ba1"
    and room: "write_pos ba1 + block_size ba < capacity ba1"
    using expand_capacity_spec [OF "1.prems"(1)] by blast
  from g have wf1: "ba_wf ba1" and ne1: "blocks ba1 \<noteq> []" and wp: "write_pos ba1 = write_pos ba"
    and bs: "block_size ba1 = block_size ba" by (auto simp: grown_def)
  define n where "n = min (block_size ba) (length rest)"
  let ?blk = "blocks ba1 ! (write_pos ba1 div block_size ba1)"
  define ba2 where "ba2 = ba1\<lparr>blocks := (blocks ba1)[the (write_cur ba1) := overlay 0 (take n rest) ?blk],
    write_pos := write_pos ba1 + n\<rparr>"
  define ba3 where "ba3 = (if n = block_size ba then ba2\<lparr>write_cur := advance ba2 (write_cur ba2)\<rparr> else ba2)"
  have deref: "deref ba1 (write_cur ba1) = Some ?blk" using wf1 ne1 by (rule deref_write_cur)
  have eq: "read_file_loop rest ba =
      (if n = block_size ba then read_file_loop (drop n rest) ba3 else (Inr (), ba3))"
    using wf_nz [OF "1.prems"(1)] ex deref
    by (simp add: read_file_loop.simps [of rest ba] Let_def ba3_def ba2_def flip: n_def)
  show ?case
  proof (cases "n = 0")
    case True
    with "1.prems"(1) have "rest = []" by (simp add: n_def min_def wf_nz split: if_splits)
    moreover have "the (write_cur ba1) = write_pos ba1 div block_size ba1"
      using wf1 ne1 by (simp add: ba_wf_def)
    then have "ba3 = ba1" using True wf_nz [OF "1.prems"(1)] by (simp add: ba3_def ba2_def)
    ultimately show ?thesis
      using eq True wf_nz [OF "1.prems"(1)] grown_appended [OF "1.prems"(1) g] by simp
  next
    case False
    have ws: "ba3 = write_step n (take n rest) ?blk (the (write_cur ba1)) ba1"
      using read_file_round [OF wf1 ne1, of n "take n rest"] "1.prems"(3) False wp bs
      by (simp add: n_def ba2_def ba3_def)
    have st: "ba_wf ba3" "blocks ba3 \<noteq> []" "write_pos ba3 = write_pos ba1 + n"
      "contents ba3 = contents ba1 @ take n rest" "read_pos ba3 = read_pos ba1" "block_size ba3 = block_size ba1"
      unfolding ws
      using write_step_contents [OF wf1 ne1, of n "take n rest"] "1.prems"(3) False room wp bs
      by (simp_all add: n_def)
    have app: "appended (take n rest) ba ba3"
      using st g grown_contents [OF "1.prems"(1) g] by (simp add: appended_def grown_def)
    show ?thesis
    proof (cases "n = block_size ba")
      case False
      then have "take n rest = rest" by (simp add: n_def min_def split: if_splits)
      with eq False app show ?thesis by auto
    next
      case True
      then have m: "write_pos ba3 mod block_size ba3 = 0" using st(3,6) "1.prems"(3) wp bs by simp
      have "ba3 = ba2\<lparr>write_cur := advance ba2 (write_cur ba2)\<rparr>" using True by (simp add: ba3_def)
      with "1.IH" [OF wf_nz [OF "1.prems"(1)] ex [symmetric] refl deref n_def ba2_def True] st(1,2) m
      obtain ba' where "read_file_loop (drop n rest) ba3 = (Inr (), ba')" "appended (drop n rest) ba3 ba'"
        by auto
      with eq True appended_trans [OF app, of "drop n rest" ba'] show ?thesis by simp
    qed
  qed
qed

lemma read_from_file_spec:
  assumes "ba_wf ba"
  shows "\<exists>ba'. read_from_file (Some content) ba = (Inr (), ba') \<and> ba_wf ba'
    \<and> contents ba' = content \<and> read_pos ba' = 0 \<and> block_size ba' = block_size ba"
proof -
  define ba1 where "ba1 = (ByteArray_clear ba)\<lparr>blocks := [MemoryBlock (ByteArray_clear ba)],
    read_cur := Some 0, write_cur := Some 0, capacity := block_size (ByteArray_clear ba)\<rparr>"
  have wf1: "ba_wf ba1" and z: "write_pos ba1 = 0" "read_pos ba1 = 0" "blocks ba1 \<noteq> []"
    "block_size ba1 = block_size ba"
    using assms by (auto simp: ba1_def ba_wf_def ByteArray_clear_def MemoryBlock_def)
  then obtain ba' where rd: "read_file_loop content ba1 = (Inr (), ba')" and app: "appended content ba1 ba'"
    using read_file_loop_spec [of ba1 content] by auto
  have "contents ba1 = []" using z by (simp add: contents_def)
  then have ba': "ba_wf ba'" "contents ba' = content" "read_pos ba' = 0" "block_size ba' = block_size ba"
    using app z by (auto simp: appended_def)
  then have "ba'\<lparr>read_pos := 0, read_cur := root ba'\<rparr> = seek 0 ba'"
    by (simp add: seek_def root_def)
  then show ?thesis
    using rd ba' wf_seek [OF ba'(1), of 0] by (simp add: read_from_file_def Let_def flip: ba1_def)
qed

text \<open>
  One past the last block: the walk of \<open>set_write_position\<close> ends in a null pointer when the
  position is exactly the capacity, since \<open>expand_capacity\<close> is only called beyond it.
\<close>

lemma walk_past_end:
  "i + n = length (blocks ba) \<Longrightarrow> 0 < n \<Longrightarrow> walk ba (Some i) n = Inr None"
proof (induction n arbitrary: i)
  case 0
  then show ?case by simp
next
  case (Suc n)
  then show ?case
    by (cases n) (auto simp: deref_def advance_def next_block_def)
qed

lemma set_write_position_at_capacity:
  assumes "ba_wf ba" and "blocks ba \<noteq> []"
  shows "set_write_position (capacity ba) ba = (Inr (), ba\<lparr>write_pos := capacity ba, write_cur := None\<rparr>)"
proof -
  have "capacity ba div block_size ba = length (blocks ba)"
    using assms wf_nz [OF assms(1)] by (simp add: ba_wf_def)
  then have "walk (ba\<lparr>write_pos := capacity ba, write_cur := Some 0\<rparr>) (Some 0)
      (capacity ba div block_size ba) = Inr None"
    using assms(2) by (intro walk_past_end) simp_all
  with assms(2) wf_nz [OF assms(1)] show ?thesis
    by (simp add: set_write_position_def root_def)
qed

section \<open>Properties\<close>

text \<open>
  C1. The block list implements a byte queue. On a well-formed buffer \<open>write\<close> never fails and
  appends exactly its argument to the contents, whatever the block size and however many
  blocks it spans; \<open>read\<close> never fails, returns the first \<open>n\<close> unread bytes (all of them when there
  are fewer) and consumes exactly those; both keep the buffer well formed and leave the bytes
  already written in place.
\<close>

theorem bytearray_refines_queue:
  assumes "ba_wf ba"
  shows "(\<exists>ba'. ByteArray_write d ba = (Inr (), ba') \<and> ba_wf ba' \<and> contents ba' = contents ba @ d
        \<and> unread ba' = unread ba @ d)
    \<and> (\<exists>ba'. ByteArray_read n ba = (Inr (take n (unread ba)), ba') \<and> ba_wf ba'
        \<and> contents ba' = contents ba \<and> unread ba' = drop n (unread ba))"
proof
  obtain ba' where "ByteArray_write d ba = (Inr (), ba')" and a: "appended d ba ba'"
    using write_spec [OF assms] by blast
  then show "\<exists>ba'. ByteArray_write d ba = (Inr (), ba') \<and> ba_wf ba' \<and> contents ba' = contents ba @ d
      \<and> unread ba' = unread ba @ d"
    using appended_unread [OF assms a] by (auto simp: appended_def)
  let ?p = "read_pos ba + min n (length (unread ba))"
  have "?p \<le> write_pos ba" using length_unread [OF assms] wf_read_le [OF assms] by simp
  then have "ba_wf (seek ?p ba)" by (rule wf_seek [OF assms])
  moreover have "unread (seek ?p ba) = drop n (unread ba)"
    by (simp add: unread_def min_def add.commute)
  ultimately show "\<exists>ba'. ByteArray_read n ba = (Inr (take n (unread ba)), ba') \<and> ba_wf ba'
      \<and> contents ba' = contents ba \<and> unread ba' = drop n (unread ba)"
    using read_eq [OF assms, of n] by (metis seek_simps(7))
qed

theorem bytearray_refines_queue_witness:
  "\<exists>ba'. ByteArray_write [1, 2, 3, 4, 5] (ByteArray 2 (\<lambda>_ _. 0)) = (Inr (), ba') \<and> ba_wf ba'
     \<and> contents ba' = [1, 2, 3, 4, 5] \<and> unread ba' = [1, 2, 3, 4, 5]"
  using bytearray_refines_queue [OF wf_new, of 2 "[1, 2, 3, 4, 5]" "\<lambda>_ _. 0" 0] by simp

text \<open>
  Seeking: \<open>set_read_position\<close> moves the reader to any position up to the write position and
  throws \<open>out_of_range\<close> beyond it without changing the buffer; \<open>set_write_position\<close> inside the
  allocated blocks and not before the reader keeps the buffer well formed and truncates or
  extends the contents to that position.
\<close>

lemma seek_positions:
  assumes "ba_wf ba"
  shows "(p \<le> write_pos ba \<longrightarrow> (\<exists>ba'. set_read_position p ba = (Inr (), ba') \<and> ba_wf ba'
        \<and> contents ba' = contents ba \<and> unread ba' = drop p (contents ba)))
    \<and> (write_pos ba < p \<longrightarrow> set_read_position p ba = (Inl Out_of_range, ba))
    \<and> (read_pos ba \<le> q \<and> q < capacity ba \<longrightarrow> (\<exists>ba'. set_write_position q ba = (Inr (), ba')
        \<and> ba_wf ba' \<and> get_size ba' = q \<and> take (write_pos ba) (contents ba') = take q (contents ba)))"
  using assms wf_seek [OF assms] wf_set_write_position [OF assms, of q]
  by (auto simp: set_read_position_eq set_read_position_error set_write_position_inside
      get_size_def contents_def min.commute)

lemma seek_positions_example:
  "set_read_position 7 (ByteArray 8 (\<lambda>_ _. 0)) = (Inl Out_of_range, ByteArray 8 (\<lambda>_ _. 0))"
  using seek_positions [OF wf_new, of 8 7 "\<lambda>_ _. 0" 0] by (simp add: ByteArray_def)

text \<open>
  Setting the write position exactly to the capacity succeeds but leaves the write cursor
  null, and every later non-empty \<open>write\<close> then dereferences the null cursor.
\<close>

theorem write_position_at_capacity_breaks:
  assumes "ba_wf ba" and "blocks ba \<noteq> []" and "d \<noteq> []"
  shows "\<exists>ba'. set_write_position (capacity ba) ba = (Inr (), ba')
    \<and> fst (ByteArray_write d ba') = Inl Null_deref"
  using assms by (auto simp: set_write_position_at_capacity ByteArray_write_def expand_capacity_def
      deref_def root_def)

theorem write_position_at_capacity_breaks_witness:
  "\<exists>ba ba'. ByteArray_write [9] (ByteArray 4 (\<lambda>_ _. 0)) = (Inr (), ba)
     \<and> set_write_position (capacity ba) ba = (Inr (), ba')
     \<and> fst (ByteArray_write [1] ba') = Inl Null_deref"
proof -
  obtain ba where ba: "ByteArray_write [9] (ByteArray 4 (\<lambda>_ _. 0)) = (Inr (), ba)"
    and a: "appended [9] (ByteArray 4 (\<lambda>_ _. 0)) ba"
    using write_spec [OF wf_new, of 4 "[9]"] by auto
  then have "ba_wf ba" and "blocks ba \<noteq> []" by (auto simp: appended_def contents_def)
  with write_position_at_capacity_breaks [of ba "[1]"] ba show ?thesis by auto
qed

text \<open>
  C8. Scatter/gather: the buffers that \<open>get_read_buffers\<close> appends for a gathering send describe,
  in order, exactly the first \<open>len\<close> unread bytes; those that \<open>get_write_buffers\<close> appends for a
  scattering receive cover exactly \<open>len\<close> bytes of allocated memory behind the write position,
  and neither the contents nor the reader changes.
\<close>

theorem gather_scatter:
  assumes "ba_wf ba" and "0 < m"
  shows "(\<exists>vs. get_read_buffers buffers len ba = Inr (buffers @ vs)
        \<and> concat (map (iovec_bytes ba) vs) = take len (unread ba))
    \<and> (\<exists>vs ba'. get_write_buffers buffers m ba = (Inr (buffers @ vs), ba') \<and> ba_wf ba'
        \<and> contents ba' = contents ba \<and> unread ba' = unread ba
        \<and> sum_list (map iov_len vs) = m \<and> write_pos ba' + m < capacity ba'
        \<and> concat (map (iovec_bytes ba') vs) = take m (drop (write_pos ba') (concat (blocks ba'))))"
proof
  show "\<exists>vs. get_read_buffers buffers len ba = Inr (buffers @ vs)
      \<and> concat (map (iovec_bytes ba) vs) = take len (unread ba)"
    using get_read_buffers_spec [OF assms(1)] by blast
  obtain vs ba' where *: "get_write_buffers buffers m ba = (Inr (buffers @ vs), ba')" "grown ba ba'"
    "concat (map (iovec_bytes ba') vs) = take m (drop (write_pos ba') (concat (blocks ba')))"
    "sum_list (map iov_len vs) = m" "write_pos ba' + m < capacity ba'"
    using get_write_buffers_spec [OF assms] by blast
  moreover have "ba_wf ba'" "contents ba' = contents ba" "unread ba' = unread ba"
    using grown_appended [OF assms(1) *(2)] appended_unread [OF assms(1)] by (auto simp: appended_def)
  ultimately show "\<exists>vs ba'. get_write_buffers buffers m ba = (Inr (buffers @ vs), ba') \<and> ba_wf ba'
        \<and> contents ba' = contents ba \<and> unread ba' = unread ba
        \<and> sum_list (map iov_len vs) = m \<and> write_pos ba' + m < capacity ba'
        \<and> concat (map (iovec_bytes ba') vs) = take m (drop (write_pos ba') (concat (blocks ba')))"
    by blast
qed

theorem gather_scatter_witness:
  "get_read_buffers [] 10 (ByteArray 3 (\<lambda>_ _. 0)) = Inr []
   \<and> (\<exists>vs ba'. get_write_buffers [] 7 (ByteArray 3 (\<lambda>_ _. 0)) = (Inr vs, ba')
        \<and> sum_list (map iov_len vs) = 7)"
  using gather_scatter [OF wf_new, of 3 7 "[]" 10 "\<lambda>_ _. 0"]
  by (auto simp: get_read_buffers_def get_unread_size_def ByteArray_def)

text \<open>
  Files: \<open>write_to_file\<close> stores the whole contents and leaves the buffer (its read position
  too) unchanged; a disk with too little room is reported as \<open>logic_error\<close>, again with the
  buffer unchanged. Reading such a file with \<open>read_from_file\<close> into any other buffer, of any
  block size, gives a buffer with the same contents and the reader at the start.
\<close>

theorem file_roundtrip:
  assumes "ba_wf ba" and "ba_wf target" and "write_pos ba \<le> room" and "small < write_pos ba"
  shows "\<exists>out target'. write_to_file True room ba = (Inr (), out, ba)
      \<and> read_from_file (Some out) target = (Inr (), target')
      \<and> contents target' = contents ba \<and> unread target' = contents ba \<and> ba_wf target'
      \<and> write_to_file True small ba = (Inl Logic_error, take small (contents ba), ba)"
proof -
  have out: "take room (contents ba) = contents ba" using assms by (simp add: length_contents)
  obtain t where "read_from_file (Some (contents ba)) target = (Inr (), t)" "ba_wf t"
    "contents t = contents ba" "read_pos t = 0"
    using read_from_file_spec [OF assms(2)] by blast
  moreover from this have "unread t = contents ba" by (simp add: unread_def)
  ultimately show ?thesis using assms out by (simp add: write_to_file_eq)
qed

theorem file_roundtrip_witness:
  "\<exists>ba out target'. ByteArray_write [1, 2, 3, 4, 5] (ByteArray 2 (\<lambda>_ _. 0)) = (Inr (), ba)
     \<and> write_to_file True 100 ba = (Inr (), out, ba)
     \<and> read_from_file (Some out) (ByteArray 3 (\<lambda>_ _. 0)) = (Inr (), target')
     \<and> contents target' = [1, 2, 3, 4, 5]"
proof -
  obtain ba where w: "ByteArray_write [1, 2, 3, 4, 5] (ByteArray 2 (\<lambda>_ _. 0)) = (Inr (), ba)"
    and a: "appended [1, 2, 3, 4, 5] (ByteArray 2 (\<lambda>_ _. 0)) ba"
    using write_spec [OF wf_new, of 2 "[1, 2, 3, 4, 5]"] by auto
  from a have wf: "ba_wf ba" and c: "contents ba = [1, 2, 3, 4, 5]" by (auto simp: appended_def)
  then have "write_pos ba = 5" using length_contents [OF wf] by simp
  then show ?thesis
    using file_roundtrip [OF wf wf_new, of 3 100 3 "\<lambda>_ _. 0"] w c by auto
qed

text \<open>
  \<open>to_hex_string\<close> prints every unread byte as two lower-case hex digits and a blank, and is a
  pure observer: the buffer, its read position and cursor included, is unchanged.
\<close>

lemma hex_dump_pure:
  assumes "ba_wf ba"
  shows "\<exists>s. to_hex_string ba = (Inr s, ba) \<and> s = concat (map hex_byte (unread ba))
    \<and> length s = 3 * get_unread_size ba"
proof -
  have "length (concat (map hex_byte xs)) = 3 * length xs" for xs
    by (induction xs) (simp_all add: hex_byte_def)
  with assms show ?thesis by (simp add: to_hex_string_eq unread_size)
qed

lemma hex_dump_pure_example:
  "\<exists>s. to_hex_string (ByteArray 8 (\<lambda>_ _. 0)) = (Inr s, ByteArray 8 (\<lambda>_ _. 0)) \<and> s = []"
  using hex_dump_pure [OF wf_new, of 8 "\<lambda>_ _. 0"] by simp

end
