(* ===== verification/Util.thy ===== *)
theory Util
  imports Prelude
begin

text \<open>
  The helpers of src/sylar/util.cpp that the rest of the program computes with: the byte
  order functions of namespace \<open>Endian\<close>, the clock reading and the directory part of a path.

  The program runs on x86-64 (src/sylar/swap_context.S), a little-endian host: the object
  representation of an integer is its list of bytes, least significant first.
\<close>

section \<open>Object representation of integers\<close>

fun to_le :: "nat \<Rightarrow> 'a::len word \<Rightarrow> bytes" where
  "to_le 0 w = []"
| "to_le (Suc n) w = ucast w # to_le n (drop_bit 8 w)"

fun of_le :: "bytes \<Rightarrow> 'a::len word" where
  "of_le [] = 0"
| "of_le (b # bs) = ucast b OR push_bit 8 (of_le bs)"

text \<open>The C library functions \<open>htons\<close>/\<open>ntohs\<close> and \<open>htonl\<close>/\<open>ntohl\<close> reverse the bytes.\<close>

definition htons :: "u16 \<Rightarrow> u16" where
  "htons v = of_le (rev (to_le 2 v))"

definition htonl :: "u32 \<Rightarrow> u32" where
  "htonl v = of_le (rev (to_le 4 v))"

section \<open>Namespace Endian\<close>

definition host_to_network16 :: "u16 \<Rightarrow> u16" where
  "host_to_network16 value = htons value"

definition host_to_network32 :: "u32 \<Rightarrow> u32" where
  "host_to_network32 value = htonl value"

definition host_to_network64 :: "u64 \<Rightarrow> u64" where
  "host_to_network64 value =
     push_bit 32 (ucast (htonl (ucast (value AND 0xFFFFFFFF)))) OR ucast (htonl (ucast (drop_bit 32 value)))"

definition network_to_host16 :: "u16 \<Rightarrow> u16" where
  "network_to_host16 value = htons value"

definition network_to_host32 :: "u32 \<Rightarrow> u32" where
  "network_to_host32 value = htonl value"

definition network_to_host64 :: "u64 \<Rightarrow> u64" where
  "network_to_host64 value =
     push_bit 32 (ucast (htonl (ucast (value AND 0xFFFFFFFF)))) OR ucast (htonl (ucast (drop_bit 32 value)))"

text \<open>One byte has no order. The overloads on signed integers, from the bits of the object.\<close>

definition host_to_network8 :: "u8 \<Rightarrow> u8" where
  "host_to_network8 value = value"

definition network_to_host8 :: "u8 \<Rightarrow> u8" where
  "network_to_host8 value = value"

definition network_to_host_s8 :: "u8 \<Rightarrow> int" where
  "network_to_host_s8 value = sint value"

definition network_to_host_s16 :: "u16 \<Rightarrow> int" where
  "network_to_host_s16 value = sint (network_to_host16 value)"

definition network_to_host_s32 :: "u32 \<Rightarrow> int" where
  "network_to_host_s32 value = sint (network_to_host32 value)"

definition network_to_host_s64 :: "u64 \<Rightarrow> int" where
  "network_to_host_s64 value = sint (network_to_host64 value)"

section \<open>Threads\<close>

text \<open>The answer of the system call \<open>gettid\<close>.\<close>

definition get_thread_id :: "('w \<Rightarrow> int) \<Rightarrow> 'w \<Rightarrow> int" where
  "get_thread_id gettid w = gettid w"

section \<open>Time and paths\<close>

definition get_time_ms :: "u64 \<Rightarrow> u64 \<Rightarrow> u64" where
  "get_time_ms tv_sec tv_usec = tv_sec * 1000 + tv_usec div 1000"

fun find_last_of :: "char \<Rightarrow> string \<Rightarrow> nat option" where
  "find_last_of c [] = None"
| "find_last_of c (x # xs) =
     (case find_last_of c xs of Some i \<Rightarrow> Some (Suc i) | None \<Rightarrow> if x = c then Some 0 else None)"

definition get_directory :: "string \<Rightarrow> string" where
  "get_directory path =
     (if path = [] then ''.''
      else case find_last_of (CHR ''/'') path of
             None \<Rightarrow> ''.''
           | Some pos \<Rightarrow> if pos = 0 then ''/'' else take pos path)"

section \<open>Backtraces\<close>

text \<open>
  \<open>symbols\<close> is what the system's \<open>backtrace_symbols\<close> answers for at most \<open>n\<close> frames, \<open>None\<close> a null pointer. The first
  \<open>skip\<close> frames are left out.
\<close>

definition backtrace :: "(nat \<Rightarrow> string list option) \<Rightarrow> nat \<Rightarrow> nat \<Rightarrow> string list" where
  "backtrace symbols n skip = (case symbols n of None \<Rightarrow> [] | Some strings \<Rightarrow> drop skip strings)"

definition backtrace_symbols :: "(nat \<Rightarrow> string list option) \<Rightarrow> nat \<Rightarrow> nat \<Rightarrow> string \<Rightarrow> string" where
  "backtrace_symbols symbols n skip prefix =
     concat (map (\<lambda>l. prefix @ l @ ''\<newline>'') (backtrace symbols n skip))"

section \<open>Facts about the object representation\<close>

lemma length_to_le [simp]: "length (to_le n w) = n"
  by (induction n arbitrary: w) auto

lemma of_le_to_le: "of_le (to_le n w) = take_bit (8 * n) w"
proof (induction n arbitrary: w)
  case 0
  then show ?case by simp
next
  case (Suc n)
  show ?case by (rule bit_word_eqI) (auto simp: Suc bit_simps)
qed

lemma of_le_to_le_full: "LENGTH('a) \<le> 8 * n \<Longrightarrow> of_le (to_le n w) = (w :: 'a::len word)"
  by (simp add: of_le_to_le take_bit_word_eq_self)

lemma bit_of_le:
  "bit (of_le bs :: 'a::len word) k \<longleftrightarrow>
     k < LENGTH('a) \<and> k div 8 < length bs \<and> bit (bs ! (k div 8)) (k mod 8)"
proof (induction bs arbitrary: k)
  case Nil
  then show ?case by simp
next
  case (Cons b bs)
  show ?case
  proof (cases "k < 8")
    case True
    then show ?thesis by (auto simp: bit_simps)
  next
    case False
    then obtain j where j: "k = 8 + j" by (metis le_add_diff_inverse not_less)
    then have "k div 8 = Suc (j div 8)" "k mod 8 = j mod 8" by auto
    moreover have "\<not> bit b k" using False bit_imp_le_length [of b k] by auto
    ultimately show ?thesis using j Cons [of j] by (auto simp: bit_simps)
  qed
qed

lemma to_le_nth: "i < n \<Longrightarrow> to_le n w ! i = ucast (drop_bit (8 * i) w)"
proof (induction n arbitrary: i w)
  case 0
  then show ?case by simp
next
  case (Suc n)
  then show ?case by (cases i) (auto simp: drop_bit_drop_bit add.commute)
qed

lemma to_le_of_le:
  assumes "8 * length bs \<le> LENGTH('a::len)"
  shows "to_le (length bs) (of_le bs :: 'a word) = bs"
proof (rule nth_equalityI)
  fix i assume i: "i < length (to_le (length bs) (of_le bs :: 'a word))"
  show "to_le (length bs) (of_le bs :: 'a word) ! i = bs ! i"
  proof (rule bit_word_eqI)
    fix k assume "k < LENGTH(8)"
    then have k: "k < 8" by simp
    then have "(8 * i + k) div 8 = i" "(8 * i + k) mod 8 = k" by auto
    with k show "bit (to_le (length bs) (of_le bs :: 'a word) ! i) k = bit (bs ! i) k"
      using i assms by (simp add: to_le_nth bit_simps bit_of_le)
  qed
qed simp

lemma to_le_rev:
  "8 * n \<le> LENGTH('a::len) \<Longrightarrow> to_le n (of_le (rev (to_le n v)) :: 'a word) = rev (to_le n v)"
  using to_le_of_le [of "rev (to_le n v)", where ?'a = 'a] by simp

lemma bswap_bswap:
  "LENGTH('a::len) = 8 * n \<Longrightarrow> of_le (rev (to_le n (of_le (rev (to_le n v)) :: 'a word))) = (v :: 'a word)"
  by (simp add: to_le_rev of_le_to_le_full)

lemma to_le_append: "to_le (m + n) w = to_le m w @ to_le n (drop_bit (8 * m) w)"
  by (induction m arbitrary: w) (auto simp: drop_bit_drop_bit add.commute)

lemma to_le_ucast:
  "8 * n \<le> LENGTH('b::len) \<Longrightarrow> to_le n (ucast w :: 'b word) = to_le n (w :: 'a::len word)"
proof (rule nth_equalityI)
  fix i assume "8 * n \<le> LENGTH('b)" and "i < length (to_le n (ucast w :: 'b word))"
  then show "to_le n (ucast w :: 'b word) ! i = to_le n w ! i"
    by (intro bit_word_eqI) (auto simp: to_le_nth bit_simps)
qed simp

lemma to_le_take_bit: "8 * n \<le> m \<Longrightarrow> to_le n (take_bit m w) = to_le n w"
proof (rule nth_equalityI)
  fix i assume "8 * n \<le> m" and "i < length (to_le n (take_bit m w))"
  then show "to_le n (take_bit m w) ! i = to_le n w ! i"
    by (intro bit_word_eqI) (auto simp: to_le_nth bit_simps)
qed simp

text \<open>The 64-bit conversion, built from two 32-bit ones, is the reversal of all eight bytes.\<close>

lemma to_le_host_to_network64: "to_le 8 (host_to_network64 v) = rev (to_le 8 v)"
proof -
  let ?lo = "ucast (v AND 0xFFFFFFFF) :: u32" and ?hi = "ucast (drop_bit 32 v) :: u32"
  let ?w = "host_to_network64 v"
  have m: "v AND 0xFFFFFFFF = take_bit 32 v"
    by (simp add: take_bit_eq_mask mask_eq_exp_minus_1)
  have "take_bit 32 ?w = ucast (htonl ?hi)"
    by (rule bit_word_eqI) (auto simp: host_to_network64_def bit_simps dest: bit_imp_le_length)
  then have lo: "to_le 4 ?w = rev (to_le 4 (drop_bit 32 v))"
    using to_le_take_bit [of 4 32 ?w] to_le_ucast [of 4 "htonl ?hi", where ?'b = 64]
      to_le_rev [of 4 ?hi, where ?'a = 32] to_le_ucast [of 4 "drop_bit 32 v", where ?'b = 32]
    by (simp add: htonl_def)
  have "drop_bit 32 ?w = ucast (htonl ?lo)"
    by (rule bit_word_eqI) (auto simp: host_to_network64_def bit_simps dest: bit_imp_le_length)
  then have hi: "to_le 4 (drop_bit 32 ?w) = rev (to_le 4 v)"
    using to_le_ucast [of 4 "htonl ?lo", where ?'b = 64] to_le_rev [of 4 ?lo, where ?'a = 32]
      to_le_ucast [of 4 "take_bit 32 v", where ?'b = 32] to_le_take_bit [of 4 32 v]
    by (simp add: htonl_def m)
  show ?thesis using to_le_append [of 4 4 ?w] to_le_append [of 4 4 v] lo hi by simp
qed

lemma host_to_network64_eq: "host_to_network64 v = of_le (rev (to_le 8 v))"
proof -
  have "of_le (to_le 8 (host_to_network64 v)) = (of_le (rev (to_le 8 v)) :: u64)"
    by (simp add: to_le_host_to_network64)
  then show ?thesis by (simp add: of_le_to_le_full)
qed

lemma network_to_host64_eq: "network_to_host64 v = of_le (rev (to_le 8 v))"
  using host_to_network64_eq [of v] by (simp add: network_to_host64_def host_to_network64_def)

lemmas endian_defs =
  host_to_network16_def host_to_network32_def host_to_network64_eq
  network_to_host16_def network_to_host32_def network_to_host64_eq htons_def htonl_def

lemmas signed_order [simp] = network_to_host_s8_def network_to_host_s16_def network_to_host_s32_def network_to_host_s64_def

lemma find_last_of_Some:
  "find_last_of c xs = Some i \<Longrightarrow> i < length xs \<and> xs ! i = c \<and> c \<notin> set (drop (Suc i) xs)"
proof (induction xs arbitrary: i)
  case Nil
  then show ?case by simp
next
  case (Cons x xs)
  have none: "find_last_of c ys = None \<Longrightarrow> c \<notin> set ys" for ys
    by (induction ys) (auto split: option.splits if_splits)
  from Cons none show ?case by (auto split: option.splits if_splits)
qed

end
