(* ===== verification/Byte_Codec.thy ===== *)
theory Byte_Codec
  imports Byte_Array Util
begin

text \<open>
  The typed readers and writers of \<open>ByteArray\<close> (src/sylar/bytearry.cpp): fixed-width integers in
  network byte order, variable-length integers with zigzag for signed values, floating
  point values as their object representation, and strings. A signed integer is an \<open>int\<close>; its
  machine value is the word it is congruent to.

  The interface between a typed pair of functions and its users is the locale \<open>codec\<close>: what
  \<open>put\<close> appends, \<open>get\<close> reads back. Its lemmas lift one value to sequences of values.
\<close>

section \<open>Fixed-width integers\<close>

definition write_fix_b :: "u8 \<Rightarrow> bytearray \<Rightarrow> (bytearray, unit) outcome" where
  "write_fix_b value = ByteArray_write (to_le 1 value)"

definition write_fix_s :: "u16 \<Rightarrow> bytearray \<Rightarrow> (bytearray, unit) outcome" where
  "write_fix_s value = ByteArray_write (to_le 2 (host_to_network16 value))"

definition write_fix_l :: "u32 \<Rightarrow> bytearray \<Rightarrow> (bytearray, unit) outcome" where
  "write_fix_l value = ByteArray_write (to_le 4 (host_to_network32 value))"

definition write_fix_ll :: "u64 \<Rightarrow> bytearray \<Rightarrow> (bytearray, unit) outcome" where
  "write_fix_ll value = ByteArray_write (to_le 8 (host_to_network64 value))"

text \<open>The macro \<open>READ_FIX_IMPL\<close>: a short read moves the reader back and throws.\<close>

definition READ_FIX_IMPL :: "nat \<Rightarrow> (bytes \<Rightarrow> 'a) \<Rightarrow> bytearray \<Rightarrow> (bytearray, 'a) outcome" where
  "READ_FIX_IMPL n conv ba =
     (case ByteArray_read n ba of
        (Inl e, ba1) \<Rightarrow> (Inl e, ba1)
      | (Inr value, ba1) \<Rightarrow>
          if length value \<noteq> n
          then case set_read_position (sub64 (read_pos ba1) (length value)) ba1 of
                 (Inl e, ba2) \<Rightarrow> (Inl e, ba2)
               | (Inr _, ba2) \<Rightarrow> (Inl Out_of_range, ba2)
          else (Inr (conv value), ba1))"

definition read_fix_b :: "bytearray \<Rightarrow> (bytearray, int) outcome" where
  "read_fix_b = READ_FIX_IMPL 1 (\<lambda>value. sint (of_le value :: u8))"

definition read_fix_ub :: "bytearray \<Rightarrow> (bytearray, u8) outcome" where
  "read_fix_ub = READ_FIX_IMPL 1 of_le"

definition read_fix_s :: "bytearray \<Rightarrow> (bytearray, int) outcome" where
  "read_fix_s = READ_FIX_IMPL 2 (\<lambda>value. network_to_host_s16 (of_le value))"

definition read_fix_us :: "bytearray \<Rightarrow> (bytearray, u16) outcome" where
  "read_fix_us = READ_FIX_IMPL 2 (\<lambda>value. network_to_host16 (of_le value))"

definition read_fix_l :: "bytearray \<Rightarrow> (bytearray, int) outcome" where
  "read_fix_l = READ_FIX_IMPL 4 (\<lambda>value. network_to_host_s32 (of_le value))"

definition read_fix_ul :: "bytearray \<Rightarrow> (bytearray, u32) outcome" where
  "read_fix_ul = READ_FIX_IMPL 4 (\<lambda>value. network_to_host32 (of_le value))"

definition read_fix_ll :: "bytearray \<Rightarrow> (bytearray, int) outcome" where
  "read_fix_ll = READ_FIX_IMPL 8 (\<lambda>value. network_to_host_s64 (of_le value))"

definition read_fix_ull :: "bytearray \<Rightarrow> (bytearray, u64) outcome" where
  "read_fix_ull = READ_FIX_IMPL 8 (\<lambda>value. network_to_host64 (of_le value))"

section \<open>Variable-length integers\<close>

definition encode_zigzag :: "'a::len word \<Rightarrow> 'a word" where
  "encode_zigzag v = push_bit 1 v XOR signed_drop_bit (LENGTH('a) - 1) v"

definition decode_zigzag :: "'a::len word \<Rightarrow> 'a word" where
  "decode_zigzag v = drop_bit 1 v XOR - (v AND 1)"

lemma unat_drop_bit_7: "unat (drop_bit 7 v) = unat v div 128"
  by (simp only: unat_drop_bit_eq) (simp add: drop_bit_eq_div)

text \<open>The bytes the writing loop collects in \<open>value_bytes\<close>.\<close>

function varint_bytes :: "'a::len word \<Rightarrow> bytes" where
  "varint_bytes value =
     (if 0x80 \<le> unat value
      then (ucast (value AND 0x7F) OR 0x80) # varint_bytes (drop_bit 7 value)
      else [ucast value])"
  by pat_completeness auto
termination
  by (relation "measure unat") (auto simp: unat_drop_bit_7)

declare varint_bytes.simps [simp del]

definition write_var_ul :: "u32 \<Rightarrow> bytearray \<Rightarrow> (bytearray, unit) outcome" where
  "write_var_ul value = ByteArray_write (varint_bytes value)"

definition write_var_ull :: "u64 \<Rightarrow> bytearray \<Rightarrow> (bytearray, unit) outcome" where
  "write_var_ull value = ByteArray_write (varint_bytes value)"

definition write_var_l :: "int \<Rightarrow> bytearray \<Rightarrow> (bytearray, unit) outcome" where
  "write_var_l value = write_var_ul (encode_zigzag (word_of_int value))"

definition write_var_ll :: "int \<Rightarrow> bytearray \<Rightarrow> (bytearray, unit) outcome" where
  "write_var_ll value = write_var_ull (encode_zigzag (word_of_int value))"

text \<open>The reading loop: \<open>k\<close> rounds are left, \<open>i\<close> rounds have been done.\<close>

fun read_var_loop :: "nat \<Rightarrow> nat \<Rightarrow> 'a::len word \<Rightarrow> bytearray \<Rightarrow> (bytearray, 'a word) outcome" where
  "read_var_loop 0 i result ba = (Inr result, ba)"
| "read_var_loop (Suc k) i result ba =
     (case ByteArray_read 1 ba of
        (Inl e, ba1) \<Rightarrow> (Inl e, ba1)
      | (Inr got, ba1) \<Rightarrow>
          (case got of
             [] \<Rightarrow> (case set_read_position (sub64 (sub64 (read_pos ba1) (length got)) i) ba1 of
                      (Inl e, ba2) \<Rightarrow> (Inl e, ba2)
                    | (Inr _, ba2) \<Rightarrow> (Inl Out_of_range, ba2))
           | byte # _ \<Rightarrow>
               if byte < 0x80 then (Inr (result OR push_bit (7 * i) (ucast byte)), ba1)
               else read_var_loop k (Suc i) (result OR push_bit (7 * i) (ucast byte AND 0x7F)) ba1))"

definition read_var_ul :: "bytearray \<Rightarrow> (bytearray, u32) outcome" where
  "read_var_ul = read_var_loop 5 0 0"

definition read_var_ull :: "bytearray \<Rightarrow> (bytearray, u64) outcome" where
  "read_var_ull = read_var_loop 10 0 0"

definition read_var_l :: "bytearray \<Rightarrow> (bytearray, int) outcome" where
  "read_var_l ba = map_outcome (\<lambda>v. sint (decode_zigzag v)) (read_var_ul ba)"

definition read_var_ll :: "bytearray \<Rightarrow> (bytearray, int) outcome" where
  "read_var_ll ba = map_outcome (\<lambda>v. sint (decode_zigzag v)) (read_var_ull ba)"

section \<open>Floating point values and strings\<close>

text \<open>A \<open>float\<close> or \<open>double\<close> is its bit pattern; it is stored in host byte order.\<close>

definition write_float :: "u32 \<Rightarrow> bytearray \<Rightarrow> (bytearray, unit) outcome" where
  "write_float value = ByteArray_write (to_le 4 value)"

definition write_double :: "u64 \<Rightarrow> bytearray \<Rightarrow> (bytearray, unit) outcome" where
  "write_double value = ByteArray_write (to_le 8 value)"

definition read_float :: "bytearray \<Rightarrow> (bytearray, u32) outcome" where
  "read_float = READ_FIX_IMPL 4 of_le"

definition read_double :: "bytearray \<Rightarrow> (bytearray, u64) outcome" where
  "read_double = READ_FIX_IMPL 8 of_le"

definition write_string :: "bytes \<Rightarrow> bytearray \<Rightarrow> (bytearray, unit) outcome" where
  "write_string value = ByteArray_write value"

text \<open>The length is passed to \<open>write_var_ul\<close>, so it is reduced to 32 bits.\<close>

definition write_string_with_length :: "bytes \<Rightarrow> bytearray \<Rightarrow> (bytearray, unit) outcome" where
  "write_string_with_length value ba =
     (case write_var_ul (of_nat (length value)) ba of
        (Inl e, ba1) \<Rightarrow> (Inl e, ba1)
      | (Inr _, ba1) \<Rightarrow> write_string value ba1)"

definition read_string :: "bytearray \<Rightarrow> (bytearray, bytes) outcome" where
  "read_string ba =
     (case read_fix_ul ba of
        (Inl e, ba1) \<Rightarrow> (Inl e, ba1)
      | (Inr len, ba1) \<Rightarrow>
          (case ByteArray_read (unat len) ba1 of
             (Inl e, ba2) \<Rightarrow> (Inl e, ba2)
           | (Inr str, ba2) \<Rightarrow>
               if length str \<noteq> unat len
               then case set_read_position (sub64 (sub64 (read_pos ba2) (length str)) 4) ba2 of
                      (Inl e, ba3) \<Rightarrow> (Inl e, ba3)
                    | (Inr _, ba3) \<Rightarrow> (Inl Out_of_range, ba3)
               else (Inr str, ba2)))"

definition read_string_with_length :: "nat \<Rightarrow> bytearray \<Rightarrow> (bytearray, bytes) outcome" where
  "read_string_with_length len = READ_FIX_IMPL len id"

section \<open>Sequences of values\<close>

fun put_all :: "('a \<Rightarrow> bytearray \<Rightarrow> (bytearray, unit) outcome) \<Rightarrow> 'a list \<Rightarrow> bytearray \<Rightarrow> (bytearray, unit) outcome" where
  "put_all put [] ba = (Inr (), ba)"
| "put_all put (v # vs) ba =
     (case put v ba of (Inl e, ba1) \<Rightarrow> (Inl e, ba1) | (Inr _, ba1) \<Rightarrow> put_all put vs ba1)"

fun get_all :: "(bytearray \<Rightarrow> (bytearray, 'a) outcome) \<Rightarrow> nat \<Rightarrow> bytearray \<Rightarrow> (bytearray, 'a list) outcome" where
  "get_all get 0 ba = (Inr [], ba)"
| "get_all get (Suc n) ba =
     (case get ba of
        (Inl e, ba1) \<Rightarrow> (Inl e, ba1)
      | (Inr v, ba1) \<Rightarrow> map_outcome (\<lambda>vs. v # vs) (get_all get n ba1))"


text \<open>The pattern of the unit test: write all values, read as many, compare, nothing is left.\<close>

definition reads_back ::
    "('a \<Rightarrow> bytearray \<Rightarrow> (bytearray, unit) outcome) \<Rightarrow> (bytearray \<Rightarrow> (bytearray, 'a) outcome) \<Rightarrow>
     'a list \<Rightarrow> bytearray \<Rightarrow> bool" where
  "reads_back put get vs ba =
     (case put_all put vs ba of
        (Inl _, _) \<Rightarrow> False
      | (Inr _, ba1) \<Rightarrow>
          (case get_all get (length vs) ba1 of
             (Inl _, _) \<Rightarrow> False
           | (Inr ws, ba2) \<Rightarrow> ws = vs \<and> get_unread_size ba2 = 0))"

section \<open>The codec interface\<close>

locale codec =
  fixes put :: "'a \<Rightarrow> bytearray \<Rightarrow> (bytearray, unit) outcome"
    and get :: "bytearray \<Rightarrow> (bytearray, 'a) outcome"
    and enc :: "'a \<Rightarrow> bytes"
    and ok :: "'a \<Rightarrow> bool"
  assumes put_appends: "ba_wf ba \<Longrightarrow> ok v \<Longrightarrow> \<exists>ba'. put v ba = (Inr (), ba') \<and> appended (enc v) ba ba'"
    and get_reads: "ba_wf ba \<Longrightarrow> ok v \<Longrightarrow> unread ba = enc v @ rest \<Longrightarrow>
      get ba = (Inr v, seek (read_pos ba + length (enc v)) ba)"
begin

lemma seek_rest:
  assumes "ba_wf ba" and "unread ba = d @ rest"
  shows "ba_wf (seek (read_pos ba + length d) ba)" and "unread (seek (read_pos ba + length d) ba) = rest"
proof -
  have "read_pos ba + length d \<le> write_pos ba"
    using assms wf_read_le [of ba] length_unread [of ba] by (metis add_le_cancel_left
        le_add1 le_add_diff_inverse length_append)
  with assms(1) show "ba_wf (seek (read_pos ba + length d) ba)" by (rule wf_seek)
  have "drop (length d) (unread ba) = rest" using assms(2) by simp
  then show "unread (seek (read_pos ba + length d) ba) = rest"
    by (simp add: unread_def add.commute)
qed

lemma put_all_appends:
  "ba_wf ba \<Longrightarrow> list_all ok vs \<Longrightarrow>
     \<exists>ba'. put_all put vs ba = (Inr (), ba') \<and> appended (concat (map enc vs)) ba ba'"
proof (induction vs arbitrary: ba)
  case Nil
  then show ?case by (simp add: wf_simps)
next
  case (Cons v vs)
  obtain ba1 where p: "put v ba = (Inr (), ba1)" "appended (enc v) ba ba1"
    using put_appends Cons.prems by auto
  obtain ba2 where "put_all put vs ba1 = (Inr (), ba2)" "appended (concat (map enc vs)) ba1 ba2"
    using Cons.IH [of ba1] Cons.prems p(2) by auto
  with p appended_trans [OF p(2)] show ?case by auto
qed

lemma get_all_reads:
  "ba_wf ba \<Longrightarrow> list_all ok vs \<Longrightarrow> unread ba = concat (map enc vs) @ rest \<Longrightarrow>
     get_all get (length vs) ba = (Inr vs, seek (read_pos ba + length (concat (map enc vs))) ba)"
proof (induction vs arbitrary: ba)
  case Nil
  then show ?case by (simp add: wf_simps)
next
  case (Cons v vs)
  then have u: "unread ba = enc v @ (concat (map enc vs) @ rest)" by simp
  have g: "get ba = (Inr v, seek (read_pos ba + length (enc v)) ba)"
    using get_reads [OF Cons.prems(1) _ u] Cons.prems(2) by simp
  show ?case
    using Cons.IH [OF seek_rest(1) [OF Cons.prems(1) u] _ seek_rest(2) [OF Cons.prems(1) u]] Cons.prems(2) g
    by (simp add: add.assoc)
qed

text \<open>What is written to a fully read buffer is what is read back, and nothing is left over.\<close>

lemma roundtrip:
  assumes "ba_wf ba" and "unread ba = []" and "list_all ok vs"
  shows "reads_back put get vs ba"
proof -
  obtain ba' where p: "put_all put vs ba = (Inr (), ba')" and a: "appended (concat (map enc vs)) ba ba'"
    using put_all_appends assms by blast
  have u: "unread ba' = concat (map enc vs) @ []" using appended_unread [OF assms(1) a] assms(2) by simp
  have wf': "ba_wf ba'" using a by (rule appended_wf)
  from get_all_reads [OF wf' assms(3) u] seek_rest [OF wf' u] p show ?thesis
    by (simp add: reads_back_def unread_size del: seek_simps unread_seek)
qed

lemma roundtrip_new: "0 < bs \<Longrightarrow> list_all ok vs \<Longrightarrow> reads_back put get vs (ByteArray bs jk)"
  by (rule roundtrip) (simp_all add: wf_new)

end

section \<open>Fixed-width codecs\<close>

lemma READ_FIX_IMPL_reads [outcome_simps]:
  assumes "ba_wf ba" and "unread ba = d @ rest" and "length d = n"
  shows "READ_FIX_IMPL n conv ba = (Inr (conv d), seek (read_pos ba + n) ba)"
  using assms by (auto simp: READ_FIX_IMPL_def read_eq min_absorb1)

text \<open>A reader that runs out of bytes throws and leaves the buffer as it was.\<close>

lemma READ_FIX_IMPL_short [outcome_simps]:
  assumes wf: "ba_wf ba" and len: "length (unread ba) < n"
  shows "READ_FIX_IMPL n conv ba = (Inl Out_of_range, ba)"
proof -
  let ?m = "length (unread ba)"
  have m: "read_pos ba + ?m \<le> write_pos ba" using wf_read_le [OF wf] by (simp add: length_unread [OF wf])
  have "ByteArray_read n ba = (Inr (unread ba), seek (read_pos ba + ?m) ba)"
    using read_eq [OF wf, of n] len by simp
  moreover have "set_read_position (read_pos ba) (seek (read_pos ba + ?m) ba) = (Inr (), ba)"
    using set_read_position_eq [OF wf_seek [OF wf m], of "read_pos ba"] wf_read_le [OF wf] seek_same [OF wf]
    by simp
  ultimately show ?thesis using len by (simp add: READ_FIX_IMPL_def)
qed

lemma fixed_codec:
  assumes "\<And>v ba. put v ba = ByteArray_write (enc v) ba" and "\<And>v. ok v \<Longrightarrow> length (enc v) = n"
    and "\<And>v. ok v \<Longrightarrow> conv (enc v) = v"
  shows "codec put (READ_FIX_IMPL n conv) enc ok"
  using assms write_spec by unfold_locales (auto simp: READ_FIX_IMPL_reads)

definition in_range :: "nat \<Rightarrow> int \<Rightarrow> bool" where
  "in_range w x \<longleftrightarrow> - (2 ^ (w - 1)) \<le> x \<and> x < 2 ^ (w - 1)"

lemma sint_in_range: "in_range LENGTH('a) x \<Longrightarrow> sint (word_of_int x :: 'a::len word) = x"
  by (simp add: in_range_def signed_of_int signed_take_bit_int_eq_self)

interpretation fix_ub: codec write_fix_b read_fix_ub "to_le 1" "\<lambda>_. True"
  unfolding read_fix_ub_def by (rule fixed_codec) (simp_all add: write_fix_b_def of_le_to_le_full)

interpretation fix_us: codec write_fix_s read_fix_us "\<lambda>v. rev (to_le 2 v)" "\<lambda>_. True"
  unfolding read_fix_us_def
  by (rule fixed_codec) (simp_all add: write_fix_s_def endian_defs to_le_rev of_le_to_le_full)

interpretation fix_ul: codec write_fix_l read_fix_ul "\<lambda>v. rev (to_le 4 v)" "\<lambda>_. True"
  unfolding read_fix_ul_def
  by (rule fixed_codec) (simp_all add: write_fix_l_def endian_defs to_le_rev of_le_to_le_full)

interpretation fix_ull: codec write_fix_ll read_fix_ull "\<lambda>v. rev (to_le 8 v)" "\<lambda>_. True"
  unfolding read_fix_ull_def
  by (rule fixed_codec) (simp_all add: write_fix_ll_def endian_defs to_le_rev of_le_to_le_full)

text \<open>The signed readers take back the values the (unsigned) writers were given.\<close>

interpretation fix_b: codec "\<lambda>x. write_fix_b (word_of_int x)" read_fix_b
    "\<lambda>x. to_le 1 (word_of_int x :: u8)" "in_range 8"
  unfolding read_fix_b_def
  by (rule fixed_codec) (simp_all add: write_fix_b_def of_le_to_le_full sint_in_range)

interpretation fix_s: codec "\<lambda>x. write_fix_s (word_of_int x)" read_fix_s
    "\<lambda>x. rev (to_le 2 (word_of_int x :: u16))" "in_range 16"
  unfolding read_fix_s_def
  by (rule fixed_codec)
    (simp_all add: write_fix_s_def endian_defs to_le_rev of_le_to_le_full sint_in_range)

interpretation fix_l: codec "\<lambda>x. write_fix_l (word_of_int x)" read_fix_l
    "\<lambda>x. rev (to_le 4 (word_of_int x :: u32))" "in_range 32"
  unfolding read_fix_l_def
  by (rule fixed_codec)
    (simp_all add: write_fix_l_def endian_defs to_le_rev of_le_to_le_full sint_in_range)

interpretation fix_ll: codec "\<lambda>x. write_fix_ll (word_of_int x)" read_fix_ll
    "\<lambda>x. rev (to_le 8 (word_of_int x :: u64))" "in_range 64"
  unfolding read_fix_ll_def
  by (rule fixed_codec)
    (simp_all add: write_fix_ll_def endian_defs to_le_rev of_le_to_le_full sint_in_range)

interpretation float: codec write_float read_float "to_le 4" "\<lambda>_. True"
  unfolding read_float_def by (rule fixed_codec) (simp_all add: write_float_def of_le_to_le_full)

interpretation double: codec write_double read_double "to_le 8" "\<lambda>_. True"
  unfolding read_double_def by (rule fixed_codec) (simp_all add: write_double_def of_le_to_le_full)

section \<open>Variable-length codecs\<close>

subsection \<open>Zigzag\<close>

lemma bit_encode_zigzag:
  "bit (encode_zigzag v) k \<longleftrightarrow>
     k < LENGTH('a) \<and> ((0 < k \<and> bit v (k - 1)) \<noteq> bit v (LENGTH('a) - 1))" for v :: "'a::len word"
proof -
  have "bit (push_bit 1 v) k \<longleftrightarrow> k < LENGTH('a) \<and> 0 < k \<and> bit v (k - 1)"
    unfolding bit_push_bit_iff by (auto simp: possible_bit_word Suc_le_eq)
  moreover have "bit (signed_drop_bit (LENGTH('a) - 1) v) k \<longleftrightarrow> k < LENGTH('a) \<and> bit v (LENGTH('a) - 1)"
    unfolding bit_signed_drop_bit_iff using len_gt_0 [where ?'a = 'a]
    by (cases "k = 0") (auto dest: bit_imp_le_length simp del: len_gt_0)
  ultimately show ?thesis unfolding encode_zigzag_def bit_xor_iff by blast
qed

lemma decode_encode_zigzag: "decode_zigzag (encode_zigzag v) = v" for v :: "'a::len word"
proof -
  have odd: "odd (encode_zigzag v) \<longleftrightarrow> bit v (LENGTH('a) - 1)"
    using bit_encode_zigzag [of v 0] by (simp only: bit_0 less_irrefl simp_thms len_gt_0)
  have neg: "- (encode_zigzag v AND 1) = (if bit v (LENGTH('a) - 1) then - 1 else 0)"
    using odd by (auto simp: and_one_eq mod2_eq_if)
  show ?thesis
  proof (rule bit_word_eqI)
    fix k assume k: "k < LENGTH('a)"
    show "bit (decode_zigzag (encode_zigzag v)) k = bit v k"
    proof (cases "Suc k < LENGTH('a)")
      case True
      with k show ?thesis by (simp add: decode_zigzag_def neg bit_simps bit_encode_zigzag)
    next
      case False
      with k have "k = LENGTH('a) - 1" by simp
      with k False show ?thesis by (auto simp: decode_zigzag_def neg bit_simps bit_encode_zigzag)
    qed
  qed
qed

subsection \<open>Groups of seven bits\<close>

lemma and_7F: "v AND 0x7F = take_bit 7 (v :: 'a::len word)"
  by (simp add: take_bit_eq_mask mask_eq_exp_minus_1)

lemma bit_80: "bit (0x80 :: 'a::len word) k \<longleftrightarrow> k = 7 \<and> 7 < LENGTH('a)"
  using bit_exp_iff [of 7 k, where ?'a = "'a word"] by (auto simp: possible_bit_word)

lemma continuation_low:
  "(ucast ((ucast (v AND 0x7F) :: u8) OR 0x80) :: 'a word) AND 0x7F = v AND 0x7F" for v :: "'a::len word"
  unfolding and_7F
  by (rule bit_word_eqI) (auto simp: bit_take_bit_iff bit_unsigned_iff bit_or_iff bit_80
      simp del: unsigned_or_eq unsigned_take_bit_eq take_bit_or bit_numeral_word_iff)

lemma small_byte: "x < (0x80 :: u8) \<Longrightarrow> \<not> bit x 7"
proof -
  assume "x < (0x80 :: u8)"
  then have "unat (drop_bit 7 x) = 0" by (simp add: unat_drop_bit_7 word_less_nat_alt)
  then have "drop_bit 7 x = 0" by (simp only: unat_eq_zero)
  then show ?thesis by (simp add: bit_iff_odd_drop_bit)
qed

lemma continuation_large: "\<not> ((ucast (v AND 0x7F) :: u8) OR 0x80) < 0x80" for v :: "'a::len word"
proof -
  have "bit ((ucast (v AND 0x7F) :: u8) OR 0x80) 7" by (simp add: bit_simps bit_80)
  then show ?thesis using small_byte by blast
qed

lemma split_7:
  "push_bit n (v AND 0x7F) OR push_bit (n + 7) (drop_bit 7 v) = push_bit n v" for v :: "'a::len word"
proof (rule bit_word_eqI)
  fix k assume "k < LENGTH('a)"
  then show "bit (push_bit n (v AND 0x7F) OR push_bit (n + 7) (drop_bit 7 v)) k = bit (push_bit n v) k"
    by (cases "k < n + 7") (auto simp: bit_simps and_7F)
qed

text \<open>The last group of a value is the value itself and fits one byte without continuation mark.\<close>

lemma last_group:
  assumes "unat (v :: 'a::len word) < 0x80" and "8 \<le> LENGTH('a)"
  shows "(ucast v :: u8) < 0x80" and "(ucast (ucast v :: u8) :: 'a word) = v"
proof -
  have u: "unat (ucast v :: u8) = unat v" using assms by (simp add: unsigned_ucast_eq take_bit_nat_eq_self)
  then show "(ucast v :: u8) < 0x80" using assms(1) by (simp add: word_less_nat_alt)
  show "(ucast (ucast v :: u8) :: 'a word) = v"
    by (rule word_unat_eq_iff [THEN iffD2]) (use u assms in \<open>simp add: unsigned_ucast_eq unsigned_take_bit_eq take_bit_nat_eq_self\<close>)
qed

text \<open>The scratch array \<open>value_bytes\<close> is large enough: five bytes for 32 bits, ten for 64.\<close>

lemma length_varint_bytes: "unat v < 128 ^ k \<Longrightarrow> 0 < k \<Longrightarrow> length (varint_bytes v) \<le> k"
proof (induction k arbitrary: v)
  case 0
  then show ?case by simp
next
  case (Suc k)
  show ?case
  proof (cases "unat v < 0x80")
    case True
    then show ?thesis by (simp add: varint_bytes.simps [of v])
  next
    case False
    then have "0 < k" using Suc.prems by (cases k) auto
    moreover have "unat (drop_bit 7 v) < 128 ^ k"
      using Suc.prems(1) by (simp add: unat_drop_bit_7 less_mult_imp_div_less mult.commute)
    ultimately show ?thesis using Suc.IH [of "drop_bit 7 v"] False by (simp add: varint_bytes.simps [of v])
  qed
qed


subsection \<open>Reading a varint back\<close>

lemma read_byte:
  assumes "ba_wf ba" and "unread ba = b # rest"
  shows "ByteArray_read 1 ba = (Inr [b], seek (Suc (read_pos ba)) ba)"
  using assms by (simp add: read_eq)

lemma seek_byte:
  assumes "ba_wf ba" and "unread ba = b # rest"
  shows "ba_wf (seek (Suc (read_pos ba)) ba)" and "unread (seek (Suc (read_pos ba)) ba) = rest"
  using fix_ub.seek_rest [OF assms(1), of "[b]" rest] assms(2) by simp_all

lemma read_var_loop_reads:
  fixes v result :: "'a::len word"
  assumes "8 \<le> LENGTH('a)"
  shows "ba_wf ba \<Longrightarrow> unread ba = varint_bytes v @ rest \<Longrightarrow> length (varint_bytes v) \<le> k \<Longrightarrow>
     read_var_loop k i result ba =
       (Inr (result OR push_bit (7 * i) v), seek (read_pos ba + length (varint_bytes v)) ba)"
proof (induction k arbitrary: i result ba v)
  case 0
  then show ?case by (subst (asm) varint_bytes.simps) (simp split: if_splits)
next
  case (Suc k)
  show ?case
  proof (cases "unat v < 0x80")
    case True
    then have vb: "varint_bytes v = [ucast v]" by (simp add: varint_bytes.simps [of v])
    with Suc.prems have "unread ba = ucast v # rest" by simp
    then show ?thesis
      using read_byte [OF Suc.prems(1)] last_group [OF True assms] vb by simp
  next
    case False
    let ?b = "ucast (v AND 0x7F) OR 0x80 :: u8" and ?v' = "drop_bit 7 v"
    let ?ba = "seek (Suc (read_pos ba)) ba"
    from False have vb: "varint_bytes v = ?b # varint_bytes ?v'" by (simp add: varint_bytes.simps [of v])
    with Suc.prems have u: "unread ba = ?b # (varint_bytes ?v' @ rest)" by simp
    have "read_var_loop (Suc k) i result ba =
        read_var_loop k (Suc i) (result OR push_bit (7 * i) (v AND 0x7F)) ?ba"
      using read_byte [OF Suc.prems(1) u] continuation_large [of v] continuation_low [of v] by simp
    also have "\<dots> = (Inr ((result OR push_bit (7 * i) (v AND 0x7F)) OR push_bit (7 * Suc i) ?v'),
        seek (read_pos ?ba + length (varint_bytes ?v')) ?ba)"
      using Suc.prems(3) vb by (intro Suc.IH seek_byte [OF Suc.prems(1) u]) simp
    also have "(result OR push_bit (7 * i) (v AND 0x7F)) OR push_bit (7 * Suc i) ?v'
        = result OR push_bit (7 * i) v"
      using split_7 [of "7 * i" v] by (simp only: or.assoc mult_Suc_right add.commute)
    finally show ?thesis using vb by simp
  qed
qed

text \<open>
  A varint that is cut off (only continuation bytes are left, and fewer than the loop accepts)
  throws, and the bytes read so far are given back.
\<close>

lemma read_var_loop_short:
  fixes result :: "'a::len word"
  shows "ba_wf ba \<Longrightarrow> \<forall>b \<in> set (unread ba). 0x80 \<le> b \<Longrightarrow> length (unread ba) < k \<Longrightarrow> i \<le> read_pos ba \<Longrightarrow>
     read_var_loop k i result ba = (Inl Out_of_range, seek (read_pos ba - i) ba)"
proof (induction k arbitrary: i result ba)
  case 0
  then show ?case by simp
next
  case (Suc k)
  show ?case
  proof (cases "unread ba")
    case Nil
    then show ?thesis using Suc.prems wf_read_le [of ba] set_read_position_eq [of ba "read_pos ba - i"]
      by (simp add: read_eq seek_same)
  next
    case (Cons b bs)
    have "read_var_loop (Suc k) i result ba = read_var_loop k (Suc i)
        (result OR push_bit (7 * i) (ucast b AND 0x7F)) (seek (Suc (read_pos ba)) ba)"
      using read_byte [OF Suc.prems(1) Cons] leD [of "0x80" b] Suc.prems(2) Cons by simp
    also have "\<dots> = (Inl Out_of_range,
        seek (read_pos (seek (Suc (read_pos ba)) ba) - Suc i) (seek (Suc (read_pos ba)) ba))"
      using Suc.prems Cons seek_byte [OF Suc.prems(1) Cons]
      by (intro Suc.IH) (simp_all del: unread_seek)
    finally show ?thesis by simp
  qed
qed

lemma length_varint_32: "length (varint_bytes (v :: u32)) \<le> 5"
  using unsigned_less [of v, where ?'a = nat] by (intro length_varint_bytes) auto

lemma length_varint_64: "length (varint_bytes (v :: u64)) \<le> 10"
  using unsigned_less [of v, where ?'a = nat] by (intro length_varint_bytes) auto

interpretation var_ul: codec write_var_ul read_var_ul varint_bytes "\<lambda>_. True"
  by unfold_locales
    (simp_all add: write_var_ul_def read_var_ul_def write_spec read_var_loop_reads length_varint_32)

interpretation var_ull: codec write_var_ull read_var_ull varint_bytes "\<lambda>_. True"
  by unfold_locales
    (simp_all add: write_var_ull_def read_var_ull_def write_spec read_var_loop_reads length_varint_64)

interpretation var_l: codec write_var_l read_var_l
    "\<lambda>x. varint_bytes (encode_zigzag (word_of_int x :: u32))" "in_range 32"
  using var_ul.put_appends var_ul.get_reads
  by unfold_locales
    (simp_all add: write_var_l_def read_var_l_def decode_encode_zigzag sint_in_range)

interpretation var_ll: codec write_var_ll read_var_ll
    "\<lambda>x. varint_bytes (encode_zigzag (word_of_int x :: u64))" "in_range 64"
  using var_ull.put_appends var_ull.get_reads
  by unfold_locales
    (simp_all add: write_var_ll_def read_var_ll_def decode_encode_zigzag sint_in_range)


section \<open>Strings\<close>

lemma read_string_with_length_reads:
  "ba_wf ba \<Longrightarrow> unread ba = d @ rest \<Longrightarrow>
     read_string_with_length (length d) ba = (Inr d, seek (read_pos ba + length d) ba)"
  by (simp add: read_string_with_length_def READ_FIX_IMPL_reads)

lemma write_string_with_length_appends:
  assumes "ba_wf ba"
  shows "\<exists>ba'. write_string_with_length d ba = (Inr (), ba')
    \<and> appended (varint_bytes (of_nat (length d) :: u32) @ d) ba ba'"
proof -
  obtain ba1 where p: "write_var_ul (of_nat (length d)) ba = (Inr (), ba1)"
    and a: "appended (varint_bytes (of_nat (length d) :: u32)) ba ba1"
    using var_ul.put_appends assms by blast
  obtain ba2 where "ByteArray_write d ba1 = (Inr (), ba2)" "appended d ba1 ba2"
    using write_spec [OF appended_wf [OF a]] by blast
  with p appended_trans [OF a] show ?thesis
    by (auto simp: write_string_with_length_def write_string_def)
qed

text \<open>The reader that matches \<open>write_string_with_length\<close>: the length as a varint, then the bytes.\<close>

lemma string_roundtrip:
  assumes wf: "ba_wf ba" and empty: "unread ba = []" and len: "length d < 2 ^ 32"
  shows "\<exists>ba1 ba2 ba3 n. write_string_with_length d ba = (Inr (), ba1)
    \<and> read_var_ul ba1 = (Inr n, ba2) \<and> unat n = length d
    \<and> read_string_with_length (unat n) ba2 = (Inr d, ba3) \<and> get_unread_size ba3 = 0"
proof -
  let ?n = "of_nat (length d) :: u32"
  obtain ba1 where w: "write_string_with_length d ba = (Inr (), ba1)"
    and a: "appended (varint_bytes ?n @ d) ba ba1"
    using write_string_with_length_appends [OF wf] by blast
  have u: "unread ba1 = varint_bytes ?n @ d" using appended_unread [OF wf a] empty by simp
  have wf1: "ba_wf ba1" using a by (rule appended_wf)
  define ba2 where "ba2 = seek (read_pos ba1 + length (varint_bytes ?n)) ba1"
  have r: "read_var_ul ba1 = (Inr ?n, ba2)" using var_ul.get_reads [OF wf1 _ u] by (simp add: ba2_def)
  have wf2: "ba_wf ba2" and u2: "unread ba2 = d @ []"
    using fix_ub.seek_rest [OF wf1 u] by (simp_all add: ba2_def)
  have n: "unat ?n = length d" using len by (simp add: unat_of_nat)
  have "get_unread_size (seek (read_pos ba2 + length d) ba2) = 0"
    using fix_ub.seek_rest [OF wf2 u2] by (simp add: unread_size)
  with w r n read_string_with_length_reads [OF wf2 u2] show ?thesis by auto
qed

text \<open>
  The encoding that \<open>read_string\<close> expects is a four-byte length in network order followed by
  the bytes, not the varint that \<open>write_string_with_length\<close> emits.
\<close>

lemma read_string_reads:
  assumes wf: "ba_wf ba" and u: "unread ba = rev (to_le 4 (n :: u32)) @ d" and n: "unat n = length d"
  shows "read_string ba = (Inr d, seek (read_pos ba + 4 + length d) ba)"
proof -
  have len: "length (rev (to_le 4 n)) = 4" by simp
  let ?ba = "seek (read_pos ba + 4) ba"
  have "read_fix_ul ba = (Inr n, ?ba)" using fix_ul.get_reads [OF wf _ u] len by simp
  moreover have "ba_wf ?ba" "unread ?ba = d"
    using fix_ub.seek_rest [OF wf u] len by simp_all
  ultimately show ?thesis using n
    by (simp add: read_string_def read_eq del: unread_seek)
qed

lemma read_string_short:
  assumes "ba_wf ba" and "length (unread ba) < 4"
  shows "read_string ba = (Inl Out_of_range, ba)"
  using assms by (simp add: read_string_def read_fix_ul_def READ_FIX_IMPL_short)

section \<open>Properties\<close>

text \<open>
  C2. Fixed-width integers: whatever the block size of a new buffer, a list of values written
  one after the other with \<open>write_fix_b\<close>, \<open>write_fix_s\<close>, \<open>write_fix_l\<close> or \<open>write_fix_ll\<close> is
  read back unchanged by the signed and by the unsigned reader of the same width, across
  block boundaries, and nothing is left unread.
\<close>

theorem fixed_roundtrip:
  assumes "0 < bs" and "list_all (in_range 8) bsig" and "list_all (in_range 16) ssig"
    and "list_all (in_range 32) lsig" and "list_all (in_range 64) llsig"
  shows "reads_back (\<lambda>x. write_fix_b (word_of_int x)) read_fix_b bsig (ByteArray bs jk)
    \<and> reads_back (\<lambda>x. write_fix_s (word_of_int x)) read_fix_s ssig (ByteArray bs jk)
    \<and> reads_back (\<lambda>x. write_fix_l (word_of_int x)) read_fix_l lsig (ByteArray bs jk)
    \<and> reads_back (\<lambda>x. write_fix_ll (word_of_int x)) read_fix_ll llsig (ByteArray bs jk)
    \<and> reads_back write_fix_b read_fix_ub bun (ByteArray bs jk)
    \<and> reads_back write_fix_s read_fix_us sun (ByteArray bs jk)
    \<and> reads_back write_fix_l read_fix_ul lun (ByteArray bs jk)
    \<and> reads_back write_fix_ll read_fix_ull llun (ByteArray bs jk)"
  using assms by (simp add: fix_b.roundtrip_new fix_s.roundtrip_new fix_l.roundtrip_new
      fix_ll.roundtrip_new fix_ub.roundtrip_new fix_us.roundtrip_new fix_ul.roundtrip_new
      fix_ull.roundtrip_new list.pred_True)

theorem fixed_roundtrip_witness:
  "reads_back (\<lambda>x. write_fix_l (word_of_int x)) read_fix_l [-1, 2147483647, -2147483648] (ByteArray 3 (\<lambda>_ _. 0))
   \<and> reads_back write_fix_ll read_fix_ull [0x0102030405060708] (ByteArray 3 (\<lambda>_ _. 0))"
  using fixed_roundtrip [of 3 "[-128]" "[32767]" "[-1, 2147483647, -2147483648]" "[-5]"
      "\<lambda>_ _. 0" "[]" "[]" "[]" "[0x0102030405060708]"]
  by (simp add: in_range_def)

text \<open>
  C3. Variable-length integers: \<open>write_var_l\<close>/\<open>read_var_l\<close> and \<open>write_var_ll\<close>/\<open>read_var_ll\<close>
  (zigzag) for every 32-bit and 64-bit signed value, \<open>write_var_ul\<close>/\<open>read_var_ul\<close> and
  \<open>write_var_ull\<close>/\<open>read_var_ull\<close> for every unsigned one: a list of values is read back
  unchanged for any block size, and nothing is left unread.
\<close>

theorem varint_roundtrip:
  assumes "0 < bs" and "list_all (in_range 32) lsig" and "list_all (in_range 64) llsig"
  shows "reads_back write_var_l read_var_l lsig (ByteArray bs jk)
    \<and> reads_back write_var_ll read_var_ll llsig (ByteArray bs jk)
    \<and> reads_back write_var_ul read_var_ul lun (ByteArray bs jk)
    \<and> reads_back write_var_ull read_var_ull llun (ByteArray bs jk)"
  using assms by (simp add: var_l.roundtrip_new var_ll.roundtrip_new var_ul.roundtrip_new
      var_ull.roundtrip_new list.pred_True)

theorem varint_roundtrip_witness:
  "reads_back write_var_l read_var_l [-1, 300, -2147483648] (ByteArray 1 (\<lambda>_ _. 7))
   \<and> reads_back write_var_ull read_var_ull [0, 18446744073709551615] (ByteArray 1 (\<lambda>_ _. 7))"
  using varint_roundtrip [of 1 "[-1, 300, -2147483648]" "[]" "\<lambda>_ _. 7" "[]"
      "[0, 18446744073709551615]"]
  by (simp add: in_range_def)

text \<open>
  The scratch arrays of the varint writers (five bytes in \<open>write_var_ul\<close>, ten in
  \<open>write_var_ull\<close>) are never overrun, and the fixed-width writers emit exactly the bytes of
  the value, most significant first (network byte order).
\<close>

lemma encoding_bounds:
  "length (varint_bytes (v :: u32)) \<le> 5 \<and> length (varint_bytes (w :: u64)) \<le> 10
   \<and> to_le 2 (host_to_network16 h) = rev (to_le 2 h)
   \<and> to_le 4 (host_to_network32 v) = rev (to_le 4 v)
   \<and> to_le 8 (host_to_network64 w) = rev (to_le 8 w)"
  by (simp add: length_varint_32 length_varint_64 endian_defs to_le_rev)



text \<open>
  Length-prefixed strings: for strings shorter than \<open>2 ^ 32\<close> bytes the encoding that
  \<open>write_string_with_length\<close> produces is read back by \<open>read_var_ul\<close> followed by
  \<open>read_string_with_length\<close>.
\<close>

lemma prefixed_string_roundtrip:
  assumes "0 < bs" and "length d < 2 ^ 32"
  shows "\<exists>ba1 ba2 ba3 n. write_string_with_length d (ByteArray bs jk) = (Inr (), ba1)
    \<and> read_var_ul ba1 = (Inr n, ba2) \<and> unat n = length d
    \<and> read_string_with_length (unat n) ba2 = (Inr d, ba3) \<and> get_unread_size ba3 = 0"
  using assms by (intro string_roundtrip) (simp_all add: wf_new)

lemma prefixed_string_roundtrip_example:
  "\<exists>ba1 ba2 ba3 n. write_string_with_length [104, 105] (ByteArray 2 (\<lambda>_ _. 0)) = (Inr (), ba1)
    \<and> read_var_ul ba1 = (Inr n, ba2) \<and> unat n = length [104, 105 :: u8]
    \<and> read_string_with_length (unat n) ba2 = (Inr [104, 105], ba3) \<and> get_unread_size ba3 = 0"
  by (rule prefixed_string_roundtrip) simp_all

text \<open>
  \<open>read_string\<close> does not read what \<open>write_string_with_length\<close> writes. It reads back a string
  written as a four-byte length (\<open>write_fix_l\<close>) followed by its bytes, for every string shorter
  than \<open>2 ^ 32\<close>; but for every string of at most two bytes that \<open>write_string_with_length\<close> put
  into a new buffer it throws \<open>out_of_range\<close> and leaves the string unread.
\<close>

theorem read_string_format:
  assumes "0 < bs" and "length d < 2 ^ 32"
  shows "(\<exists>ba1 ba2 ba3. write_fix_l (of_nat (length d)) (ByteArray bs jk) = (Inr (), ba1)
        \<and> write_string d ba1 = (Inr (), ba2) \<and> read_string ba2 = (Inr d, ba3))
    \<and> (length d \<le> 2 \<longrightarrow> (\<exists>ba1. write_string_with_length d (ByteArray bs jk) = (Inr (), ba1)
        \<and> read_string ba1 = (Inl Out_of_range, ba1)))"
proof (intro conjI impI)
  let ?ba = "ByteArray bs jk" and ?n = "of_nat (length d) :: u32"
  have wf: "ba_wf ?ba" using assms by (simp add: wf_new)
  obtain ba1 where w1: "write_fix_l ?n ?ba = (Inr (), ba1)" and a1: "appended (rev (to_le 4 ?n)) ?ba ba1"
    using fix_ul.put_appends [OF wf] by blast
  obtain ba2 where w2: "ByteArray_write d ba1 = (Inr (), ba2)" and a2: "appended d ba1 ba2"
    using write_spec [OF appended_wf [OF a1]] by blast
  have a: "appended (rev (to_le 4 ?n) @ d) ?ba ba2" using appended_trans [OF a1 a2] .
  have n: "unat ?n = length d" using assms(2) by (simp add: unat_of_nat)
  have "read_string ba2 = (Inr d, seek (read_pos ba2 + 4 + length d) ba2)"
    using appended_unread [OF wf a] n by (intro read_string_reads appended_wf [OF a]) simp_all
  with w1 w2 show "\<exists>ba1 ba2 ba3. write_fix_l ?n ?ba = (Inr (), ba1)
      \<and> write_string d ba1 = (Inr (), ba2) \<and> read_string ba2 = (Inr d, ba3)"
    by (auto simp: write_string_def)
  assume short: "length d \<le> 2"
  obtain ba3 where w: "write_string_with_length d ?ba = (Inr (), ba3)"
    and a3: "appended (varint_bytes ?n @ d) ?ba ba3"
    using write_string_with_length_appends [OF wf] by blast
  have "unat ?n < 128" using short assms(2) by (simp add: unat_of_nat)
  then have "length (varint_bytes ?n) \<le> 1" by (intro length_varint_bytes) simp_all
  then have "read_string ba3 = (Inl Out_of_range, ba3)"
    using appended_unread [OF wf a3] short by (intro read_string_short appended_wf [OF a3]) simp
  with w show "\<exists>ba1. write_string_with_length d ?ba = (Inr (), ba1)
      \<and> read_string ba1 = (Inl Out_of_range, ba1)" by blast
qed

theorem read_string_format_witness:
  "\<exists>ba1. write_string_with_length [104, 105] (ByteArray 4096 (\<lambda>_ _. 0)) = (Inr (), ba1)
     \<and> read_string ba1 = (Inl Out_of_range, ba1)"
  using read_string_format [of 4096 "[104, 105]" "\<lambda>_ _. 0"] by simp

end
