(* ===== verification/Fiber.thy ===== *)
theory Fiber
  imports Prelude
begin

text \<open>
  Fibers (src/sylar/fiber.h, src/sylar/fiber.cpp): user-level threads with their own or a shared
  stack. All fibers live in one store; every OS thread has a \<open>FiberEnvironment\<close> with the call
  stack of fibers it runs (the top one holds the processor). The machine-level switch
  \<open>swap_context\<close> is the transfer of control to the new fiber: what is modelled of it is which
  context is entered (a fresh one or one saved earlier) and everything \<open>swap_fiber\<close> does before
  and after it, including the copying of shared stacks. The stack pointer at the switch is an
  argument, as an offset into the fiber's stack memory.
\<close>

section \<open>State\<close>

datatype FiberState = INITING | READY | RUNNING | SUSPENDED | SLEEPING | TERMINATED | EXCEPTION

type_synonym fib = nat
type_synonym thread = nat

record FiberMem =
  occupier :: "fib option"
  stack_base :: u64
  stack_buffer :: bytes

record FiberContext =
  reg_rsp :: u64
  reg_rdi :: fib
  rflags :: u64
  at_entry :: bool

record fiber =
  id_num :: nat
  env :: thread
  is_main_fiber :: bool
  fstate :: FiberState
  func :: nat
  func_args :: nat
  ctx :: "FiberContext option"
  use_shared_stack :: bool
  running_mem :: "nat option"
  stack_buffer_top :: nat
  save_buffer :: "bytes option"

record FiberEnvironment =
  call_stack_depth :: nat
  fiber_call_stack :: "fib option list"
  swap_in_fiber :: "fib option"
  swap_out_fiber :: "fib option"

record fibers =
  fiber_of :: "fib \<Rightarrow> fiber"
  mem_of :: "nat \<Rightarrow> FiberMem"
  env_of :: "thread \<Rightarrow> FiberEnvironment"
  fiber_cnt :: "thread \<Rightarrow> nat"
  n_fibers :: nat
  n_mems :: nat

definition MAX_CALL_STACK_DEPTH :: nat where
  "MAX_CALL_STACK_DEPTH = 128"

definition upd_fiber :: "fib \<Rightarrow> (fiber \<Rightarrow> fiber) \<Rightarrow> fibers \<Rightarrow> fibers" where
  "upd_fiber f g s = s\<lparr>fiber_of := (fiber_of s)(f := g (fiber_of s f))\<rparr>"

definition upd_mem :: "nat \<Rightarrow> (FiberMem \<Rightarrow> FiberMem) \<Rightarrow> fibers \<Rightarrow> fibers" where
  "upd_mem k g s = s\<lparr>mem_of := (mem_of s)(k := g (mem_of s k))\<rparr>"

definition upd_env :: "thread \<Rightarrow> (FiberEnvironment \<Rightarrow> FiberEnvironment) \<Rightarrow> fibers \<Rightarrow> fibers" where
  "upd_env thr g s = s\<lparr>env_of := (env_of s)(thr := g (env_of s thr))\<rparr>"

definition get_state :: "fibers \<Rightarrow> fib \<Rightarrow> FiberState" where
  "get_state s f = fstate (fiber_of s f)"

definition set_state :: "FiberState \<Rightarrow> fib \<Rightarrow> fibers \<Rightarrow> fibers" where
  "set_state st f s = upd_fiber f (fstate_update (\<lambda>_. st)) s"

section \<open>Stack memory\<close>

definition save_fiber_stack :: "fib \<Rightarrow> fibers \<Rightarrow> (fibers, unit) outcome" where
  "save_fiber_stack f s =
     (case running_mem (fiber_of s f) of
        None \<Rightarrow> (Inl Null_deref, s)
      | Some k \<Rightarrow>
          let buf = stack_buffer (mem_of s k); top = stack_buffer_top (fiber_of s f)
          in if length buf < top then (Inl Out_of_bounds, s)
             else (Inr (), upd_fiber f (save_buffer_update (\<lambda>_. Some (drop top buf))) s))"

definition change_occupier :: "nat \<Rightarrow> fib \<Rightarrow> fibers \<Rightarrow> (fibers, unit) outcome" where
  "change_occupier k new_occupier s =
     (case occupier (mem_of s k) of
        None \<Rightarrow> (Inr (), upd_mem k (occupier_update (\<lambda>_. Some new_occupier)) s)
      | Some old \<Rightarrow>
          if old = new_occupier then (Inr (), s)
          else if get_state s old \<noteq> SUSPENDED \<and> get_state s old \<noteq> TERMINATED
          then (Inl Assertion_failed, s)
          else and_then (save_fiber_stack old s)
                 (\<lambda>_ s1. (Inr (), upd_mem k (occupier_update (\<lambda>_. Some new_occupier)) s1)))"

text \<open>
  \<open>FiberSharedStackPool\<close>: the vector is filled with \<open>stack_count\<close> copies of one shared pointer.
\<close>

record stack_pool =
  alloc_idx :: nat
  stack_array :: "nat list"

definition FiberMem_new :: "u64 \<Rightarrow> bytes \<Rightarrow> fibers \<Rightarrow> nat \<times> fibers" where
  "FiberMem_new base buf s = (n_mems s,
     s\<lparr>mem_of := (mem_of s)(n_mems s := \<lparr>occupier = None, stack_base = base, stack_buffer = buf\<rparr>),
       n_mems := Suc (n_mems s)\<rparr>)"

definition FiberSharedStackPool :: "nat \<Rightarrow> u64 \<Rightarrow> bytes \<Rightarrow> fibers \<Rightarrow> stack_pool \<times> fibers" where
  "FiberSharedStackPool stack_count base buf s =
     (let (k, s1) = FiberMem_new base buf s
      in (\<lparr>alloc_idx = 0, stack_array = replicate stack_count k\<rparr>, s1))"

definition get_fiber_stack :: "stack_pool \<Rightarrow> cpp_error + nat \<times> stack_pool" where
  "get_fiber_stack p =
     (if alloc_idx p < length (stack_array p)
      then Inr (stack_array p ! alloc_idx p, p\<lparr>alloc_idx := (alloc_idx p + 1) mod length (stack_array p)\<rparr>)
      else Inl Out_of_bounds)"

text \<open>The size of a private stack: at most eight megabytes, whole pages.\<close>

definition own_stack_size :: "u64 \<Rightarrow> u64" where
  "own_stack_size sz =
     (let sz1 = (if 1024 * 1024 * 8 < sz then 1024 * 1024 * 8
                 else if sz = 0 then 128 * 1024 else sz)
      in if sz1 AND 0xFFF \<noteq> 0 then (sz1 AND NOT 0xFFF) + 0x1000 else sz1)"

section \<open>The call stack of a thread\<close>

definition push_fiber :: "fib \<Rightarrow> FiberEnvironment \<Rightarrow> cpp_error + FiberEnvironment" where
  "push_fiber f e =
     (if call_stack_depth e < length (fiber_call_stack e)
      then Inr (e\<lparr>fiber_call_stack := (fiber_call_stack e)[call_stack_depth e := Some f],
                  call_stack_depth := call_stack_depth e + 1\<rparr>)
      else Inl Out_of_bounds)"

definition pop_fiber :: "FiberEnvironment \<Rightarrow> FiberEnvironment" where
  "pop_fiber e =
     (if call_stack_depth e \<le> 0 then e
      else e\<lparr>call_stack_depth := call_stack_depth e - 1,
             fiber_call_stack := (fiber_call_stack e)[call_stack_depth e - 1 := None]\<rparr>)"

definition get_current_fiber :: "FiberEnvironment \<Rightarrow> cpp_error + fib" where
  "get_current_fiber e =
     (if \<not> 0 < call_stack_depth e then Inl Assertion_failed
      else if length (fiber_call_stack e) < call_stack_depth e then Inl Out_of_bounds
      else case fiber_call_stack e ! (call_stack_depth e - 1) of None \<Rightarrow> Inl Null_deref | Some f \<Rightarrow> Inr f)"

section \<open>Creation\<close>

definition make_context :: "fib \<Rightarrow> fibers \<Rightarrow> (fibers, unit) outcome" where
  "make_context f s =
     (case running_mem (fiber_of s f) of
        None \<Rightarrow> (Inl Null_deref, s)
      | Some k \<Rightarrow>
          let sp = (stack_base (mem_of s k) + of_nat (length (stack_buffer (mem_of s k))) - 8)
                     AND 0xFFFFFFFFFFFFFFF0
          in (Inr (), set_state READY f (upd_fiber f (ctx_update (\<lambda>_. Some \<lparr>reg_rsp = sp, reg_rdi = f,
                 rflags = 0x200, at_entry = True\<rparr>)) s)))"

definition new_fiber :: "fiber \<Rightarrow> fibers \<Rightarrow> fib \<times> fibers" where
  "new_fiber fb s = (n_fibers s,
     s\<lparr>fiber_of := (fiber_of s)(n_fibers s := fb\<lparr>id_num := fiber_cnt s (env fb)\<rparr>),
       fiber_cnt := (fiber_cnt s)(env fb := fiber_cnt s (env fb) + 1), n_fibers := Suc (n_fibers s)\<rparr>)"

definition blank_fiber :: "thread \<Rightarrow> fiber" where
  "blank_fiber thr = \<lparr>id_num = 0, env = thr, is_main_fiber = False, fstate = INITING, func = 0, func_args = 0,
     ctx = None, use_shared_stack = False, running_mem = None, stack_buffer_top = 0, save_buffer = None\<rparr>"

definition Fiber_main :: "thread \<Rightarrow> fibers \<Rightarrow> fib \<times> fibers" where
  "Fiber_main thr s = new_fiber ((blank_fiber thr)\<lparr>is_main_fiber := True, fstate := RUNNING\<rparr>) s"

text \<open>A fiber with a private stack; \<open>mem\<close> supplies the address and the raw memory of a given size.\<close>

definition Fiber_own ::
    "(u64 \<Rightarrow> u64 \<times> bytes) \<Rightarrow> thread \<Rightarrow> nat \<Rightarrow> nat \<Rightarrow> u64 \<Rightarrow> fibers \<Rightarrow> fib \<times> fibers" where
  "Fiber_own mem thr fn a stack_size s =
     (let (base, buf) = mem (own_stack_size stack_size);
          (k, s1) = FiberMem_new base buf s
      in new_fiber ((blank_fiber thr)\<lparr>func := fn, func_args := a, running_mem := Some k\<rparr>) s1)"

definition Fiber_shared ::
    "thread \<Rightarrow> nat \<Rightarrow> nat \<Rightarrow> stack_pool \<Rightarrow> fibers \<Rightarrow> cpp_error + fib \<times> stack_pool \<times> fibers" where
  "Fiber_shared thr fn a pool s =
     (case get_fiber_stack pool of
        Inl e \<Rightarrow> Inl e
      | Inr (k, pool1) \<Rightarrow>
          let (f, s1) = new_fiber ((blank_fiber thr)\<lparr>func := fn, func_args := a, use_shared_stack := True,
                                     running_mem := Some k\<rparr>) s
          in Inr (f, pool1, s1))"

definition FiberEnvironment_new :: "thread \<Rightarrow> fibers \<Rightarrow> fibers" where
  "FiberEnvironment_new thr s =
     (let (f, s1) = Fiber_main thr s;
          e = \<lparr>call_stack_depth = 0, fiber_call_stack = replicate MAX_CALL_STACK_DEPTH None,
               swap_in_fiber = None, swap_out_fiber = None\<rparr>
      in case push_fiber f e of Inl _ \<Rightarrow> s1 | Inr e1 \<Rightarrow> upd_env thr (\<lambda>_. e1) s1)"

definition Fiber_reset :: "nat \<Rightarrow> nat \<Rightarrow> fib \<Rightarrow> fibers \<Rightarrow> bool \<times> fibers" where
  "Fiber_reset fn a f s =
     (if is_main_fiber (fiber_of s f) \<or> running_mem (fiber_of s f) = None then (False, s)
      else (True, set_state INITING f
              (upd_fiber f (\<lambda>b. b\<lparr>func := fn, func_args := a, save_buffer := None\<rparr>) s)))"

definition set_env :: "thread \<Rightarrow> fib \<Rightarrow> fibers \<Rightarrow> (fibers, unit) outcome" where
  "set_env thr f s =
     (if get_state s f = RUNNING then (Inl Assertion_failed, s)
      else (Inr (), upd_fiber f (env_update (\<lambda>_. thr)) s))"

section \<open>Switching\<close>

text \<open>
  \<open>swap_fiber\<close> up to \<open>swap_context\<close>; then, when the new fiber was suspended inside an earlier
  \<open>swap_fiber\<close>, the rest of that call, which copies its saved stack back and clears the
  environment's two pointers. A fiber that starts enters \<open>fiber_func_wrapper\<close> instead.
\<close>

definition swap_out_part :: "thread \<Rightarrow> nat \<Rightarrow> fib \<Rightarrow> fib \<Rightarrow> fibers \<Rightarrow> (fibers, unit) outcome" where
  "swap_out_part thr rsp old new s =
     (let s1 = upd_fiber old (stack_buffer_top_update (\<lambda>_. rsp)) s
      in if use_shared_stack (fiber_of s1 new)
         then case running_mem (fiber_of s1 new) of
                None \<Rightarrow> (Inl Null_deref, s1)
              | Some k \<Rightarrow>
                  change_occupier k new
                    (upd_env thr (\<lambda>e. e\<lparr>swap_in_fiber := Some new, swap_out_fiber := occupier (mem_of s1 k)\<rparr>) s1)
         else (Inr (), upd_env thr (\<lambda>e. e\<lparr>swap_out_fiber := None, swap_in_fiber := None\<rparr>) s1))"

definition swap_in_part :: "thread \<Rightarrow> fibers \<Rightarrow> fibers" where
  "swap_in_part thr s =
     (let e = env_of s thr;
          s1 = (case (swap_in_fiber e, swap_out_fiber e) of
                  (Some b_new, Some b_old) \<Rightarrow>
                    if b_new \<noteq> b_old
                    then case (save_buffer (fiber_of s b_new), running_mem (fiber_of s b_new)) of
                           (Some buf, Some k) \<Rightarrow>
                             if 0 < length buf
                             then upd_mem k (stack_buffer_update (overlay (stack_buffer_top (fiber_of s b_new)) buf)) s
                             else s
                         | _ \<Rightarrow> s
                    else s
                | _ \<Rightarrow> s)
      in upd_env thr (\<lambda>e. e\<lparr>swap_in_fiber := None, swap_out_fiber := None\<rparr>) s1)"

text \<open>
  The half of \<open>swap_context\<close> that saves the old context. It does not store \<open>rdi\<close>; the other
  registers belong to the running code.
\<close>

definition save_context :: "nat \<Rightarrow> FiberContext option \<Rightarrow> FiberContext option" where
  "save_context rsp c = Some (case c of
       None \<Rightarrow> \<lparr>reg_rsp = of_nat rsp, reg_rdi = 0, rflags = 0, at_entry = False\<rparr>
     | Some r \<Rightarrow> r\<lparr>reg_rsp := of_nat rsp, at_entry := False\<rparr>)"

definition enter_wrapper :: "fib \<Rightarrow> fibers \<Rightarrow> fibers" where
  "enter_wrapper f s = set_state RUNNING f s"

definition swap_fiber :: "thread \<Rightarrow> nat \<Rightarrow> fib \<Rightarrow> fib \<Rightarrow> fibers \<Rightarrow> (fibers, unit) outcome" where
  "swap_fiber thr rsp old new s =
     and_then (swap_out_part thr rsp old new s) (\<lambda>_ s1.
       let s2 = upd_fiber old (ctx_update (save_context rsp)) s1
       in case ctx (fiber_of s2 new) of
            None \<Rightarrow> (Inl Null_deref, s2)
          | Some c \<Rightarrow> (Inr (), if at_entry c then enter_wrapper (reg_rdi c) s2 else swap_in_part thr s2))"

definition fiber_resume :: "thread \<Rightarrow> nat \<Rightarrow> fib \<Rightarrow> fibers \<Rightarrow> (fibers, unit) outcome" where
  "fiber_resume thr rsp f s =
     (if get_state s f = TERMINATED \<or> get_state s f = EXCEPTION then (Inr (), s)
      else and_then (if get_state s f = INITING then make_context f s else (Inr (), s)) (\<lambda>_ s1.
        let e = env_of s1 (env (fiber_of s1 f))
        in case get_current_fiber e of
             Inl er \<Rightarrow> (Inl er, s1)
           | Inr cur \<Rightarrow>
               (case push_fiber f e of
                  Inl er \<Rightarrow> (Inl er, s1)
                | Inr e1 \<Rightarrow>
                    swap_fiber thr rsp cur f
                      (set_state SUSPENDED cur (set_state RUNNING f
                        (upd_env (env (fiber_of s1 f)) (\<lambda>_. e1) s1))))))"

text \<open>\<open>fiber_yield\<close> and \<open>fiber_sleep\<close> differ in the state they leave the current fiber in.\<close>

definition leave :: "FiberState \<Rightarrow> thread \<Rightarrow> nat \<Rightarrow> fibers \<Rightarrow> (fibers, unit) outcome" where
  "leave st thr rsp s =
     (case get_current_fiber (env_of s thr) of
        Inl er \<Rightarrow> (Inl er, s)
      | Inr cur \<Rightarrow>
          let s1 = upd_env thr pop_fiber s
          in case get_current_fiber (env_of s1 thr) of
               Inl er \<Rightarrow> (Inl er, s1)
             | Inr nxt \<Rightarrow>
                 let s2 = (if get_state s1 cur = RUNNING then set_state st cur s1 else s1)
                 in if get_state s2 nxt \<noteq> SUSPENDED then (Inl Assertion_failed, s2)
                    else swap_fiber thr rsp cur nxt (set_state RUNNING nxt s2))"

definition fiber_yield :: "thread \<Rightarrow> nat \<Rightarrow> fibers \<Rightarrow> (fibers, unit) outcome" where
  "fiber_yield = leave SUSPENDED"

definition fiber_sleep :: "thread \<Rightarrow> nat \<Rightarrow> fibers \<Rightarrow> (fibers, unit) outcome" where
  "fiber_sleep = leave SLEEPING"

definition fiber_wakeup :: "fib \<Rightarrow> fibers \<Rightarrow> fibers" where
  "fiber_wakeup f s = (if get_state s f = SLEEPING then set_state SUSPENDED f s else s)"

text \<open>The end of \<open>fiber_func_wrapper\<close>: the function returned, or left with an exception.\<close>

definition fiber_func_wrapper :: "bool \<Rightarrow> thread \<Rightarrow> nat \<Rightarrow> fib \<Rightarrow> fibers \<Rightarrow> (fibers, unit) outcome" where
  "fiber_func_wrapper threw thr rsp f s =
     fiber_yield thr rsp (set_state (if threw then EXCEPTION else TERMINATED) f s)"

definition get_this :: "thread \<Rightarrow> fibers \<Rightarrow> cpp_error + fib" where
  "get_this thr s = get_current_fiber (env_of s thr)"

definition get_fiber_id :: "thread \<Rightarrow> fibers \<Rightarrow> cpp_error + nat" where
  "get_fiber_id thr s = map_sum id (\<lambda>f. id_num (fiber_of s f)) (get_this thr s)"

section \<open>The call stack as a list\<close>

definition env_ok :: "FiberEnvironment \<Rightarrow> bool" where
  "env_ok e \<longleftrightarrow> length (fiber_call_stack e) = MAX_CALL_STACK_DEPTH \<and> 0 < call_stack_depth e
     \<and> call_stack_depth e \<le> MAX_CALL_STACK_DEPTH
     \<and> (\<forall>i < call_stack_depth e. fiber_call_stack e ! i \<noteq> None)"

definition calls :: "FiberEnvironment \<Rightarrow> fib list" where
  "calls e = map the (take (call_stack_depth e) (fiber_call_stack e))"

lemma length_calls: "env_ok e \<Longrightarrow> length (calls e) = call_stack_depth e"
  by (simp add: calls_def env_ok_def)

lemma calls_nonempty: "env_ok e \<Longrightarrow> calls e \<noteq> []"
  using length_calls [of e] by (auto simp: env_ok_def)

lemma calls_swap [simp]:
  "calls (e\<lparr>swap_in_fiber := a, swap_out_fiber := b\<rparr>) = calls e"
  "calls (e\<lparr>swap_out_fiber := b, swap_in_fiber := a\<rparr>) = calls e"
  "env_ok (e\<lparr>swap_in_fiber := a, swap_out_fiber := b\<rparr>) = env_ok e"
  "env_ok (e\<lparr>swap_out_fiber := b, swap_in_fiber := a\<rparr>) = env_ok e"
  by (simp_all add: calls_def env_ok_def)

lemma current_eq:
  assumes "env_ok e"
  shows "get_current_fiber e = Inr (last (calls e))"
proof -
  have "calls e ! (call_stack_depth e - 1) = the (fiber_call_stack e ! (call_stack_depth e - 1))"
    using assms by (auto simp: calls_def env_ok_def)
  then have l: "last (calls e) = the (fiber_call_stack e ! (call_stack_depth e - 1))"
    using last_conv_nth [OF calls_nonempty [OF assms]] length_calls [OF assms] by simp
  have "fiber_call_stack e ! (call_stack_depth e - 1) \<noteq> None" using assms by (simp add: env_ok_def)
  then obtain f where "fiber_call_stack e ! (call_stack_depth e - 1) = Some f" by blast
  with l assms show ?thesis by (simp add: get_current_fiber_def env_ok_def)
qed

lemma push_eq:
  assumes "env_ok e" and "length (calls e) < MAX_CALL_STACK_DEPTH"
  shows "\<exists>e1. push_fiber f e = Inr e1 \<and> env_ok e1 \<and> calls e1 = calls e @ [f]"
  using assms by (auto simp: push_fiber_def env_ok_def calls_def take_Suc_conv_app_nth nth_list_update less_Suc_eq)

lemma pop_eq:
  assumes "env_ok e" and "1 < length (calls e)"
  shows "env_ok (pop_fiber e)" "calls (pop_fiber e) = butlast (calls e)"
proof -
  have d: "call_stack_depth e = Suc (call_stack_depth e - 1)" "1 < call_stack_depth e"
    using assms length_calls [of e] by simp_all
  show "env_ok (pop_fiber e)" using assms d by (auto simp: pop_fiber_def env_ok_def nth_list_update)
  show "calls (pop_fiber e) = butlast (calls e)"
    using assms d by (auto simp: pop_fiber_def calls_def env_ok_def butlast_take simp flip: map_butlast)
qed

lemma upd_simps [simp]:
  "fiber_of (upd_fiber f g s) = (fiber_of s)(f := g (fiber_of s f))" "mem_of (upd_fiber f g s) = mem_of s"
  "env_of (upd_fiber f g s) = env_of s" "n_fibers (upd_fiber f g s) = n_fibers s"
  "fiber_of (upd_mem k h s) = fiber_of s" "mem_of (upd_mem k h s) = (mem_of s)(k := h (mem_of s k))"
  "env_of (upd_mem k h s) = env_of s" "n_fibers (upd_mem k h s) = n_fibers s"
  "fiber_of (upd_env t j s) = fiber_of s" "mem_of (upd_env t j s) = mem_of s"
  "env_of (upd_env t j s) = (env_of s)(t := j (env_of s t))" "n_fibers (upd_env t j s) = n_fibers s"
  "n_mems (upd_fiber f g s) = n_mems s" "n_mems (upd_mem k h s) = n_mems s" "n_mems (upd_env t j s) = n_mems s"
  by (simp_all add: upd_fiber_def upd_mem_def upd_env_def)

lemma set_state_simps [simp]:
  "fiber_of (set_state st f s) = (fiber_of s)(f := (fiber_of s f)\<lparr>fstate := st\<rparr>)"
  "mem_of (set_state st f s) = mem_of s" "env_of (set_state st f s) = env_of s"
  "n_fibers (set_state st f s) = n_fibers s" "n_mems (set_state st f s) = n_mems s"
  by (simp_all add: set_state_def)

lemma set_state_same:
  assumes "get_state s f = st"
  shows "set_state st f s = s"
proof -
  have "(fiber_of s f)\<lparr>fstate := st\<rparr> = fiber_of s f" using assms by (cases "fiber_of s f") (simp add: get_state_def)
  then show ?thesis by (cases s) (simp add: set_state_def upd_fiber_def)
qed

section \<open>Invariant\<close>

text \<open>
  What holds between two switches of a thread: its call stack is well formed and without
  repetition, the top fiber runs, the fibers below it are suspended, no other fiber runs;
  every fiber that can be continued has a saved context and one that can be started has a
  stack; the running fiber occupies its shared stack, and a fiber that was evicted from its
  shared stack keeps a copy that ends at the bottom of the stack.
\<close>

abbreviation cur :: "thread \<Rightarrow> fibers \<Rightarrow> fib" where
  "cur thr s \<equiv> last (calls (env_of s thr))"

definition control_ok :: "thread \<Rightarrow> fibers \<Rightarrow> bool" where
  "control_ok thr s \<longleftrightarrow> env_ok (env_of s thr) \<and> distinct (calls (env_of s thr))
     \<and> (\<forall>f \<in> set (calls (env_of s thr)). f < n_fibers s)
     \<and> get_state s (cur thr s) = RUNNING
     \<and> (\<forall>f \<in> set (butlast (calls (env_of s thr))). get_state s f = SUSPENDED)
     \<and> (\<forall>f < n_fibers s. env (fiber_of s f) = thr \<and> (f \<noteq> cur thr s \<longrightarrow> get_state s f \<noteq> RUNNING))"

definition contexts_ok :: "thread \<Rightarrow> fibers \<Rightarrow> bool" where
  "contexts_ok thr s \<longleftrightarrow> (\<forall>f < n_fibers s.
     (f \<noteq> cur thr s \<and> get_state s f \<in> {SUSPENDED, SLEEPING} \<longrightarrow>
        (\<exists>c. ctx (fiber_of s f) = Some c \<and> \<not> at_entry c)
        \<and> (\<forall>k. use_shared_stack (fiber_of s f) \<and> running_mem (fiber_of s f) = Some k
             \<and> occupier (mem_of s k) \<noteq> Some f \<longrightarrow> save_buffer (fiber_of s f) \<noteq> None))
     \<and> (get_state s f = INITING \<or> use_shared_stack (fiber_of s f) \<longrightarrow> running_mem (fiber_of s f) \<noteq> None)
     \<and> get_state s f \<noteq> READY)"

text \<open>The stack memories, when the top of the stack of \<open>x\<close> is not recorded because it is running.\<close>

definition occupants_ok :: "(fib \<Rightarrow> bool) \<Rightarrow> fibers \<Rightarrow> bool" where
  "occupants_ok exempt s \<longleftrightarrow> (\<forall>k o'. occupier (mem_of s k) = Some o' \<longrightarrow>
     o' < n_fibers s \<and> running_mem (fiber_of s o') = Some k \<and> use_shared_stack (fiber_of s o')
     \<and> (\<not> exempt o' \<longrightarrow> stack_buffer_top (fiber_of s o') \<le> length (stack_buffer (mem_of s k))))"

definition saved_ok :: "fibers \<Rightarrow> bool" where
  "saved_ok s \<longleftrightarrow> (\<forall>f < n_fibers s. \<forall>b. save_buffer (fiber_of s f) = Some b \<longrightarrow>
     use_shared_stack (fiber_of s f) \<and> (\<exists>k. running_mem (fiber_of s f) = Some k \<and> occupier (mem_of s k) \<noteq> None
       \<and> (occupier (mem_of s k) \<noteq> Some f \<longrightarrow>
            stack_buffer_top (fiber_of s f) + length b = length (stack_buffer (mem_of s k)))))"

definition occupies :: "fibers \<Rightarrow> fib \<Rightarrow> bool" where
  "occupies s x \<longleftrightarrow> (\<forall>k. use_shared_stack (fiber_of s x) \<and> running_mem (fiber_of s x) = Some k
     \<longrightarrow> occupier (mem_of s k) = Some x)"

definition mems_ok :: "fibers \<Rightarrow> bool" where
  "mems_ok s \<longleftrightarrow> (\<forall>f < n_fibers s. \<forall>k. running_mem (fiber_of s f) = Some k \<longrightarrow> k < n_mems s)"

definition fib_inv :: "thread \<Rightarrow> fibers \<Rightarrow> bool" where
  "fib_inv thr s \<longleftrightarrow> control_ok thr s \<and> contexts_ok thr s
     \<and> occupants_ok (\<lambda>x. x = cur thr s) s \<and> saved_ok s \<and> occupies s (cur thr s) \<and> mems_ok s"

text \<open>
  The part of a stack that belongs to a fiber that is not running: in place while it still
  occupies the memory, in the saved copy otherwise.
\<close>

definition frame :: "fibers \<Rightarrow> fib \<Rightarrow> bytes" where
  "frame s f = (case running_mem (fiber_of s f) of
     None \<Rightarrow> []
   | Some k \<Rightarrow> if occupier (mem_of s k) = Some f
       then drop (stack_buffer_top (fiber_of s f)) (stack_buffer (mem_of s k))
       else (case save_buffer (fiber_of s f) of None \<Rightarrow> [] | Some b \<Rightarrow> b))"

text \<open>Whether the stack of \<open>f\<close> is its own, free, or held by a fiber that may be evicted.\<close>

definition can_take :: "fibers \<Rightarrow> fib \<Rightarrow> bool" where
  "can_take s f \<longleftrightarrow> (\<forall>k o'. use_shared_stack (fiber_of s f) \<and> running_mem (fiber_of s f) = Some k
     \<and> occupier (mem_of s k) = Some o' \<longrightarrow> o' = f \<or> get_state s o' \<in> {SUSPENDED, TERMINATED})"

text \<open>What a switch leaves alone: everything but the stacks, contexts and switch pointers.\<close>

definition same_control :: "fibers \<Rightarrow> fibers \<Rightarrow> bool" where
  "same_control s s' \<longleftrightarrow> n_fibers s' = n_fibers s \<and> n_mems s' = n_mems s \<and> (\<forall>t. calls (env_of s' t) = calls (env_of s t)
       \<and> env_ok (env_of s' t) = env_ok (env_of s t))
     \<and> (\<forall>f. fstate (fiber_of s' f) = fstate (fiber_of s f) \<and> env (fiber_of s' f) = env (fiber_of s f)
       \<and> use_shared_stack (fiber_of s' f) = use_shared_stack (fiber_of s f)
       \<and> running_mem (fiber_of s' f) = running_mem (fiber_of s f)
       \<and> is_main_fiber (fiber_of s' f) = is_main_fiber (fiber_of s f)
       \<and> func (fiber_of s' f) = func (fiber_of s f) \<and> func_args (fiber_of s' f) = func_args (fiber_of s f))"

lemma same_control_trans: "same_control s t \<Longrightarrow> same_control t u \<Longrightarrow> same_control s u"
  by (simp add: same_control_def)

lemma same_control_state: "same_control s t \<Longrightarrow> get_state t f = get_state s f"
  by (simp add: same_control_def get_state_def)

lemma change_occupier_spec:
  assumes occ: "occupants_ok (\<lambda>_. False) s" and sav: "saved_ok s"
    and new: "running_mem (fiber_of s new) = Some k" "use_shared_stack (fiber_of s new)" "new < n_fibers s"
    and take: "can_take s new"
  shows "\<exists>s'. change_occupier k new s = (Inr (), s') \<and> same_control s s'
    \<and> env_of s' = env_of s \<and> (\<forall>f. ctx (fiber_of s' f) = ctx (fiber_of s f))
    \<and> (\<forall>f. stack_buffer_top (fiber_of s' f) = stack_buffer_top (fiber_of s f))
    \<and> (\<forall>j. stack_buffer (mem_of s' j) = stack_buffer (mem_of s j))
    \<and> (\<forall>j. occupier (mem_of s' j) = (if j = k then Some new else occupier (mem_of s j)))
    \<and> (\<forall>f. save_buffer (fiber_of s' f) =
         (if occupier (mem_of s k) = Some f \<and> f \<noteq> new then Some (frame s f) else save_buffer (fiber_of s f)))"
proof (cases "occupier (mem_of s k)")
  case None
  then show ?thesis by (simp add: change_occupier_def same_control_def)
next
  case (Some o')
  note o' = occ [unfolded occupants_ok_def, rule_format, OF Some]
  show ?thesis
  proof (cases "o' = new")
    case True
    with Some show ?thesis by (auto simp: change_occupier_def same_control_def)
  next
    case False
    have st: "get_state s o' = SUSPENDED \<or> get_state s o' = TERMINATED"
      using take new(1,2) Some False by (auto simp: can_take_def)
    have fr: "frame s o' = drop (stack_buffer_top (fiber_of s o')) (stack_buffer (mem_of s k))"
      using o' Some by (simp add: frame_def)
    show ?thesis using Some False st o' fr
      by (auto simp: change_occupier_def save_fiber_stack_def same_control_def Let_def)
  qed
qed


text \<open>The state after \<open>swap_fiber\<close> has recorded the stack pointer of the fiber that is left.\<close>

lemma record_top:
  assumes occ: "occupants_ok (\<lambda>x. x = old) s" and sav: "saved_ok s" and "occupies s old"
    and rsp: "\<forall>k. running_mem (fiber_of s old) = Some k \<longrightarrow> rsp \<le> length (stack_buffer (mem_of s k))"
  defines "s1 \<equiv> upd_fiber old (stack_buffer_top_update (\<lambda>_. rsp)) s"
  shows "occupants_ok (\<lambda>_. False) s1" "saved_ok s1" "same_control s s1"
    "f \<noteq> old \<Longrightarrow> frame s1 f = frame s f"
    "use_shared_stack (fiber_of s old) \<Longrightarrow> running_mem (fiber_of s old) = Some k \<Longrightarrow>
       frame s1 old = drop rsp (stack_buffer (mem_of s k))"
    "can_take s new \<Longrightarrow> can_take s1 new"
proof -
  show "occupants_ok (\<lambda>_. False) s1" using occ rsp by (fastforce simp: occupants_ok_def s1_def)
  show "saved_ok s1" using sav assms(3) by (fastforce simp: saved_ok_def s1_def occupies_def)
  show "same_control s s1" by (simp add: same_control_def s1_def)
  show "frame s1 f = frame s f" if "f \<noteq> old" using that by (simp add: frame_def s1_def split: option.split)
  show "frame s1 old = drop rsp (stack_buffer (mem_of s k))"
    if "use_shared_stack (fiber_of s old)" "running_mem (fiber_of s old) = Some k"
    using that assms(3) by (simp add: frame_def s1_def occupies_def)
  show "can_take s1 new" if "can_take s new"
    using that by (auto simp: can_take_def s1_def get_state_def)
qed

text \<open>The context that \<open>swap_context\<close> saves touches nothing else.\<close>

lemma save_ctx_frame [simp]:
  "frame (upd_fiber f (ctx_update g) s) = frame s" "saved_ok (upd_fiber f (ctx_update g) s) = saved_ok s"
  "occupants_ok ex (upd_fiber f (ctx_update g) s) = occupants_ok ex s"
  "occupies (upd_fiber f (ctx_update g) s) x = occupies s x"
  "same_control t (upd_fiber f (ctx_update g) s) = same_control t s"
  by (auto simp: frame_def saved_ok_def occupants_ok_def occupies_def same_control_def fun_eq_iff
      split: option.split)

lemma env_frame [simp]:
  "frame (upd_env t j s) = frame s" "saved_ok (upd_env t j s) = saved_ok s"
  "occupants_ok ex (upd_env t j s) = occupants_ok ex s" "occupies (upd_env t j s) x = occupies s x"
  "can_take (upd_env t j s) x = can_take s x"
  by (auto simp: frame_def saved_ok_def occupants_ok_def occupies_def can_take_def get_state_def fun_eq_iff
      split: option.split)

text \<open>
  Taking over a shared stack: whoever held it keeps its frame in a copy, and nobody else's
  frame changes.
\<close>

lemma take_over:
  assumes occ: "occupants_ok (\<lambda>_. False) s" and sav: "saved_ok s"
    and new: "running_mem (fiber_of s new) = Some k" "use_shared_stack (fiber_of s new)" "new < n_fibers s"
    and take: "can_take s new"
  shows "\<exists>s'. change_occupier k new s = (Inr (), s') \<and> same_control s s' \<and> env_of s' = env_of s
    \<and> occupants_ok (\<lambda>x. x = new) s' \<and> saved_ok s' \<and> occupies s' new
    \<and> (\<forall>f. ctx (fiber_of s' f) = ctx (fiber_of s f)) \<and> save_buffer (fiber_of s' new) = save_buffer (fiber_of s new)
    \<and> (\<forall>f. stack_buffer_top (fiber_of s' f) = stack_buffer_top (fiber_of s f))
    \<and> (\<forall>j. stack_buffer (mem_of s' j) = stack_buffer (mem_of s j))
    \<and> (\<forall>f. f \<noteq> new \<longrightarrow> frame s' f = frame s f)
    \<and> (\<forall>j. occupier (mem_of s' j) = (if j = k then Some new else occupier (mem_of s j)))
    \<and> (\<forall>f. save_buffer (fiber_of s f) \<noteq> None \<or> occupier (mem_of s k) = Some f \<and> f \<noteq> new
         \<longrightarrow> save_buffer (fiber_of s' f) \<noteq> None)"
proof -
  obtain s' where eq: "change_occupier k new s = (Inr (), s')" and ctl: "same_control s s'"
    and e: "env_of s' = env_of s" and c: "\<And>f. ctx (fiber_of s' f) = ctx (fiber_of s f)"
    and top: "\<And>f. stack_buffer_top (fiber_of s' f) = stack_buffer_top (fiber_of s f)"
    and buf: "\<And>j. stack_buffer (mem_of s' j) = stack_buffer (mem_of s j)"
    and o': "\<And>j. occupier (mem_of s' j) = (if j = k then Some new else occupier (mem_of s j))"
    and sb: "\<And>f. save_buffer (fiber_of s' f) =
        (if occupier (mem_of s k) = Some f \<and> f \<noteq> new then Some (frame s f) else save_buffer (fiber_of s f))"
    using change_occupier_spec [OF occ sav new take] by blast
  have n: "n_fibers s' = n_fibers s" and rm: "\<And>f. running_mem (fiber_of s' f) = running_mem (fiber_of s f)"
    and sh: "\<And>f. use_shared_stack (fiber_of s' f) = use_shared_stack (fiber_of s f)"
    using ctl by (simp_all add: same_control_def)
  have "occupants_ok (\<lambda>x. x = new) s'"
    using occ new by (auto simp: occupants_ok_def o' n rm sh top buf split: if_splits)
  moreover have "saved_ok s'"
    unfolding saved_ok_def
  proof (intro allI impI)
    fix f b assume f: "f < n_fibers s'" "save_buffer (fiber_of s' f) = Some b"
    show "use_shared_stack (fiber_of s' f) \<and> (\<exists>k. running_mem (fiber_of s' f) = Some k \<and> occupier (mem_of s' k) \<noteq> None
       \<and> (occupier (mem_of s' k) \<noteq> Some f \<longrightarrow>
            stack_buffer_top (fiber_of s' f) + length b = length (stack_buffer (mem_of s' k))))"
    proof (cases "occupier (mem_of s k) = Some f \<and> f \<noteq> new")
      case True
      with occ f(2) show ?thesis
        by (auto simp: occupants_ok_def sh rm o' top buf sb frame_def)
    next
      case False
      with f n sb have b: "save_buffer (fiber_of s f) = Some b" "f < n_fibers s" by auto
      with sav obtain j where j: "running_mem (fiber_of s f) = Some j" "use_shared_stack (fiber_of s f)"
        "occupier (mem_of s j) \<noteq> None" "occupier (mem_of s j) \<noteq> Some f \<longrightarrow>
            stack_buffer_top (fiber_of s f) + length b = length (stack_buffer (mem_of s j))"
        unfolding saved_ok_def by blast
      with False show ?thesis by (auto simp: sh rm o' top buf)
    qed
  qed
  moreover have "occupies s' new" using new(1) by (simp add: occupies_def rm o')
  moreover have "frame s' f = frame s f" if "f \<noteq> new" for f
    using that by (auto simp: frame_def rm o' top buf sb split: option.splits)
  moreover have "save_buffer (fiber_of s f) \<noteq> None \<or> occupier (mem_of s k) = Some f \<and> f \<noteq> new
      \<longrightarrow> save_buffer (fiber_of s' f) \<noteq> None" for f using sb by auto
  moreover have "save_buffer (fiber_of s' new) = save_buffer (fiber_of s new)" using sb by simp
  ultimately show ?thesis using eq ctl e c top buf o' by blast
qed

text \<open>Continuing a fiber that has taken over its stack: its saved copy is put back in place.\<close>

lemma overlay_none: "stack_buffer_update (overlay p []) m = m"
  by (cases m) (simp add: overlay_def)

lemma put_back:
  assumes occ: "occupants_ok (\<lambda>x. x = new) s" and sav: "saved_ok s" and own: "occupies s new"
    and ptr: "swap_in_fiber (env_of s thr) = (if use_shared_stack (fiber_of s new) then Some new else None)"
    and b: "\<forall>o' k. use_shared_stack (fiber_of s new) \<and> running_mem (fiber_of s new) = Some k \<and>
        swap_out_fiber (env_of s thr) = Some o' \<and> o' \<noteq> new \<longrightarrow>
        (\<exists>b. save_buffer (fiber_of s new) = Some b \<and> fr = b
          \<and> stack_buffer_top (fiber_of s new) + length b = length (stack_buffer (mem_of s k)))"
    and same: "(swap_out_fiber (env_of s thr) = None \<or> swap_out_fiber (env_of s thr) = Some new)
        \<and> use_shared_stack (fiber_of s new) \<longrightarrow> fr = frame s new"
    and mem: "use_shared_stack (fiber_of s new) \<longrightarrow> running_mem (fiber_of s new) \<noteq> None"
  shows "same_control s (swap_in_part thr s) \<and> fiber_of (swap_in_part thr s) = fiber_of s
    \<and> (\<forall>k. occupier (mem_of (swap_in_part thr s) k) = occupier (mem_of s k))
    \<and> (\<forall>k. length (stack_buffer (mem_of (swap_in_part thr s) k)) = length (stack_buffer (mem_of s k)))
    \<and> (\<forall>f. f \<noteq> new \<longrightarrow> frame (swap_in_part thr s) f = frame s f)
    \<and> (use_shared_stack (fiber_of s new) \<longrightarrow> frame (swap_in_part thr s) new = fr)"
proof (cases "use_shared_stack (fiber_of s new) \<and>
    (\<exists>o'. swap_out_fiber (env_of s thr) = Some o' \<and> o' \<noteq> new)")
  case False
  have "swap_in_part thr s = upd_env thr (\<lambda>e. e\<lparr>swap_in_fiber := None, swap_out_fiber := None\<rparr>) s"
    using False ptr by (auto simp: swap_in_part_def Let_def split: option.splits)
  moreover have "use_shared_stack (fiber_of s new) \<Longrightarrow> fr = frame s new"
    using False same by (cases "swap_out_fiber (env_of s thr)") auto
  ultimately show ?thesis by (simp add: same_control_def)
next
  case True
  then obtain o' where o': "swap_out_fiber (env_of s thr) = Some o'" "o' \<noteq> new" by blast
  obtain k where k: "running_mem (fiber_of s new) = Some k" using True mem by blast
  obtain b where b': "save_buffer (fiber_of s new) = Some b" "fr = b"
    and len: "stack_buffer_top (fiber_of s new) + length b = length (stack_buffer (mem_of s k))"
    using b k o' True by blast
  have ok: "occupier (mem_of s k) = Some new" using own True k by (simp add: occupies_def)
  let ?m = "overlay (stack_buffer_top (fiber_of s new)) b"
  have eq: "swap_in_part thr s = upd_env thr (\<lambda>e. e\<lparr>swap_in_fiber := None, swap_out_fiber := None\<rparr>)
      (upd_mem k (stack_buffer_update ?m) s)"
    using True ptr o' k b' by (auto simp: swap_in_part_def Let_def upd_mem_def overlay_none)
  have "drop (stack_buffer_top (fiber_of s new)) (?m (stack_buffer (mem_of s k))) = b"
    using len by (simp add: overlay_def)
  then have "frame (swap_in_part thr s) new = fr" using k ok b' by (simp add: eq frame_def)
  moreover have "frame (swap_in_part thr s) f = frame s f" if "f \<noteq> new" for f
    using that ok by (simp add: eq frame_def split: option.split)
  ultimately show ?thesis using len by (simp add: eq same_control_def)
qed

lemma same_stacks:
  assumes "fiber_of s' = fiber_of s" and "n_fibers s' = n_fibers s"
    and "\<And>k. occupier (mem_of s' k) = occupier (mem_of s k)"
    and "\<And>k. length (stack_buffer (mem_of s' k)) = length (stack_buffer (mem_of s k))"
  shows "occupants_ok ex s' = occupants_ok ex s" "saved_ok s' = saved_ok s" "occupies s' x = occupies s x"
  using assms by (simp_all add: occupants_ok_def saved_ok_def occupies_def)

text \<open>A whole switch, seen from the states of the fibers and from their stacks.\<close>

definition switched :: "nat \<Rightarrow> fib \<Rightarrow> fib \<Rightarrow> fibers \<Rightarrow> fibers \<Rightarrow> bool" where
  "switched rsp old new s s' \<longleftrightarrow> same_control s s' \<and> occupants_ok (\<lambda>x. x = new) s' \<and> saved_ok s' \<and> occupies s' new
     \<and> (\<exists>c. ctx (fiber_of s' old) = Some c \<and> \<not> at_entry c) \<and> (\<forall>f. f \<noteq> old \<longrightarrow> ctx (fiber_of s' f) = ctx (fiber_of s f))
     \<and> (\<forall>f. f \<noteq> old \<and> f \<noteq> new \<longrightarrow> frame s' f = frame s f)
     \<and> (\<forall>k. length (stack_buffer (mem_of s' k)) = length (stack_buffer (mem_of s k)))
     \<and> (\<forall>k. use_shared_stack (fiber_of s old) \<and> running_mem (fiber_of s old) = Some k
          \<longrightarrow> frame s' old = drop rsp (stack_buffer (mem_of s k)))
     \<and> (\<forall>f k. running_mem (fiber_of s f) = Some k \<and> occupier (mem_of s' k) \<noteq> Some f
          \<and> (save_buffer (fiber_of s f) \<noteq> None \<or> occupier (mem_of s k) = Some f)
          \<longrightarrow> save_buffer (fiber_of s' f) \<noteq> None)"

lemma swap_fiber_spec:
  assumes occ: "occupants_ok (\<lambda>x. x = old) s" and sav: "saved_ok s" and own: "occupies s old"
    and rsp: "\<forall>k. running_mem (fiber_of s old) = Some k \<longrightarrow> rsp \<le> length (stack_buffer (mem_of s k))"
    and new: "new < n_fibers s" "new \<noteq> old" "get_state s new = RUNNING"
    and c: "ctx (fiber_of s new) = Some c" "at_entry c \<longrightarrow> reg_rdi c = new"
    and mem: "use_shared_stack (fiber_of s new) \<longrightarrow> running_mem (fiber_of s new) \<noteq> None"
    and take: "can_take s new"
    and kept: "\<forall>k. \<not> at_entry c \<and> use_shared_stack (fiber_of s new) \<and> running_mem (fiber_of s new) = Some k
        \<and> occupier (mem_of s k) \<noteq> Some new \<longrightarrow> save_buffer (fiber_of s new) \<noteq> None"
  shows "\<exists>s'. swap_fiber thr rsp old new s = (Inr (), s') \<and> switched rsp old new s s'
    \<and> (use_shared_stack (fiber_of s new) \<and> \<not> at_entry c \<longrightarrow> frame s' new = frame s new)"
proof -
  define s1 where "s1 = upd_fiber old (stack_buffer_top_update (\<lambda>_. rsp)) s"
  note r = record_top [OF occ sav own rsp, folded s1_def]
  have n1: "fiber_of s1 new = fiber_of s new" "\<And>f. ctx (fiber_of s1 f) = ctx (fiber_of s f)" "n_fibers s1 = n_fibers s"
    "mem_of s1 = mem_of s" "\<And>f. save_buffer (fiber_of s1 f) = save_buffer (fiber_of s f)"
    "\<And>f. running_mem (fiber_of s1 f) = running_mem (fiber_of s f)"
    using new(2) by (simp_all add: s1_def)
  have "\<exists>s2. swap_out_part thr rsp old new s = (Inr (), s2) \<and> same_control s1 s2
    \<and> occupants_ok (\<lambda>x. x = new) s2 \<and> saved_ok s2 \<and> occupies s2 new
    \<and> (\<forall>f. ctx (fiber_of s2 f) = ctx (fiber_of s1 f)) \<and> save_buffer (fiber_of s2 new) = save_buffer (fiber_of s new)
    \<and> stack_buffer_top (fiber_of s2 new) = stack_buffer_top (fiber_of s new)
    \<and> (\<forall>j. stack_buffer (mem_of s2 j) = stack_buffer (mem_of s j))
    \<and> (\<forall>f. f \<noteq> new \<longrightarrow> frame s2 f = frame s1 f)
    \<and> swap_in_fiber (env_of s2 thr) = (if use_shared_stack (fiber_of s new) then Some new else None)
    \<and> (\<forall>k. use_shared_stack (fiber_of s new) \<and> running_mem (fiber_of s new) = Some k \<longrightarrow>
         swap_out_fiber (env_of s2 thr) = occupier (mem_of s k))
    \<and> (\<forall>f k. running_mem (fiber_of s f) = Some k \<and> occupier (mem_of s2 k) \<noteq> Some f
          \<and> (save_buffer (fiber_of s f) \<noteq> None \<or> occupier (mem_of s k) = Some f)
          \<longrightarrow> save_buffer (fiber_of s2 f) \<noteq> None)"
  proof (cases "use_shared_stack (fiber_of s new)")
    case False
    let ?s2 = "upd_env thr (\<lambda>e. e\<lparr>swap_out_fiber := None, swap_in_fiber := None\<rparr>) s1"
    have eq: "swap_out_part thr rsp old new s = (Inr (), ?s2)"
      using False n1(1) by (simp add: swap_out_part_def flip: s1_def)
    have "occupants_ok (\<lambda>x. x = new) s1" using r(1) by (auto simp: occupants_ok_def)
    moreover have "occupies s1 new" using False n1(1) by (simp add: occupies_def)
    ultimately show ?thesis using eq r(2) False n1 by (auto simp: same_control_def)
  next
    case True
    then obtain k where k: "running_mem (fiber_of s new) = Some k" using mem by blast
    let ?e = "upd_env thr (\<lambda>e. e\<lparr>swap_in_fiber := Some new, swap_out_fiber := occupier (mem_of s k)\<rparr>) s1"
    have out: "swap_out_part thr rsp old new s = change_occupier k new ?e"
      using True k n1(1,4) by (simp add: swap_out_part_def flip: s1_def)
    obtain s2 where s2: "change_occupier k new ?e = (Inr (), s2)" "same_control ?e s2" "env_of s2 = env_of ?e"
      "occupants_ok (\<lambda>x. x = new) s2" "saved_ok s2" "occupies s2 new"
      "\<forall>f. ctx (fiber_of s2 f) = ctx (fiber_of s1 f)" "save_buffer (fiber_of s2 new) = save_buffer (fiber_of s new)"
      "\<forall>f. stack_buffer_top (fiber_of s2 f) = stack_buffer_top (fiber_of s1 f)"
      "\<forall>j. stack_buffer (mem_of s2 j) = stack_buffer (mem_of s j)" "\<forall>f. f \<noteq> new \<longrightarrow> frame s2 f = frame s1 f"
      "\<forall>j. occupier (mem_of s2 j) = (if j = k then Some new else occupier (mem_of s j))"
      "\<forall>f. save_buffer (fiber_of s f) \<noteq> None \<or> occupier (mem_of s k) = Some f \<and> f \<noteq> new
         \<longrightarrow> save_buffer (fiber_of s2 f) \<noteq> None"
      using take_over [of ?e new k] r(1,2) r(6) [OF take] k True new(1) by (auto simp: n1)
    have "same_control s1 s2" using s2(2) by (auto simp: same_control_def split: if_splits)
    moreover have "save_buffer (fiber_of s2 f) \<noteq> None"
      if "running_mem (fiber_of s f) = Some j" "occupier (mem_of s2 j) \<noteq> Some f"
        "save_buffer (fiber_of s f) \<noteq> None \<or> occupier (mem_of s j) = Some f" for f j
      using s2(12,13) that by (metis option.inject)
    ultimately show ?thesis using out s2 True k n1 by (simp del: fun_upd_apply) auto
  qed
  then obtain s2 where s2: "swap_out_part thr rsp old new s = (Inr (), s2)" "same_control s1 s2"
    "occupants_ok (\<lambda>x. x = new) s2" "saved_ok s2" "occupies s2 new"
    "\<And>f. ctx (fiber_of s2 f) = ctx (fiber_of s1 f)" "save_buffer (fiber_of s2 new) = save_buffer (fiber_of s new)"
    "stack_buffer_top (fiber_of s2 new) = stack_buffer_top (fiber_of s new)"
    "\<And>j. stack_buffer (mem_of s2 j) = stack_buffer (mem_of s j)"
    "\<And>f. f \<noteq> new \<Longrightarrow> frame s2 f = frame s1 f"
    "swap_in_fiber (env_of s2 thr) = (if use_shared_stack (fiber_of s new) then Some new else None)"
    "\<And>k. use_shared_stack (fiber_of s new) \<Longrightarrow> running_mem (fiber_of s new) = Some k \<Longrightarrow>
         swap_out_fiber (env_of s2 thr) = occupier (mem_of s k)"
    "\<And>f k. running_mem (fiber_of s f) = Some k \<Longrightarrow> occupier (mem_of s2 k) \<noteq> Some f \<Longrightarrow>
       save_buffer (fiber_of s f) \<noteq> None \<or> occupier (mem_of s k) = Some f \<Longrightarrow> save_buffer (fiber_of s2 f) \<noteq> None"
    by blast
  define s3 where "s3 = upd_fiber old (ctx_update (save_context rsp)) s2"
  have c2: "ctx (fiber_of s2 new) = Some c" using s2(6) c(1) n1(2) by simp
  have f3: "\<And>f. running_mem (fiber_of s3 f) = running_mem (fiber_of s f)"
    "\<And>f. use_shared_stack (fiber_of s3 f) = use_shared_stack (fiber_of s f)"
    "save_buffer (fiber_of s3 new) = save_buffer (fiber_of s new)"
    "stack_buffer_top (fiber_of s3 new) = stack_buffer_top (fiber_of s new)"
    "mem_of s3 = mem_of s2" "env_of s3 = env_of s2" "n_fibers s3 = n_fibers s2"
    using same_control_trans [OF r(3) s2(2)] s2(7,8) new(2) by (auto simp: s3_def same_control_def)
  have ctl: "same_control s s3" using same_control_trans [OF r(3) s2(2)] by (simp add: s3_def)
  have sb3: "\<And>f. save_buffer (fiber_of s3 f) = save_buffer (fiber_of s2 f)" by (simp add: s3_def)
  have base: "switched rsp old new s s3"
    unfolding switched_def
  proof (intro conjI)
    show "\<exists>c. ctx (fiber_of s3 old) = Some c \<and> \<not> at_entry c" by (simp add: s3_def save_context_def split: option.split)
    show "\<forall>f. f \<noteq> old \<longrightarrow> ctx (fiber_of s3 f) = ctx (fiber_of s f)" using s2(6) n1(2) by (simp add: s3_def)
    show "\<forall>f. f \<noteq> old \<and> f \<noteq> new \<longrightarrow> frame s3 f = frame s f" using s2(10) r(4) by (simp add: s3_def)
    show "\<forall>k. use_shared_stack (fiber_of s old) \<and> running_mem (fiber_of s old) = Some k
        \<longrightarrow> frame s3 old = drop rsp (stack_buffer (mem_of s k))"
      using s2(10) [of old] new(2) r(5) by (auto simp: s3_def)
    show "\<forall>f k. running_mem (fiber_of s f) = Some k \<and> occupier (mem_of s3 k) \<noteq> Some f
          \<and> (save_buffer (fiber_of s f) \<noteq> None \<or> occupier (mem_of s k) = Some f)
          \<longrightarrow> save_buffer (fiber_of s3 f) \<noteq> None" using s2(13) f3(5) sb3 by metis
    show "\<forall>k. length (stack_buffer (mem_of s3 k)) = length (stack_buffer (mem_of s k))" using s2(9) f3(5) by simp
  qed (use ctl s2(3-5) in \<open>simp_all add: s3_def\<close>)
  have eq: "swap_fiber thr rsp old new s =
      (Inr (), if at_entry c then enter_wrapper (reg_rdi c) s3 else swap_in_part thr s3)"
    using s2(1) c2 new(2) by (simp add: swap_fiber_def flip: s3_def)
  show ?thesis
  proof (cases "at_entry c")
    case True
    have "enter_wrapper (reg_rdi c) s3 = s3"
      using c(2) True new(3) same_control_state [OF ctl, of new] by (simp add: enter_wrapper_def set_state_same)
    with True eq base show ?thesis by simp
  next
    case False
    have saved: "\<exists>b. save_buffer (fiber_of s3 new) = Some b \<and> frame s new = b
        \<and> stack_buffer_top (fiber_of s3 new) + length b = length (stack_buffer (mem_of s3 k))"
      if sh: "use_shared_stack (fiber_of s3 new)" "running_mem (fiber_of s3 new) = Some k"
        "swap_out_fiber (env_of s3 thr) = Some o'" "o' \<noteq> new" for k o'
    proof -
      have k: "use_shared_stack (fiber_of s new)" "running_mem (fiber_of s new) = Some k" using sh f3 by simp_all
      then have nocc: "occupier (mem_of s k) \<noteq> Some new" using s2(12) sh(3,4) f3(6) by simp
      then obtain b where b: "save_buffer (fiber_of s new) = Some b" using kept False k by blast
      with sav new(1) k(2) nocc
      have "stack_buffer_top (fiber_of s new) + length b = length (stack_buffer (mem_of s k))"
        by (auto simp: saved_ok_def)
      with b k nocc show ?thesis using f3 s2(9) by (simp add: frame_def)
    qed
    have occ3: "occupants_ok (\<lambda>x. x = new) s3" "saved_ok s3" "occupies s3 new" using s2(3-5) by (simp_all add: s3_def)
    have inplace: "frame s new = frame s3 new"
      if so: "swap_out_fiber (env_of s3 thr) = None \<or> swap_out_fiber (env_of s3 thr) = Some new"
        and sh: "use_shared_stack (fiber_of s3 new)"
    proof -
      obtain k where k: "use_shared_stack (fiber_of s new)" "running_mem (fiber_of s new) = Some k"
        using sh f3(2) mem by auto
      have "occupier (mem_of s k) \<noteq> None"
        using kept False k sav new(1) by (fastforce simp: saved_ok_def)
      then have "occupier (mem_of s k) = Some new" using so s2(12) [OF k] f3(6) by auto
      moreover have "occupier (mem_of s3 k) = Some new" using occ3(3) k f3(1,2) by (simp add: occupies_def)
      ultimately show ?thesis using k f3 s2(9) by (simp add: frame_def)
    qed
    have m3: "use_shared_stack (fiber_of s3 new) \<Longrightarrow> running_mem (fiber_of s3 new) \<noteq> None" using f3 mem by simp
    have ptr3: "swap_in_fiber (env_of s3 thr) = (if use_shared_stack (fiber_of s3 new) then Some new else None)"
      using s2(11) f3 by simp
    have pb: "same_control s3 (swap_in_part thr s3) \<and> fiber_of (swap_in_part thr s3) = fiber_of s3
      \<and> (\<forall>k. occupier (mem_of (swap_in_part thr s3) k) = occupier (mem_of s3 k))
      \<and> (\<forall>k. length (stack_buffer (mem_of (swap_in_part thr s3) k)) = length (stack_buffer (mem_of s3 k)))
      \<and> (\<forall>f. f \<noteq> new \<longrightarrow> frame (swap_in_part thr s3) f = frame s3 f)
      \<and> (use_shared_stack (fiber_of s3 new) \<longrightarrow> frame (swap_in_part thr s3) new = frame s new)"
      using saved inplace m3 by (intro put_back [OF occ3 ptr3]) blast+
    define s4 where "s4 = swap_in_part thr s3"
    have s4: "same_control s3 s4" "fiber_of s4 = fiber_of s3" "\<And>k. occupier (mem_of s4 k) = occupier (mem_of s3 k)"
      "\<And>k. length (stack_buffer (mem_of s4 k)) = length (stack_buffer (mem_of s3 k))"
      "\<And>f. f \<noteq> new \<Longrightarrow> frame s4 f = frame s3 f" "use_shared_stack (fiber_of s3 new) \<Longrightarrow> frame s4 new = frame s new"
      using pb unfolding s4_def by blast+
    note st4 = same_stacks [OF s4(2) _ s4(3,4)]
    have n4: "n_fibers s4 = n_fibers s3" using s4(1) by (simp add: same_control_def)
    have "switched rsp old new s s4"
      using base s4(2-5) same_control_trans [OF ctl s4(1)] st4 [OF n4] new(2)
      unfolding switched_def by (intro conjI) (auto simp del: not_None_eq)
    with False eq s4(6) f3(2) show ?thesis by (simp flip: s4_def)
  qed
qed

section \<open>Resuming and leaving\<close>

lemma same_stack_fields:
  assumes "mem_of t = mem_of s" "n_fibers t = n_fibers s"
    "\<And>g. use_shared_stack (fiber_of t g) = use_shared_stack (fiber_of s g)"
    "\<And>g. running_mem (fiber_of t g) = running_mem (fiber_of s g)"
    "\<And>g. save_buffer (fiber_of t g) = save_buffer (fiber_of s g)"
    "\<And>g. stack_buffer_top (fiber_of t g) = stack_buffer_top (fiber_of s g)"
  shows "occupants_ok ex t = occupants_ok ex s" "saved_ok t = saved_ok s" "occupies t x = occupies s x"
    "frame t g = frame s g"
  unfolding occupants_ok_def saved_ok_def occupies_def frame_def by (simp_all only: assms)

lemma set_state_frame [simp]:
  "frame (set_state st x s) = frame s" "saved_ok (set_state st x s) = saved_ok s"
  "occupants_ok ex (set_state st x s) = occupants_ok ex s" "occupies (set_state st x s) y = occupies s y"
  by (auto simp: frame_def saved_ok_def occupants_ok_def occupies_def fun_eq_iff split: option.split)

lemma get_state_simps [simp]:
  "get_state (set_state st f s) g = (if g = f then st else get_state s g)"
  "get_state (upd_env t j s) = get_state s" "get_state (upd_fiber f (ctx_update h) s) = get_state s"
  "get_state (upd_fiber f (env_update i) s) = get_state s"
  "get_state (upd_fiber f (stack_buffer_top_update j') s) = get_state s"
  by (auto simp: get_state_def fun_eq_iff)

text \<open>
  The invariant after a switch from the running fiber to \<open>new\<close>, when \<open>t\<close> (the state just before
  the switch) differs from \<open>s\<close> in the call stack, in states and in the context of \<open>new\<close> only.
\<close>

lemma inv_after_switch:
  assumes inv: "fib_inv thr s" and sw: "switched rsp (cur thr s) new t s'"
    and ctl: "control_ok thr t" "cur thr t = new" "n_fibers t = n_fibers s" "mem_of t = mem_of s" "n_mems t = n_mems s"
    and same: "\<And>g. use_shared_stack (fiber_of t g) = use_shared_stack (fiber_of s g)"
      "\<And>g. running_mem (fiber_of t g) = running_mem (fiber_of s g)"
      "\<And>g. save_buffer (fiber_of t g) = save_buffer (fiber_of s g)"
      "\<And>g. g \<noteq> new \<Longrightarrow> ctx (fiber_of t g) = ctx (fiber_of s g)"
    and st: "\<And>g. g \<noteq> new \<Longrightarrow> g \<noteq> cur thr s \<Longrightarrow> get_state t g = get_state s g"
      "get_state t new = RUNNING" "get_state t (cur thr s) \<notin> {READY, INITING}"
  shows "fib_inv thr s'"
proof -
  have sc: "same_control t s'" and ok: "occupants_ok (\<lambda>x. x = new) s'" "saved_ok s'" "occupies s' new"
    and cold: "\<exists>c. ctx (fiber_of s' (cur thr s)) = Some c \<and> \<not> at_entry c"
    and cother: "\<And>f. f \<noteq> cur thr s \<Longrightarrow> ctx (fiber_of s' f) = ctx (fiber_of t f)"
    and keep: "\<And>f k. running_mem (fiber_of t f) = Some k \<Longrightarrow> occupier (mem_of s' k) \<noteq> Some f \<Longrightarrow>
        save_buffer (fiber_of t f) \<noteq> None \<or> occupier (mem_of t k) = Some f \<Longrightarrow> save_buffer (fiber_of s' f) \<noteq> None"
    using sw unfolding switched_def by blast+
  have calls: "calls (env_of s' thr) = calls (env_of t thr)" "n_fibers s' = n_fibers s"
    using sc ctl(3) by (simp_all add: same_control_def)
  have "control_ok thr s'" using ctl(1) sc by (auto simp: control_ok_def same_control_def get_state_def)
  moreover have "contexts_ok thr s'"
    unfolding contexts_ok_def
  proof (intro allI impI conjI)
    fix f assume f: "f < n_fibers s'"
    then have fs: "f < n_fibers s" using calls by simp
    have stf: "get_state s' f = get_state t f" "running_mem (fiber_of s' f) = running_mem (fiber_of s f)"
      "use_shared_stack (fiber_of s' f) = use_shared_stack (fiber_of s f)"
      using sc same by (simp_all add: same_control_def get_state_def)
    have old: "get_state s (cur thr s) = RUNNING" using inv by (simp add: fib_inv_def control_ok_def)
    have cs: "f \<noteq> cur thr s \<Longrightarrow> get_state s f \<in> {SUSPENDED, SLEEPING} \<Longrightarrow>
        (\<exists>c. ctx (fiber_of s f) = Some c \<and> \<not> at_entry c)
        \<and> (\<forall>k. use_shared_stack (fiber_of s f) \<and> running_mem (fiber_of s f) = Some k
             \<and> occupier (mem_of s k) \<noteq> Some f \<longrightarrow> save_buffer (fiber_of s f) \<noteq> None)"
      and mem: "get_state s f = INITING \<or> use_shared_stack (fiber_of s f) \<Longrightarrow> running_mem (fiber_of s f) \<noteq> None"
      and nr: "get_state s f \<noteq> READY"
      using inv fs unfolding fib_inv_def contexts_ok_def by blast+
    show "get_state s' f \<noteq> READY" using stf(1) st nr by (metis FiberState.distinct insertI1)
    { assume "get_state s' f = INITING \<or> use_shared_stack (fiber_of s' f)"
      then have "get_state s f = INITING \<or> use_shared_stack (fiber_of s f)"
        using stf st by (metis FiberState.distinct insertI1 insertI2)
      with mem stf(2) show "running_mem (fiber_of s' f) \<noteq> None" by simp }
    assume a: "f \<noteq> cur thr s' \<and> get_state s' f \<in> {SUSPENDED, SLEEPING}"
    then have fn: "f \<noteq> new" using calls ctl(2) by simp
    show "\<exists>c. ctx (fiber_of s' f) = Some c \<and> \<not> at_entry c"
    proof (cases "f = cur thr s")
      case True with cold show ?thesis by simp
    next
      case False
      then have "get_state s f \<in> {SUSPENDED, SLEEPING}" using a stf(1) st(1) fn by simp
      with cs [OF False] cother [OF False] same(4) [OF fn] show ?thesis by simp
    qed
    fix k assume k: "use_shared_stack (fiber_of s' f) \<and> running_mem (fiber_of s' f) = Some k
        \<and> occupier (mem_of s' k) \<noteq> Some f"
    have "save_buffer (fiber_of t f) \<noteq> None \<or> occupier (mem_of t k) = Some f"
    proof (cases "f = cur thr s")
      case True
      then show ?thesis using inv k stf ctl(4) by (auto simp: fib_inv_def occupies_def)
    next
      case False
      then have "get_state s f \<in> {SUSPENDED, SLEEPING}" using a stf(1) st(1) fn by simp
      with cs [OF False] k stf same(3) ctl(4) show ?thesis by auto
    qed
    then show "save_buffer (fiber_of s' f) \<noteq> None" using keep [of f k] k stf(2) same(2) by simp
  qed
  moreover have "mems_ok s'"
    using inv sc ctl(3,5) same(2) by (simp add: fib_inv_def mems_ok_def same_control_def)
  ultimately show ?thesis using ok calls(1) ctl(2) by (simp add: fib_inv_def)
qed

definition rsp_ok :: "fibers \<Rightarrow> fib \<Rightarrow> nat \<Rightarrow> bool" where
  "rsp_ok s f rsp \<longleftrightarrow> (case running_mem (fiber_of s f) of None \<Rightarrow> True
     | Some k \<Rightarrow> rsp \<le> length (stack_buffer (mem_of s k)))"

lemma rsp_okD: "rsp_ok s f rsp \<Longrightarrow> \<forall>k. running_mem (fiber_of s f) = Some k \<longrightarrow> rsp \<le> length (stack_buffer (mem_of s k))"
  by (auto simp: rsp_ok_def)

text \<open>
  \<open>fiber_resume\<close> of a fiber that is not on the call stack: it becomes the running fiber, the
  caller is suspended below it, and a fiber on a shared stack finds its frame as it left it.
\<close>

lemma fiber_resume_spec:
  assumes inv: "fib_inv thr s" and f: "f < n_fibers s" "f \<notin> set (calls (env_of s thr))"
    and depth: "length (calls (env_of s thr)) < MAX_CALL_STACK_DEPTH"
    and st: "get_state s f \<in> {INITING, SUSPENDED, SLEEPING}"
    and take: "can_take (set_state SUSPENDED (cur thr s) s) f" and rsp: "rsp_ok s (cur thr s) rsp"
  shows "\<exists>s'. fiber_resume thr rsp f s = (Inr (), s') \<and> fib_inv thr s'
    \<and> calls (env_of s' thr) = calls (env_of s thr) @ [f] \<and> n_fibers s' = n_fibers s
    \<and> (\<forall>g. get_state s' g = (if g = f then RUNNING else if g = cur thr s then SUSPENDED else get_state s g))
    \<and> (\<forall>g. use_shared_stack (fiber_of s' g) = use_shared_stack (fiber_of s g)
         \<and> running_mem (fiber_of s' g) = running_mem (fiber_of s g))
    \<and> (\<forall>k. length (stack_buffer (mem_of s' k)) = length (stack_buffer (mem_of s k)))
    \<and> (\<forall>g. g \<noteq> f \<and> g \<noteq> cur thr s \<longrightarrow> frame s' g = frame s g)
    \<and> (use_shared_stack (fiber_of s f) \<and> get_state s f \<noteq> INITING \<longrightarrow> frame s' f = frame s f)
    \<and> (\<forall>k. use_shared_stack (fiber_of s (cur thr s)) \<and> running_mem (fiber_of s (cur thr s)) = Some k
         \<longrightarrow> frame s' (cur thr s) = drop rsp (stack_buffer (mem_of s k)))"
proof -
  let ?c = "cur thr s" and ?e = "env_of s thr"
  have ctl: "control_ok thr s" and cx: "contexts_ok thr s" and stk: "occupants_ok (\<lambda>x. x = ?c) s" "saved_ok s" "occupies s ?c"
    using inv by (simp_all add: fib_inv_def)
  have eok: "env_ok ?e" and cn: "?c \<in> set (calls ?e)" using ctl calls_nonempty by (auto simp: control_ok_def)
  have fc: "f \<noteq> ?c" using f(2) cn by auto
  have mem: "get_state s f = INITING \<or> use_shared_stack (fiber_of s f) \<Longrightarrow> running_mem (fiber_of s f) \<noteq> None"
    using cx f(1) unfolding contexts_ok_def by blast
  define s1 where "s1 = (if get_state s f = INITING then snd (make_context f s) else s)"
  have mk: "(if get_state s f = INITING then make_context f s else (Inr (), s)) = (Inr (), s1)"
    using mem by (auto simp: s1_def make_context_def Let_def)
  have s1: "mem_of s1 = mem_of s" "env_of s1 = env_of s" "n_fibers s1 = n_fibers s"
    "\<And>g. use_shared_stack (fiber_of s1 g) = use_shared_stack (fiber_of s g)"
    "\<And>g. running_mem (fiber_of s1 g) = running_mem (fiber_of s g)"
    "\<And>g. save_buffer (fiber_of s1 g) = save_buffer (fiber_of s g)" "\<And>g. env (fiber_of s1 g) = env (fiber_of s g)"
    "\<And>g. stack_buffer_top (fiber_of s1 g) = stack_buffer_top (fiber_of s g)"
    "\<And>g. g \<noteq> f \<Longrightarrow> fiber_of s1 g = fiber_of s g" "n_mems s1 = n_mems s"
    by (auto simp: s1_def make_context_def Let_def split: option.split)
  have c1: "\<exists>c. ctx (fiber_of s1 f) = Some c \<and> (at_entry c \<longrightarrow> reg_rdi c = f) \<and> (at_entry c \<longleftrightarrow> get_state s f = INITING)"
  proof (cases "get_state s f = INITING")
    case True
    then show ?thesis using mem by (auto simp: s1_def make_context_def Let_def)
  next
    case False
    then show ?thesis using cx st f(1) fc by (auto simp: s1_def contexts_ok_def)
  qed
  obtain c where c: "ctx (fiber_of s1 f) = Some c" "at_entry c \<longrightarrow> reg_rdi c = f" "at_entry c \<longleftrightarrow> get_state s f = INITING"
    using c1 by blast
  obtain e1 where e1: "push_fiber f ?e = Inr e1" "env_ok e1" "calls e1 = calls ?e @ [f]"
    using push_eq [OF eok depth] by blast
  define t where "t = set_state SUSPENDED ?c (set_state RUNNING f (upd_env thr (\<lambda>_. e1) s1))"
  have envf: "env (fiber_of s f) = thr" using ctl f(1) by (simp add: control_ok_def)
  have eq: "fiber_resume thr rsp f s = swap_fiber thr rsp ?c f t"
  proof -
    have "get_state s f \<noteq> TERMINATED" "get_state s f \<noteq> EXCEPTION" using st by auto
    then show ?thesis
      unfolding fiber_resume_def mk by (simp add: current_eq [OF eok] e1(1) envf s1(2,7) t_def Let_def)
  qed
  have t: "mem_of t = mem_of s" "n_fibers t = n_fibers s"
    "\<And>g. use_shared_stack (fiber_of t g) = use_shared_stack (fiber_of s g)"
    "\<And>g. running_mem (fiber_of t g) = running_mem (fiber_of s g)"
    "\<And>g. save_buffer (fiber_of t g) = save_buffer (fiber_of s g)" "\<And>g. env (fiber_of t g) = env (fiber_of s g)"
    "\<And>g. stack_buffer_top (fiber_of t g) = stack_buffer_top (fiber_of s g)"
    "\<And>g. g \<noteq> f \<Longrightarrow> ctx (fiber_of t g) = ctx (fiber_of s g)" "ctx (fiber_of t f) = Some c"
    "env_of t thr = e1" "calls (env_of t thr) = calls ?e @ [f]" "cur thr t = f" "n_mems t = n_mems s"
    using s1 c(1) fc e1(3) by (auto simp: t_def)
  have tst: "get_state t g = (if g = f then RUNNING else if g = ?c then SUSPENDED else get_state s g)" for g
    using fc s1(9) by (auto simp: t_def get_state_def)
  have stk_t: "occupants_ok (\<lambda>x. x = ?c) t" "saved_ok t" "occupies t ?c" "\<And>g. frame t g = frame s g"
    using stk same_stack_fields [of t s, OF t(1-5,7)] by simp_all
  have ctl_t: "control_ok thr t"
  proof -
    have sub: "set (calls ?e) = insert ?c (set (butlast (calls ?e)))"
      using append_butlast_last_id [OF calls_nonempty [OF eok]] by (metis list.simps(15) rotate1.simps(2) set_rotate1)
    have "\<forall>g \<in> set (calls ?e). get_state t g = SUSPENDED"
      using ctl f(2) by (auto simp: tst sub control_ok_def)
    moreover have "\<forall>g < n_fibers s. env (fiber_of s g) = thr \<and> (g \<noteq> f \<longrightarrow> get_state t g \<noteq> RUNNING)"
      using ctl by (auto simp: tst control_ok_def)
    ultimately show ?thesis
      using ctl f e1(2,3) t(2,6,10) tst [of f] by (auto simp: control_ok_def butlast_append)
  qed
  have take_t: "can_take t f"
    using take fc unfolding can_take_def by (auto simp: tst t)
  have kept: "\<forall>k. \<not> at_entry c \<and> use_shared_stack (fiber_of t f) \<and> running_mem (fiber_of t f) = Some k
      \<and> occupier (mem_of t k) \<noteq> Some f \<longrightarrow> save_buffer (fiber_of t f) \<noteq> None"
    using cx st f(1) fc c(3) unfolding contexts_ok_def t(1,3-5) by blast
  have mem_t: "use_shared_stack (fiber_of t f) \<longrightarrow> running_mem (fiber_of t f) \<noteq> None" using mem t(3,4) by simp
  have rsp_t: "\<forall>k. running_mem (fiber_of t ?c) = Some k \<longrightarrow> rsp \<le> length (stack_buffer (mem_of t k))"
    using rsp_okD [OF rsp] t(1,4) by simp
  have ft: "f < n_fibers t" "get_state t f = RUNNING" using f(1) t(2) tst by simp_all
  obtain s' where s': "swap_fiber thr rsp ?c f t = (Inr (), s')" "switched rsp ?c f t s'"
    "use_shared_stack (fiber_of t f) \<and> \<not> at_entry c \<longrightarrow> frame s' f = frame t f"
    using swap_fiber_spec [OF stk_t(1-3) rsp_t ft(1) fc ft(2) t(9) c(2) mem_t take_t kept] by blast
  have "fib_inv thr s'"
    using inv_after_switch [OF inv s'(2) ctl_t t(12,2,1,13,3,4,5,8)] tst fc by simp
  moreover have "calls (env_of s' thr) = calls ?e @ [f]" "n_fibers s' = n_fibers s" "\<And>g. get_state s' g = get_state t g"
    "\<And>g. use_shared_stack (fiber_of s' g) = use_shared_stack (fiber_of s g)"
    "\<And>g. running_mem (fiber_of s' g) = running_mem (fiber_of s g)"
    using s'(2) t(2-4,11) by (simp_all add: switched_def same_control_def get_state_def)
  ultimately show ?thesis
    using eq s' tst stk_t(4) t(1,3,4) c(3) unfolding switched_def by (intro exI [of _ s']) auto
qed

text \<open>
  Leaving the running fiber (\<open>fiber_yield\<close>, \<open>fiber_sleep\<close>, and the end of \<open>fiber_func_wrapper\<close>,
  which first marks the fiber as terminated): its resumer runs again.
\<close>

lemma leave_spec:
  assumes inv: "fib_inv thr s" and depth: "1 < length (calls (env_of s thr))"
    and x: "x \<in> {RUNNING, TERMINATED, EXCEPTION}" and st: "st \<in> {SUSPENDED, SLEEPING}"
  defines "final \<equiv> (if x = RUNNING then st else x)" and "nxt \<equiv> last (butlast (calls (env_of s thr)))"
  assumes take: "can_take (set_state final (cur thr s) s) nxt" and rsp: "rsp_ok s (cur thr s) rsp"
  shows "\<exists>s'. leave st thr rsp (set_state x (cur thr s) s) = (Inr (), s') \<and> fib_inv thr s'
    \<and> calls (env_of s' thr) = butlast (calls (env_of s thr)) \<and> n_fibers s' = n_fibers s
    \<and> (\<forall>g. get_state s' g = (if g = nxt then RUNNING else if g = cur thr s then final else get_state s g))
    \<and> (\<forall>g. g \<noteq> nxt \<and> g \<noteq> cur thr s \<longrightarrow> frame s' g = frame s g)
    \<and> (use_shared_stack (fiber_of s nxt) \<longrightarrow> frame s' nxt = frame s nxt)
    \<and> (\<forall>k. use_shared_stack (fiber_of s (cur thr s)) \<and> running_mem (fiber_of s (cur thr s)) = Some k
         \<longrightarrow> frame s' (cur thr s) = drop rsp (stack_buffer (mem_of s k)))"
proof -
  let ?c = "cur thr s" and ?e = "env_of s thr"
  have ctl: "control_ok thr s" and cx: "contexts_ok thr s" and stk: "occupants_ok (\<lambda>x. x = ?c) s" "saved_ok s" "occupies s ?c"
    using inv by (simp_all add: fib_inv_def)
  have eok: "env_ok ?e" using ctl by (simp add: control_ok_def)
  have split: "calls ?e = butlast (calls ?e) @ [?c]" and bne: "butlast (calls ?e) \<noteq> []"
    using append_butlast_last_id [OF calls_nonempty [OF eok]] depth by (simp, cases "calls ?e" rule: rev_cases) auto
  have dist: "?c \<notin> set (butlast (calls ?e))" "distinct (butlast (calls ?e))"
    using ctl split unfolding control_ok_def by (metis distinct_append disjoint_insert(1) list.simps(15) distinct_butlast)+
  have nb: "nxt \<in> set (butlast (calls ?e))" using bne by (simp add: nxt_def)
  then have nc: "nxt \<noteq> ?c" and nst: "get_state s nxt = SUSPENDED" and nn: "nxt < n_fibers s"
    using dist(1) ctl by (auto simp: control_ok_def dest: in_set_butlastD)
  note pop = pop_eq [OF eok depth]
  define t where "t = set_state RUNNING nxt (set_state final ?c (upd_env thr pop_fiber s))"
  have two: "(if x = RUNNING then set_state st ?c (set_state x ?c u) else set_state x ?c u) = set_state final ?c u" for u
    by (simp add: final_def set_state_def upd_fiber_def)
  have swapped: "upd_env thr pop_fiber (set_state x ?c s) = set_state x ?c (upd_env thr pop_fiber s)"
    by (simp add: set_state_def upd_fiber_def upd_env_def)
  have eq: "leave st thr rsp (set_state x ?c s) = swap_fiber thr rsp ?c nxt t"
    using current_eq [OF eok] current_eq [OF pop(1)] two [of "upd_env thr pop_fiber s"] nst nc
    by (simp add: leave_def swapped t_def pop(2) Let_def flip: nxt_def)
  have t: "mem_of t = mem_of s" "n_fibers t = n_fibers s"
    "\<And>g. use_shared_stack (fiber_of t g) = use_shared_stack (fiber_of s g)"
    "\<And>g. running_mem (fiber_of t g) = running_mem (fiber_of s g)"
    "\<And>g. save_buffer (fiber_of t g) = save_buffer (fiber_of s g)" "\<And>g. env (fiber_of t g) = env (fiber_of s g)"
    "\<And>g. stack_buffer_top (fiber_of t g) = stack_buffer_top (fiber_of s g)"
    "\<And>g. ctx (fiber_of t g) = ctx (fiber_of s g)"
    "env_of t thr = pop_fiber ?e" "cur thr t = nxt" "n_mems t = n_mems s"
    using pop(2) by (auto simp: t_def nxt_def)
  have tst: "get_state t g = (if g = nxt then RUNNING else if g = ?c then final else get_state s g)" for g
    by (auto simp: t_def get_state_def)
  have fin: "final \<noteq> RUNNING" "final \<notin> {READY, INITING}" using x st by (auto simp: final_def)
  have stk_t: "occupants_ok (\<lambda>x. x = ?c) t" "saved_ok t" "occupies t ?c" "\<And>g. frame t g = frame s g"
    using stk same_stack_fields [of t s, OF t(1-5,7)] by simp_all
  have bsub: "set (butlast (butlast (calls ?e))) \<subseteq> set (butlast (calls ?e)) - {nxt}"
    using append_butlast_last_id [OF bne] dist(2) unfolding nxt_def [symmetric]
    by (metis distinct_append disjoint_insert(1) in_set_butlastD list.simps(15) subsetI Diff_iff singletonD)
  have ctl_t: "control_ok thr t"
    unfolding control_ok_def t(9) pop(2) t(10)
  proof (intro conjI allI ballI impI)
    show "get_state t (last (butlast (calls ?e))) = RUNNING" using tst by (simp add: nxt_def)
    show "env_ok (pop_fiber ?e)" by (rule pop(1))
    show "distinct (butlast (calls ?e))" by (rule dist(2))
  next
    fix f assume "f \<in> set (butlast (calls ?e))"
    then show "f < n_fibers t" using ctl t(2) by (auto simp: control_ok_def dest: in_set_butlastD)
  next
    fix f assume "f \<in> set (butlast (butlast (calls ?e)))"
    with bsub have "f \<in> set (butlast (calls ?e))" "f \<noteq> nxt" by auto
    with dist(1) ctl tst [of f] show "get_state t f = SUSPENDED" by (auto simp: control_ok_def)
  next
    fix f assume f: "f < n_fibers t"
    then show "env (fiber_of t f) = thr" using ctl t(2,6) by (simp add: control_ok_def)
    assume "f \<noteq> last (butlast (calls ?e))"
    then have "f \<noteq> nxt" by (simp add: nxt_def)
    with f ctl t(2) tst [of f] fin(1) show "get_state t f \<noteq> RUNNING" by (auto simp: control_ok_def)
  qed
  have take_t: "can_take t nxt" using take nc unfolding can_take_def by (auto simp: tst t)
  obtain c where c: "ctx (fiber_of s nxt) = Some c" "\<not> at_entry c"
    and kp: "\<forall>k. use_shared_stack (fiber_of s nxt) \<and> running_mem (fiber_of s nxt) = Some k
        \<and> occupier (mem_of s k) \<noteq> Some nxt \<longrightarrow> save_buffer (fiber_of s nxt) \<noteq> None"
    and mem: "use_shared_stack (fiber_of s nxt) \<longrightarrow> running_mem (fiber_of s nxt) \<noteq> None"
    using cx nn nc nst unfolding contexts_ok_def by blast
  have c_t: "ctx (fiber_of t nxt) = Some c" "at_entry c \<longrightarrow> reg_rdi c = nxt" using c t(8) by simp_all
  have mem_t: "use_shared_stack (fiber_of t nxt) \<longrightarrow> running_mem (fiber_of t nxt) \<noteq> None" using mem t(3,4) by simp
  have kept: "\<forall>k. \<not> at_entry c \<and> use_shared_stack (fiber_of t nxt) \<and> running_mem (fiber_of t nxt) = Some k
      \<and> occupier (mem_of t k) \<noteq> Some nxt \<longrightarrow> save_buffer (fiber_of t nxt) \<noteq> None"
    using kp unfolding t(1,3-5) by blast
  have rsp_t: "\<forall>k. running_mem (fiber_of t ?c) = Some k \<longrightarrow> rsp \<le> length (stack_buffer (mem_of t k))"
    using rsp_okD [OF rsp] t(1,4) by simp
  have ft: "nxt < n_fibers t" "get_state t nxt = RUNNING" using nn t(2) tst by simp_all
  obtain s' where s': "swap_fiber thr rsp ?c nxt t = (Inr (), s')" "switched rsp ?c nxt t s'"
    "use_shared_stack (fiber_of t nxt) \<and> \<not> at_entry c \<longrightarrow> frame s' nxt = frame t nxt"
    using swap_fiber_spec [OF stk_t(1-3) rsp_t ft(1) nc ft(2) c_t mem_t take_t kept] by blast
  have "fib_inv thr s'"
    using inv_after_switch [OF inv s'(2) ctl_t t(10,2,1,11,3,4,5,8)] tst nc fin(2) by simp
  moreover have "calls (env_of s' thr) = butlast (calls ?e)" "n_fibers s' = n_fibers s" "\<And>g. get_state s' g = get_state t g"
    using s'(2) t(2,9) pop(2) by (simp_all add: switched_def same_control_def get_state_def)
  ultimately show ?thesis
    using eq s' tst stk_t(4) t(1,3,4) c(2) unfolding switched_def by (intro exI [of _ s']) auto
qed

section \<open>Runs of a thread\<close>

text \<open>
  When a switch is within the contract of the library: the fiber exists, is not already on the
  call stack, has not ended, its stack can be taken, and the stack pointer lies in the stack.
\<close>

definition may_resume :: "thread \<Rightarrow> nat \<Rightarrow> fib \<Rightarrow> fibers \<Rightarrow> bool" where
  "may_resume thr rsp f s \<longleftrightarrow> f < n_fibers s \<and> f \<notin> set (calls (env_of s thr))
     \<and> length (calls (env_of s thr)) < MAX_CALL_STACK_DEPTH
     \<and> get_state s f \<in> {INITING, SUSPENDED, SLEEPING}
     \<and> can_take (set_state SUSPENDED (cur thr s) s) f \<and> rsp_ok s (cur thr s) rsp"

definition may_leave :: "thread \<Rightarrow> FiberState \<Rightarrow> nat \<Rightarrow> fibers \<Rightarrow> bool" where
  "may_leave thr final rsp s \<longleftrightarrow> 1 < length (calls (env_of s thr))
     \<and> can_take (set_state final (cur thr s) s) (last (butlast (calls (env_of s thr)))) \<and> rsp_ok s (cur thr s) rsp"

inductive fiber_step :: "thread \<Rightarrow> fibers \<Rightarrow> fibers \<Rightarrow> bool" for thr where
  step_resume: "may_resume thr rsp f s \<Longrightarrow> fiber_resume thr rsp f s = (r, s') \<Longrightarrow> fiber_step thr s s'"
| step_yield: "may_leave thr SUSPENDED rsp s \<Longrightarrow> fiber_yield thr rsp s = (r, s') \<Longrightarrow> fiber_step thr s s'"
| step_sleep: "may_leave thr SLEEPING rsp s \<Longrightarrow> fiber_sleep thr rsp s = (r, s') \<Longrightarrow> fiber_step thr s s'"
| step_finish: "may_leave thr (if threw then EXCEPTION else TERMINATED) rsp s \<Longrightarrow>
    fiber_func_wrapper threw thr rsp (cur thr s) s = (r, s') \<Longrightarrow> fiber_step thr s s'"
| step_wakeup: "f < n_fibers s \<Longrightarrow> fiber_step thr s (fiber_wakeup f s)"
| step_reset: "f < n_fibers s \<Longrightarrow> f \<notin> set (calls (env_of s thr)) \<Longrightarrow> Fiber_reset fn a f s = (b, s') \<Longrightarrow> fiber_step thr s s'"
| step_own: "Fiber_own mem thr fn a sz s = (f, s') \<Longrightarrow> fiber_step thr s s'"
| step_shared: "\<forall>k \<in> set (stack_array pool). k < n_mems s \<Longrightarrow> Fiber_shared thr fn a pool s = Inr (f, pool', s') \<Longrightarrow>
    fiber_step thr s s'"
| step_pool: "FiberSharedStackPool n base buf s = (pool, s') \<Longrightarrow> fiber_step thr s s'"

definition no_fibers :: fibers where
  "no_fibers = \<lparr>fiber_of = (\<lambda>_. blank_fiber 0), mem_of = (\<lambda>_. \<lparr>occupier = None, stack_base = 0, stack_buffer = []\<rparr>),
     env_of = (\<lambda>_. \<lparr>call_stack_depth = 0, fiber_call_stack = [], swap_in_fiber = None, swap_out_fiber = None\<rparr>),
     fiber_cnt = (\<lambda>_. 0), n_fibers = 0, n_mems = 0\<rparr>"

inductive fiber_reach :: "thread \<Rightarrow> fibers \<Rightarrow> bool" for thr where
  reach_init: "fiber_reach thr (FiberEnvironment_new thr no_fibers)"
| reach_step: "fiber_reach thr s \<Longrightarrow> fiber_step thr s s' \<Longrightarrow> fiber_reach thr s'"

lemma first_slot: "0 < n \<Longrightarrow> take (Suc 0) ((replicate n x)[0 := y]) = [y]"
  by (cases n) simp_all

lemma initial_env:
  "calls (env_of (FiberEnvironment_new thr no_fibers) thr) = [0]"
  "env_ok (env_of (FiberEnvironment_new thr no_fibers) thr)"
  by (simp_all add: FiberEnvironment_new_def Fiber_main_def new_fiber_def no_fibers_def push_fiber_def
      MAX_CALL_STACK_DEPTH_def env_ok_def calls_def first_slot)

lemma initial_store:
  "n_fibers (FiberEnvironment_new thr no_fibers) = 1"
  "fiber_of (FiberEnvironment_new thr no_fibers) 0 = (blank_fiber thr)\<lparr>is_main_fiber := True, fstate := RUNNING\<rparr>"
  "occupier (mem_of (FiberEnvironment_new thr no_fibers) k) = None"
  by (simp_all add: FiberEnvironment_new_def Fiber_main_def new_fiber_def no_fibers_def push_fiber_def
      MAX_CALL_STACK_DEPTH_def blank_fiber_def)

lemma inv_initial: "fib_inv thr (FiberEnvironment_new thr no_fibers)"
  by (simp add: fib_inv_def control_ok_def contexts_ok_def occupants_ok_def saved_ok_def occupies_def mems_ok_def
      get_state_def initial_env initial_store blank_fiber_def)

text \<open>Creating a fiber, waking one up and resetting one keep the invariant.\<close>

lemma inv_new_fiber:
  assumes inv: "fib_inv thr s" and fb: "env fb = thr" "fstate fb = INITING" "running_mem fb = Some k" "k < n_mems s"
    "save_buffer fb = None"
  shows "fib_inv thr (snd (new_fiber fb s))"
proof -
  have ctl: "control_ok thr s" using inv by (simp add: fib_inv_def)
  then have "cur thr s \<in> set (calls (env_of s thr))" using calls_nonempty by (simp add: control_ok_def)
  with ctl have cn: "cur thr s < n_fibers s" "n_fibers s \<notin> set (calls (env_of s thr))" "cur thr s \<noteq> n_fibers s"
    by (auto simp: control_ok_def)
  have b: "f \<in> set (butlast (calls (env_of s thr))) \<Longrightarrow> f \<noteq> n_fibers s" for f
    using cn(2) in_set_butlastD by fastforce
  let ?s = "snd (new_fiber fb s)"
  have e: "env_of ?s = env_of s" "mem_of ?s = mem_of s" "n_fibers ?s = Suc (n_fibers s)" "n_mems ?s = n_mems s"
    and old: "\<And>f. f \<noteq> n_fibers s \<Longrightarrow> fiber_of ?s f = fiber_of s f"
    and new: "fiber_of ?s (n_fibers s) = fb\<lparr>id_num := fiber_cnt s (env fb)\<rparr>"
    by (simp_all add: new_fiber_def)
  have "control_ok thr ?s"
    using ctl cn b fb(1,2) by (auto simp: control_ok_def e get_state_def old new less_Suc_eq)
  moreover have "contexts_ok thr ?s"
    using inv fb cn(3) unfolding fib_inv_def contexts_ok_def e by (auto simp: less_Suc_eq get_state_def old new)
  moreover have "occupants_ok (\<lambda>x. x = cur thr ?s) ?s"
    using inv unfolding fib_inv_def occupants_ok_def e by (metis less_SucI nat_neq_iff old)
  moreover have "saved_ok ?s"
    using inv fb(5) unfolding fib_inv_def saved_ok_def e by (auto simp: less_Suc_eq old new)
  moreover have "occupies ?s (cur thr ?s)" using inv cn(3) by (simp add: fib_inv_def occupies_def e old)
  moreover have "mems_ok ?s" using inv fb(3,4) by (auto simp: fib_inv_def mems_ok_def e less_Suc_eq old new)
  ultimately show ?thesis by (simp add: fib_inv_def)
qed

lemma inv_new_mem:
  assumes inv: "fib_inv thr s"
  shows "fib_inv thr (snd (FiberMem_new base buf s))"
proof -
  let ?s = "snd (FiberMem_new base buf s)"
  have e: "env_of ?s = env_of s" "fiber_of ?s = fiber_of s" "n_fibers ?s = n_fibers s" "n_mems ?s = Suc (n_mems s)"
    and old: "\<And>k. k \<noteq> n_mems s \<Longrightarrow> mem_of ?s k = mem_of s k" and new: "occupier (mem_of ?s (n_mems s)) = None"
    by (simp_all add: FiberMem_new_def)
  have lt: "f < n_fibers s \<Longrightarrow> running_mem (fiber_of s f) = Some k \<Longrightarrow> k \<noteq> n_mems s" for f k
    using inv by (auto simp: fib_inv_def mems_ok_def)
  have cn: "cur thr s < n_fibers s" using inv calls_nonempty by (auto simp: fib_inv_def control_ok_def)
  have "control_ok thr ?s" using inv by (auto simp: fib_inv_def control_ok_def e get_state_def)
  moreover have "contexts_ok thr ?s"
    using inv lt unfolding fib_inv_def contexts_ok_def e by (auto simp: get_state_def e) (metis old)+
  moreover have "occupants_ok (\<lambda>x. x = cur thr ?s) ?s"
    using inv unfolding fib_inv_def occupants_ok_def e by (metis new old option.distinct(1))
  moreover have "saved_ok ?s" using inv lt unfolding fib_inv_def saved_ok_def e by (metis old)
  moreover have "occupies ?s (cur thr ?s)" using inv lt [OF cn] unfolding fib_inv_def occupies_def e by (metis old)
  moreover have "mems_ok ?s" using inv by (fastforce simp: fib_inv_def mems_ok_def e)
  ultimately show ?thesis by (simp add: fib_inv_def)
qed

lemma inv_set_state:
  assumes inv: "fib_inv thr s" and f: "f < n_fibers s" "f \<notin> set (calls (env_of s thr))"
    and st: "st = SUSPENDED \<and> get_state s f = SLEEPING \<or> st = INITING \<and> running_mem (fiber_of s f) \<noteq> None"
  shows "fib_inv thr (set_state st f s)"
proof -
  have "cur thr s \<in> set (calls (env_of s thr))"
    using inv calls_nonempty by (simp add: fib_inv_def control_ok_def)
  with f have fc: "f \<noteq> cur thr s" by auto
  have "f \<notin> set (butlast (calls (env_of s thr)))" using f(2) in_set_butlastD by fastforce
  then have "control_ok thr (set_state st f s)"
    using inv fc st unfolding fib_inv_def control_ok_def by (auto simp: get_state_def)
  moreover have "contexts_ok thr (set_state st f s)"
    using inv fc st unfolding fib_inv_def contexts_ok_def by (auto simp: get_state_def)
  ultimately show ?thesis using inv by (auto simp: fib_inv_def mems_ok_def)
qed

lemma inv_wakeup:
  assumes "fib_inv thr s" and "f < n_fibers s"
  shows "fib_inv thr (fiber_wakeup f s)"
proof (cases "get_state s f = SLEEPING")
  case True
  have "f \<notin> set (calls (env_of s thr))"
  proof
    assume "f \<in> set (calls (env_of s thr))"
    then have "f = cur thr s \<or> f \<in> set (butlast (calls (env_of s thr)))"
      by (metis append_butlast_last_id in_set_conv_decomp empty_iff list.set(1) rotate1.simps(2) set_ConsD set_rotate1)
    then show False using assms(1) True by (auto simp: fib_inv_def control_ok_def)
  qed
  then show ?thesis using inv_set_state [OF assms, of SUSPENDED] True by (simp add: fiber_wakeup_def)
qed (simp add: assms fiber_wakeup_def)

lemma inv_reset:
  assumes "fib_inv thr s" and "f < n_fibers s" and "f \<notin> set (calls (env_of s thr))" and "Fiber_reset fn a f s = (b, s')"
  shows "fib_inv thr s'"
proof (cases "is_main_fiber (fiber_of s f) \<or> running_mem (fiber_of s f) = None")
  case True
  then show ?thesis using assms by (simp add: Fiber_reset_def)
next
  case False
  define i where "i = set_state INITING f s"
  have inv: "fib_inv thr i" using inv_set_state [OF assms(1-3), of INITING] False by (simp add: i_def)
  have s': "s' = set_state INITING f (upd_fiber f (\<lambda>b. b\<lparr>func := fn, func_args := a, save_buffer := None\<rparr>) s)"
    using False assms(4) by (auto simp: Fiber_reset_def)
  have fields: "mem_of s' = mem_of i" "env_of s' = env_of i" "n_fibers s' = n_fibers i" "n_mems s' = n_mems i"
    "\<And>x. fstate (fiber_of s' x) = fstate (fiber_of i x)" "\<And>x. env (fiber_of s' x) = env (fiber_of i x)"
    "\<And>x. ctx (fiber_of s' x) = ctx (fiber_of i x)" "\<And>x. use_shared_stack (fiber_of s' x) = use_shared_stack (fiber_of i x)"
    "\<And>x. running_mem (fiber_of s' x) = running_mem (fiber_of i x)"
    "\<And>x. stack_buffer_top (fiber_of s' x) = stack_buffer_top (fiber_of i x)"
    by (simp_all add: s' i_def)
  have sb: "save_buffer (fiber_of s' x) = (if x = f then None else save_buffer (fiber_of i x))" for x
    by (simp add: s' i_def)
  have "get_state i f = INITING" by (simp add: i_def)
  then have "contexts_ok thr s'"
    using inv unfolding fib_inv_def contexts_ok_def get_state_def fields sb by auto
  moreover have "saved_ok s'" using inv unfolding fib_inv_def saved_ok_def fields sb by auto
  ultimately show ?thesis
    using inv unfolding fib_inv_def control_ok_def occupants_ok_def occupies_def mems_ok_def get_state_def fields by blast
qed

lemma inv_own:
  assumes "fib_inv thr s" and "Fiber_own mem thr fn a sz s = (f, s')"
  shows "fib_inv thr s'"
proof -
  obtain base buf where m: "mem (own_stack_size sz) = (base, buf)" by fastforce
  let ?s = "snd (FiberMem_new base buf s)"
  have "fib_inv thr (snd (new_fiber ((blank_fiber thr)\<lparr>func := fn, func_args := a, running_mem := Some (n_mems s)\<rparr>) ?s))"
    using inv_new_mem [OF assms(1)] by (rule inv_new_fiber [where k = "n_mems s"]) (simp_all add: blank_fiber_def FiberMem_new_def)
  then show ?thesis using assms(2) m by (simp add: Fiber_own_def FiberMem_new_def Let_def)
qed

lemma inv_shared:
  assumes "fib_inv thr s" and "\<forall>k \<in> set (stack_array pool). k < n_mems s"
    and "Fiber_shared thr fn a pool s = Inr (f, pool', s')"
  shows "fib_inv thr s'"
proof -
  obtain k pool1 where g: "get_fiber_stack pool = Inr (k, pool1)" and k: "k \<in> set (stack_array pool)"
    using assms(3) by (auto simp: Fiber_shared_def get_fiber_stack_def split: if_splits)
  have "fib_inv thr (snd (new_fiber ((blank_fiber thr)\<lparr>func := fn, func_args := a, use_shared_stack := True,
      running_mem := Some k\<rparr>) s))"
    using assms(1) by (rule inv_new_fiber [where k = k]) (use k assms(2) in \<open>simp_all add: blank_fiber_def\<close>)
  then show ?thesis using assms(3) g by (auto simp: Fiber_shared_def Let_def split: prod.splits)
qed

lemma leave_inv:
  assumes inv: "fib_inv thr s" and st: "st \<in> {SUSPENDED, SLEEPING}"
    and x: "x \<in> {RUNNING, TERMINATED, EXCEPTION}" "final = (if x = RUNNING then st else x)"
    and may: "may_leave thr final rsp s" and l: "leave st thr rsp (set_state x (cur thr s) s) = (r, s')"
  shows "fib_inv thr s'"
proof -
  obtain s1 where "leave st thr rsp (set_state x (cur thr s) s) = (Inr (), s1)" "fib_inv thr s1"
    using leave_spec [OF inv _ x(1) st, of rsp] may unfolding may_leave_def x(2) by blast
  with l show ?thesis by simp
qed

lemma fiber_step_inv:
  assumes "fiber_step thr s s'" and inv: "fib_inv thr s"
  shows "fib_inv thr s'"
proof -
  have running: "get_state s (cur thr s) = RUNNING" using inv by (simp add: fib_inv_def control_ok_def)
  from assms(1) show ?thesis
proof cases
  case (step_resume rsp f r)
  then obtain s1 where "fiber_resume thr rsp f s = (Inr (), s1)" "fib_inv thr s1"
    using fiber_resume_spec [OF inv, of f rsp] unfolding may_resume_def by blast
  with step_resume show ?thesis by simp
next
  case (step_yield rsp r)
  then have "leave SUSPENDED thr rsp (set_state RUNNING (cur thr s) s) = (r, s')" and "may_leave thr SUSPENDED rsp s"
    by (simp_all add: fiber_yield_def set_state_same [OF running])
  then show ?thesis using leave_inv [OF inv, of SUSPENDED RUNNING SUSPENDED] by simp
next
  case (step_sleep rsp r)
  then have "leave SLEEPING thr rsp (set_state RUNNING (cur thr s) s) = (r, s')" and "may_leave thr SLEEPING rsp s"
    by (simp_all add: fiber_sleep_def set_state_same [OF running])
  then show ?thesis using leave_inv [OF inv, of SLEEPING RUNNING SLEEPING] by simp
next
  case (step_finish threw rsp r)
  let ?x = "if threw then EXCEPTION else TERMINATED"
  from step_finish have "leave SUSPENDED thr rsp (set_state ?x (cur thr s) s) = (r, s')" and "may_leave thr ?x rsp s"
    by (simp_all add: fiber_func_wrapper_def fiber_yield_def)
  then show ?thesis using leave_inv [OF inv, of SUSPENDED ?x ?x] by (simp split: if_splits)
next
  case (step_wakeup f)
  then show ?thesis using inv_wakeup [OF inv] by simp
next
  case (step_reset f fn a b)
  then show ?thesis using inv_reset [OF inv] by blast
next
  case (step_own mem fn a sz f)
  then show ?thesis using inv_own [OF inv] by blast
next
  case (step_shared pool fn a f pool')
  then show ?thesis using inv_shared [OF inv] by blast
next
  case (step_pool n base buf pool)
  then show ?thesis using inv_new_mem [OF inv, of base buf]
    by (auto simp: FiberSharedStackPool_def Let_def split: prod.splits)
qed
qed

lemma reach_inv: "fiber_reach thr s \<Longrightarrow> fib_inv thr s"
  by (induction rule: fiber_reach.induct) (auto intro: inv_initial fiber_step_inv)

section \<open>Stack sizes\<close>

lemma FFF_mask: "(0xFFF :: u64) = mask 12"
  by (simp add: mask_eq_exp_minus_1)

lemma page_round:
  fixes x :: u64
  assumes "0 < x" and "unat x \<le> 8388608"
  defines "r \<equiv> (if x AND 0xFFF \<noteq> 0 then (x AND NOT 0xFFF) + 0x1000 else x)"
  shows "unat r mod 4096 = 0 \<and> unat x \<le> unat r \<and> unat r < unat x + 4096 \<and> unat r \<le> 8388608"
proof -
  have low: "unat (x AND 0xFFF) = unat x mod 4096"
    unfolding FFF_mask using unat_take_bit [of 12 x] by (simp add: take_bit_eq_mask)
  have high: "unat (x AND NOT 0xFFF) = unat x - unat x mod 4096"
    unfolding FFF_mask using unat_clear_low [of x 12] by simp
  show ?thesis
  proof (cases "x AND 0xFFF = 0")
    case True
    then have "unat x mod 4096 = 0" using low by simp
    then show ?thesis using True assms by (simp add: r_def)
  next
    case False
    then have m: "0 < unat x mod 4096" using low unat_gt_0 [of "x AND 0xFFF"] by simp
    have x: "unat x = unat x div 4096 * 4096 + unat x mod 4096" by simp
    have "unat x div 4096 < 2048" using m x assms(2) by linarith
    have "unat r = unat (x AND NOT 0xFFF) + 4096"
      using False high assms(2) by (simp add: r_def unat_word_ariths)
    then have r: "unat r = unat x div 4096 * 4096 + 4096" using high x by linarith
    have "unat x mod 4096 < 4096" by simp
    then have "unat x \<le> unat r" "unat r < unat x + 4096" "unat r \<le> 8388608"
      using r m x \<open>unat x div 4096 < 2048\<close> by linarith+
    then show ?thesis using r by simp
  qed
qed

lemma resume_leave_spec:
  assumes "fib_inv thr s" and "may_resume thr rsp f s"
    and "\<not> use_shared_stack (fiber_of s (cur thr s))" and "rsp_ok s f rsp'"
  shows "\<exists>s1 s2 s3. fiber_resume thr rsp f s = (Inr (), s1) \<and> get_this thr s1 = Inr f
    \<and> fiber_yield thr rsp' s1 = (Inr (), s2) \<and> fib_inv thr s2 \<and> calls (env_of s2 thr) = calls (env_of s thr)
    \<and> get_state s2 f = SUSPENDED \<and> (\<forall>g. g \<noteq> f \<longrightarrow> get_state s2 g = get_state s g)
    \<and> fiber_sleep thr rsp' s1 = (Inr (), s3) \<and> fib_inv thr s3 \<and> n_fibers s3 = n_fibers s \<and> calls (env_of s3 thr) = calls (env_of s thr)
    \<and> get_state s3 f = SLEEPING \<and> (\<forall>g. g \<noteq> f \<longrightarrow> get_state s3 g = get_state s g)"
proof -
  let ?c = "cur thr s"
  have may: "f < n_fibers s" "f \<notin> set (calls (env_of s thr))" "length (calls (env_of s thr)) < MAX_CALL_STACK_DEPTH"
    "get_state s f \<in> {INITING, SUSPENDED, SLEEPING}" "can_take (set_state SUSPENDED ?c s) f" "rsp_ok s ?c rsp"
    using assms(2) by (simp_all add: may_resume_def)
  obtain s1 where s1: "fiber_resume thr rsp f s = (Inr (), s1)" "fib_inv thr s1" "n_fibers s1 = n_fibers s"
    "calls (env_of s1 thr) = calls (env_of s thr) @ [f]"
    "\<forall>g. get_state s1 g = (if g = f then RUNNING else if g = ?c then SUSPENDED else get_state s g)"
    "\<forall>g. use_shared_stack (fiber_of s1 g) = use_shared_stack (fiber_of s g)
       \<and> running_mem (fiber_of s1 g) = running_mem (fiber_of s g)"
    "\<forall>k. length (stack_buffer (mem_of s1 k)) = length (stack_buffer (mem_of s k))"
    using fiber_resume_spec [OF assms(1) may] by blast
  have ctl: "control_ok thr s" and eok: "env_ok (env_of s1 thr)"
    using assms(1) s1(2) by (simp_all add: fib_inv_def control_ok_def)
  then have ne: "calls (env_of s thr) \<noteq> []" and run: "get_state s ?c = RUNNING"
    using calls_nonempty by (auto simp: control_ok_def)
  have c1: "cur thr s1 = f" "last (butlast (calls (env_of s1 thr))) = ?c" "1 < length (calls (env_of s1 thr))"
    "butlast (calls (env_of s1 thr)) = calls (env_of s thr)"
    using s1(4) ne by (simp_all add: Suc_lessI)
  have same: "set_state RUNNING f s1 = s1" using s1(5) by (simp add: set_state_same)
  have take: "can_take (set_state st (cur thr s1) s1) (last (butlast (calls (env_of s1 thr))))" for st
  proof -
    have "\<not> use_shared_stack (fiber_of s1 ?c)" using assms(3) s1(6) by blast
    then have "\<not> use_shared_stack (fiber_of (set_state st (cur thr s1) s1) ?c)" by auto
    then show ?thesis unfolding c1(2) can_take_def by blast
  qed
  have rsp1: "rsp_ok s1 (cur thr s1) rsp'"
    using assms(4) s1(6,7) c1(1) by (cases "running_mem (fiber_of s f)") (auto simp: rsp_ok_def)
  have returns: "\<exists>s2. leave st thr rsp' s1 = (Inr (), s2) \<and> fib_inv thr s2 \<and> n_fibers s2 = n_fibers s
      \<and> calls (env_of s2 thr) = calls (env_of s thr)
      \<and> get_state s2 f = st \<and> (\<forall>g. g \<noteq> f \<longrightarrow> get_state s2 g = get_state s g)"
    if st: "st \<in> {SUSPENDED, SLEEPING}" for st
  proof -
    obtain s2 where "leave st thr rsp' (set_state RUNNING (cur thr s1) s1) = (Inr (), s2)" "fib_inv thr s2" "n_fibers s2 = n_fibers s1"
      "calls (env_of s2 thr) = butlast (calls (env_of s1 thr))"
      "\<forall>g. get_state s2 g = (if g = ?c then RUNNING else if g = cur thr s1 then st else get_state s1 g)"
      using leave_spec [OF s1(2) c1(3) _ st _ rsp1, of RUNNING] take unfolding c1(2) by auto
    with s1(3,5) c1 same run may(2) ne show ?thesis by (auto intro: last_in_set)
  qed
  obtain s2 s3 where "leave SUSPENDED thr rsp' s1 = (Inr (), s2)" "fib_inv thr s2" "calls (env_of s2 thr) = calls (env_of s thr)"
      "get_state s2 f = SUSPENDED" "\<forall>g. g \<noteq> f \<longrightarrow> get_state s2 g = get_state s g"
    and "leave SLEEPING thr rsp' s1 = (Inr (), s3)" "fib_inv thr s3" "n_fibers s3 = n_fibers s" "calls (env_of s3 thr) = calls (env_of s thr)"
      "get_state s3 f = SLEEPING" "\<forall>g. g \<noteq> f \<longrightarrow> get_state s3 g = get_state s g"
    using returns [of SUSPENDED] returns [of SLEEPING] by auto
  moreover have "get_this thr s1 = Inr f" using current_eq [OF eok] c1(1) by (simp add: get_this_def)
  ultimately show ?thesis using s1(1) unfolding fiber_yield_def fiber_sleep_def by blast
qed

section \<open>Properties\<close>

text \<open>
  C5. The states of the fibers of a thread always agree with its call stack. In every state
  reached from a fresh thread by creating, resetting and waking fibers and by resuming,
  yielding, sleeping and finishing within the library's contract, the call stack is not empty
  and free of repetition, its top fiber and no other is \<open>RUNNING\<close>, all fibers below it are
  \<open>SUSPENDED\<close>, and a running fiber on a shared stack is the occupier of that stack.
\<close>

theorem fiber_states_consistent:
  assumes "fiber_reach thr s"
  shows "(\<exists>f. get_this thr s = Inr f \<and> get_state s f = RUNNING
        \<and> (\<forall>g < n_fibers s. g \<noteq> f \<longrightarrow> get_state s g \<noteq> RUNNING)
        \<and> (\<forall>k. use_shared_stack (fiber_of s f) \<and> running_mem (fiber_of s f) = Some k \<longrightarrow> occupier (mem_of s k) = Some f))
    \<and> distinct (calls (env_of s thr)) \<and> length (calls (env_of s thr)) \<le> 128
    \<and> (\<forall>g \<in> set (butlast (calls (env_of s thr))). get_state s g = SUSPENDED)"
proof -
  have inv: "fib_inv thr s" using assms by (rule reach_inv)
  then have ctl: "control_ok thr s" and occ: "occupies s (cur thr s)" by (simp_all add: fib_inv_def)
  then have eok: "env_ok (env_of s thr)" by (simp add: control_ok_def)
  then have "get_this thr s = Inr (cur thr s)" by (simp add: get_this_def current_eq)
  moreover have "length (calls (env_of s thr)) \<le> 128"
    using eok length_calls [OF eok] by (simp add: env_ok_def MAX_CALL_STACK_DEPTH_def)
  ultimately show ?thesis using ctl occ by (simp add: control_ok_def occupies_def)
qed

text \<open>A thread with its main fiber (0) and one further fiber (1) that has not started.\<close>

definition one_worker :: fibers where
  "one_worker = snd (Fiber_own (\<lambda>sz. (0x10000, replicate 64 0)) 0 7 0 0 (FiberEnvironment_new 0 no_fibers))"

lemma reach_one_worker: "fiber_reach 0 one_worker"
  unfolding one_worker_def
  by (rule reach_step [OF reach_init], rule step_own) (rule prod.collapse [symmetric])

lemma one_worker_facts:
  "calls (env_of one_worker 0) = [0]" "n_fibers one_worker = 2" "get_state one_worker 1 = INITING"
  "running_mem (fiber_of one_worker 0) = None" "\<not> use_shared_stack (fiber_of one_worker 0)"
  "\<not> use_shared_stack (fiber_of one_worker 1)"
  by (simp_all add: one_worker_def Fiber_own_def FiberMem_new_def new_fiber_def initial_env initial_store
      get_state_def blank_fiber_def Let_def)

lemma one_worker_resume: "may_resume 0 0 1 one_worker"
  using one_worker_facts by (simp add: may_resume_def MAX_CALL_STACK_DEPTH_def can_take_def rsp_ok_def)

theorem fiber_states_consistent_witness:
  "\<exists>f. get_this 0 one_worker = Inr f \<and> get_state one_worker f = RUNNING"
  using fiber_states_consistent [OF reach_one_worker] by blast

text \<open>
  Resuming a fiber from a fiber with a stack of its own and yielding from it brings the thread
  back where it was: both calls succeed, between them the resumed fiber is the current one,
  and afterwards the call stack and the states of all other fibers are as before, the
  resumer runs and the resumed fiber is suspended (or asleep, with \<open>fiber_sleep\<close>).
\<close>

theorem resume_then_leave:
  assumes "fib_inv thr s" and "may_resume thr rsp f s"
    and "\<not> use_shared_stack (fiber_of s (cur thr s))" and "rsp_ok s f rsp'"
  shows "\<exists>s1 s2 s3. fiber_resume thr rsp f s = (Inr (), s1) \<and> get_this thr s1 = Inr f
    \<and> fiber_yield thr rsp' s1 = (Inr (), s2) \<and> calls (env_of s2 thr) = calls (env_of s thr)
    \<and> get_state s2 f = SUSPENDED \<and> (\<forall>g. g \<noteq> f \<longrightarrow> get_state s2 g = get_state s g)
    \<and> fiber_sleep thr rsp' s1 = (Inr (), s3) \<and> calls (env_of s3 thr) = calls (env_of s thr)
    \<and> get_state s3 f = SLEEPING \<and> (\<forall>g. g \<noteq> f \<longrightarrow> get_state s3 g = get_state s g)"
  using resume_leave_spec [OF assms] by blast

theorem resume_then_leave_witness:
  "\<exists>s1 s2. fiber_resume 0 0 1 one_worker = (Inr (), s1) \<and> get_this 0 s1 = Inr 1
     \<and> fiber_yield 0 0 s1 = (Inr (), s2) \<and> get_state s2 1 = SUSPENDED"
proof -
  have "rsp_ok one_worker 1 0" by (simp add: rsp_ok_def split: option.split)
  moreover have "\<not> use_shared_stack (fiber_of one_worker (cur 0 one_worker))" using one_worker_facts by simp
  ultimately show ?thesis
    using resume_then_leave [OF reach_inv [OF reach_one_worker] one_worker_resume] by blast
qed


text \<open>A main fiber (0) and two fibers (1, 2) that share one stack.\<close>

definition two_sharers :: fibers where
  "two_sharers =
     (let (pool, s1) = FiberSharedStackPool 4 0x20000 (replicate 32 0) (FiberEnvironment_new 0 no_fibers)
      in case Fiber_shared 0 1 0 pool s1 of
           Inl _ \<Rightarrow> s1
         | Inr (_, pool2, s2) \<Rightarrow> (case Fiber_shared 0 2 0 pool2 s2 of Inl _ \<Rightarrow> s2 | Inr (_, _, s3) \<Rightarrow> s3))"

lemma two_sharers_eq:
  defines "s0 \<equiv> snd (FiberMem_new 0x20000 (replicate 32 0) (FiberEnvironment_new 0 no_fibers))"
    and "fb \<equiv> (\<lambda>fn. (blank_fiber 0)\<lparr>func := fn, func_args := 0, use_shared_stack := True, running_mem := Some 0\<rparr>)"
  shows "two_sharers = snd (new_fiber (fb 2) (snd (new_fiber (fb 1) s0)))"
proof -
  have n: "n_mems (FiberEnvironment_new 0 no_fibers) = 0"
    by (simp add: FiberEnvironment_new_def Fiber_main_def new_fiber_def no_fibers_def push_fiber_def MAX_CALL_STACK_DEPTH_def)
  show ?thesis
    by (simp add: two_sharers_def FiberSharedStackPool_def Fiber_shared_def get_fiber_stack_def FiberMem_new_def n
        s0_def fb_def new_fiber_def Let_def)
qed

lemma inv_two_sharers: "fib_inv 0 two_sharers"
proof -
  have n: "n_mems (FiberEnvironment_new 0 no_fibers) = 0"
    by (simp add: FiberEnvironment_new_def Fiber_main_def new_fiber_def no_fibers_def push_fiber_def MAX_CALL_STACK_DEPTH_def)
  show ?thesis
    unfolding two_sharers_eq
    by (intro inv_new_fiber [where k = 0] inv_new_mem inv_initial)
      (simp_all add: blank_fiber_def FiberMem_new_def new_fiber_def n)
qed

lemma two_sharers_facts:
  "calls (env_of two_sharers 0) = [0]" "n_fibers two_sharers = 3" "get_state two_sharers 1 = INITING"
  "get_state two_sharers 2 = INITING" "running_mem (fiber_of two_sharers 0) = None"
  "use_shared_stack (fiber_of two_sharers 1)" "running_mem (fiber_of two_sharers 1) = Some 0"
  "use_shared_stack (fiber_of two_sharers 2)" "running_mem (fiber_of two_sharers 2) = Some 0"
  "occupier (mem_of two_sharers k) = None"
  by (simp_all add: two_sharers_eq FiberMem_new_def new_fiber_def initial_env initial_store get_state_def blank_fiber_def)

lemma two_sharers_resume: "may_resume 0 0 2 two_sharers"
  using two_sharers_facts by (simp add: may_resume_def MAX_CALL_STACK_DEPTH_def can_take_def rsp_ok_def)


text \<open>
  What the library does not check. A fiber resumed when 128 fibers are nested writes behind the
  end of the call stack; the main fiber of a thread that yields or sleeps aborts the process;
  and resuming a fiber whose shared stack is held by a fiber that sleeps (or that ended with
  an exception, or was reset) aborts the process.
\<close>

theorem fiber_switch_aborts:
  assumes "fib_inv thr s" and "f < n_fibers s" and "get_state s f \<in> {SUSPENDED, SLEEPING}"
  shows "(length (calls (env_of s thr)) = 128 \<longrightarrow> fst (fiber_resume thr rsp f s) = Inl Out_of_bounds)
    \<and> (length (calls (env_of s thr)) = 1 \<longrightarrow>
         fst (fiber_yield thr rsp s) = Inl Assertion_failed \<and> fst (fiber_sleep thr rsp s) = Inl Assertion_failed)
    \<and> (length (calls (env_of s thr)) < 128 \<and> use_shared_stack (fiber_of s f) \<and> running_mem (fiber_of s f) = Some k
         \<and> occupier (mem_of s k) = Some o' \<and> o' \<notin> {f, cur thr s}
         \<and> get_state s o' \<in> {SLEEPING, EXCEPTION, INITING}
         \<longrightarrow> fst (fiber_resume thr rsp f s) = Inl Assertion_failed)"
proof -
  have ctl: "control_ok thr s" and eok: "env_ok (env_of s thr)" using assms(1) by (simp_all add: fib_inv_def control_ok_def)
  note ce = current_eq [OF eok]
  have envf: "env (fiber_of s f) = thr" using ctl assms(2) by (simp add: control_ok_def)
  have nt: "get_state s f \<noteq> TERMINATED" "get_state s f \<noteq> EXCEPTION" "get_state s f \<noteq> INITING" using assms(3) by auto
  note unfold_resume = fiber_resume_def nt ce envf Let_def
  have "fst (fiber_resume thr rsp f s) = Inl Out_of_bounds" if "length (calls (env_of s thr)) = 128"
    using that eok length_calls [OF eok]
    by (simp add: unfold_resume push_fiber_def env_ok_def MAX_CALL_STACK_DEPTH_def)
  moreover have "fst (leave st thr rsp s) = Inl Assertion_failed" if "length (calls (env_of s thr)) = 1" for st
    using that length_calls [OF eok] by (simp add: leave_def ce pop_fiber_def get_current_fiber_def [of "_\<lparr>fiber_call_stack := _\<rparr>"])
  moreover have "fst (fiber_resume thr rsp f s) = Inl Assertion_failed"
    if lt: "length (calls (env_of s thr)) < 128" and "use_shared_stack (fiber_of s f)" "running_mem (fiber_of s f) = Some k"
      "occupier (mem_of s k) = Some o'" "o' \<notin> {f, cur thr s}" "get_state s o' \<in> {SLEEPING, EXCEPTION, INITING}"
  proof -
    obtain e1 where "push_fiber f (env_of s thr) = Inr e1"
      using push_eq [OF eok, of f] lt unfolding MAX_CALL_STACK_DEPTH_def by blast
    then show ?thesis
      using that by (auto simp: unfold_resume swap_fiber_def swap_out_part_def change_occupier_def)
  qed
  ultimately show ?thesis unfolding fiber_yield_def fiber_sleep_def by blast
qed

theorem fiber_switch_aborts_witness:
  "\<exists>s. fib_inv 0 s \<and> get_state s 1 = SLEEPING \<and> fst (fiber_yield 0 0 s) = Inl Assertion_failed"
proof -
  have "rsp_ok one_worker 1 0" by (simp add: rsp_ok_def split: option.split)
  moreover have "\<not> use_shared_stack (fiber_of one_worker (cur 0 one_worker))" using one_worker_facts by simp
  ultimately obtain s where s: "fib_inv 0 s" "n_fibers s = 2" "calls (env_of s 0) = [0]" "get_state s 1 = SLEEPING"
    using resume_leave_spec [OF reach_inv [OF reach_one_worker] one_worker_resume] one_worker_facts by metis
  then have "1 < n_fibers s" "get_state s 1 \<in> {SUSPENDED, SLEEPING}" by simp_all
  from fiber_switch_aborts [OF s(1) this] s show ?thesis by auto
qed

text \<open>
  Stack layout. The size of a private stack is a positive multiple of the page size, at most
  eight megabytes, and not smaller than what was asked for (up to that limit). The initial
  stack pointer of a fiber is 16-byte aligned and lies inside its stack. A shared-stack pool
  of any size hands out one and the same memory every time.
\<close>

theorem stack_layout:
  "(0 < unat (own_stack_size sz) \<and> unat (own_stack_size sz) mod 4096 = 0 \<and> unat (own_stack_size sz) \<le> 8388608
     \<and> min (unat sz) 8388608 \<le> unat (own_stack_size sz))
   \<and> (running_mem (fiber_of s f) = Some k \<and> 24 \<le> length (stack_buffer (mem_of s k))
        \<and> unat (stack_base (mem_of s k)) + length (stack_buffer (mem_of s k)) < 2 ^ 64 \<longrightarrow>
      (\<exists>s' c. make_context f s = (Inr (), s') \<and> ctx (fiber_of s' f) = Some c \<and> unat (reg_rsp c) mod 16 = 0
         \<and> unat (stack_base (mem_of s k)) \<le> unat (reg_rsp c)
         \<and> unat (reg_rsp c) < unat (stack_base (mem_of s k)) + length (stack_buffer (mem_of s k))))
   \<and> (get_fiber_stack (fst (FiberSharedStackPool n base buf s)) = Inr (m, pool) \<and>
      get_fiber_stack pool = Inr (m', pool') \<longrightarrow> m = m')"
proof (intro conjI impI)
  define x where "x = (if 1024 * 1024 * 8 < sz then 1024 * 1024 * 8 else if sz = 0 then 128 * 1024 else sz)"
  have x: "0 < unat x" "unat x \<le> 8388608" "min (unat sz) 8388608 \<le> unat x"
    by (auto simp: x_def word_less_nat_alt not_less unat_gt_0)
  have eq: "own_stack_size sz = (if x AND 0xFFF \<noteq> 0 then (x AND NOT 0xFFF) + 0x1000 else x)"
    by (simp only: own_stack_size_def Let_def x_def)
  have "0 < x" using x(1) by (simp add: unat_gt_0 word_gt_0)
  note r = page_round [OF this x(2), folded eq]
  show "unat (own_stack_size sz) mod 4096 = 0" "unat (own_stack_size sz) \<le> 8388608" using r by simp_all
  show "0 < unat (own_stack_size sz)" "min (unat sz) 8388608 \<le> unat (own_stack_size sz)" using r x by linarith+
next
  assume a: "running_mem (fiber_of s f) = Some k \<and> 24 \<le> length (stack_buffer (mem_of s k))
        \<and> unat (stack_base (mem_of s k)) + length (stack_buffer (mem_of s k)) < 2 ^ 64"
  let ?b = "stack_base (mem_of s k)" and ?n = "length (stack_buffer (mem_of s k))"
  let ?t = "?b + of_nat ?n - 8"
  have "unat (?b + of_nat ?n) = unat ?b + ?n"
    using a by (simp add: unat_add_lem [THEN iffD1] unat_of_nat)
  then have t: "unat ?t = unat ?b + ?n - 8" using a by (subst unat_sub) (simp_all add: word_le_nat_alt)
  have m: "(0xFFFFFFFFFFFFFFF0 :: u64) = NOT (mask 4)" by (simp add: mask_eq_exp_minus_1)
  have sp: "unat (?t AND 0xFFFFFFFFFFFFFFF0) = unat ?t - unat ?t mod 16"
    unfolding m using unat_clear_low [of ?t 4] by simp
  have "(unat ?t - unat ?t mod 16) mod 16 = 0" by (metis minus_mod_eq_mult_div mod_mult_self1_is_0)
  then have al: "unat (?t AND 0xFFFFFFFFFFFFFFF0) mod 16 = 0" using sp by simp
  have "unat ?t mod 16 < 16" by simp
  then have "unat ?b \<le> unat (?t AND 0xFFFFFFFFFFFFFFF0)" "unat (?t AND 0xFFFFFFFFFFFFFFF0) < unat ?b + ?n"
    using sp t a by linarith+
  then show "\<exists>s' c. make_context f s = (Inr (), s') \<and> ctx (fiber_of s' f) = Some c \<and> unat (reg_rsp c) mod 16 = 0
         \<and> unat ?b \<le> unat (reg_rsp c) \<and> unat (reg_rsp c) < unat ?b + ?n"
    using a al by (simp add: make_context_def Let_def)
next
  assume "get_fiber_stack (fst (FiberSharedStackPool n base buf s)) = Inr (m, pool) \<and>
      get_fiber_stack pool = Inr (m', pool')"
  then show "m = m'"
    by (auto simp: FiberSharedStackPool_def FiberMem_new_def get_fiber_stack_def Let_def split: if_splits)
qed

lemma one_worker_stack:
  "running_mem (fiber_of one_worker 1) = Some 0" "stack_base (mem_of one_worker 0) = 0x10000"
  "length (stack_buffer (mem_of one_worker 0)) = 64"
  by (simp_all add: one_worker_def Fiber_own_def FiberMem_new_def new_fiber_def initial_store Let_def
      FiberEnvironment_new_def Fiber_main_def no_fibers_def push_fiber_def MAX_CALL_STACK_DEPTH_def)

theorem stack_layout_witness:
  "unat (own_stack_size 5000) mod 4096 = 0
   \<and> (\<exists>s' c. make_context 1 one_worker = (Inr (), s') \<and> ctx (fiber_of s' 1) = Some c
        \<and> 0x10000 \<le> unat (reg_rsp c) \<and> unat (reg_rsp c) < 0x10000 + 64)"
  using stack_layout [of 5000 one_worker 1 0 0 0 "[]" 0 "\<lparr>alloc_idx = 0, stack_array = []\<rparr>" 0
      "\<lparr>alloc_idx = 0, stack_array = []\<rparr>"]
  by (auto simp: one_worker_stack simp del: One_nat_def)

end
