(* ===== verification/Scheduler.thy ===== *)
theory Scheduler
  imports Fiber
begin

text \<open>
  The N:M scheduler (src/sylar/scheduler.h, src/sylar/scheduler.cpp): worker threads take fibers
  from one task list, run them until they give up the processor, and put them back unless they
  sleep or have ended. The loop \<open>Scheduler::schedule\<close> is a state machine per worker; the steps of
  different workers interleave. A step is what a worker does between two accesses to shared
  state: choosing a task under the mutex, starting the chosen fiber, the fiber's return, and
  the same for the idle fiber. The code of the fibers is the environment: a running fiber comes
  back in any state, and tasks may be added and sleeping fibers woken at any time.
\<close>

section \<open>State\<close>

record ScheduledTask =
  task_thread :: int
  task_fiber :: fib

datatype sched_mode = INIT | ACTIVE | STOPPING | STOPPED

text \<open>Where a worker is in \<open>schedule\<close>; the idle fiber's state belongs to the worker.\<close>

datatype location = Loop | Chosen "ScheduledTask option" | Running_task ScheduledTask | In_idle | Exited

record scheduler =
  tasks :: "ScheduledTask list"
  mode :: sched_mode
  thread_count :: nat
  threads :: "int list"
  active_thread_count :: nat
  idle_thread_count :: nat
  tickles :: nat
  fib_state :: "fib \<Rightarrow> FiberState"
  worker :: "int \<Rightarrow> location"
  idle_fiber :: "int \<Rightarrow> FiberState"

definition Scheduler :: "nat \<Rightarrow> (fib \<Rightarrow> FiberState) \<Rightarrow> scheduler" where
  "Scheduler n fs = \<lparr>tasks = [], mode = INIT, thread_count = n, threads = [], active_thread_count = 0,
     idle_thread_count = 0, tickles = 0, fib_state = fs, worker = (\<lambda>_. Exited), idle_fiber = (\<lambda>_. INITING)\<rparr>"

section \<open>Operations\<close>

definition add_fiber :: "fib \<Rightarrow> int \<Rightarrow> scheduler \<Rightarrow> scheduler" where
  "add_fiber f thr s = s\<lparr>tasks := tasks s @ [\<lparr>task_thread = thr, task_fiber = f\<rparr>]\<rparr>"

definition tickle :: "scheduler \<Rightarrow> scheduler" where
  "tickle s = s\<lparr>tickles := tickles s + 1\<rparr>"

definition has_idle_threads :: "scheduler \<Rightarrow> bool" where
  "has_idle_threads s \<longleftrightarrow> 0 < idle_thread_count s"

definition start :: "int list \<Rightarrow> scheduler \<Rightarrow> scheduler" where
  "start tids s =
     (if mode s \<noteq> INIT then s
      else s\<lparr>mode := ACTIVE, threads := tids,
             worker := (\<lambda>t. if t \<in> set tids then Loop else worker s t)\<rparr>)"

text \<open>
  \<open>stop\<close>: the first half, up to the point where the caller joins the worker threads. It is an
  error to call it on a worker thread.
\<close>

definition stop :: "bool \<Rightarrow> scheduler \<Rightarrow> (scheduler, unit) outcome" where
  "stop is_scheduler_thread s =
     (if mode s \<noteq> ACTIVE then (Inr (), s)
      else if is_scheduler_thread then (Inl Assertion_failed, s)
      else (Inr (), ((tickle ^^ thread_count s) (s\<lparr>mode := STOPPING\<rparr>))\<lparr>threads := []\<rparr>))"

definition can_stop :: "scheduler \<Rightarrow> bool" where
  "can_stop s \<longleftrightarrow> mode s = STOPPING \<and> threads s = [] \<and> active_thread_count s = 0 \<and> tasks s = []"

text \<open>
  The search under the mutex. The results are the task, whether a task of another thread was
  skipped, whether the iterator stopped before the end, and the remaining list.
\<close>

fun pick_loop :: "int \<Rightarrow> ScheduledTask list \<Rightarrow> ScheduledTask option \<times> bool \<times> bool \<times> ScheduledTask list" where
  "pick_loop tid [] = (None, False, False, [])"
| "pick_loop tid (t # ts) =
     (if task_thread t \<noteq> -1 \<and> task_thread t \<noteq> tid
      then let (r, _, at_task, rest) = pick_loop tid ts in (r, True, at_task, t # rest)
      else (Some t, False, ts \<noteq> [], ts))"

definition pick_task :: "int \<Rightarrow> scheduler \<Rightarrow> ScheduledTask option \<times> scheduler" where
  "pick_task tid s =
     (let (task, skipped, at_task, rest) = pick_loop tid (tasks s);
          s1 = s\<lparr>tasks := rest\<rparr>
      in (task, if skipped \<or> at_task then tickle s1 else s1))"

definition ended :: "FiberState \<Rightarrow> bool" where
  "ended st \<longleftrightarrow> st = TERMINATED \<or> st = EXCEPTION"

definition move :: "int \<Rightarrow> location \<Rightarrow> scheduler \<Rightarrow> scheduler" where
  "move tid l s = s\<lparr>worker := (worker s)(tid := l)\<rparr>"

definition set_fib :: "fib \<Rightarrow> FiberState \<Rightarrow> scheduler \<Rightarrow> scheduler" where
  "set_fib f st s = s\<lparr>fib_state := (fib_state s)(f := st)\<rparr>"

text \<open>One pass of the loop, in four pieces.\<close>

definition schedule_choose :: "int \<Rightarrow> scheduler \<Rightarrow> scheduler" where
  "schedule_choose tid s = (let (task, s1) = pick_task tid s in move tid (Chosen task) s1)"

definition schedule_idle :: "int \<Rightarrow> scheduler \<Rightarrow> scheduler" where
  "schedule_idle tid s =
     (if ended (idle_fiber s tid) then move tid Exited s
      else move tid In_idle (s\<lparr>idle_thread_count := idle_thread_count s + 1,
                               idle_fiber := (idle_fiber s)(tid := RUNNING)\<rparr>))"

definition schedule_dispatch :: "int \<Rightarrow> ScheduledTask option \<Rightarrow> scheduler \<Rightarrow> scheduler" where
  "schedule_dispatch tid task s =
     (case task of
        None \<Rightarrow> schedule_idle tid s
      | Some t \<Rightarrow>
          if ended (fib_state s (task_fiber t)) then schedule_idle tid s
          else if fib_state s (task_fiber t) = RUNNING then move tid Loop (add_fiber (task_fiber t) (-1) s)
          else move tid (Running_task t)
                 (set_fib (task_fiber t) RUNNING (s\<lparr>active_thread_count := active_thread_count s + 1\<rparr>)))"

definition schedule_return :: "int \<Rightarrow> ScheduledTask \<Rightarrow> FiberState \<Rightarrow> scheduler \<Rightarrow> scheduler" where
  "schedule_return tid t st s =
     (let s1 = set_fib (task_fiber t) st (s\<lparr>active_thread_count := active_thread_count s - 1\<rparr>)
      in move tid Loop (if st = READY \<or> st = SUSPENDED then add_fiber (task_fiber t) (-1) s1 else s1))"

text \<open>The idle fiber ends when \<open>can_stop\<close> holds and yields otherwise.\<close>

definition idle_return :: "int \<Rightarrow> scheduler \<Rightarrow> scheduler" where
  "idle_return tid s =
     move tid Loop (s\<lparr>idle_thread_count := idle_thread_count s - 1,
       idle_fiber := (idle_fiber s)(tid := if can_stop s then TERMINATED else SUSPENDED)\<rparr>)"

section \<open>The transition system\<close>

datatype action =
    Start "int list" | Stop | Add fib int | Wake fib
  | Choose int | Dispatch int | Return int FiberState | Idle_return int

inductive sched_step :: "scheduler \<Rightarrow> action \<Rightarrow> scheduler \<Rightarrow> bool" where
  s_start: "distinct tids \<Longrightarrow> length tids = thread_count s \<Longrightarrow> sched_step s (Start tids) (start tids s)"
| s_stop: "stop False s = (r, s') \<Longrightarrow> sched_step s Stop s'"
| s_add: "sched_step s (Add f thr) (add_fiber f thr s)"
| s_wake: "fib_state s f = SLEEPING \<Longrightarrow> sched_step s (Wake f) (set_fib f SUSPENDED s)"
| s_choose: "worker s tid = Loop \<Longrightarrow> sched_step s (Choose tid) (schedule_choose tid s)"
| s_dispatch: "worker s tid = Chosen task \<Longrightarrow> sched_step s (Dispatch tid) (schedule_dispatch tid task s)"
| s_return: "worker s tid = Running_task t \<Longrightarrow> st \<in> {SUSPENDED, SLEEPING, TERMINATED, EXCEPTION} \<Longrightarrow>
    sched_step s (Return tid st) (schedule_return tid t st s)"
| s_idle: "worker s tid = In_idle \<Longrightarrow> sched_step s (Idle_return tid) (idle_return tid s)"

inductive sched_reach :: "scheduler \<Rightarrow> bool" where
  sr_init: "(\<And>f. fs f \<noteq> RUNNING) \<Longrightarrow> sched_reach (Scheduler n fs)"
| sr_step: "sched_reach s \<Longrightarrow> sched_step s a s' \<Longrightarrow> sched_reach s'"

inductive_cases sched_stepE [elim!]: "sched_step s a s'"

section \<open>Choosing a task\<close>

abbreviation eligible :: "int \<Rightarrow> ScheduledTask \<Rightarrow> bool" where
  "eligible tid t \<equiv> task_thread t = -1 \<or> task_thread t = tid"

lemma pick_loop_None:
  "pick_loop tid ts = (None, sk, at, rest) \<Longrightarrow> rest = ts \<and> \<not> at \<and> (sk \<longleftrightarrow> ts \<noteq> []) \<and> (\<forall>t \<in> set ts. \<not> eligible tid t)"
  by (induction ts arbitrary: sk at rest) (auto split: if_splits prod.splits)

lemma pick_loop_Some:
  "pick_loop tid ts = (Some t, sk, at, rest) \<Longrightarrow>
     \<exists>xs ys. ts = xs @ t # ys \<and> rest = xs @ ys \<and> (\<forall>x \<in> set xs. \<not> eligible tid x) \<and> eligible tid t
       \<and> (sk \<longleftrightarrow> xs \<noteq> []) \<and> (at \<longleftrightarrow> ys \<noteq> [])"
proof (induction ts arbitrary: sk at rest)
  case (Cons a ts)
  show ?case
  proof (cases "eligible tid a")
    case True
    with Cons.prems show ?thesis by (intro exI [of _ "[]"] exI [of _ ts]) auto
  next
    case False
    then obtain sk' rest' where r: "pick_loop tid ts = (Some t, sk', at, rest')" "rest = a # rest'" "sk"
      using Cons.prems by (auto split: prod.splits)
    from Cons.IH [OF r(1)] obtain xs ys where "ts = xs @ t # ys" "rest' = xs @ ys"
      "\<forall>x \<in> set xs. \<not> eligible tid x" "eligible tid t" "at \<longleftrightarrow> ys \<noteq> []" by blast
    with r False show ?thesis by (intro exI [of _ "a # xs"] exI [of _ ys]) simp
  qed
qed simp

section \<open>Invariant\<close>

definition busy :: "scheduler \<Rightarrow> int set" where
  "busy s = {tid. \<exists>t. worker s tid = Running_task t}"

definition idling :: "scheduler \<Rightarrow> int set" where
  "idling s = {tid. worker s tid = In_idle}"

definition sched_inv :: "scheduler \<Rightarrow> bool" where
  "sched_inv s \<longleftrightarrow> finite {tid. worker s tid \<noteq> Exited}
     \<and> (mode s = INIT \<longrightarrow> (\<forall>tid. worker s tid = Exited))
     \<and> active_thread_count s = card (busy s) \<and> idle_thread_count s = card (idling s)
     \<and> (\<forall>tid t. worker s tid = Running_task t \<longrightarrow> fib_state s (task_fiber t) = RUNNING)
     \<and> (\<forall>f. fib_state s f = RUNNING \<longrightarrow> (\<exists>tid t. worker s tid = Running_task t \<and> task_fiber t = f))
     \<and> (\<forall>t1 t2 a b. worker s t1 = Running_task a \<and> worker s t2 = Running_task b \<and> task_fiber a = task_fiber b \<longrightarrow> t1 = t2)"

lemma sched_simps [simp]:
  "worker (add_fiber f thr s) = worker s" "fib_state (add_fiber f thr s) = fib_state s"
  "active_thread_count (add_fiber f thr s) = active_thread_count s" "idle_thread_count (add_fiber f thr s) = idle_thread_count s"
  "mode (add_fiber f thr s) = mode s" "idle_fiber (add_fiber f thr s) = idle_fiber s" "threads (add_fiber f thr s) = threads s"
  "worker (tickle s) = worker s" "fib_state (tickle s) = fib_state s"
  "active_thread_count (tickle s) = active_thread_count s" "idle_thread_count (tickle s) = idle_thread_count s"
  "mode (tickle s) = mode s" "idle_fiber (tickle s) = idle_fiber s" "tasks (tickle s) = tasks s"
  "worker (move tid l s) = (worker s)(tid := l)" "fib_state (move tid l s) = fib_state s"
  "active_thread_count (move tid l s) = active_thread_count s" "idle_thread_count (move tid l s) = idle_thread_count s"
  "mode (move tid l s) = mode s" "idle_fiber (move tid l s) = idle_fiber s" "tasks (move tid l s) = tasks s"
  "worker (set_fib f st s) = worker s" "fib_state (set_fib f st s) = (fib_state s)(f := st)"
  "active_thread_count (set_fib f st s) = active_thread_count s" "idle_thread_count (set_fib f st s) = idle_thread_count s"
  "mode (set_fib f st s) = mode s" "idle_fiber (set_fib f st s) = idle_fiber s" "tasks (set_fib f st s) = tasks s"
  "tasks (add_fiber f thr s) = tasks s @ [\<lparr>task_thread = thr, task_fiber = f\<rparr>]"
  by (simp_all add: add_fiber_def tickle_def move_def set_fib_def)

lemma tickle_pow [simp]:
  "worker ((tickle ^^ n) s) = worker s" "fib_state ((tickle ^^ n) s) = fib_state s"
  "active_thread_count ((tickle ^^ n) s) = active_thread_count s" "idle_thread_count ((tickle ^^ n) s) = idle_thread_count s"
  "mode ((tickle ^^ n) s) = mode s" "tasks ((tickle ^^ n) s) = tasks s" "idle_fiber ((tickle ^^ n) s) = idle_fiber s"
  by (induction n) simp_all

lemma pick_task_simps [simp]:
  "worker (snd (pick_task tid s)) = worker s" "fib_state (snd (pick_task tid s)) = fib_state s"
  "active_thread_count (snd (pick_task tid s)) = active_thread_count s"
  "idle_thread_count (snd (pick_task tid s)) = idle_thread_count s"
  "mode (snd (pick_task tid s)) = mode s"
  by (simp_all add: pick_task_def Let_def split: prod.splits)

text \<open>
  How the sets of busy and idling workers follow a worker. Everything but the one worker and
  the one fiber that a step touches carries over.
\<close>

lemma busy_upd: "busy s' = (case l of Running_task _ \<Rightarrow> insert tid (busy s) | _ \<Rightarrow> busy s - {tid})"
  if "worker s' = (worker s)(tid := l)"
  using that by (auto simp: busy_def split: location.split)

lemma idling_upd: "idling s' = (if l = In_idle then insert tid (idling s) else idling s - {tid})"
  if "worker s' = (worker s)(tid := l)"
  using that by (auto simp: idling_def)

lemma inv_finite:
  assumes "sched_inv s"
  shows "finite (busy s)" "finite (idling s)"
proof -
  have f: "finite {tid. worker s tid \<noteq> Exited}" using assms by (simp add: sched_inv_def)
  have "busy s \<subseteq> {tid. worker s tid \<noteq> Exited}" "idling s \<subseteq> {tid. worker s tid \<noteq> Exited}"
    by (auto simp: busy_def idling_def)
  with f show "finite (busy s)" "finite (idling s)" by (auto intro: finite_subset)
qed

text \<open>A move of a worker between places where it neither runs a fiber nor idles.\<close>

lemma inv_move:
  assumes inv: "sched_inv s" and w: "worker s' = (worker s)(tid := l)"
    and l: "\<forall>t. l \<noteq> Running_task t" "l \<noteq> In_idle" "\<forall>t. worker s tid \<noteq> Running_task t" "worker s tid \<noteq> In_idle"
      "worker s tid \<noteq> Exited"
    and same: "fib_state s' = fib_state s" "active_thread_count s' = active_thread_count s"
      "idle_thread_count s' = idle_thread_count s" "mode s' = mode s"
  shows "sched_inv s'"
proof -
  have "busy s' = busy s" "idling s' = idling s"
    using busy_upd [OF w] idling_upd [OF w] l by (auto simp: busy_def idling_def split: location.splits)
  moreover have "{tid. worker s' tid \<noteq> Exited} \<subseteq> insert tid {tid. worker s tid \<noteq> Exited}" by (auto simp: w)
  then have "finite {tid. worker s' tid \<noteq> Exited}"
    using inv by (auto simp: sched_inv_def intro: finite_subset)
  moreover have "mode s \<noteq> INIT" using inv l(5) by (auto simp: sched_inv_def)
  moreover have "\<forall>f. fib_state s f = RUNNING \<longrightarrow> (\<exists>x t. worker s' x = Running_task t \<and> task_fiber t = f)"
    using inv l(3) unfolding sched_inv_def w by (metis fun_upd_apply)
  ultimately show ?thesis
    using inv l(1) unfolding sched_inv_def same w by auto
qed

lemma inv_same:
  assumes "sched_inv s" and "worker s' = worker s" and "fib_state s' = fib_state s"
    and "active_thread_count s' = active_thread_count s" and "idle_thread_count s' = idle_thread_count s"
    and "mode s' = INIT \<longrightarrow> mode s = INIT"
  shows "sched_inv s'"
  using assms by (auto simp: sched_inv_def busy_def idling_def)

lemma finite_workers:
  assumes "sched_inv s" and "worker s' = (worker s)(tid := l)"
  shows "finite {tid. worker s' tid \<noteq> Exited}"
proof -
  have "{tid. worker s' tid \<noteq> Exited} \<subseteq> insert tid {tid. worker s tid \<noteq> Exited}" by (auto simp: assms(2))
  then show ?thesis using assms(1) by (auto simp: sched_inv_def intro: finite_subset)
qed

lemma inv_dispatch_run:
  assumes inv: "sched_inv s" and w: "worker s tid = Chosen (Some t)" and st: "fib_state s (task_fiber t) \<noteq> RUNNING"
  defines "s' \<equiv> move tid (Running_task t) (set_fib (task_fiber t) RUNNING (s\<lparr>active_thread_count := active_thread_count s + 1\<rparr>))"
  shows "sched_inv s'"
proof -
  have w': "worker s' = (worker s)(tid := Running_task t)" by (simp add: s'_def)
  have b: "busy s' = insert tid (busy s)" "tid \<notin> busy s" using busy_upd [OF w'] w by (simp_all add: busy_def)
  have i: "idling s' = idling s" using idling_upd [OF w'] w by (auto simp: idling_def)
  have fs: "fib_state s' = (fib_state s)(task_fiber t := RUNNING)" by (simp add: s'_def)
  have "active_thread_count s' = card (busy s')"
    using inv b inv_finite [OF inv] by (simp add: s'_def sched_inv_def)
  moreover have "\<forall>x u. worker s' x = Running_task u \<longrightarrow> fib_state s' (task_fiber u) = RUNNING"
    using inv by (auto simp: sched_inv_def w' fs)
  moreover have "\<forall>f. fib_state s' f = RUNNING \<longrightarrow> (\<exists>x u. worker s' x = Running_task u \<and> task_fiber u = f)"
  proof (intro allI impI)
    fix f assume f: "fib_state s' f = RUNNING"
    show "\<exists>x u. worker s' x = Running_task u \<and> task_fiber u = f"
    proof (cases "f = task_fiber t")
      case True then show ?thesis by (intro exI [of _ tid] exI [of _ t]) (simp add: w')
    next
      case False
      with f fs have "fib_state s f = RUNNING" by simp
      then obtain x u where "worker s x = Running_task u" "task_fiber u = f" using inv unfolding sched_inv_def by blast
      moreover from this w have "x \<noteq> tid" by auto
      ultimately show ?thesis by (intro exI [of _ x] exI [of _ u]) (simp add: w')
    qed
  qed
  moreover have "\<forall>x y a b. worker s' x = Running_task a \<and> worker s' y = Running_task b \<and> task_fiber a = task_fiber b \<longrightarrow> x = y"
  proof (intro allI impI, elim conjE)
    fix x y a b assume ab: "worker s' x = Running_task a" "worker s' y = Running_task b" "task_fiber a = task_fiber b"
    have run: "worker s z = Running_task u \<Longrightarrow> task_fiber u \<noteq> task_fiber t" for z u
      using inv st unfolding sched_inv_def by metis
    show "x = y"
    proof (cases "x = tid \<or> y = tid")
      case True
      with ab run [of x a] run [of y b] show ?thesis by (auto simp: w' split: if_splits)
    next
      case False
      with ab inv show ?thesis unfolding sched_inv_def w' by (metis fun_upd_apply)
    qed
  qed
  moreover have "mode s' = INIT \<longrightarrow> (\<forall>x. worker s' x = Exited)"
    using inv w by (auto simp: sched_inv_def s'_def)
  moreover have "idle_thread_count s' = card (idling s')" using inv i by (simp add: sched_inv_def s'_def)
  ultimately show ?thesis using finite_workers [OF inv w'] unfolding sched_inv_def by blast
qed

lemma inv_return:
  assumes inv: "sched_inv s" and w: "worker s tid = Running_task t" and st: "st \<noteq> RUNNING"
  shows "sched_inv (schedule_return tid t st s)"
proof -
  define s' where "s' = schedule_return tid t st s"
  have w': "worker s' = (worker s)(tid := Loop)" and fs: "fib_state s' = (fib_state s)(task_fiber t := st)"
    and a: "active_thread_count s' = active_thread_count s - 1" "idle_thread_count s' = idle_thread_count s" "mode s' = mode s"
    by (simp_all add: s'_def schedule_return_def Let_def)
  have b: "busy s' = busy s - {tid}" "tid \<in> busy s" using busy_upd [OF w'] w by (auto simp: busy_def)
  have i: "idling s' = idling s" using idling_upd [OF w'] w by (auto simp: idling_def)
  have uniq: "x = tid" if "worker s x = Running_task u" "task_fiber u = task_fiber t" for x u
    using inv w that unfolding sched_inv_def by blast
  have "active_thread_count s' = card (busy s')"
    using inv b inv_finite [OF inv] by (simp add: a sched_inv_def)
  moreover have "\<forall>x u. worker s' x = Running_task u \<longrightarrow> fib_state s' (task_fiber u) = RUNNING"
    using inv uniq unfolding sched_inv_def w' fs by (metis fun_upd_apply location.distinct(3))
  moreover have "\<forall>f. fib_state s' f = RUNNING \<longrightarrow> (\<exists>x u. worker s' x = Running_task u \<and> task_fiber u = f)"
    using inv st w unfolding sched_inv_def w' fs by (metis fun_upd_apply location.inject(2))
  moreover have "\<forall>x y a b. worker s' x = Running_task a \<and> worker s' y = Running_task b \<and> task_fiber a = task_fiber b \<longrightarrow> x = y"
    using inv unfolding sched_inv_def w' by (metis fun_upd_apply location.distinct(3))
  moreover have "mode s' = INIT \<longrightarrow> (\<forall>x. worker s' x = Exited)"
    using inv w by (auto simp: sched_inv_def a)
  moreover have "idle_thread_count s' = card (idling s')" using inv i by (simp add: sched_inv_def a)
  ultimately show ?thesis using finite_workers [OF inv w'] unfolding sched_inv_def s'_def [symmetric] by blast
qed

lemma inv_idle_count:
  assumes inv: "sched_inv s" and w': "worker s' = (worker s)(tid := l)" and l: "\<forall>t. l \<noteq> Running_task t"
    "\<forall>t. worker s tid \<noteq> Running_task t" "worker s tid \<noteq> Exited"
    and same: "fib_state s' = fib_state s" "active_thread_count s' = active_thread_count s" "mode s' = mode s"
    and cnt: "idle_thread_count s' = card (idling s')"
  shows "sched_inv s'"
proof -
  have b: "busy s' = busy s" using busy_upd [OF w'] l by (auto simp: busy_def split: location.splits)
  have r: "worker s' x = Running_task u \<longleftrightarrow> worker s x = Running_task u" for x u using l by (auto simp: w')
  have "mode s \<noteq> INIT" using inv l(3) by (auto simp: sched_inv_def)
  then show ?thesis
    using inv finite_workers [OF inv w'] cnt b unfolding sched_inv_def same r by auto
qed

lemma inv_idle_enter:
  assumes inv: "sched_inv s" and w: "worker s tid = Chosen task"
  shows "sched_inv (schedule_idle tid s)"
proof (cases "ended (idle_fiber s tid)")
  case True
  then show ?thesis
    using inv_move [OF inv, of "schedule_idle tid s" tid Exited] w by (simp add: schedule_idle_def)
next
  case False
  let ?s = "schedule_idle tid s"
  have w': "worker ?s = (worker s)(tid := In_idle)" using False by (simp add: schedule_idle_def)
  have "idling ?s = insert tid (idling s)" "tid \<notin> idling s" using idling_upd [OF w'] w by (simp_all add: idling_def)
  then have "idle_thread_count ?s = card (idling ?s)"
    using False inv inv_finite [OF inv] by (simp add: schedule_idle_def sched_inv_def)
  then show ?thesis
    using inv_idle_count [OF inv w'] w False by (simp add: schedule_idle_def)
qed

lemma inv_idle_return:
  assumes inv: "sched_inv s" and w: "worker s tid = In_idle"
  shows "sched_inv (idle_return tid s)"
proof -
  let ?s = "idle_return tid s"
  have w': "worker ?s = (worker s)(tid := Loop)" by (simp add: idle_return_def)
  have "idling ?s = idling s - {tid}" "tid \<in> idling s" using idling_upd [OF w'] w by (simp_all add: idling_def)
  then have "idle_thread_count ?s = card (idling ?s)"
    using inv inv_finite [OF inv] by (simp add: idle_return_def sched_inv_def)
  then show ?thesis using inv_idle_count [OF inv w'] w by (simp add: idle_return_def)
qed

lemma inv_start:
  assumes inv: "sched_inv s"
  shows "sched_inv (start tids s)"
proof (cases "mode s = INIT")
  case True
  then have e: "\<And>t. worker s t = Exited" using inv by (simp add: sched_inv_def)
  have w: "worker (start tids s) = (\<lambda>t. if t \<in> set tids then Loop else Exited)" using True by (auto simp: start_def e)
  have "busy (start tids s) = {}" "idling (start tids s) = {}" "busy s = {}" "idling s = {}"
    by (auto simp: busy_def idling_def w e split: if_splits)
  moreover have "{t. worker (start tids s) t \<noteq> Exited} = set tids" by (auto simp: w)
  moreover have "\<forall>f. fib_state s f \<noteq> RUNNING"
  proof (intro allI notI)
    fix f assume "fib_state s f = RUNNING"
    then obtain x t where "worker s x = Running_task t" using inv unfolding sched_inv_def by blast
    with e show False by simp
  qed
  moreover have "worker (start tids s) x \<noteq> Running_task u" for x u by (simp add: w)
  moreover have "active_thread_count s = 0" "idle_thread_count s = 0"
    using inv \<open>busy s = {}\<close> \<open>idling s = {}\<close> by (simp_all add: sched_inv_def)
  moreover have "mode (start tids s) = ACTIVE" "active_thread_count (start tids s) = active_thread_count s"
    "idle_thread_count (start tids s) = idle_thread_count s" "fib_state (start tids s) = fib_state s"
    using True by (simp_all add: start_def)
  ultimately show ?thesis by (simp add: sched_inv_def)
qed (simp add: inv start_def)

lemma sched_step_inv:
  assumes "sched_step s a s'" and inv: "sched_inv s"
  shows "sched_inv s'"
  using assms(1)
proof cases
  case (s_start tids)
  then show ?thesis using inv_start [OF inv] by simp
next
  case (s_stop r)
  then show ?thesis
    by (intro inv_same [OF inv]) (auto simp: stop_def split: if_splits)
next
  case (s_add f thr)
  then show ?thesis by (intro inv_same [OF inv]) simp_all
next
  case (s_wake f)
  then show ?thesis using inv unfolding sched_inv_def busy_def idling_def by auto
next
  case (s_choose tid)
  then show ?thesis
    by (intro inv_move [OF inv, of s' tid "Chosen (fst (pick_task tid s))"])
      (simp_all add: schedule_choose_def case_prod_beta)
next
  case (s_dispatch tid task)
  note sd = this
  show ?thesis
  proof (cases task)
    case None
    then show ?thesis using sd inv_idle_enter [OF inv] by (simp add: schedule_dispatch_def)
  next
    case (Some t)
    consider "ended (fib_state s (task_fiber t))" | "\<not> ended (fib_state s (task_fiber t))" "fib_state s (task_fiber t) = RUNNING"
      | "\<not> ended (fib_state s (task_fiber t))" "fib_state s (task_fiber t) \<noteq> RUNNING" by blast
    then show ?thesis
    proof cases
      case 1 with Some sd inv_idle_enter [OF inv] show ?thesis by (simp add: schedule_dispatch_def)
    next
      case 2 with Some sd show ?thesis
        by (intro inv_move [OF inv, of s' tid Loop]) (simp_all add: schedule_dispatch_def)
    next
      case 3 with Some sd inv_dispatch_run [OF inv, of tid t] show ?thesis by (simp add: schedule_dispatch_def)
    qed
  qed
next
  case (s_return tid t st)
  then show ?thesis using inv_return [OF inv, of tid t st] by auto
next
  case (s_idle tid)
  then show ?thesis using inv_idle_return [OF inv] by simp
qed

lemma sched_reach_inv: "sched_reach s \<Longrightarrow> sched_inv s"
proof (induction rule: sched_reach.induct)
  case (sr_init fs n)
  then show ?case by (simp add: Scheduler_def sched_inv_def busy_def idling_def)
next
  case (sr_step s a s')
  from sr_step(2,3) show ?case by (rule sched_step_inv)
qed

section \<open>Properties\<close>


text \<open>Two workers, one task pinned to thread 8 and one for any thread; thread 7 has started the latter.\<close>

definition sched_example :: scheduler where
  "sched_example = schedule_dispatch 7 (Some \<lparr>task_thread = -1, task_fiber = 4\<rparr>) (schedule_choose 7
     (add_fiber 4 (-1) (add_fiber 3 8 (start [7, 8] (Scheduler 2 (\<lambda>_. INITING))))))"

lemma reach_sched_example: "sched_reach sched_example"
proof -
  let ?s1 = "start [7, 8] (Scheduler 2 (\<lambda>_. INITING))"
  let ?s2 = "add_fiber 4 (-1) (add_fiber 3 8 ?s1)"
  have "sched_reach ?s1" by (rule sr_step [OF sr_init s_start]) (simp_all add: Scheduler_def)
  then have r2: "sched_reach ?s2" by (intro sr_step [OF sr_step [OF _ s_add] s_add])
  have w: "worker ?s2 7 = Loop" by (simp add: start_def Scheduler_def)
  have r3: "sched_reach (schedule_choose 7 ?s2)" by (rule sr_step [OF r2 s_choose [OF w]])
  have "worker (schedule_choose 7 ?s2) 7 = Chosen (Some \<lparr>task_thread = -1, task_fiber = 4\<rparr>)"
    by (simp add: schedule_choose_def pick_task_def start_def Scheduler_def)
  from sr_step [OF r3 s_dispatch [OF this]] show ?thesis by (simp add: sched_example_def)
qed

lemma sched_example_worker: "worker sched_example 7 = Running_task \<lparr>task_thread = -1, task_fiber = 4\<rparr>"
  by (simp add: sched_example_def schedule_dispatch_def schedule_choose_def pick_task_def start_def Scheduler_def
      ended_def case_prod_beta)


text \<open>
  Choosing a task: a worker takes the first task in list order that is for any thread or for
  this thread, the others keep their order, and nothing is taken exactly when there is no such
  task. The other threads are notified (\<open>tickle\<close>) exactly when tasks remain that this pass did
  not take.
\<close>

lemma pick_task_first_eligible:
  "case pick_task tid s of (r, s') \<Rightarrow>
     (case r of
        None \<Rightarrow> tasks s' = tasks s \<and> filter (\<lambda>t. task_thread t = -1 \<or> task_thread t = tid) (tasks s) = []
      | Some t \<Rightarrow> (\<exists>xs ys. tasks s = xs @ t # ys \<and> tasks s' = xs @ ys
            \<and> filter (\<lambda>t. task_thread t = -1 \<or> task_thread t = tid) xs = []
            \<and> task_thread t \<in> {-1, tid}))
     \<and> (tickles s' = tickles s + (if tasks s' = [] then 0 else 1))"
proof -
  obtain r sk at rest where p: "pick_loop tid (tasks s) = (r, sk, at, rest)" by (metis prod_cases4)
  show ?thesis
  proof (cases r)
    case None
    with pick_loop_None [of tid "tasks s" sk at rest] p show ?thesis
      by (auto simp: pick_task_def tickle_def filter_empty_conv)
  next
    case (Some t)
    with pick_loop_Some [of tid "tasks s" t sk at rest] p obtain xs ys where
      x: "tasks s = xs @ t # ys" "rest = xs @ ys" "\<forall>x \<in> set xs. \<not> eligible tid x" "eligible tid t"
      "sk \<longleftrightarrow> xs \<noteq> []" "at \<longleftrightarrow> ys \<noteq> []" by auto
    have e: "pick_task tid s = (Some t, if sk \<or> at then tickle (s\<lparr>tasks := rest\<rparr>) else s\<lparr>tasks := rest\<rparr>)"
      using p Some by (simp add: pick_task_def)
    have "\<exists>xs ys. tasks s = xs @ t # ys \<and> rest = xs @ ys
        \<and> filter (\<lambda>t. task_thread t = -1 \<or> task_thread t = tid) xs = [] \<and> task_thread t \<in> {-1, tid}"
      using x by (intro exI [of _ xs] exI [of _ ys]) (auto simp: filter_empty_conv)
    then show ?thesis using x(2,5,6) by (auto simp: e tickle_def)
  qed
qed

definition pending :: "scheduler \<Rightarrow> fib \<Rightarrow> bool" where
  "pending s f \<longleftrightarrow> f \<in> task_fiber ` set (tasks s)
     \<or> (\<exists>tid t. task_fiber t = f \<and> worker s tid \<in> {Chosen (Some t), Running_task t})"

lemma pendingI_task: "t \<in> set (tasks s) \<Longrightarrow> task_fiber t = f \<Longrightarrow> pending s f"
  by (auto simp: pending_def)

lemma pendingI_worker: "worker s tid = Chosen (Some t) \<or> worker s tid = Running_task t \<Longrightarrow> task_fiber t = f \<Longrightarrow> pending s f"
  by (auto simp: pending_def)

lemma pending_mono:
  assumes "pending s f" and "set (tasks s) \<subseteq> set (tasks s')" and "worker s' = worker s"
  shows "pending s' f"
  using assms by (auto simp: pending_def)

text \<open>A step of worker \<open>tid\<close> keeps what other workers hold.\<close>

lemma pending_move:
  assumes "pending s f" and "set (tasks s) \<subseteq> set (tasks s')" and "worker s' = (worker s)(tid := l)"
    and "\<And>t. worker s tid = Chosen (Some t) \<or> worker s tid = Running_task t \<Longrightarrow> task_fiber t = f \<Longrightarrow> pending s' f"
  shows "pending s' f"
proof -
  consider "f \<in> task_fiber ` set (tasks s)"
    | x t where "worker s x = Chosen (Some t) \<or> worker s x = Running_task t" "task_fiber t = f"
    using assms(1) by (auto simp: pending_def)
  then show ?thesis
  proof cases
    case 1 with assms(2) show ?thesis by (auto simp: pending_def)
  next
    case (2 x t)
    then show ?thesis using assms(3,4) pendingI_worker [of s' x t f] by (cases "x = tid") auto
  qed
qed

lemma sched_step_pending:
  assumes "sched_step s a s'" and inv: "sched_inv s" and p: "pending s f"
    and ended: "\<not> ended (fib_state s f)" and a: "\<And>tid st. a = Return tid st \<Longrightarrow> st = SUSPENDED \<or> fib_state s' f = fib_state s f"
  shows "pending s' f"
  using assms(1)
proof cases
  case (s_start tids)
  then show ?thesis
    using p inv by (auto simp: start_def pending_def sched_inv_def split: if_splits)
next
  case (s_stop r)
  then show ?thesis by (intro pending_mono [OF p]) (auto simp: stop_def split: if_splits)
next
  case (s_add g thr)
  then show ?thesis by (intro pending_mono [OF p]) auto
next
  case (s_wake g)
  then show ?thesis by (intro pending_mono [OF p]) auto
next
  case (s_choose tid)
  let ?p = "pick_task tid s"
  have w: "worker s' = (worker s)(tid := Chosen (fst ?p))" and t: "tasks s' = tasks (snd ?p)"
    using s_choose by (simp_all add: schedule_choose_def case_prod_beta)
  have "set (tasks s) \<subseteq> set (tasks s') \<union> set_option (fst ?p)"
  proof -
    obtain r sk at rest where q: "pick_loop tid (tasks s) = (r, sk, at, rest)" by (metis prod_cases4)
    then have "fst ?p = r" "tasks (snd ?p) = rest" by (simp_all add: pick_task_def Let_def)
    then show ?thesis
      using q pick_loop_None [of tid "tasks s" sk at rest] pick_loop_Some [of tid "tasks s" _ sk at rest] t
      by (cases r) fastforce+
  qed
  moreover have "worker s tid = Loop" using s_choose by simp
  moreover have "t \<in> set_option (fst ?p) \<Longrightarrow> worker s' tid = Chosen (Some t)" for t using w by auto
  ultimately have mine: "\<And>t. t \<in> set (tasks s) \<Longrightarrow> t \<in> set (tasks s') \<or> worker s' tid = Chosen (Some t)"
    and l: "worker s tid = Loop" by auto
  consider t where "t \<in> set (tasks s)" "task_fiber t = f"
    | x t where "worker s x = Chosen (Some t) \<or> worker s x = Running_task t" "task_fiber t = f"
    using p by (auto simp: pending_def)
  then show ?thesis
  proof cases
    case (1 t)
    then show ?thesis using mine [of t] pendingI_task [of t s' f] pendingI_worker [of s' tid t f] by blast
  next
    case (2 x t)
    then have "x \<noteq> tid" using l by auto
    then show ?thesis using 2 w pendingI_worker [of s' x t f] by simp
  qed
next
  case (s_dispatch tid task)
  have w: "worker s' = (worker s)(tid := worker s' tid)" and t: "set (tasks s) \<subseteq> set (tasks s')"
    using s_dispatch by (auto simp: schedule_dispatch_def schedule_idle_def split: option.splits)
  show ?thesis
  proof (rule pending_move [OF p t w])
    fix u assume "worker s tid = Chosen (Some u) \<or> worker s tid = Running_task u" and u: "task_fiber u = f"
    then have s': "s' = schedule_dispatch tid (Some u) s" using s_dispatch by auto
    show "pending s' f"
    proof (cases "fib_state s f = RUNNING")
      case True
      then show ?thesis
        using s' u ended by (intro pendingI_task [of "\<lparr>task_thread = -1, task_fiber = f\<rparr>"]) (auto simp: schedule_dispatch_def)
    next
      case False
      then show ?thesis
        using s' u ended by (intro pendingI_worker [of s' tid u]) (auto simp: schedule_dispatch_def)
    qed
  qed
next
  case (s_return tid t st)
  have w: "worker s' = (worker s)(tid := Loop)" and sub: "set (tasks s) \<subseteq> set (tasks s')"
    using s_return by (auto simp: schedule_return_def Let_def)
  show ?thesis
  proof (rule pending_move [OF p sub w])
    fix u assume "worker s tid = Chosen (Some u) \<or> worker s tid = Running_task u" and u: "task_fiber u = f"
    then have "u = t" using s_return by auto
    then have r: "fib_state s f = RUNNING" "fib_state s' f = st"
      using inv s_return u by (auto simp: sched_inv_def schedule_return_def Let_def)
    then have "st = SUSPENDED" using a [of tid st] s_return by auto
    then show "pending s' f"
      using s_return u \<open>u = t\<close>
      by (intro pendingI_task [of "\<lparr>task_thread = -1, task_fiber = f\<rparr>"]) (auto simp: schedule_return_def Let_def)
  qed
next
  case (s_idle tid)
  have w: "worker s' = (worker s)(tid := Loop)" and t: "set (tasks s) \<subseteq> set (tasks s')"
    using s_idle by (simp_all add: idle_return_def)
  show ?thesis by (rule pending_move [OF p t w]) (use s_idle in simp)
qed



text \<open>A worker only ever holds tasks that are for any thread or for its own.\<close>

definition holds :: "scheduler \<Rightarrow> int \<Rightarrow> ScheduledTask \<Rightarrow> bool" where
  "holds s tid t \<longleftrightarrow> worker s tid = Chosen (Some t) \<or> worker s tid = Running_task t"

lemma holds_upd:
  "worker s' = (worker s)(x := l) \<Longrightarrow>
     holds s' tid t \<longleftrightarrow> (if tid = x then l = Chosen (Some t) \<or> l = Running_task t else holds s tid t)"
  by (simp add: holds_def)

lemma sched_step_holds:
  assumes "sched_step s a s'" and "\<forall>tid t. holds s tid t \<longrightarrow> eligible tid t"
  shows "\<forall>tid t. holds s' tid t \<longrightarrow> eligible tid t"
  using assms(1)
proof cases
  case (s_start tids)
  then show ?thesis using assms(2) by (auto simp: holds_def start_def split: if_splits)
next
  case (s_stop r)
  then have "worker s' = worker s" by (auto simp: stop_def split: if_splits)
  then show ?thesis using assms(2) by (simp add: holds_def)
next
  case (s_choose x)
  have "eligible x t" if "fst (pick_task x s) = Some t" for t
  proof -
    obtain r sk at rest where q: "pick_loop x (tasks s) = (r, sk, at, rest)" by (metis prod_cases4)
    then have "r = Some t" using that by (simp add: pick_task_def Let_def)
    then show ?thesis using pick_loop_Some [of x "tasks s" t sk at rest] q by auto
  qed
  moreover have "worker s' = (worker s)(x := Chosen (fst (pick_task x s)))"
    using s_choose by (simp add: schedule_choose_def case_prod_beta)
  ultimately show ?thesis using assms(2) by (simp add: holds_upd)
next
  case (s_dispatch x task)
  have "worker s' = (worker s)(x := worker s' x)" and "worker s' x \<noteq> Chosen (Some t)"
    and "worker s' x = Running_task t \<Longrightarrow> task = Some t" for t
    using s_dispatch by (auto simp: schedule_dispatch_def schedule_idle_def split: option.splits if_splits)
  moreover have "task = Some t \<Longrightarrow> holds s x t" for t using s_dispatch by (simp add: holds_def)
  ultimately show ?thesis using assms(2) holds_upd [of s' s x "worker s' x"] by metis
next
  case (s_return x t st)
  then have "worker s' = (worker s)(x := Loop)" by (simp add: schedule_return_def Let_def)
  then show ?thesis using assms(2) by (simp add: holds_upd)
next
  case (s_idle x)
  then have "worker s' = (worker s)(x := Loop)" by (simp add: idle_return_def)
  then show ?thesis using assms(2) by (simp add: holds_upd)
qed (use assms(2) in \<open>simp_all add: holds_def\<close>)

lemma sched_reach_holds: "sched_reach s \<Longrightarrow> holds s tid t \<Longrightarrow> eligible tid t"
proof -
  have "\<forall>tid t. holds s tid t \<longrightarrow> eligible tid t" if "sched_reach s"
    using that
  proof (induction rule: sched_reach.induct)
    case (sr_init fs n)
    then show ?case by (simp add: holds_def Scheduler_def)
  next
    case (sr_step s a s')
    from sr_step(2,3) show ?case by (rule sched_step_holds)
  qed
  then show "sched_reach s \<Longrightarrow> holds s tid t \<Longrightarrow> eligible tid t" by blast
qed

text \<open>
  Thread affinity is respected, for the first run only. A worker chooses and runs only tasks
  that are for any thread or pinned to its own. But when the fiber of a pinned task yields, it
  is put back for any thread: whichever other worker looks next into an otherwise empty list
  gets it.
\<close>

theorem affinity_first_run_only:
  assumes "sched_reach s" and "worker s tid = Running_task t"
  shows "(task_thread t = -1 \<or> task_thread t = tid)
    \<and> (tasks s = [] \<longrightarrow> fst (pick_task other (schedule_return tid t SUSPENDED s))
         = Some \<lparr>task_thread = -1, task_fiber = task_fiber t\<rparr>)"
  using sched_reach_holds [OF assms(1), of tid t] assms(2)
  by (simp add: holds_def pick_task_def schedule_return_def Let_def)

theorem affinity_first_run_only_witness:
  "fst (pick_task 9 (schedule_return 7 \<lparr>task_thread = 7, task_fiber = 4\<rparr> SUSPENDED
     (schedule_dispatch 7 (Some \<lparr>task_thread = 7, task_fiber = 4\<rparr>) (schedule_choose 7
       (add_fiber 4 7 (start [7, 9] (Scheduler 2 (\<lambda>_. INITING)))))))) = Some \<lparr>task_thread = -1, task_fiber = 4\<rparr>"
proof -
  let ?t = "\<lparr>task_thread = 7, task_fiber = 4\<rparr>"
  let ?s2 = "add_fiber 4 7 (start [7, 9] (Scheduler 2 (\<lambda>_. INITING)))"
  let ?s3 = "schedule_choose 7 ?s2" and ?s4 = "schedule_dispatch 7 (Some ?t) (schedule_choose 7 ?s2)"
  have "sched_reach (start [7, 9] (Scheduler 2 (\<lambda>_. INITING)))"
    by (rule sr_step [OF sr_init s_start]) (simp_all add: Scheduler_def)
  then have r2: "sched_reach ?s2" by (intro sr_step [OF _ s_add])
  have "worker ?s2 7 = Loop" by (simp add: start_def Scheduler_def)
  then have r3: "sched_reach ?s3" by (rule sr_step [OF r2 s_choose])
  have w3: "worker ?s3 7 = Chosen (Some ?t)" by (simp add: schedule_choose_def pick_task_def start_def Scheduler_def)
  then have r4: "sched_reach ?s4" by (rule sr_step [OF r3 s_dispatch])
  have w4: "worker ?s4 7 = Running_task ?t" and "tasks ?s4 = []"
    by (simp_all add: schedule_dispatch_def schedule_choose_def pick_task_def start_def Scheduler_def ended_def)
  then show ?thesis using affinity_first_run_only [OF r4 w4, of 9] by simp
qed

end
