(* ===== verification/Ordered.thy ===== *)
theory Ordered
  imports Prelude
begin

text \<open>
  The ordered containers of the C++ library as the framework uses them: \<open>std::set\<close> and
  \<open>std::map\<close> with a comparator, kept as a list that is strictly ascending for the comparator.
  Two keys are the same key when neither is smaller. The laws a client relies on are proved
  once, in the locale of a strict weak order, and used through its interpretations on the
  comparators of the source.
\<close>

section \<open>Operations\<close>

definition same_key :: "('k \<Rightarrow> 'k \<Rightarrow> bool) \<Rightarrow> 'k \<Rightarrow> 'k \<Rightarrow> bool" where
  "same_key lt a b \<longleftrightarrow> \<not> lt a b \<and> \<not> lt b a"

text \<open>\<open>set::insert\<close>: whether the element was inserted, whether it is at the front, and the new set.\<close>

fun set_insert :: "('a \<Rightarrow> 'a \<Rightarrow> bool) \<Rightarrow> 'a \<Rightarrow> 'a list \<Rightarrow> bool \<times> 'a list" where
  "set_insert lt x [] = (True, [x])"
| "set_insert lt x (y # ys) =
     (if lt x y then (True, x # y # ys)
      else if lt y x then (let (b, zs) = set_insert lt x ys in (b, y # zs))
      else (False, y # ys))"

fun set_find :: "('a \<Rightarrow> 'a \<Rightarrow> bool) \<Rightarrow> 'a \<Rightarrow> 'a list \<Rightarrow> 'a option" where
  "set_find lt x [] = None"
| "set_find lt x (y # ys) = (if same_key lt x y then Some y else set_find lt x ys)"

fun set_erase :: "('a \<Rightarrow> 'a \<Rightarrow> bool) \<Rightarrow> 'a \<Rightarrow> 'a list \<Rightarrow> 'a list" where
  "set_erase lt x [] = []"
| "set_erase lt x (y # ys) = (if same_key lt x y then ys else y # set_erase lt x ys)"

text \<open>\<open>operator[]\<close> followed by an assignment, \<open>find\<close> and \<open>erase\<close> of \<open>std::map\<close>.\<close>

fun map_set :: "('k \<Rightarrow> 'k \<Rightarrow> bool) \<Rightarrow> 'k \<Rightarrow> 'v \<Rightarrow> ('k \<times> 'v) list \<Rightarrow> ('k \<times> 'v) list" where
  "map_set lt k v [] = [(k, v)]"
| "map_set lt k v ((a, w) # m) =
     (if lt k a then (k, v) # (a, w) # m
      else if lt a k then (a, w) # map_set lt k v m
      else (a, v) # m)"

fun map_find :: "('k \<Rightarrow> 'k \<Rightarrow> bool) \<Rightarrow> 'k \<Rightarrow> ('k \<times> 'v) list \<Rightarrow> 'v option" where
  "map_find lt k [] = None"
| "map_find lt k ((a, v) # m) = (if same_key lt k a then Some v else map_find lt k m)"

fun map_erase :: "('k \<Rightarrow> 'k \<Rightarrow> bool) \<Rightarrow> 'k \<Rightarrow> ('k \<times> 'v) list \<Rightarrow> ('k \<times> 'v) list" where
  "map_erase lt k [] = []"
| "map_erase lt k ((a, v) # m) = (if same_key lt k a then m else (a, v) # map_erase lt k m)"

definition map_keys :: "('k \<times> 'v) list \<Rightarrow> 'k list" where
  "map_keys m = map fst m"

lemma map_keys_simps [simp]: "map_keys [] = []" "map_keys ((k, v) # m) = k # map_keys m"
  by (simp_all add: map_keys_def)

section \<open>Laws\<close>

text \<open>
  What the standard demands of a comparator: a strict weak order.
\<close>

locale comparator =
  fixes lt :: "'k \<Rightarrow> 'k \<Rightarrow> bool"
  assumes lt_irrefl: "\<not> lt a a"
    and lt_trans: "lt a b \<Longrightarrow> lt b c \<Longrightarrow> lt a c"
    and incomparable_trans: "same_key lt a b \<Longrightarrow> same_key lt b c \<Longrightarrow> same_key lt a c"
begin

lemma same_refl [simp]: "same_key lt a a"
  by (simp add: same_key_def lt_irrefl)

lemma same_sym: "same_key lt a b \<Longrightarrow> same_key lt b a"
  by (simp add: same_key_def)

lemma lt_asym: "lt a b \<Longrightarrow> \<not> lt b a"
  using lt_trans lt_irrefl by blast

lemma lt_same_right: "lt a b \<Longrightarrow> same_key lt b c \<Longrightarrow> lt a c"
  by (metis same_key_def incomparable_trans lt_trans)

lemma lt_same_left: "same_key lt a b \<Longrightarrow> lt b c \<Longrightarrow> lt a c"
  by (metis same_key_def incomparable_trans lt_trans)

lemma lt_not_same: "lt a b \<Longrightarrow> \<not> same_key lt a b" "lt a b \<Longrightarrow> \<not> same_key lt b a"
  by (simp_all add: same_key_def)

lemma set_insert_set:
  "set_insert lt x xs = (b, ys) \<Longrightarrow>
     set ys = (if b then insert x (set xs) else set xs) \<and> (\<not> b \<longrightarrow> ys = xs)"
proof (induction xs arbitrary: b ys)
  case (Cons y xs)
  obtain c zs where zs: "set_insert lt x xs = (c, zs)" by fastforce
  note IH = Cons.IH [OF zs]
  show ?case
  proof (cases "\<not> lt x y \<and> lt y x")
    case True
    with Cons.prems zs have "b = c" "ys = y # zs" by simp_all
    with IH show ?thesis by (cases c) (simp_all add: insert_commute)
  next
    case False
    with Cons.prems show ?thesis by (cases "lt x y") auto
  qed
qed simp

lemma set_insert_sorted:
  "sorted_wrt lt xs \<Longrightarrow> set_insert lt x xs = (b, ys) \<Longrightarrow> sorted_wrt lt ys"
proof (induction xs arbitrary: b ys)
  case (Cons y xs)
  show ?case
  proof (cases "lt y x")
    case True
    obtain c zs where zs: "set_insert lt x xs = (c, zs)" by fastforce
    with Cons.IH Cons.prems(1) have "sorted_wrt lt zs" by simp
    moreover have "\<forall>z \<in> set zs. lt y z"
      using set_insert_set [OF zs] Cons.prems(1) True by (auto split: if_splits)
    ultimately show ?thesis using Cons.prems True zs lt_asym [OF True] by auto
  next
    case False
    have "\<forall>z \<in> set xs. lt x z" if "lt x y" using that Cons.prems(1) lt_trans by auto
    with False Cons.prems show ?thesis by (cases "lt x y") auto
  qed
qed simp

lemma set_insert_iff:
  "sorted_wrt lt xs \<Longrightarrow> fst (set_insert lt x xs) \<longleftrightarrow> (\<forall>y \<in> set xs. \<not> same_key lt x y)"
proof (induction xs)
  case (Cons y xs)
  have "\<forall>z \<in> set xs. \<not> same_key lt x z" if "lt x y"
    using Cons.prems that lt_trans lt_not_same by auto
  with Cons show ?case
    by (auto simp: same_key_def split: prod.splits)
qed simp

lemma set_find_mem:
  assumes "sorted_wrt lt xs" and "x \<in> set xs"
  shows "set_find lt x xs = Some x"
  using assms
proof (induction xs)
  case (Cons y xs)
  then show ?case using lt_not_same(2) by (cases "x = y") auto
qed simp

lemma set_find_None_iff: "set_find lt x xs = None \<longleftrightarrow> (\<forall>y \<in> set xs. \<not> same_key lt x y)"
  by (induction xs) auto

lemma set_find_Some: "set_find lt x xs = Some y \<Longrightarrow> y \<in> set xs \<and> same_key lt x y"
  by (induction xs) (auto split: if_splits)

lemma set_erase_subset: "set (set_erase lt x xs) \<subseteq> set xs"
  by (induction xs) auto

lemma set_erase_sorted: "sorted_wrt lt xs \<Longrightarrow> sorted_wrt lt (set_erase lt x xs)"
  using set_erase_subset by (induction xs) auto

lemma set_erase_set:
  "sorted_wrt lt xs \<Longrightarrow> set (set_erase lt x xs) = {y \<in> set xs. \<not> same_key lt x y}"
proof (induction xs)
  case (Cons y xs)
  have "\<not> same_key lt x z" if "same_key lt x y" "z \<in> set xs" for z
    using that Cons.prems lt_same_left lt_not_same(1) by (metis sorted_wrt.simps(2))
  with Cons show ?case by auto
qed simp

lemma sorted_distinct: "sorted_wrt lt xs \<Longrightarrow> distinct xs"
  by (induction xs) (auto simp: lt_irrefl)

lemma map_set_keys: "set (map_keys (map_set lt k v m)) \<subseteq> insert k (set (map_keys m))"
  by (induction m) (auto split: if_splits)

lemma map_set_sorted: "sorted_wrt lt (map_keys m) \<Longrightarrow> sorted_wrt lt (map_keys (map_set lt k v m))"
proof (induction m)
  case (Cons p m)
  obtain a w where p: "p = (a, w)" by fastforce
  from Cons.prems p have "lt k a \<Longrightarrow> \<forall>x \<in> set (map_keys m). lt k x" using lt_trans by auto
  moreover from Cons.prems p have "lt a k \<Longrightarrow> \<forall>x \<in> set (map_keys (map_set lt k v m)). lt a x"
    using map_set_keys [of k v m] by auto
  ultimately show ?case using Cons p by auto
qed simp

lemma map_find_greater: "(\<And>a. a \<in> set (map_keys m) \<Longrightarrow> lt k a) \<Longrightarrow> map_find lt k m = None"
  by (induction m) (auto simp: same_key_def)

lemma map_find_cong: "same_key lt k k' \<Longrightarrow> map_find lt k m = map_find lt k' m"
proof (induction m)
  case (Cons p m)
  then have "same_key lt k (fst p) \<longleftrightarrow> same_key lt k' (fst p)"
    by (metis incomparable_trans same_sym)
  with Cons show ?case by (cases p) simp
qed simp

lemma map_find_set_same: "map_find lt k (map_set lt k v m) = Some v"
  by (induction m) (auto simp: same_key_def lt_irrefl)

lemma map_find_set_other: "\<not> same_key lt k k' \<Longrightarrow> map_find lt k (map_set lt k' v m) = map_find lt k m"
proof (induction m)
  case Nil
  then show ?case by (simp add: same_key_def)
next
  case (Cons p m)
  then have "same_key lt k' (fst p) \<Longrightarrow> \<not> same_key lt k (fst p)"
    using incomparable_trans same_sym by blast
  with Cons show ?case by (cases p) (auto simp: same_key_def)
qed

theorem map_find_set:
  "map_find lt k (map_set lt k' v m) = (if same_key lt k k' then Some v else map_find lt k m)"
  using map_find_set_same [of k' v m] map_find_cong [of k k' "map_set lt k' v m"]
    map_find_set_other [of k k' v m] by auto

lemma map_erase_keys: "set (map_keys (map_erase lt k m)) \<subseteq> set (map_keys m)"
  by (induction m) (auto split: if_splits)

lemma map_erase_sorted: "sorted_wrt lt (map_keys m) \<Longrightarrow> sorted_wrt lt (map_keys (map_erase lt k m))"
proof (induction m)
  case (Cons p m)
  then show ?case using map_erase_keys [of k m] by (cases p) auto
qed simp

lemma map_find_erase:
  assumes "sorted_wrt lt (map_keys m)"
  shows "map_find lt k (map_erase lt k' m) = (if same_key lt k k' then None else map_find lt k m)"
  using assms
proof (induction m)
  case (Cons p m)
  obtain a w where p: "p = (a, w)" by fastforce
  show ?case
  proof (cases "same_key lt k' a")
    case True
    have "map_find lt k m = None" if "same_key lt k k'"
      using Cons.prems p True that
      by (intro map_find_greater) (auto intro: lt_same_left incomparable_trans)
    moreover have "same_key lt k a \<longleftrightarrow> same_key lt k k'"
      using True by (metis incomparable_trans same_sym)
    ultimately show ?thesis using p True by simp
  next
    case False
    then show ?thesis using Cons p by (auto dest: incomparable_trans [OF same_sym])
  qed
qed simp

lemma map_find_mem: "sorted_wrt lt (map_keys m) \<Longrightarrow> (k, v) \<in> set m \<Longrightarrow> map_find lt k m = Some v"
proof (induction m)
  case (Cons p m)
  have "k \<in> set (map_keys m)" if "(k, v) \<in> set m" using that by (force simp: map_keys_def)
  with Cons show ?case using lt_not_same(2) by (cases p) auto
qed simp

lemma map_find_key: "map_find lt k m = Some v \<Longrightarrow> \<exists>a. (a, v) \<in> set m \<and> same_key lt k a"
  by (induction m) (auto split: if_splits)

end

text \<open>A comparator that compares a linearly ordered projection of its arguments.\<close>

lemma comparator_key: "comparator (\<lambda>a b. f a < (f b :: 'b::linorder))"
  by unfold_locales (auto simp: same_key_def)

lemma same_key [simp]: "same_key (\<lambda>a b. f a < (f b :: 'b::linorder)) a b \<longleftrightarrow> f a = f b"
  by (auto simp: same_key_def)

text \<open>\<open>std::less\<close> on a linear order.\<close>

interpretation std_less: comparator "(<) :: 'a::linorder \<Rightarrow> 'a \<Rightarrow> bool"
  using comparator_key [of "\<lambda>x. x"] by simp

lemma same_less [simp]: "same_key (<) a (b :: 'a::linorder) \<longleftrightarrow> a = b"
  by (auto simp: same_key_def)

end
