(* ===== verification/Timer.thy ===== *)
theory Timer
  imports Ordered
begin

text \<open>
  The timers (src/sylar/timer.h, src/sylar/timer.cpp). A timer is an object that the manager's
  set and the user share, so timers live in a store (\<open>obj\<close>) and the set \<open>timers_\<close> holds their
  identifiers, ordered by \<open>next_expiration_\<close> as \<open>Timer::Comparator\<close> does. Times are 64-bit
  milliseconds and wrap around. The clock is an argument of each operation that reads it, and
  \<open>on_timer_insert_at_front\<close>, a virtual function of the subclass, is counted in \<open>front_calls\<close>.
\<close>

section \<open>State\<close>

type_synonym tid = nat

text \<open>A callback is a function (a number here) or a function guarded by a \<open>weak_ptr\<close>.\<close>

datatype callback = Plain nat | Cond nat nat

record timer =
  is_recurring :: bool
  period_time :: u64
  next_expiration :: u64
  cb :: callback
  args :: nat
  has_manager :: bool

record timer_manager =
  timers :: "tid list"
  need_tickle :: bool
  obj :: "tid \<Rightarrow> timer"
  fresh :: tid
  front_calls :: nat

definition Comparator :: "timer_manager \<Rightarrow> tid \<Rightarrow> tid \<Rightarrow> bool" where
  "Comparator m lhs rhs \<longleftrightarrow> next_expiration (obj m lhs) < next_expiration (obj m rhs)"

section \<open>Operations\<close>

definition mk_Timer :: "u64 \<Rightarrow> bool \<Rightarrow> u64 \<Rightarrow> callback \<Rightarrow> nat \<Rightarrow> timer" where
  "mk_Timer now recurring ms c a = \<lparr>is_recurring = recurring, period_time = ms,
     next_expiration = now + ms, cb = c, args = a, has_manager = True\<rparr>"

definition update_obj :: "tid \<Rightarrow> (timer \<Rightarrow> timer) \<Rightarrow> timer_manager \<Rightarrow> timer_manager" where
  "update_obj t f m = m\<lparr>obj := (obj m)(t := f (obj m t))\<rparr>"

text \<open>
  The private \<open>add_timer\<close>. \<open>it.first\<close> is the element with the timer's key after the insertion: the
  timer itself, or the one that was there already when nothing was inserted.
\<close>

definition insert_timer :: "tid option \<Rightarrow> timer_manager \<Rightarrow> bool \<times> timer_manager" where
  "insert_timer timer m =
     (case timer of None \<Rightarrow> (False, m)
      | Some t \<Rightarrow>
          let (ret, ts) = set_insert (Comparator m) t (timers m);
              is_front = (set_find (Comparator m) t ts = Some (hd ts) \<and> need_tickle m);
              m1 = m\<lparr>timers := ts\<rparr>
          in (ret, if is_front then m1\<lparr>need_tickle := False, front_calls := front_calls m1 + 1\<rparr> else m1))"

definition new_timer :: "timer \<Rightarrow> timer_manager \<Rightarrow> tid option \<times> timer_manager" where
  "new_timer tm m =
     (let t = fresh m;
          m1 = m\<lparr>obj := (obj m)(t := tm), fresh := Suc t\<rparr>;
          (ok, m2) = insert_timer (Some t) m1
      in (if ok then Some t else None, m2))"

definition add_timer :: "u64 \<Rightarrow> bool \<Rightarrow> u64 \<Rightarrow> nat \<Rightarrow> nat \<Rightarrow> timer_manager \<Rightarrow> tid option \<times> timer_manager" where
  "add_timer now recurring ms f a m = new_timer (mk_Timer now recurring ms (Plain f) a) m"

definition add_cond_timer :: "u64 \<Rightarrow> bool \<Rightarrow> u64 \<Rightarrow> nat \<Rightarrow> nat \<Rightarrow> nat \<Rightarrow> timer_manager \<Rightarrow> tid option \<times> timer_manager" where
  "add_cond_timer now recurring ms f cond a m = new_timer (mk_Timer now recurring ms (Cond f cond) a) m"

definition del_timer :: "tid \<Rightarrow> timer_manager \<Rightarrow> bool \<times> timer_manager" where
  "del_timer t m =
     (case set_find (Comparator m) t (timers m) of
        Some _ \<Rightarrow> (True, m\<lparr>timers := set_erase (Comparator m) t (timers m)\<rparr>)
      | None \<Rightarrow> (False, m))"

definition cancel :: "tid \<Rightarrow> timer_manager \<Rightarrow> bool \<times> timer_manager" where
  "cancel t m =
     (if has_manager (obj m t)
      then let (ret, m1) = del_timer t m in (ret, update_obj t (has_manager_update (\<lambda>_. False)) m1)
      else (False, m))"

definition refresh :: "u64 \<Rightarrow> tid \<Rightarrow> timer_manager \<Rightarrow> bool \<times> timer_manager" where
  "refresh now t m =
     (if \<not> has_manager (obj m t) then (False, m)
      else let (ret, m1) = del_timer t m
           in if ret
              then insert_timer (Some t)
                     (update_obj t (\<lambda>o'. o'\<lparr>next_expiration := now + period_time o'\<rparr>) m1)
              else (ret, m1))"

definition reset :: "u64 \<Rightarrow> u64 \<Rightarrow> bool \<Rightarrow> tid \<Rightarrow> timer_manager \<Rightarrow> bool \<times> timer_manager" where
  "reset clock ms from_now t m =
     (if \<not> has_manager (obj m t) then (False, m)
      else let now = (if from_now then clock
                      else next_expiration (obj m t) - period_time (obj m t));
               m1 = update_obj t (period_time_update (\<lambda>_. ms)) m;
               new_expiration = now + period_time (obj m1 t)
           in if new_expiration \<noteq> next_expiration (obj m1 t)
              then let (ret, m2) = del_timer t m1
                   in if ret
                      then insert_timer (Some t) (update_obj t (next_expiration_update (\<lambda>_. new_expiration)) m2)
                      else (ret, m2)
              else (False, m1))"

definition get_next_timer :: "u64 \<Rightarrow> timer_manager \<Rightarrow> u64 \<times> timer_manager" where
  "get_next_timer now m =
     (case timers m of
        [] \<Rightarrow> (NOT 0, m)
      | t # _ \<Rightarrow>
          (if next_expiration (obj m t) \<le> now then 0 else next_expiration (obj m t) - now,
           m\<lparr>need_tickle := True\<rparr>))"

fun rearm :: "u64 \<Rightarrow> tid list \<Rightarrow> timer_manager \<Rightarrow> timer_manager" where
  "rearm now_time [] m = m"
| "rearm now_time (t # ts) m =
     (if is_recurring (obj m t)
      then let m1 = update_obj t (\<lambda>o'. o'\<lparr>next_expiration := now_time + period_time o'\<rparr>) m
           in rearm now_time ts (m1\<lparr>timers := snd (set_insert (Comparator m1) t (timers m1))\<rparr>)
      else rearm now_time ts m)"

definition get_expired_timers :: "u64 \<Rightarrow> tid list \<Rightarrow> timer_manager \<Rightarrow> tid list \<times> timer_manager" where
  "get_expired_timers now_time expired m =
     (let due = takeWhile (\<lambda>t. \<not> now_time < next_expiration (obj m t)) (timers m);
          rest = dropWhile (\<lambda>t. \<not> now_time < next_expiration (obj m t)) (timers m)
      in if due = [] then (expired, m)
         else (due, rearm now_time due (m\<lparr>need_tickle := True, timers := rest\<rparr>)))"

definition timers_empty :: "timer_manager \<Rightarrow> bool" where
  "timers_empty m \<longleftrightarrow> timers m = []"

text \<open>
  Running a callback: the function that is called, if any. \<open>cond_timer_cb\<close> calls it only when the
  guarding object is still alive.
\<close>

definition cond_timer_cb :: "(nat \<Rightarrow> bool) \<Rightarrow> callback \<Rightarrow> nat option" where
  "cond_timer_cb alive c = (case c of Plain f \<Rightarrow> Some f | Cond f cond \<Rightarrow> if alive cond then Some f else None)"

definition TimerManager :: timer_manager where
  "TimerManager = \<lparr>timers = [], need_tickle = False,
     obj = (\<lambda>_. \<lparr>is_recurring = False, period_time = 0, next_expiration = 0, cb = Plain 0, args = 0,
                  has_manager = False\<rparr>), fresh = 0, front_calls = 0\<rparr>"

section \<open>Invariant\<close>

abbreviation due_at :: "timer_manager \<Rightarrow> tid \<Rightarrow> u64" where
  "due_at m t \<equiv> next_expiration (obj m t)"

definition tm_wf :: "timer_manager \<Rightarrow> bool" where
  "tm_wf m \<longleftrightarrow> sorted_wrt (Comparator m) (timers m) \<and> (\<forall>t \<in> set (timers m). t < fresh m)"

interpretation timer_set: comparator "Comparator m" for m
  unfolding Comparator_def using comparator_key [of "due_at m"] .

lemma same_slot [simp]: "same_key (Comparator m) a b \<longleftrightarrow> due_at m a = due_at m b"
  by (auto simp: same_key_def Comparator_def)

lemma Comparator_simps [simp]:
  "Comparator (m\<lparr>timers := ts\<rparr>) = Comparator m" "Comparator (m\<lparr>need_tickle := b\<rparr>) = Comparator m"
  "Comparator (m\<lparr>front_calls := n\<rparr>) = Comparator m" "Comparator (m\<lparr>fresh := k\<rparr>) = Comparator m"
  by (simp_all add: Comparator_def fun_eq_iff)

lemma update_obj_simps [simp]:
  "timers (update_obj t f m) = timers m" "fresh (update_obj t f m) = fresh m"
  "need_tickle (update_obj t f m) = need_tickle m" "front_calls (update_obj t f m) = front_calls m"
  "obj (update_obj t f m) = (obj m)(t := f (obj m t))"
  by (simp_all add: update_obj_def)

lemma wf_sorted [dest]: "tm_wf m \<Longrightarrow> sorted_wrt (Comparator m) (timers m)"
  by (simp add: tm_wf_def)

lemma wf_TimerManager [wf_intros]: "tm_wf TimerManager"
  by (simp add: tm_wf_def TimerManager_def)

text \<open>Changing an object that is not in the set, or not its expiration, does not disturb the order.\<close>

lemma sorted_frame:
  "(\<And>t. t \<in> set ts \<Longrightarrow> due_at m' t = due_at m t) \<Longrightarrow>
     sorted_wrt (Comparator m') ts \<longleftrightarrow> sorted_wrt (Comparator m) ts"
  by (induction ts) (auto simp: Comparator_def)

lemma wf_update_obj:
  assumes "tm_wf m" and "t \<in> set (timers m) \<Longrightarrow> next_expiration (f (obj m t)) = due_at m t"
  shows "tm_wf (update_obj t f m)"
proof -
  have "sorted_wrt (Comparator (update_obj t f m)) (timers m) \<longleftrightarrow> sorted_wrt (Comparator m) (timers m)"
    using assms(2) by (intro sorted_frame) auto
  with assms(1) show ?thesis by (simp add: tm_wf_def)
qed

lemma insert_timer_fields:
  assumes "insert_timer (Some t) m = (ret, m')"
  shows "timers m' = snd (set_insert (Comparator m) t (timers m))" "obj m' = obj m" "fresh m' = fresh m"
    "ret = fst (set_insert (Comparator m) t (timers m))" "Comparator m' = Comparator m"
  using assms by (auto simp: insert_timer_def Let_def split: prod.splits if_splits)

lemma wf_insert_timer [wf_intros]:
  assumes "tm_wf m" and "t < fresh m"
  shows "tm_wf (snd (insert_timer (Some t) m))"
proof -
  obtain ret m' where i: "insert_timer (Some t) m = (ret, m')" by fastforce
  obtain b ts where s: "set_insert (Comparator m) t (timers m) = (b, ts)" by fastforce
  note f = insert_timer_fields [OF i]
  have "sorted_wrt (Comparator m) ts" using timer_set.set_insert_sorted [OF wf_sorted s] assms by blast
  moreover have "\<forall>u \<in> set ts. u < fresh m"
    using timer_set.set_insert_set [OF s] assms by (auto simp: tm_wf_def split: if_splits)
  ultimately show ?thesis using i s f by (simp add: tm_wf_def)
qed

lemma wf_del_timer [wf_intros]:
  "tm_wf m \<Longrightarrow> tm_wf (snd (del_timer t m))"
  using timer_set.set_erase_sorted [of m "timers m" t] timer_set.set_erase_subset [of m t "timers m"]
  by (auto simp: tm_wf_def del_timer_def split: option.splits)

text \<open>A successful deletion empties the timer's slot, so the timer is not in the set afterwards.\<close>

lemma del_timer_slot:
  assumes "tm_wf m" and "del_timer t m = (True, m')"
  shows "set (timers m') = {u \<in> set (timers m). due_at m u \<noteq> due_at m t}" "obj m' = obj m" "fresh m' = fresh m"
proof -
  have m': "m' = m\<lparr>timers := set_erase (Comparator m) t (timers m)\<rparr>"
    using assms(2) by (simp add: del_timer_def split: option.splits)
  show "obj m' = obj m" "fresh m' = fresh m" by (simp_all add: m')
  have "due_at m u \<noteq> due_at m t \<longleftrightarrow> \<not> same_key (Comparator m) t u" for u by auto
  then show "set (timers m') = {u \<in> set (timers m). due_at m u \<noteq> due_at m t}"
    using timer_set.set_erase_set [OF wf_sorted [OF assms(1)], of t] by (simp only: m') simp
qed

lemma del_timer_fields: "obj (snd (del_timer t m)) = obj m" "fresh (snd (del_timer t m)) = fresh m"
  by (simp_all add: del_timer_def split: option.splits)

lemma del_timer_iff: "fst (del_timer t m) \<longleftrightarrow> (\<exists>u \<in> set (timers m). due_at m u = due_at m t)"
  using timer_set.set_find_None_iff [of m t "timers m"]
  by (auto simp: del_timer_def split: option.splits)

lemma wf_new_timer [wf_intros]:
  assumes "tm_wf m"
  shows "tm_wf (snd (new_timer tm m))"
proof -
  let ?m = "m\<lparr>obj := (obj m)(fresh m := tm), fresh := Suc (fresh m)\<rparr>"
  have "fresh m \<notin> set (timers m)" using assms by (auto simp: tm_wf_def)
  then have "sorted_wrt (Comparator ?m) (timers m) \<longleftrightarrow> sorted_wrt (Comparator m) (timers m)"
    by (intro sorted_frame) auto
  then have "tm_wf ?m" using assms by (auto simp: tm_wf_def)
  then have "tm_wf (snd (insert_timer (Some (fresh m)) ?m))" by (rule wf_insert_timer) simp
  then show ?thesis by (simp add: new_timer_def Let_def case_prod_beta)
qed

lemma wf_cancel [wf_intros]: "tm_wf m \<Longrightarrow> tm_wf (snd (cancel t m))"
  using wf_del_timer [of m t] by (auto simp: cancel_def intro!: wf_update_obj split: prod.splits)

lemma wf_move:
  assumes "tm_wf m" and "t < fresh m" and "del_timer t m = (True, m1)"
  shows "tm_wf (snd (insert_timer (Some t) (update_obj t f m1)))"
proof -
  have "tm_wf m1" using wf_del_timer [OF assms(1), of t] assms(3) by simp
  moreover have "t \<notin> set (timers m1)" using del_timer_slot [OF assms(1,3)] by simp
  ultimately have "tm_wf (update_obj t f m1)" by (intro wf_update_obj) auto
  then show ?thesis using assms(2) del_timer_slot(3) [OF assms(1,3)] by (intro wf_insert_timer) simp_all
qed

lemma wf_refresh [wf_intros]: "tm_wf m \<Longrightarrow> t < fresh m \<Longrightarrow> tm_wf (snd (refresh now t m))"
  using wf_move [of m t] wf_del_timer [of m t] by (auto simp: refresh_def split: prod.splits)

lemma wf_reset [wf_intros]:
  assumes "tm_wf m" and "t < fresh m"
  shows "tm_wf (snd (reset clock ms from_now t m))"
proof -
  let ?m = "update_obj t (period_time_update (\<lambda>_. ms)) m"
  have wf: "tm_wf ?m" using assms(1) by (intro wf_update_obj) auto
  then show ?thesis
    using wf_move [OF wf] wf_del_timer [OF wf, of t] assms
    by (auto simp: reset_def Let_def split: prod.splits)
qed

lemma wf_get_next_timer [wf_intros]: "tm_wf m \<Longrightarrow> tm_wf (snd (get_next_timer now m))"
  by (cases "timers m") (auto simp: get_next_timer_def tm_wf_def)

section \<open>Expiry\<close>

definition rearmed :: "u64 \<Rightarrow> timer \<Rightarrow> timer" where
  "rearmed now tm = (if is_recurring tm then tm\<lparr>next_expiration := now + period_time tm\<rparr> else tm)"

lemma rearm_obj: "obj (rearm now ts m) = (\<lambda>t. if t \<in> set ts then rearmed now (obj m t) else obj m t)"
proof (induction ts arbitrary: m)
  case (Cons t ts)
  then show ?case by (auto simp: Let_def rearmed_def fun_eq_iff)
qed simp

text \<open>One re-insertion: the timer was not in the set, and its new slot is taken afterwards.\<close>

lemma rearm_step:
  fixes now :: u64
  assumes wf: "tm_wf m" and t: "t \<notin> set (timers m)" "t < fresh m"
  defines "m1 \<equiv> update_obj t (\<lambda>o'. o'\<lparr>next_expiration := now + period_time o'\<rparr>) m"
  defines "m2 \<equiv> m1\<lparr>timers := snd (set_insert (Comparator m1) t (timers m1))\<rparr>"
  shows "tm_wf m2" "set (timers m) \<subseteq> set (timers m2)" "set (timers m2) \<subseteq> insert t (set (timers m))"
    "\<exists>u \<in> set (timers m2). due_at m2 u = now + period_time (obj m t)"
    "obj m2 = obj m1" "fresh m2 = fresh m"
proof -
  have wf1: "tm_wf m1" unfolding m1_def using wf t(1) by (intro wf_update_obj) auto
  obtain b ts where s: "set_insert (Comparator m1) t (timers m1) = (b, ts)" by fastforce
  note st = timer_set.set_insert_set [OF s]
  have m1: "timers m1 = timers m" "fresh m1 = fresh m" by (simp_all add: m1_def)
  have m2: "m2 = m1\<lparr>timers := ts\<rparr>" by (simp add: m2_def s)
  have "sorted_wrt (Comparator m1) ts" using timer_set.set_insert_sorted [OF wf_sorted [OF wf1] s] .
  with st wf1 t(2) show "tm_wf m2" by (auto simp: m2 tm_wf_def m1 split: if_splits)
  show "set (timers m) \<subseteq> set (timers m2)" "set (timers m2) \<subseteq> insert t (set (timers m))"
    using st by (auto simp: m2 m1 split: if_splits)
  show "obj m2 = obj m1" "fresh m2 = fresh m" by (simp_all add: m2 m1)
  have d: "due_at m1 t = now + period_time (obj m t)" by (simp add: m1_def)
  show "\<exists>u \<in> set (timers m2). due_at m2 u = now + period_time (obj m t)"
  proof (cases b)
    case True
    then show ?thesis using st d by (intro bexI [of _ t]) (simp_all add: m2)
  next
    case False
    then have "\<exists>u \<in> set (timers m1). due_at m1 t = due_at m1 u"
      using timer_set.set_insert_iff [OF wf_sorted [OF wf1], of t] s by auto
    then show ?thesis using st False d by (auto simp: m2)
  qed
qed

lemma rearm_spec:
  assumes "tm_wf m" and "distinct ts" and "set ts \<inter> set (timers m) = {}" and "\<forall>t \<in> set ts. t < fresh m"
  shows "tm_wf (rearm now ts m) \<and> set (timers m) \<subseteq> set (timers (rearm now ts m))
    \<and> set (timers (rearm now ts m)) \<subseteq> set (timers m) \<union> {t \<in> set ts. is_recurring (obj m t)}
    \<and> (\<forall>t \<in> set ts. is_recurring (obj m t) \<longrightarrow>
         (\<exists>u \<in> set (timers (rearm now ts m)). due_at (rearm now ts m) u = now + period_time (obj m t)))"
  using assms
proof (induction ts arbitrary: m)
  case (Cons t ts)
  show ?case
  proof (cases "is_recurring (obj m t)")
    case False
    with Cons show ?thesis by auto
  next
    case True
    define m1 where "m1 = update_obj t (\<lambda>o'. o'\<lparr>next_expiration := now + period_time o'\<rparr>) m"
    define m2 where "m2 = m1\<lparr>timers := snd (set_insert (Comparator m1) t (timers m1))\<rparr>"
    have t: "t \<notin> set (timers m)" "t < fresh m" "t \<notin> set ts" using Cons.prems by auto
    note st = rearm_step [OF Cons.prems(1) t(1,2), of now, folded m1_def, folded m2_def]
    have eq: "rearm now (t # ts) m = rearm now ts m2" using True by (simp add: Let_def m1_def m2_def)
    have o2: "is_recurring (obj m2 u) = is_recurring (obj m u)"
      "period_time (obj m2 u) = period_time (obj m u)" for u
      using st(5) by (simp_all add: m1_def)
    have "set ts \<inter> set (timers m2) = {}" "\<forall>u \<in> set ts. u < fresh m2"
      using st(3,6) Cons.prems t(3) by auto
    with Cons.IH [OF st(1)] Cons.prems(2) have IH: "tm_wf (rearm now ts m2)"
      "set (timers m2) \<subseteq> set (timers (rearm now ts m2))"
      "set (timers (rearm now ts m2)) \<subseteq> set (timers m2) \<union> {u \<in> set ts. is_recurring (obj m u)}"
      "\<forall>u \<in> set ts. is_recurring (obj m u) \<longrightarrow>
         (\<exists>v \<in> set (timers (rearm now ts m2)). due_at (rearm now ts m2) v = now + period_time (obj m u))"
      and dis: "set ts \<inter> set (timers m2) = {}"
      by (simp_all add: o2)
    obtain v where v: "v \<in> set (timers m2)" "due_at m2 v = now + period_time (obj m t)" using st(4) by blast
    with dis have "due_at (rearm now ts m2) v = now + period_time (obj m t)" by (auto simp: rearm_obj)
    with IH v(1) st(2,3) True show ?thesis unfolding eq by auto
  qed
qed simp

lemma due_prefix:
  assumes "tm_wf m"
  shows "set (takeWhile (\<lambda>t. \<not> now < due_at m t) (timers m)) = {t \<in> set (timers m). due_at m t \<le> now}"
    and "set (dropWhile (\<lambda>t. \<not> now < due_at m t) (timers m)) = {t \<in> set (timers m). now < due_at m t}"
proof -
  have "set (takeWhile (\<lambda>t. \<not> now < due_at m t) ts) = {t \<in> set ts. due_at m t \<le> now}
      \<and> set (dropWhile (\<lambda>t. \<not> now < due_at m t) ts) = {t \<in> set ts. now < due_at m t}"
    if "sorted_wrt (Comparator m) ts" for ts
    using that by (induction ts) (auto simp: Comparator_def not_less)
  with assms show "set (takeWhile (\<lambda>t. \<not> now < due_at m t) (timers m)) = {t \<in> set (timers m). due_at m t \<le> now}"
    "set (dropWhile (\<lambda>t. \<not> now < due_at m t) (timers m)) = {t \<in> set (timers m). now < due_at m t}"
    by blast+
qed

text \<open>The whole effect of \<open>get_expired_timers\<close>, whether or not a timer is due.\<close>

lemma get_expired_spec:
  fixes now :: u64
  assumes wf: "tm_wf m"
  defines "due \<equiv> {t \<in> set (timers m). due_at m t \<le> now}"
  assumes g: "get_expired_timers now [] m = (ex, m')"
  shows "set ex = due" "distinct ex" "sorted_wrt (Comparator m) ex" "tm_wf m'"
    "\<And>t. obj m' t = (if t \<in> due then rearmed now (obj m t) else obj m t)"
    "set (timers m) - due \<subseteq> set (timers m')"
    "set (timers m') \<subseteq> (set (timers m) - due) \<union> {t \<in> due. is_recurring (obj m t)}"
    "\<forall>t \<in> due. is_recurring (obj m t) \<longrightarrow> (\<exists>u \<in> set (timers m'). due_at m' u = now + period_time (obj m t))"
proof -
  let ?due = "takeWhile (\<lambda>t. \<not> now < due_at m t) (timers m)"
  let ?rest = "dropWhile (\<lambda>t. \<not> now < due_at m t) (timers m)"
  let ?m = "m\<lparr>need_tickle := True, timers := ?rest\<rparr>"
  have sd: "set ?due = due" "set ?rest = set (timers m) - due"
    using due_prefix [OF wf, of now] by (auto simp: due_def)
  have dist: "distinct ?due" "sorted_wrt (Comparator m) ?due" "sorted_wrt (Comparator m) ?rest"
    using wf timer_set.sorted_distinct [of m "timers m"]
    by (auto simp: tm_wf_def sorted_wrt_append dest: sorted_wrt_append
        [THEN iffD1, of _ ?due ?rest, unfolded takeWhile_dropWhile_id])
  have ex: "ex = ?due" using g by (auto simp: get_expired_timers_def Let_def split: if_splits)
  show "set ex = due" "distinct ex" "sorted_wrt (Comparator m) ex" using ex sd dist by simp_all
  have wfm: "tm_wf ?m" using wf dist sd by (auto simp: tm_wf_def dest: set_dropWhileD)
  have m': "m' = m \<and> ?due = [] \<or> m' = rearm now ?due ?m"
    using g by (auto simp: get_expired_timers_def Let_def split: if_splits)
  have "set ?due \<inter> set (timers ?m) = {}" "\<forall>t \<in> set ?due. t < fresh ?m"
    using sd wf by (auto simp: due_def tm_wf_def)
  note r = rearm_spec [OF wfm dist(1) this, of now]
  consider (none) "m' = m" "due = {}" | (some) "m' = rearm now ?due ?m" using m' sd by auto
  then have "tm_wf m' \<and> (\<forall>t. obj m' t = (if t \<in> due then rearmed now (obj m t) else obj m t))
    \<and> set (timers m) - due \<subseteq> set (timers m')
    \<and> set (timers m') \<subseteq> (set (timers m) - due) \<union> {t \<in> due. is_recurring (obj m t)}
    \<and> (\<forall>t \<in> due. is_recurring (obj m t) \<longrightarrow> (\<exists>u \<in> set (timers m'). due_at m' u = now + period_time (obj m t)))"
  proof cases
    case none
    with wf show ?thesis by simp
  next
    case some
    with r sd show ?thesis by (simp add: rearm_obj)
  qed
  then show "tm_wf m'" "\<And>t. obj m' t = (if t \<in> due then rearmed now (obj m t) else obj m t)"
    "set (timers m) - due \<subseteq> set (timers m')"
    "set (timers m') \<subseteq> (set (timers m) - due) \<union> {t \<in> due. is_recurring (obj m t)}"
    "\<forall>t \<in> due. is_recurring (obj m t) \<longrightarrow> (\<exists>u \<in> set (timers m'). due_at m' u = now + period_time (obj m t))"
    by blast+
qed

lemma get_expired_nonempty:
  assumes "tm_wf m"
  shows "fst (get_expired_timers now [] m) \<noteq> [] \<longleftrightarrow> (\<exists>t \<in> set (timers m). due_at m t \<le> now)"
  using due_prefix(1) [OF assms, of now]
  by (auto simp: get_expired_timers_def Let_def set_empty [symmetric] simp del: set_empty)

lemma first_is_minimal:
  assumes "tm_wf m" and "timers m = t # ts" and "u \<in> set (timers m)"
  shows "due_at m t \<le> due_at m u"
  using assms by (auto simp: tm_wf_def Comparator_def)

text \<open>Two armed timers never share an expiration.\<close>

lemma slot_unique:
  assumes "tm_wf m" and "v \<in> set (timers m)" and "w \<in> set (timers m)" and "due_at m v = due_at m w"
  shows "v = w"
proof -
  have "\<not> Comparator m v w" "\<not> Comparator m w v" using assms(4) by (simp_all add: Comparator_def)
  then show ?thesis
    using wf_sorted [OF assms(1)] assms(2,3)
    by (metis in_set_conv_nth linorder_neqE_nat sorted_wrt_nth_less)
qed

section \<open>Properties\<close>

text \<open>
  C9. The set of timers stays strictly ascending by expiration, and holds allocated timers only,
  through every operation of the manager and of a timer: \<open>add_timer\<close> (with and without a guard),
  \<open>cancel\<close>, \<open>refresh\<close>, \<open>reset\<close>, \<open>get_next_timer\<close> and \<open>get_expired_timers\<close>. In particular no operation
  changes the key of a timer while it is in the ordered set.
\<close>

theorem timer_set_ordered:
  assumes "tm_wf m" and "t < fresh m"
  shows "tm_wf (snd (add_timer now r ms f a m)) \<and> tm_wf (snd (add_cond_timer now r ms f c a m))
    \<and> tm_wf (snd (cancel t m)) \<and> tm_wf (snd (refresh now t m)) \<and> tm_wf (snd (reset now ms from_now t m))
    \<and> tm_wf (snd (get_next_timer now m)) \<and> tm_wf (snd (get_expired_timers now [] m))"
  using assms get_expired_spec(4) [OF assms(1)]
  by (cases "get_expired_timers now [] m")
    (auto simp: add_timer_def add_cond_timer_def intro!: wf_intros)

theorem timer_set_ordered_witness:
  "tm_wf (snd (refresh 7 0 (snd (add_timer 0 True 5 1 0 TimerManager))))"
proof -
  let ?m = "snd (add_timer 0 True 5 1 0 TimerManager)"
  have "tm_wf ?m" by (simp add: add_timer_def wf_intros)
  moreover have "0 < fresh ?m"
    by (simp add: add_timer_def new_timer_def insert_timer_def TimerManager_def)
  ultimately show ?thesis using timer_set_ordered by blast
qed

text \<open>
  C4. \<open>get_expired_timers\<close> delivers exactly the timers whose expiration is not later than now, each
  once and in the order of their expirations. A timer that is not due stays armed with an
  unchanged deadline; a one-shot timer that fired is disarmed; a recurring one that fired is
  armed at \<open>now + period\<close> unless that slot is already taken, and in every case the slot
  \<open>now + period\<close> is occupied afterwards.
\<close>

theorem expired_timers_exact:
  assumes "tm_wf m" and "get_expired_timers now [] m = (ex, m')"
  shows "set ex = {t \<in> set (timers m). due_at m t \<le> now} \<and> distinct ex
    \<and> sorted_wrt (\<lambda>a b. due_at m a < due_at m b) ex
    \<and> (\<forall>t \<in> set (timers m). now < due_at m t \<longrightarrow> t \<in> set (timers m') \<and> due_at m' t = due_at m t)
    \<and> (\<forall>t \<in> set ex. \<not> is_recurring (obj m t) \<longrightarrow> t \<notin> set (timers m'))
    \<and> (\<forall>t \<in> set ex. is_recurring (obj m t) \<longrightarrow> due_at m' t = now + period_time (obj m t)
        \<and> (\<exists>u \<in> set (timers m'). due_at m' u = now + period_time (obj m t)))
    \<and> set (timers m') \<subseteq> set (timers m)"
proof -
  note s = get_expired_spec [OF assms]
  have o: "sorted_wrt (\<lambda>a b. due_at m a < due_at m b) ex" using s(3) unfolding Comparator_def .
  have r: "\<forall>t \<in> set ex. is_recurring (obj m t) \<longrightarrow> due_at m' t = now + period_time (obj m t)"
    using s(1,5) by (auto simp: rearmed_def)
  have k: "\<forall>t \<in> set (timers m). now < due_at m t \<longrightarrow> t \<in> set (timers m') \<and> due_at m' t = due_at m t"
    using s(5,6) by auto
  have f: "\<forall>t \<in> set ex. \<not> is_recurring (obj m t) \<longrightarrow> t \<notin> set (timers m')" using s(1,7) by auto
  have g: "\<forall>t \<in> set ex. is_recurring (obj m t) \<longrightarrow>
      (\<exists>u \<in> set (timers m'). due_at m' u = now + period_time (obj m t))" using s(1,8) by blast
  have sub: "set (timers m') \<subseteq> set (timers m)" using s(7) by auto
  show ?thesis using s(1,2) o r k f g sub by blast
qed

definition two_timers :: timer_manager where
  "two_timers = snd (add_timer 1 True 5 2 0 (snd (add_timer 0 True 5 1 0 TimerManager)))"

lemma add_timer_eval:
  "add_timer now r ms f a m =
     (let t = fresh m; m1 = m\<lparr>obj := (obj m)(t := mk_Timer now r ms (Plain f) a), fresh := Suc t\<rparr>;
          (ok, m2) = insert_timer (Some t) m1 in (if ok then Some t else None, m2))"
  by (simp add: add_timer_def new_timer_def)

lemma one_timer:
  "add_timer 0 True 5 1 0 TimerManager =
     (Some 0, TimerManager\<lparr>obj := (obj TimerManager)(0 := mk_Timer 0 True 5 (Plain 1) 0), fresh := 1, timers := [0]\<rparr>)"
  by (simp add: add_timer_eval insert_timer_def TimerManager_def)

lemma two_timers_eq:
  "two_timers = TimerManager\<lparr>obj := (obj TimerManager)(0 := mk_Timer 0 True 5 (Plain 1) 0,
     1 := mk_Timer 1 True 5 (Plain 2) 0), fresh := 2, timers := [0, 1]\<rparr>"
  by (simp add: two_timers_def one_timer add_timer_eval insert_timer_def TimerManager_def Comparator_def
      mk_Timer_def same_key_def)

lemma two_timers_set: "timers two_timers = [0, Suc 0]" "fresh two_timers = 2" "\<not> need_tickle two_timers"
  by (simp_all add: two_timers_eq TimerManager_def)

lemma two_timers_obj:
  "obj two_timers 0 = mk_Timer 0 True 5 (Plain 1) 0" "obj two_timers (Suc 0) = mk_Timer 1 True 5 (Plain 2) 0"
  by (simp_all add: two_timers_eq)

lemma two_timers_due:
  "due_at two_timers 0 = 5" "due_at two_timers (Suc 0) = 6"
  "is_recurring (obj two_timers 0)" "is_recurring (obj two_timers (Suc 0))"
  "period_time (obj two_timers 0) = 5" "period_time (obj two_timers (Suc 0)) = 5"
  "has_manager (obj two_timers 0)"
  by (simp_all add: two_timers_obj mk_Timer_def)

lemma wf_two_timers: "tm_wf two_timers"
  by (simp add: tm_wf_def Comparator_def two_timers_set two_timers_due)

lemmas two_timers_facts = two_timers_set two_timers_due

theorem expired_timers_exact_witness:
  "set (fst (get_expired_timers 5 [] two_timers)) = {0}"
proof -
  have "set (fst (get_expired_timers 5 [] two_timers)) = {t \<in> set (timers two_timers). due_at two_timers t \<le> 5}"
    using expired_timers_exact [OF wf_two_timers, of 5 "fst (get_expired_timers 5 [] two_timers)"
        "snd (get_expired_timers 5 [] two_timers)"] by simp
  also have "\<dots> = set (filter (\<lambda>t. due_at two_timers t \<le> 5) (timers two_timers))" by simp
  also have "\<dots> = {0}" by (simp add: two_timers_facts del: set_filter)
  finally show ?thesis .
qed

text \<open>
  \<open>add_timer\<close> is refused (the null pointer) exactly when a timer with the same expiration
  millisecond is already armed, since the comparator looks at the expiration only; the set is
  then unchanged. Otherwise the new timer is armed at \<open>now + ms\<close> and every other timer stays.
\<close>

theorem add_timer_needs_free_slot:
  assumes "tm_wf m" and "add_timer now r ms f a m = (res, m')"
  shows "(res = None \<longleftrightarrow> (\<exists>u \<in> set (timers m). due_at m u = now + ms))
    \<and> (res = None \<longrightarrow> timers m' = timers m)
    \<and> (\<forall>t. res = Some t \<longrightarrow> t \<notin> set (timers m) \<and> set (timers m') = insert t (set (timers m))
         \<and> due_at m' t = now + ms \<and> (\<forall>u \<in> set (timers m). due_at m' u = due_at m u))"
proof -
  let ?t = "fresh m"
  define m1 where "m1 = m\<lparr>obj := (obj m)(?t := mk_Timer now r ms (Plain f) a), fresh := Suc ?t\<rparr>"
  have nt: "?t \<notin> set (timers m)" using assms(1) by (auto simp: tm_wf_def)
  have d1: "due_at m1 ?t = now + ms" "\<And>u. u \<in> set (timers m) \<Longrightarrow> due_at m1 u = due_at m u"
    using nt by (auto simp: m1_def mk_Timer_def)
  have sorted: "sorted_wrt (Comparator m1) (timers m)"
    using sorted_frame [of "timers m" m1 m] d1(2) assms(1) by auto
  obtain b ts where s: "set_insert (Comparator m1) ?t (timers m) = (b, ts)" by fastforce
  obtain ok m2 where i: "insert_timer (Some ?t) m1 = (ok, m2)" by fastforce
  have tm1: "timers m1 = timers m" by (simp add: m1_def)
  have res: "res = (if ok then Some ?t else None)" "m' = m2"
    using assms(2) i by (simp_all add: add_timer_def new_timer_def Let_def flip: m1_def)
  have b: "b \<longleftrightarrow> (\<forall>u \<in> set (timers m). due_at m u \<noteq> now + ms)"
    using timer_set.set_insert_iff [OF sorted, of ?t] s d1 by auto
  have f: "ok = b" "timers m' = ts" "obj m' = obj m1"
    using insert_timer_fields [OF i] s res(2) tm1 by simp_all
  have st: "set ts = (if b then insert ?t (set (timers m)) else set (timers m))" "\<not> b \<longrightarrow> ts = timers m"
    using timer_set.set_insert_set [OF s] by simp_all
  show ?thesis using res(1) b f st d1 nt by auto
qed

theorem add_timer_needs_free_slot_witness:
  "fst (add_timer 2 False 4 9 0 two_timers) = None \<and> timers (snd (add_timer 2 False 4 9 0 two_timers)) = [0, 1]"
  using add_timer_needs_free_slot [OF wf_two_timers, of 2 False 4 9 0
      "fst (add_timer 2 False 4 9 0 two_timers)" "snd (add_timer 2 False 4 9 0 two_timers)"]
  by (simp add: two_timers_facts)

text \<open>
  The time \<open>get_next_timer\<close> returns is the right time to sleep: when it is zero a timer is due
  now; otherwise no timer is due at any moment before the returned delay has passed, and one
  is due once it has. With no timer armed it is the largest 64-bit value and nothing is ever
  due. Asking also arms the wake-up of the sleeper.
\<close>

theorem next_timer_sound:
  assumes "tm_wf m" and "get_next_timer now m = (d, m')"
  shows "(timers m = [] \<longrightarrow> d = NOT 0 \<and> fst (get_expired_timers later [] m) = [])
    \<and> (timers m \<noteq> [] \<longrightarrow> need_tickle m' \<and> fst (get_expired_timers (now + d) [] m) \<noteq> []
        \<and> (now \<le> later \<and> later < now + d \<longrightarrow> fst (get_expired_timers later [] m) = []))"
proof (cases "timers m")
  case Nil
  with assms show ?thesis by (simp add: get_next_timer_def get_expired_timers_def)
next
  case (Cons t ts)
  have d: "d = (if due_at m t \<le> now then 0 else due_at m t - now)" and tick: "need_tickle m'"
    using assms(2) Cons by (auto simp: get_next_timer_def)
  have "due_at m t \<le> now + d" using d by simp
  then have "fst (get_expired_timers (now + d) [] m) \<noteq> []"
    using get_expired_nonempty [OF assms(1)] Cons by auto
  moreover have "fst (get_expired_timers later [] m) = []" if "now \<le> later" "later < now + d"
  proof -
    have "later < due_at m t" using that d by (auto split: if_splits)
    then have "\<not> due_at m u \<le> later" if "u \<in> set (timers m)" for u
      using first_is_minimal [OF assms(1) Cons that] by auto
    then show ?thesis using get_expired_nonempty [OF assms(1), of later] by blast
  qed
  ultimately show ?thesis using Cons tick by simp
qed

theorem next_timer_sound_witness:
  "fst (get_expired_timers 5 [] two_timers) \<noteq> [] \<and> fst (get_expired_timers 4 [] two_timers) = []"
  using next_timer_sound [OF wf_two_timers, of 2 3 "two_timers\<lparr>need_tickle := True\<rparr>" 4]
  by (simp add: two_timers_facts get_next_timer_def)

text \<open>
  Cancelling an armed timer disarms exactly that timer, and cancelling it again does nothing.
  Cancelling a timer that is no longer armed (it has fired), while another timer with the same
  expiration is armed, reports success and disarms that other timer.
\<close>

theorem cancel_by_slot:
  assumes "tm_wf m" and "has_manager (obj m t)" and "cancel t m = (ret, m')"
  shows "(t \<in> set (timers m) \<longrightarrow> ret \<and> set (timers m') = set (timers m) - {t} \<and> cancel t m' = (False, m'))
    \<and> (t \<notin> set (timers m) \<and> u \<in> set (timers m) \<and> due_at m u = due_at m t \<longrightarrow>
        ret \<and> set (timers m') = set (timers m) - {u})"
proof -
  obtain m1 where d: "del_timer t m = (ret, m1)" and m': "m' = update_obj t (has_manager_update (\<lambda>_. False)) m1"
    using assms(2,3) by (auto simp: cancel_def split: prod.splits)
  have slot: "ret \<and> set (timers m') = set (timers m) - {v}"
    if "v \<in> set (timers m)" "due_at m v = due_at m t" for v
  proof -
    have "ret" using del_timer_iff [of t m] d that by auto
    then have "set (timers m1) = {w \<in> set (timers m). due_at m w \<noteq> due_at m t}"
      using del_timer_slot(1) [OF assms(1)] d by simp
    moreover have "due_at m w = due_at m t \<longleftrightarrow> w = v" if "w \<in> set (timers m)" for w
      using slot_unique [OF assms(1) that \<open>v \<in> set (timers m)\<close>] \<open>due_at m v = due_at m t\<close> by auto
    ultimately have "set (timers m1) = set (timers m) - {v}" by auto
    then show ?thesis using \<open>ret\<close> m' by simp
  qed
  have "cancel t m' = (False, m')" by (simp add: cancel_def m')
  with slot show ?thesis by auto
qed

theorem cancel_by_slot_witness:
  "set (timers (snd (cancel 0 two_timers))) = {1}"
  using cancel_by_slot [OF wf_two_timers two_timers_due(7), of "fst (cancel 0 two_timers)" "snd (cancel 0 two_timers)" 1]
  by (simp add: two_timers_facts)

text \<open>
  Two recurring timers with the same period that are found expired by the same call collide:
  both get the deadline \<open>now + period\<close>, the second insertion is refused, and at most one of them
  is armed afterwards. The other never fires again.
\<close>

theorem recurring_timers_collide:
  assumes "tm_wf m" and "get_expired_timers now [] m = (ex, m')"
    and "t \<in> set ex" and "u \<in> set ex" and "t \<noteq> u"
    and "is_recurring (obj m t)" and "is_recurring (obj m u)" and "period_time (obj m t) = period_time (obj m u)"
  shows "\<not> {t, u} \<subseteq> set (timers m')"
proof -
  note s = get_expired_spec [OF assms(1,2)]
  have "due_at m' t = due_at m' u" using s(1,5) assms(3-) by (simp add: rearmed_def)
  then show ?thesis using slot_unique [OF s(4)] assms(5) by blast
qed

theorem recurring_timers_collide_witness:
  "\<not> {0, 1} \<subseteq> set (timers (snd (get_expired_timers 6 [] two_timers)))"
proof -
  have "fst (get_expired_timers 6 [] two_timers) = [0, 1]"
    by (simp add: get_expired_timers_def two_timers_facts)
  then show ?thesis
    using recurring_timers_collide [OF wf_two_timers, of 6 "[0, 1]" "snd (get_expired_timers 6 [] two_timers)" 0 1]
    by (simp add: two_timers_facts prod_eq_iff)
qed

end
