(* ===== verification/IO_Manager.thy ===== *)
theory IO_Manager
  imports Scheduler Timer
begin

text \<open>
  The event loop (src/sylar/iomanager.h, src/sylar/iomanager.cpp): a scheduler that is also a timer
  manager and parks fibers on file descriptors. \<open>IOEvent\<close> keeps for one descriptor which events are
  armed and which fiber waits for each; \<open>IOManager\<close> maps descriptors to them, counts the armed
  events and, in its idle fiber, turns ready events and expired timers into tasks.

  The result of the system call \<open>epoll_ctl\<close> is the argument \<open>ctl\<close>: the operation, the descriptor and
  the event mask give the return code. What \<open>epoll_wait\<close> reports is an argument of \<open>idle_round\<close>. The
  scheduler that \<open>Scheduler::GetThis()\<close> returns is this one.
\<close>

section \<open>Events of one descriptor\<close>

datatype ctl_op = CTL_ADD | CTL_MOD | CTL_DEL

type_synonym epoll_ctl = "ctl_op \<Rightarrow> int \<Rightarrow> u32 \<Rightarrow> int"

definition EPOLLIN :: u32 where "EPOLLIN = 0x1"
definition EPOLLOUT :: u32 where "EPOLLOUT = 0x4"
definition EPOLLERR :: u32 where "EPOLLERR = 0x8"
definition EPOLLHUP :: u32 where "EPOLLHUP = 0x10"
definition EPOLLET :: u32 where "EPOLLET = 0x80000000"

lemmas epoll_defs = EPOLLIN_def EPOLLOUT_def EPOLLERR_def EPOLLHUP_def EPOLLET_def

record EventContext =
  ctx_scheduler :: bool
  ctx_fiber :: "fib option"

record IOEvent =
  fd :: int
  events :: u32
  read_ctx :: EventContext
  write_ctx :: EventContext

definition EventContext_reset :: "EventContext \<Rightarrow> EventContext" where
  "EventContext_reset c = \<lparr>ctx_scheduler = False, ctx_fiber = None\<rparr>"

definition EventContext_set :: "fib \<Rightarrow> EventContext \<Rightarrow> EventContext" where
  "EventContext_set f c = \<lparr>ctx_scheduler = True, ctx_fiber = Some f\<rparr>"

text \<open>\<open>trigger\<close>: the fiber that is handed to the scheduler, if any, and the new context.\<close>

definition EventContext_trigger :: "EventContext \<Rightarrow> fib list \<times> EventContext" where
  "EventContext_trigger c =
     (if \<not> ctx_scheduler c then ([], c)
      else case ctx_fiber c of None \<Rightarrow> ([], c) | Some f \<Rightarrow> ([f], EventContext_reset c))"

definition mk_IOEvent :: "int \<Rightarrow> IOEvent" where
  "mk_IOEvent f = \<lparr>fd = f, events = 0, read_ctx = \<lparr>ctx_scheduler = False, ctx_fiber = None\<rparr>,
     write_ctx = \<lparr>ctx_scheduler = False, ctx_fiber = None\<rparr>\<rparr>"

text \<open>
  Both overloads of \<open>IOEvent::add_event\<close>: the one with a function makes a new fiber for each
  direction (\<open>r\<close> and \<open>w\<close>), the one with a fiber uses that fiber for both.
\<close>

definition IOEvent_add_event :: "epoll_ctl \<Rightarrow> u32 \<Rightarrow> fib \<Rightarrow> fib \<Rightarrow> IOEvent \<Rightarrow> bool \<times> IOEvent" where
  "IOEvent_add_event ctl event r w e =
     (let old_events = events e;
          op = (if events e \<noteq> 0 then CTL_MOD else CTL_ADD);
          e1 = e\<lparr>events := events e OR event\<rparr>;
          e2 = (if event AND EPOLLIN \<noteq> 0 then e1\<lparr>read_ctx := EventContext_set r (read_ctx e1)\<rparr> else e1);
          e3 = (if event AND EPOLLOUT \<noteq> 0 then e2\<lparr>write_ctx := EventContext_set w (write_ctx e2)\<rparr> else e2);
          rt = ctl op (fd e3) (EPOLLET OR events e3)
      in if rt \<noteq> 0 then (False, e3\<lparr>events := old_events\<rparr>) else (True, e3))"

definition IOEvent_del_event :: "epoll_ctl \<Rightarrow> u32 \<Rightarrow> IOEvent \<Rightarrow> bool \<times> IOEvent" where
  "IOEvent_del_event ctl event e =
     (if events e AND event = 0 then (False, e)
      else let e1 = e\<lparr>events := events e AND NOT event\<rparr>;
               e2 = (if event AND EPOLLIN \<noteq> 0 then e1\<lparr>read_ctx := EventContext_reset (read_ctx e1)\<rparr> else e1);
               e3 = (if event AND EPOLLOUT \<noteq> 0 then e2\<lparr>write_ctx := EventContext_reset (write_ctx e2)\<rparr> else e2);
               op = (if events e3 \<noteq> 0 then CTL_MOD else CTL_DEL);
               rt = ctl op (fd e3) (EPOLLET OR events e3)
           in (rt = 0, e3))"

definition IOEvent_cancel_event :: "epoll_ctl \<Rightarrow> u32 \<Rightarrow> IOEvent \<Rightarrow> bool \<times> fib list \<times> IOEvent" where
  "IOEvent_cancel_event ctl event e =
     (if events e AND event = 0 then (False, [], e)
      else let (fr, rc) = (if event AND EPOLLIN \<noteq> 0 then EventContext_trigger (read_ctx e) else ([], read_ctx e));
               e1 = e\<lparr>read_ctx := rc\<rparr>;
               (fw, wc) = (if event AND EPOLLOUT \<noteq> 0 then EventContext_trigger (write_ctx e1) else ([], write_ctx e1));
               e2 = e1\<lparr>write_ctx := wc\<rparr>;
               (ok, e3) = IOEvent_del_event ctl event e2
           in (ok, fr @ fw, e3))"

section \<open>The manager\<close>

record iomanager =
  base :: scheduler
  tmgr :: timer_manager
  fd_event_map :: "(int \<times> IOEvent) list"
  pending_event_count :: u64
  sem :: nat

definition add_fibers :: "fib list \<Rightarrow> iomanager \<Rightarrow> iomanager" where
  "add_fibers fs m = m\<lparr>base := fold (\<lambda>f. add_fiber f (-1)) fs (base m)\<rparr>"

definition lookup_event :: "int \<Rightarrow> iomanager \<Rightarrow> IOEvent option" where
  "lookup_event f m = map_find (<) f (fd_event_map m)"

definition store_event :: "int \<Rightarrow> IOEvent \<Rightarrow> iomanager \<Rightarrow> iomanager" where
  "store_event f e m = m\<lparr>fd_event_map := map_set (<) f e (fd_event_map m)\<rparr>"

definition add_event :: "epoll_ctl \<Rightarrow> int \<Rightarrow> u32 \<Rightarrow> fib \<Rightarrow> fib \<Rightarrow> iomanager \<Rightarrow> bool \<times> iomanager" where
  "add_event ctl f event r w m =
     (let (ret, e) = (case lookup_event f m of
                        Some e \<Rightarrow> IOEvent_add_event ctl event r w e
                      | None \<Rightarrow> IOEvent_add_event ctl event r w (mk_IOEvent f));
          m1 = store_event f e m
      in if \<not> ret then (False, m1)
         else (True, m1\<lparr>pending_event_count := pending_event_count m1 + 1\<rparr>))"

definition add_event_func :: "epoll_ctl \<Rightarrow> int \<Rightarrow> u32 \<Rightarrow> fib \<Rightarrow> fib \<Rightarrow> iomanager \<Rightarrow> bool \<times> iomanager" where
  "add_event_func ctl f event new1 new2 m = add_event ctl f event new1 new2 m"

definition add_event_fiber :: "epoll_ctl \<Rightarrow> int \<Rightarrow> u32 \<Rightarrow> fib \<Rightarrow> iomanager \<Rightarrow> bool \<times> iomanager" where
  "add_event_fiber ctl f event fiber m = add_event ctl f event fiber fiber m"

definition del_event :: "epoll_ctl \<Rightarrow> int \<Rightarrow> u32 \<Rightarrow> iomanager \<Rightarrow> bool \<times> iomanager" where
  "del_event ctl f event m =
     (case lookup_event f m of
        None \<Rightarrow> (False, m)
      | Some e \<Rightarrow>
          let (ret, e1) = IOEvent_del_event ctl event e; m1 = store_event f e1 m
          in if \<not> ret then (False, m1) else (True, m1\<lparr>pending_event_count := pending_event_count m1 - 1\<rparr>))"

definition cancel_event :: "epoll_ctl \<Rightarrow> int \<Rightarrow> u32 \<Rightarrow> iomanager \<Rightarrow> bool \<times> iomanager" where
  "cancel_event ctl f event m =
     (case lookup_event f m of
        None \<Rightarrow> (False, m)
      | Some e \<Rightarrow>
          let (ret, fs, e1) = IOEvent_cancel_event ctl event e;
              m1 = add_fibers fs (store_event f e1 m)
          in if \<not> ret then (False, m1) else (True, m1\<lparr>pending_event_count := pending_event_count m1 - 1\<rparr>))"

text \<open>One direction of \<open>cancel_all\<close>.\<close>

definition cancel_dir :: "epoll_ctl \<Rightarrow> int \<Rightarrow> u32 \<Rightarrow> bool \<times> iomanager \<Rightarrow> bool \<times> iomanager" where
  "cancel_dir ctl f event = (\<lambda>(ret, m).
     let (rt, m1) = cancel_event ctl f event m in (ret \<or> rt, m1))"

definition cancel_all :: "epoll_ctl \<Rightarrow> int \<Rightarrow> iomanager \<Rightarrow> bool \<times> iomanager" where
  "cancel_all ctl f m =
     (case lookup_event f m of
        None \<Rightarrow> (False, m)
      | Some e \<Rightarrow>
          let evs = events e;
              s1 = (if evs AND EPOLLIN \<noteq> 0 then cancel_dir ctl f EPOLLIN (False, m) else (False, m))
          in if evs AND EPOLLOUT \<noteq> 0 then cancel_dir ctl f EPOLLOUT s1 else s1)"

definition io_tickle :: "iomanager \<Rightarrow> iomanager" where
  "io_tickle m = (if has_idle_threads (base m) then m\<lparr>sem := sem m + 1\<rparr> else m)"

definition io_can_stop :: "iomanager \<Rightarrow> bool" where
  "io_can_stop m \<longleftrightarrow> can_stop (base m) \<and> pending_event_count m = 0 \<and> timers_empty (tmgr m)"

section \<open>The idle fiber\<close>

text \<open>How long \<open>epoll_wait\<close> may block: until the next timer, at most three seconds.\<close>

definition idle_timeout :: "u64 \<Rightarrow> nat" where
  "idle_timeout next_timer = (if 3000 < next_timer then 3000 else unat next_timer)"

text \<open>
  One direction of a ready event: \<open>IOEvent::cancel_event\<close> is called and its result ignored; the
  count is decremented in every case.
\<close>

definition process_dir :: "epoll_ctl \<Rightarrow> int \<Rightarrow> u32 \<Rightarrow> iomanager \<Rightarrow> iomanager" where
  "process_dir ctl f event m =
     (case lookup_event f m of
        None \<Rightarrow> m
      | Some e \<Rightarrow>
          let (_, fs, e1) = IOEvent_cancel_event ctl event e;
              m1 = add_fibers fs (store_event f e1 m)
          in m1\<lparr>pending_event_count := pending_event_count m1 - 1\<rparr>)"

definition process_event :: "epoll_ctl \<Rightarrow> int \<times> u32 \<Rightarrow> iomanager \<Rightarrow> iomanager" where
  "process_event ctl ev m =
     (let (f, rev0) = ev;
          revents = (if rev0 AND (EPOLLERR OR EPOLLHUP) \<noteq> 0 then rev0 OR (EPOLLIN OR EPOLLOUT) else rev0);
          m1 = (if revents AND EPOLLIN \<noteq> 0 then process_dir ctl f EPOLLIN m else m);
          m2 = (if revents AND EPOLLOUT \<noteq> 0 then process_dir ctl f EPOLLOUT m1 else m1)
      in io_tickle m2)"

text \<open>
  A round of the idle fiber after \<open>epoll_wait\<close> returned: \<open>None\<close> when the manager can stop and the fiber
  ends. \<open>mk\<close> is the fiber \<open>add_fiber\<close> creates for a callback and its argument.
\<close>

definition idle_round ::
    "epoll_ctl \<Rightarrow> (callback \<Rightarrow> nat \<Rightarrow> fib) \<Rightarrow> u64 \<Rightarrow> u64 \<Rightarrow> (int \<times> u32) list \<Rightarrow> iomanager \<Rightarrow> (nat \<times> iomanager) option" where
  "idle_round ctl mk before now ready m =
     (if io_can_stop m then None
      else let (next_timer, tm1) = get_next_timer before (tmgr m);
               time_out = idle_timeout next_timer;
               (expired, tm2) = get_expired_timers now [] tm1;
               m1 = add_fibers (map (\<lambda>t. mk (cb (obj tm2 t)) (args (obj tm2 t))) expired) (m\<lparr>tmgr := tm2\<rparr>)
           in Some (time_out, fold (process_event ctl) ready m1))"

section \<open>Armed events\<close>

definition armed :: "u32 \<Rightarrow> IOEvent \<Rightarrow> bool" where
  "armed event e \<longleftrightarrow> events e AND event \<noteq> 0"

definition waiting :: "u32 \<Rightarrow> IOEvent \<Rightarrow> fib option" where
  "waiting event e = (let c = (if event = EPOLLIN then read_ctx e else write_ctx e)
     in if ctx_scheduler c then ctx_fiber c else None)"

text \<open>The number of armed directions of a descriptor, and of all descriptors.\<close>

definition armed_count :: "IOEvent \<Rightarrow> nat" where
  "armed_count e = (if armed EPOLLIN e then 1 else 0) + (if armed EPOLLOUT e then 1 else 0)"

definition total_armed :: "(int \<times> IOEvent) list \<Rightarrow> nat" where
  "total_armed m = sum_list (map (\<lambda>(f, e). armed_count e) m)"

text \<open>
  What the manager relies on: the map is ordered and an entry belongs to its descriptor; only
  the two directions are ever armed; an armed direction has a waiting fiber and an unarmed one
  has none; and the count is the number of armed directions.
\<close>

definition event_ok :: "IOEvent \<Rightarrow> bool" where
  "event_ok e \<longleftrightarrow> events e AND NOT (EPOLLIN OR EPOLLOUT) = 0
     \<and> (\<forall>d \<in> {EPOLLIN, EPOLLOUT}. armed d e \<longleftrightarrow> waiting d e \<noteq> None)"

definition io_wf :: "iomanager \<Rightarrow> bool" where
  "io_wf m \<longleftrightarrow> sorted_wrt (<) (map_keys (fd_event_map m))
     \<and> (\<forall>(f, e) \<in> set (fd_event_map m). fd e = f \<and> event_ok e)
     \<and> pending_event_count m = of_nat (total_armed (fd_event_map m))"

definition ctl_ok :: "epoll_ctl \<Rightarrow> bool" where
  "ctl_ok ctl \<longleftrightarrow> (\<forall>op f ev. ctl op f ev = 0)"

definition other :: "u32 \<Rightarrow> u32" where
  "other d = (if d = EPOLLIN then EPOLLOUT else EPOLLIN)"

lemma four_masks:
  assumes "x AND NOT (EPOLLIN OR EPOLLOUT) = 0"
  shows "x = 0 \<or> x = 1 \<or> x = 4 \<or> x = 5"
proof -
  have "x = (x AND 5) OR (x AND NOT 5)" by (rule bit_word_eqI) (auto simp: bit_simps)
  then have "x = x AND 5" using assms by (simp add: epoll_defs)
  then have "x \<le> 5" using word_and_le1 [of x 5] by simp
  then have "unat x \<le> 5" by (simp add: word_le_nat_alt)
  then have "unat x \<in> {0, 1, 2, 3, 4, 5}" by auto
  moreover have "x = of_nat (unat x)" by simp
  ultimately have "x \<in> of_nat ` {0, 1, 2, 3, 4, 5}" by (metis image_eqI)
  then have "x \<in> {0, 1, 2, 3, 4, 5}" by simp
  then show ?thesis using assms by (auto simp: epoll_defs)
qed

lemma event_cases:
  assumes "event_ok e"
  obtains "events e = 0" "waiting EPOLLIN e = None" "waiting EPOLLOUT e = None"
  | r where "events e = 1" "waiting EPOLLIN e = Some r" "waiting EPOLLOUT e = None"
  | w where "events e = 4" "waiting EPOLLIN e = None" "waiting EPOLLOUT e = Some w"
  | r w where "events e = 5" "waiting EPOLLIN e = Some r" "waiting EPOLLOUT e = Some w"
proof -
  have a: "armed d e \<longleftrightarrow> waiting d e \<noteq> None" if "d \<in> {EPOLLIN, EPOLLOUT}" for d
    using assms that by (auto simp: event_ok_def)
  have ar: "armed EPOLLIN e \<longleftrightarrow> events e AND 1 \<noteq> 0" "armed EPOLLOUT e \<longleftrightarrow> events e AND 4 \<noteq> 0"
    by (simp_all add: armed_def epoll_defs)
  have "events e = 0 \<or> events e = 1 \<or> events e = 4 \<or> events e = 5"
    using assms by (intro four_masks) (simp add: event_ok_def)
  then show thesis using a [of EPOLLIN] a [of EPOLLOUT] ar that by auto
qed

lemma waiting_upd [simp]:
  "waiting d (e\<lparr>events := x\<rparr>) = waiting d e"
  "waiting 1 (e\<lparr>read_ctx := c\<rparr>) = (if ctx_scheduler c then ctx_fiber c else None)"
  "waiting 4 (e\<lparr>read_ctx := c\<rparr>) = waiting 4 e"
  "waiting 4 (e\<lparr>write_ctx := c\<rparr>) = (if ctx_scheduler c then ctx_fiber c else None)"
  "waiting 1 (e\<lparr>write_ctx := c\<rparr>) = waiting 1 e"
  by (simp_all add: waiting_def epoll_defs)

lemma trigger_waiting:
  "waiting 1 e = Some f \<Longrightarrow> EventContext_trigger (read_ctx e) = ([f], EventContext_reset (read_ctx e))"
  "waiting 4 e = Some f \<Longrightarrow> EventContext_trigger (write_ctx e) = ([f], EventContext_reset (write_ctx e))"
  by (simp_all add: waiting_def epoll_defs EventContext_trigger_def Let_def split: if_splits)

lemmas event_simps = Let_def ctl_ok_def epoll_defs armed_def event_ok_def armed_count_def other_def
  EventContext_set_def EventContext_reset_def

text \<open>What a successful change of one direction does to a descriptor's entry.\<close>

lemma IOEvent_add_spec:
  assumes "event_ok e" and "d \<in> {EPOLLIN, EPOLLOUT}" and "\<not> armed d e" and "ctl_ok ctl"
  shows "\<exists>e'. IOEvent_add_event ctl d r w e = (True, e') \<and> event_ok e' \<and> fd e' = fd e
    \<and> waiting d e' = Some (if d = EPOLLIN then r else w) \<and> waiting (other d) e' = waiting (other d) e
    \<and> armed_count e' = armed_count e + 1"
  using assms(1)
  by (rule event_cases) (use assms(2-4) in \<open>auto simp: IOEvent_add_event_def event_simps\<close>)

lemma IOEvent_del_spec:
  assumes "event_ok e" and "d \<in> {EPOLLIN, EPOLLOUT}" and "armed d e" and "ctl_ok ctl"
  shows "\<exists>e'. IOEvent_del_event ctl d e = (True, e') \<and> event_ok e' \<and> fd e' = fd e
    \<and> waiting d e' = None \<and> waiting (other d) e' = waiting (other d) e \<and> armed_count e = armed_count e' + 1"
  using assms(1)
  by (rule event_cases) (use assms(2-4) in \<open>auto simp: IOEvent_del_event_def event_simps\<close>)

lemma IOEvent_cancel_spec:
  assumes "event_ok e" and "d \<in> {EPOLLIN, EPOLLOUT}" and "waiting d e = Some f" and "ctl_ok ctl"
  shows "\<exists>e'. IOEvent_cancel_event ctl d e = (True, [f], e') \<and> event_ok e' \<and> fd e' = fd e
    \<and> waiting d e' = None \<and> waiting (other d) e' = waiting (other d) e \<and> armed_count e = armed_count e' + 1"
  using assms(1)
  by (rule event_cases)
    (use assms(2-4) in \<open>auto simp: IOEvent_cancel_event_def IOEvent_del_event_def event_simps trigger_waiting\<close>)

lemma IOEvent_unarmed: "\<not> armed d e \<Longrightarrow> IOEvent_cancel_event ctl d e = (False, [], e) \<and> IOEvent_del_event ctl d e = (False, e)"
  by (simp add: IOEvent_cancel_event_def IOEvent_del_event_def armed_def)

section \<open>The table of descriptors\<close>

lemma total_armed_simps [simp]: "total_armed [] = 0" "total_armed ((f, e) # m) = armed_count e + total_armed m"
  by (simp_all add: total_armed_def)

lemma map_set_entries: "set (map_set (<) f e m) \<subseteq> insert (f :: int, e) (set m)"
  by (induction m) (auto split: if_splits)

lemma total_armed_set:
  "sorted_wrt (<) (map_keys m) \<Longrightarrow>
     total_armed (map_set (<) (f :: int) e m) + (case map_find (<) f m of None \<Rightarrow> 0 | Some e0 \<Rightarrow> armed_count e0)
       = total_armed m + armed_count e"
proof (induction m)
  case (Cons p m)
  obtain a v where p: "p = (a, v)" by fastforce
  have "f < a \<Longrightarrow> map_find (<) f m = None"
    using Cons.prems p by (intro std_less.map_find_greater) auto
  with Cons p show ?case by (auto split: option.splits)
qed simp

lemma wf_lookup:
  assumes "io_wf m" and "lookup_event f m = Some e"
  shows "fd e = f" "event_ok e"
  using assms std_less.map_find_key [of f "fd_event_map m" e] by (auto simp: io_wf_def lookup_event_def)

text \<open>Storing an entry that keeps to the rules, with the count adjusted.\<close>

lemma wf_store:
  assumes wf: "io_wf m" and e: "fd e = f" "event_ok e"
    and m': "fd_event_map m' = map_set (<) f e (fd_event_map m)"
    and cnt: "pending_event_count m' + of_nat (case lookup_event f m of None \<Rightarrow> 0 | Some e0 \<Rightarrow> armed_count e0)
       = pending_event_count m + of_nat (armed_count e)"
  shows "io_wf m'"
proof -
  have s: "sorted_wrt (<) (map_keys (fd_event_map m))" using wf by (simp add: io_wf_def)
  let ?old = "case lookup_event f m of None \<Rightarrow> 0 | Some e0 \<Rightarrow> armed_count e0"
  have "total_armed (fd_event_map m') + ?old = total_armed (fd_event_map m) + armed_count e"
    using total_armed_set [OF s, of f e] m' by (simp add: lookup_event_def)
  then have "of_nat (total_armed (fd_event_map m')) + of_nat ?old
      = (of_nat (total_armed (fd_event_map m)) + of_nat (armed_count e) :: u64)"
    by (metis of_nat_add)
  then have "pending_event_count m' = of_nat (total_armed (fd_event_map m'))"
    using cnt wf unfolding io_wf_def by (metis add_right_cancel)
  moreover have "sorted_wrt (<) (map_keys (fd_event_map m'))" using std_less.map_set_sorted [OF s] m' by simp
  moreover have "\<forall>(g, x) \<in> set (fd_event_map m'). fd x = g \<and> event_ok x"
    using map_set_entries [of f e "fd_event_map m"] wf e m' by (auto simp: io_wf_def)
  ultimately show ?thesis by (simp add: io_wf_def)
qed

lemma io_simps [simp]:
  "fd_event_map (add_fibers fs m) = fd_event_map m" "pending_event_count (add_fibers fs m) = pending_event_count m"
  "tmgr (add_fibers fs m) = tmgr m" "sem (add_fibers fs m) = sem m"
  "fd_event_map (store_event f e m) = map_set (<) f e (fd_event_map m)" "base (store_event f e m) = base m"
  "pending_event_count (store_event f e m) = pending_event_count m" "tmgr (store_event f e m) = tmgr m"
  "fd_event_map (io_tickle m) = fd_event_map m" "base (io_tickle m) = base m"
  "pending_event_count (io_tickle m) = pending_event_count m" "tmgr (io_tickle m) = tmgr m"
  by (simp_all add: add_fibers_def store_event_def io_tickle_def)

lemma lookup_store [simp]:
  "lookup_event g (m\<lparr>fd_event_map := map_set (<) f e (fd_event_map m), pending_event_count := c\<rparr>)
     = (if g = f then Some e else lookup_event g m)"
  "lookup_event g (store_event f e m) = (if g = f then Some e else lookup_event g m)"
  "lookup_event g (add_fibers fs m) = lookup_event g m" "lookup_event g (m\<lparr>pending_event_count := c\<rparr>) = lookup_event g m"
  "lookup_event g (io_tickle m) = lookup_event g m"
  by (simp_all add: lookup_event_def std_less.map_find_set)

lemma tasks_fold: "tasks (fold (\<lambda>f. add_fiber f (-1)) fs s) = tasks s @ map (\<lambda>f. \<lparr>task_thread = -1, task_fiber = f\<rparr>) fs"
  by (induction fs arbitrary: s) simp_all

lemma tasks_add_fibers [simp]:
  "tasks (base (add_fibers fs m)) = tasks (base m) @ map (\<lambda>f. \<lparr>task_thread = -1, task_fiber = f\<rparr>) fs"
  by (simp add: add_fibers_def tasks_fold)

section \<open>The manager's operations\<close>

abbreviation direction :: "u32 \<Rightarrow> bool" where
  "direction d \<equiv> d \<in> {EPOLLIN, EPOLLOUT}"

text \<open>The fiber that waits for event \<open>d\<close> of descriptor \<open>f\<close>.\<close>

definition waiter :: "iomanager \<Rightarrow> int \<Rightarrow> u32 \<Rightarrow> fib option" where
  "waiter m f d = (case lookup_event f m of None \<Rightarrow> None | Some e \<Rightarrow> waiting d e)"

definition as_task :: "fib \<Rightarrow> ScheduledTask" where
  "as_task f = \<lparr>task_thread = -1, task_fiber = f\<rparr>"

lemma direction_other: "direction d \<Longrightarrow> direction d' \<Longrightarrow> d' \<noteq> d \<Longrightarrow> d' = other d"
  by (auto simp: other_def epoll_defs)

lemma waiter_armed: "io_wf m \<Longrightarrow> lookup_event f m = Some e \<Longrightarrow> direction d \<Longrightarrow> armed d e \<longleftrightarrow> waiter m f d \<noteq> None"
  using wf_lookup(2) [of m f e] by (auto simp: waiter_def event_ok_def)

text \<open>How an entry with a changed direction shows in the waiters of the whole table.\<close>

lemma waiter_upd:
  assumes "lookup_event f m' = Some e'" and "\<And>g. g \<noteq> f \<Longrightarrow> lookup_event g m' = lookup_event g m"
    and "waiting d e' = x" and "waiting (other d) e' = waiter m f (other d)" and "direction d" and "direction d'"
  shows "waiter m' g d' = (if g = f \<and> d' = d then x else waiter m g d')"
proof (cases "g = f")
  case True
  show ?thesis
  proof (cases "d' = d")
    case False
    have "waiter m' f (other d) = waiter m f (other d)" using assms(1,4) by (simp add: waiter_def [of m'])
    with True False direction_other [OF assms(5,6)] show ?thesis by simp
  qed (use True assms(1,3) in \<open>simp add: waiter_def\<close>)
qed (use assms(2) in \<open>simp add: waiter_def\<close>)

lemma event_ok_new: "event_ok (mk_IOEvent f)" "waiting d (mk_IOEvent f) = None" "fd (mk_IOEvent f) = f"
  "armed_count (mk_IOEvent f) = 0"
  by (simp_all add: mk_IOEvent_def event_ok_def waiting_def armed_def armed_count_def Let_def)

lemma add_event_spec:
  assumes wf: "io_wf m" and d: "direction d" and free: "waiter m f d = None" and ctl: "ctl_ok ctl"
  shows "\<exists>m'. add_event ctl f d r w m = (True, m') \<and> io_wf m' \<and> base m' = base m \<and> tmgr m' = tmgr m
    \<and> (\<forall>g d'. direction d' \<longrightarrow> waiter m' g d' =
         (if g = f \<and> d' = d then Some (if d = EPOLLIN then r else w) else waiter m g d'))"
proof -
  define e where "e = (case lookup_event f m of None \<Rightarrow> mk_IOEvent f | Some e \<Rightarrow> e)"
  have ok: "event_ok e" "fd e = f" "waiting d' e = waiter m f d'" for d'
    using wf_lookup [OF wf] by (auto simp: e_def event_ok_new waiter_def split: option.split)
  have cnt: "(case lookup_event f m of None \<Rightarrow> 0 | Some e0 \<Rightarrow> armed_count e0) = armed_count e"
    by (simp add: e_def event_ok_new split: option.split)
  have na: "\<not> armed d e" using ok(1) ok(3) [of d] free d by (auto simp: event_ok_def)
  obtain e' where e': "IOEvent_add_event ctl d r w e = (True, e')" "event_ok e'" "fd e' = fd e"
    "waiting d e' = Some (if d = EPOLLIN then r else w)" "waiting (other d) e' = waiting (other d) e"
    "armed_count e' = armed_count e + 1"
    using IOEvent_add_spec [OF ok(1) d na ctl] by blast
  define m' where "m' = (store_event f e' m)\<lparr>pending_event_count := pending_event_count m + 1\<rparr>"
  have eq: "add_event ctl f d r w m = (True, m')"
    using e'(1) by (cases "lookup_event f m") (simp_all add: add_event_def m'_def e_def Let_def)
  have "io_wf m'"
    using e' ok(2) cnt by (intro wf_store [OF wf, of e' f]) (simp_all add: m'_def)
  moreover have "waiter m' g d' = (if g = f \<and> d' = d then Some (if d = EPOLLIN then r else w) else waiter m g d')"
    if "direction d'" for g d'
    by (rule waiter_upd [of f m' e' m d]) (use e' ok(3) d that in \<open>simp_all add: m'_def\<close>)
  ultimately show ?thesis using eq by (auto simp: m'_def)
qed

lemma cancel_event_spec:
  assumes wf: "io_wf m" and d: "direction d" and x: "waiter m f d = Some x" and ctl: "ctl_ok ctl"
  shows "\<exists>m'. cancel_event ctl f d m = (True, m') \<and> process_dir ctl f d m = m' \<and> io_wf m'
    \<and> tasks (base m') = tasks (base m) @ [as_task x] \<and> tmgr m' = tmgr m
    \<and> total_armed (fd_event_map m) = total_armed (fd_event_map m') + 1
    \<and> (\<forall>g d'. direction d' \<longrightarrow> waiter m' g d' = (if g = f \<and> d' = d then None else waiter m g d'))"
proof -
  obtain e where e: "lookup_event f m = Some e" "waiting d e = Some x"
    using x by (auto simp: waiter_def split: option.splits)
  note ok = wf_lookup [OF wf e(1)]
  obtain e' where e': "IOEvent_cancel_event ctl d e = (True, [x], e')" "event_ok e'" "fd e' = fd e"
    "waiting d e' = None" "waiting (other d) e' = waiting (other d) e" "armed_count e = armed_count e' + 1"
    using IOEvent_cancel_spec [OF ok(2) d e(2) ctl] by blast
  define m' where "m' = (add_fibers [x] (store_event f e' m))\<lparr>pending_event_count := pending_event_count m - 1\<rparr>"
  have eq: "cancel_event ctl f d m = (True, m')" "process_dir ctl f d m = m'"
    using e(1) e'(1) by (simp_all add: cancel_event_def process_dir_def m'_def)
  have "io_wf m'" using e' ok(1) e(1) by (intro wf_store [OF wf, of e' f]) (simp_all add: m'_def)
  moreover have "waiter m' g d' = (if g = f \<and> d' = d then None else waiter m g d')" if "direction d'" for g d'
    by (rule waiter_upd [of f m' e' m d]) (use e e' d that in \<open>simp_all add: m'_def waiter_def\<close>)
  moreover have "total_armed (fd_event_map m) = total_armed (fd_event_map m') + 1"
    using total_armed_set [of "fd_event_map m" f e'] wf e(1) e'(6) by (simp add: io_wf_def lookup_event_def m'_def)
  ultimately show ?thesis using eq by (auto simp: m'_def as_task_def)
qed

lemma cancel_event_none:
  assumes "io_wf m" and "direction d" and "waiter m f d = None"
  shows "fst (cancel_event ctl f d m) = False" "base (snd (cancel_event ctl f d m)) = base m"
    "io_wf (snd (cancel_event ctl f d m))"
    "direction d' \<Longrightarrow> waiter (snd (cancel_event ctl f d m)) g d' = waiter m g d'"
    "pending_event_count (snd (cancel_event ctl f d m)) = pending_event_count m"
proof -
  have "fst (cancel_event ctl f d m) = False \<and> base (snd (cancel_event ctl f d m)) = base m
    \<and> io_wf (snd (cancel_event ctl f d m)) \<and> (\<forall>d' g. waiter (snd (cancel_event ctl f d m)) g d' = waiter m g d')
    \<and> pending_event_count (snd (cancel_event ctl f d m)) = pending_event_count m"
  proof (cases "lookup_event f m")
    case None
    with assms(1) show ?thesis by (simp add: cancel_event_def)
  next
    case (Some e)
    have na: "\<not> armed d e" using waiter_armed [OF assms(1) Some assms(2)] assms(3) by simp
    have eq: "cancel_event ctl f d m = (False, add_fibers [] (store_event f e m))"
      using Some IOEvent_unarmed [OF na, of ctl] by (simp add: cancel_event_def)
    have "io_wf (add_fibers [] (store_event f e m))"
      using wf_lookup [OF assms(1) Some] Some by (intro wf_store [OF assms(1), of e f]) simp_all
    then show ?thesis using eq Some by (simp add: waiter_def) (simp add: add_fibers_def)
  qed
  then show "fst (cancel_event ctl f d m) = False" "base (snd (cancel_event ctl f d m)) = base m"
    "io_wf (snd (cancel_event ctl f d m))"
    "direction d' \<Longrightarrow> waiter (snd (cancel_event ctl f d m)) g d' = waiter m g d'"
    "pending_event_count (snd (cancel_event ctl f d m)) = pending_event_count m" by simp_all
qed

lemma del_event_spec:
  assumes wf: "io_wf m" and d: "direction d" and x: "waiter m f d = Some x" and ctl: "ctl_ok ctl"
  shows "\<exists>m'. del_event ctl f d m = (True, m') \<and> io_wf m' \<and> base m' = base m \<and> tmgr m' = tmgr m
    \<and> (\<forall>g d'. direction d' \<longrightarrow> waiter m' g d' = (if g = f \<and> d' = d then None else waiter m g d'))"
proof -
  obtain e where e: "lookup_event f m = Some e" "waiting d e = Some x"
    using x by (auto simp: waiter_def split: option.splits)
  note ok = wf_lookup [OF wf e(1)]
  have a: "armed d e" using waiter_armed [OF wf e(1) d] x by simp
  obtain e' where e': "IOEvent_del_event ctl d e = (True, e')" "event_ok e'" "fd e' = fd e"
    "waiting d e' = None" "waiting (other d) e' = waiting (other d) e" "armed_count e = armed_count e' + 1"
    using IOEvent_del_spec [OF ok(2) d a ctl] by blast
  define m' where "m' = (store_event f e' m)\<lparr>pending_event_count := pending_event_count m - 1\<rparr>"
  have eq: "del_event ctl f d m = (True, m')" using e(1) e'(1) by (simp add: del_event_def m'_def)
  have "io_wf m'" using e' ok(1) e(1) by (intro wf_store [OF wf, of e' f]) (simp_all add: m'_def)
  moreover have "waiter m' g d' = (if g = f \<and> d' = d then None else waiter m g d')" if "direction d'" for g d'
    by (rule waiter_upd [of f m' e' m d]) (use e e' d that in \<open>simp_all add: m'_def waiter_def\<close>)
  ultimately show ?thesis using eq by (auto simp: m'_def)
qed

section \<open>Properties\<close>

text \<open>
  C11. Registration is exact. Arming a free direction of a descriptor, disarming or cancelling an armed
  one changes the waiter of exactly that direction; cancelling hands exactly the waiting fiber
  to the scheduler, once, while deleting hands over nobody; in all three cases the number of
  pending events stays equal to the number of armed directions. Cancelling a direction nobody
  waits for reports failure and changes nothing. (The calls of \<open>epoll_ctl\<close> succeed.)
\<close>

theorem io_registration_exact:
  assumes "io_wf m" and "direction d" and "ctl_ok ctl"
  shows "(waiter m f d = None \<longrightarrow> (\<exists>m'. add_event_fiber ctl f d x m = (True, m') \<and> io_wf m' \<and> base m' = base m
        \<and> (\<forall>g d'. direction d' \<longrightarrow> waiter m' g d' = (if g = f \<and> d' = d then Some x else waiter m g d'))))
    \<and> (waiter m f d = Some x \<longrightarrow> (\<exists>m'. cancel_event ctl f d m = (True, m') \<and> io_wf m'
        \<and> tasks (base m') = tasks (base m) @ [\<lparr>task_thread = -1, task_fiber = x\<rparr>]
        \<and> (\<forall>g d'. direction d' \<longrightarrow> waiter m' g d' = (if g = f \<and> d' = d then None else waiter m g d'))))
    \<and> (waiter m f d = Some x \<longrightarrow> (\<exists>m'. del_event ctl f d m = (True, m') \<and> io_wf m' \<and> base m' = base m
        \<and> (\<forall>g d'. direction d' \<longrightarrow> waiter m' g d' = (if g = f \<and> d' = d then None else waiter m g d'))))
    \<and> (waiter m f d = None \<longrightarrow> (\<exists>m'. cancel_event ctl f d m = (False, m') \<and> io_wf m' \<and> base m' = base m
        \<and> pending_event_count m' = pending_event_count m \<and> (\<forall>g d'. direction d' \<longrightarrow> waiter m' g d' = waiter m g d')))"
proof (intro conjI impI)
  assume n: "waiter m f d = None"
  then show "\<exists>m'. add_event_fiber ctl f d x m = (True, m') \<and> io_wf m' \<and> base m' = base m
      \<and> (\<forall>g d'. direction d' \<longrightarrow> waiter m' g d' = (if g = f \<and> d' = d then Some x else waiter m g d'))"
    using add_event_spec [OF assms(1,2) n assms(3), of x x] by (auto simp: add_event_fiber_def)
  show "\<exists>m'. cancel_event ctl f d m = (False, m') \<and> io_wf m' \<and> base m' = base m
      \<and> pending_event_count m' = pending_event_count m \<and> (\<forall>g d'. direction d' \<longrightarrow> waiter m' g d' = waiter m g d')"
    using cancel_event_none [OF assms(1,2) n, where ctl = ctl] by (intro exI [of _ "snd (cancel_event ctl f d m)"]) (simp add: prod_eq_iff)
next
  assume w: "waiter m f d = Some x"
  then show "\<exists>m'. cancel_event ctl f d m = (True, m') \<and> io_wf m'
      \<and> tasks (base m') = tasks (base m) @ [\<lparr>task_thread = -1, task_fiber = x\<rparr>]
      \<and> (\<forall>g d'. direction d' \<longrightarrow> waiter m' g d' = (if g = f \<and> d' = d then None else waiter m g d'))"
    using cancel_event_spec [OF assms(1,2) w assms(3)] unfolding as_task_def by blast
  show "\<exists>m'. del_event ctl f d m = (True, m') \<and> io_wf m' \<and> base m' = base m
      \<and> (\<forall>g d'. direction d' \<longrightarrow> waiter m' g d' = (if g = f \<and> d' = d then None else waiter m g d'))"
    using del_event_spec [OF assms(1,2) w assms(3)] by blast
qed

definition new_iomanager :: iomanager where
  "new_iomanager = \<lparr>base = Scheduler 1 (\<lambda>_. INITING), tmgr = TimerManager, fd_event_map = [],
     pending_event_count = 0, sem = 0\<rparr>"

lemma wf_new_iomanager: "io_wf new_iomanager" "waiter new_iomanager f d = None"
  by (simp_all add: new_iomanager_def io_wf_def waiter_def lookup_event_def)

theorem io_registration_exact_witness:
  "\<exists>m'. add_event_fiber (\<lambda>_ _ _. 0) 3 EPOLLIN 42 new_iomanager = (True, m') \<and> io_wf m'
     \<and> waiter m' 3 EPOLLIN = Some 42"
proof -
  have "direction EPOLLIN" "ctl_ok (\<lambda>_ _ _. 0)" by (simp_all add: ctl_ok_def)
  from io_registration_exact [OF wf_new_iomanager(1) this, of 3 42] wf_new_iomanager(2) show ?thesis by auto
qed

text \<open>
  C12. A ready descriptor wakes exactly its waiters: when the kernel reports readable and writable for
  a descriptor with both directions armed, the idle fiber schedules the waiting reader and the
  waiting writer, in this order and once each, disarms both, keeps the accounting, and touches
  no other descriptor.
\<close>

theorem ready_event_wakes_waiters:
  assumes "io_wf m" and "ctl_ok ctl" and "waiter m f EPOLLIN = Some r" and "waiter m f EPOLLOUT = Some w"
  shows "\<exists>m'. process_event ctl (f, EPOLLIN OR EPOLLOUT) m = m' \<and> io_wf m'
    \<and> tasks (base m') = tasks (base m) @ [\<lparr>task_thread = -1, task_fiber = r\<rparr>, \<lparr>task_thread = -1, task_fiber = w\<rparr>]
    \<and> (\<forall>g d. direction d \<longrightarrow> waiter m' g d = (if g = f then None else waiter m g d))"
proof -
  obtain m1 where m1: "process_dir ctl f EPOLLIN m = m1" "io_wf m1" "tasks (base m1) = tasks (base m) @ [as_task r]"
    "\<forall>g d'. direction d' \<longrightarrow> waiter m1 g d' = (if g = f \<and> d' = EPOLLIN then None else waiter m g d')"
    using cancel_event_spec [OF assms(1) _ assms(3,2)] by auto
  have "waiter m1 f EPOLLOUT = Some w" using m1(4) assms(4) by (simp add: epoll_defs)
  then obtain m2 where m2: "process_dir ctl f EPOLLOUT m1 = m2" "io_wf m2" "tasks (base m2) = tasks (base m1) @ [as_task w]"
    "\<forall>g d'. direction d' \<longrightarrow> waiter m2 g d' = (if g = f \<and> d' = EPOLLOUT then None else waiter m1 g d')"
    using cancel_event_spec [OF m1(2) _ _ assms(2)] by auto
  have eq: "process_event ctl (f, EPOLLIN OR EPOLLOUT) m = io_tickle m2"
    using m1(1) m2(1) by (simp add: process_event_def epoll_defs)
  have "io_wf (io_tickle m2)" using m2(2) by (simp add: io_wf_def)
  moreover have "waiter (io_tickle m2) g d = (if g = f then None else waiter m g d)" if "direction d" for g d
    using that m1(4) m2(4) by (auto simp: waiter_def)
  ultimately show ?thesis using eq m1(3) m2(3) by (auto simp: as_task_def)
qed

lemma reader_armed:
  "\<exists>m. io_wf m \<and> waiter m 3 EPOLLIN = Some 42 \<and> waiter m 3 EPOLLOUT = None \<and> total_armed (fd_event_map m) = 1
     \<and> tasks (base m) = [] \<and> base m = base new_iomanager"
proof -
  have ok: "direction EPOLLIN" "ctl_ok (\<lambda>_ _ _. 0)" by (simp_all add: ctl_ok_def)
  obtain m where m: "add_event (\<lambda>_ _ _. 0) 3 EPOLLIN 42 42 new_iomanager = (True, m)" "io_wf m" "base m = base new_iomanager"
    "\<forall>g d'. direction d' \<longrightarrow> waiter m g d' =
       (if g = 3 \<and> d' = EPOLLIN then Some (if EPOLLIN = EPOLLIN then 42 else 42) else waiter new_iomanager g d')"
    using add_event_spec [OF wf_new_iomanager(1) ok(1) wf_new_iomanager(2) ok(2)] by blast
  have "total_armed (fd_event_map m) = 1"
    using m(1) by (simp add: add_event_def new_iomanager_def lookup_event_def IOEvent_add_event_def mk_IOEvent_def
        epoll_defs store_event_def Let_def) (auto simp: armed_count_def armed_def epoll_defs)
  moreover have "waiter m 3 EPOLLIN = Some 42" "waiter m 3 EPOLLOUT = None"
    using m(4) wf_new_iomanager(2) by (simp_all add: epoll_defs)
  ultimately show ?thesis using m by (intro exI [of _ m]) (simp add: new_iomanager_def Scheduler_def)
qed

theorem ready_event_wakes_waiters_witness:
  "\<exists>m. io_wf m \<and> tasks (base (process_event (\<lambda>_ _ _. 0) (3, EPOLLIN OR EPOLLOUT) m))
     = [\<lparr>task_thread = -1, task_fiber = 42\<rparr>, \<lparr>task_thread = -1, task_fiber = 43\<rparr>]"
proof -
  obtain m0 where m0: "io_wf m0" "waiter m0 3 EPOLLIN = Some 42" "waiter m0 3 EPOLLOUT = None" "tasks (base m0) = []"
    using reader_armed by blast
  have ok: "direction EPOLLOUT" "ctl_ok (\<lambda>_ _ _. 0)" by (simp_all add: ctl_ok_def)
  obtain m where m: "io_wf m" "base m = base m0" "\<forall>g d'. direction d' \<longrightarrow> waiter m g d' =
       (if g = 3 \<and> d' = EPOLLOUT then Some (if EPOLLOUT = EPOLLIN then 43 else 43) else waiter m0 g d')"
    using add_event_spec [OF m0(1) ok(1) m0(3) ok(2)] by blast
  then have "waiter m 3 EPOLLIN = Some 42" "waiter m 3 EPOLLOUT = Some 43" using m0 by (simp_all add: epoll_defs)
  from ready_event_wakes_waiters [OF m(1) ok(2) this] m m0 show ?thesis by auto
qed



text \<open>
  A failed registration loses the fiber that was waiting: when a direction is already armed for a
  fiber and \<open>add_event\<close> for the same direction fails in \<open>epoll_ctl\<close>, the event mask is restored
  but the context keeps the new fiber, so the first fiber is never woken. When the second
  registration succeeds, the pending count exceeds the number of armed directions by one.
\<close>

theorem second_add_event_loses_waiter:
  assumes "io_wf m" and "waiter m f EPOLLIN = Some x" and "\<forall>op g ev. bad op g ev \<noteq> 0" and "ctl_ok good"
  shows "(\<exists>m'. add_event_fiber bad f EPOLLIN y m = (False, m') \<and> waiter m' f EPOLLIN = Some y
        \<and> pending_event_count m' = pending_event_count m)
    \<and> (\<exists>m'. add_event_fiber good f EPOLLIN y m = (True, m') \<and> waiter m' f EPOLLIN = Some y
        \<and> total_armed (fd_event_map m') = total_armed (fd_event_map m)
        \<and> pending_event_count m' = of_nat (total_armed (fd_event_map m')) + 1)"
proof -
  obtain e where e: "lookup_event f m = Some e" "waiting EPOLLIN e = Some x"
    using assms(2) by (auto simp: waiter_def split: option.splits)
  have ar: "events e AND 1 \<noteq> 0" using waiter_armed [OF assms(1) e(1), of EPOLLIN] assms(2) by (simp add: armed_def epoll_defs)
  have id: "events e OR 1 = events e"
    using wf_lookup(2) [OF assms(1) e(1)] by (rule event_cases) (use ar in auto)
  let ?e = "e\<lparr>read_ctx := EventContext_set y (read_ctx e)\<rparr>"
  have ev: "events ?e = events e" "armed_count ?e = armed_count e" "waiting EPOLLIN ?e = Some y"
    by (simp_all add: armed_count_def armed_def waiting_def EventContext_set_def)
  have up: "e\<lparr>events := events e\<rparr> = e" by simp
  have b: "IOEvent_add_event bad EPOLLIN y y e = (False, ?e)" "IOEvent_add_event good EPOLLIN y y e = (True, ?e)"
    using assms(3,4) id by (simp_all add: IOEvent_add_event_def ctl_ok_def epoll_defs Let_def)
  have s: "sorted_wrt (<) (map_keys (fd_event_map m))" and c: "pending_event_count m = of_nat (total_armed (fd_event_map m))"
    using assms(1) by (simp_all add: io_wf_def)
  have "total_armed (map_set (<) f ?e (fd_event_map m)) = total_armed (fd_event_map m)"
    using total_armed_set [OF s, of f ?e] e(1) ev(2) by (simp add: lookup_event_def)
  then show ?thesis using e(1) b ev(3) c by (simp add: add_event_fiber_def add_event_def waiter_def)
qed

theorem second_add_event_loses_waiter_witness:
  "\<exists>m m'. waiter m 3 EPOLLIN = Some 42 \<and> add_event_fiber (\<lambda>_ _ _. -1) 3 EPOLLIN 43 m = (False, m')
     \<and> waiter m' 3 EPOLLIN = Some 43"
proof -
  obtain m where m: "io_wf m" "waiter m 3 EPOLLIN = Some 42" using reader_armed by blast
  have "ctl_ok (\<lambda>_ _ _. 0)" by (simp add: ctl_ok_def)
  with second_add_event_loses_waiter [OF m, of "\<lambda>_ _ _. -1" "\<lambda>_ _ _. 0" 43] m show ?thesis by auto
qed

text \<open>
  A round of the idle fiber that finds only timers: it blocks for at most three seconds and never
  beyond the next timer, then adds one task per expired timer, in the order of their deadlines,
  running that timer's callback, and nothing else; a manager that can stop ends the fiber.
\<close>

theorem idle_round_timers:
  assumes "tm_wf (tmgr m)" and "\<not> io_can_stop m"
  shows "\<exists>time_out m'. idle_round ctl mk before now [] m = Some (time_out, m') \<and> time_out \<le> 3000
    \<and> (timers (tmgr m) \<noteq> [] \<longrightarrow> time_out \<le> unat (fst (get_next_timer before (tmgr m))))
    \<and> tasks (base m') = tasks (base m) @ map (\<lambda>t. \<lparr>task_thread = -1, task_fiber = mk (cb (obj (tmgr m) t)) (args (obj (tmgr m) t))\<rparr>)
         (takeWhile (\<lambda>t. due_at (tmgr m) t \<le> now) (timers (tmgr m)))
    \<and> tm_wf (tmgr m') \<and> pending_event_count m' = pending_event_count m"
proof -
  let ?tm = "tmgr m"
  obtain nt tm1 where g: "get_next_timer before ?tm = (nt, tm1)" by fastforce
  have tm1: "timers tm1 = timers ?tm" "obj tm1 = obj ?tm"
    using g by (auto simp: get_next_timer_def split: list.splits)
  have wf1: "tm_wf tm1" using wf_get_next_timer [OF assms(1), of before] g by simp
  obtain ex tm2 where x: "get_expired_timers now [] tm1 = (ex, tm2)" by fastforce
  note sp = get_expired_spec [OF wf1 x]
  have ex: "ex = takeWhile (\<lambda>t. due_at ?tm t \<le> now) (timers ?tm)"
    using x tm1 by (auto simp: get_expired_timers_def Let_def not_less split: if_splits)
  have same: "cb (obj tm2 t) = cb (obj ?tm t)" "args (obj tm2 t) = args (obj ?tm t)" for t
    using sp(5) [of t] tm1(2) by (auto simp: rearmed_def)
  have "idle_timeout nt \<le> 3000" "idle_timeout nt \<le> unat nt"
    by (auto simp: idle_timeout_def word_less_nat_alt not_less)
  then show ?thesis
    using assms(2) g x sp(4) ex same by (simp add: idle_round_def Let_def)
qed

theorem idle_round_timers_witness:
  "\<exists>time_out m'. idle_round (\<lambda>_ _ _. 0) (\<lambda>c a. 7) 0 5 [] (new_iomanager\<lparr>tmgr := two_timers\<rparr>) = Some (time_out, m')
     \<and> time_out \<le> 3000 \<and> tasks (base m') = [\<lparr>task_thread = -1, task_fiber = 7\<rparr>]"
proof -
  let ?m = "new_iomanager\<lparr>tmgr := two_timers\<rparr>"
  have "\<not> io_can_stop ?m" by (simp add: io_can_stop_def timers_empty_def two_timers_facts)
  then show ?thesis
    using idle_round_timers [of ?m "\<lambda>_ _ _. 0" "\<lambda>c a. 7" 0 5] wf_two_timers
    by (auto simp: two_timers_facts new_iomanager_def Scheduler_def)
qed

end
