(* ===== verification/Fd_Manager.thy ===== *)
theory Fd_Manager
  imports Ordered
begin

text \<open>
  Contexts of file descriptors (src/sylar/fdmanager.h, fdmanager.cpp). A context is an object that
  the manager and the callers share through \<open>shared_ptr\<close>, so contexts live in a store and the map
  of the manager holds their identifiers; a caller's pointer outlives \<open>del_fdctx\<close>. What the
  kernel knows of a descriptor, whether \<open>fstat\<close> succeeds and finds a socket, and the file
  status flags, is the record \<open>kernel\<close>.
\<close>

definition SO_RCVTIMEO :: int where "SO_RCVTIMEO = 20"
definition SO_SNDTIMEO :: int where "SO_SNDTIMEO = 21"
definition O_NONBLOCK :: u32 where "O_NONBLOCK = 0x800"

record kernel =
  kstat :: "int \<Rightarrow> bool option"
  kflags :: "int \<Rightarrow> u32"

type_synonym cid = nat

record FdCtx =
  is_inited :: bool
  is_socket :: bool
  is_closed :: bool
  user_nonblock :: bool
  ctx_fd :: int
  recv_timeout :: u64
  send_timeout :: u64

record FdManager =
  fd_ctxs :: "(int \<times> cid) list"
  ctx_obj :: "cid \<Rightarrow> FdCtx"
  ctx_fresh :: cid

text \<open>The constructor makes a socket non-blocking.\<close>

definition mk_FdCtx :: "int \<Rightarrow> kernel \<Rightarrow> FdCtx \<times> kernel" where
  "mk_FdCtx f k =
     (let (inited, closed, sock) = (case kstat k f of Some s \<Rightarrow> (True, False, s) | None \<Rightarrow> (False, True, False));
          ctx = \<lparr>is_inited = inited, is_socket = sock, is_closed = closed, user_nonblock = False, ctx_fd = f,
                 recv_timeout = NOT 0, send_timeout = NOT 0\<rparr>;
          k' = (if sock \<and> \<not> closed
                then let flags = kflags k f
                     in if flags AND O_NONBLOCK = 0 then k\<lparr>kflags := (kflags k)(f := flags OR O_NONBLOCK)\<rparr> else k
                else k)
      in (ctx, k'))"

definition FdCtx_set_timeout :: "int \<Rightarrow> u64 \<Rightarrow> FdCtx \<Rightarrow> bool \<times> FdCtx" where
  "FdCtx_set_timeout type timeout c =
     (if type = SO_RCVTIMEO then (True, c\<lparr>recv_timeout := timeout\<rparr>)
      else if type = SO_SNDTIMEO then (True, c\<lparr>send_timeout := timeout\<rparr>)
      else (False, c))"

definition FdCtx_get_timeout :: "int \<Rightarrow> FdCtx \<Rightarrow> u64" where
  "FdCtx_get_timeout type c =
     (if type = SO_RCVTIMEO then recv_timeout c
      else if type = SO_SNDTIMEO then send_timeout c
      else NOT 0)"

definition mk_FdManager :: FdManager where
  "mk_FdManager = \<lparr>fd_ctxs = [],
     ctx_obj = (\<lambda>_. \<lparr>is_inited = False, is_socket = False, is_closed = True, user_nonblock = False, ctx_fd = -1,
                      recv_timeout = NOT 0, send_timeout = NOT 0\<rparr>), ctx_fresh = 0\<rparr>"

definition find_fdctx :: "int \<Rightarrow> FdManager \<Rightarrow> cid option" where
  "find_fdctx f m = map_find (<) f (fd_ctxs m)"

definition get_fdctx :: "int \<Rightarrow> bool \<Rightarrow> FdManager \<times> kernel \<Rightarrow> cid option \<times> FdManager \<times> kernel" where
  "get_fdctx f auto_create mk =
     (let (m, k) = mk; ctx = find_fdctx f m
      in if \<not> auto_create \<or> ctx \<noteq> None then (ctx, m, k)
         else let (c, k') = mk_FdCtx f k; i = ctx_fresh m
              in (Some i, m\<lparr>ctx_obj := (ctx_obj m)(i := c), ctx_fresh := Suc i,
                            fd_ctxs := map_set (<) f i (fd_ctxs m)\<rparr>, k'))"

definition del_fdctx :: "int \<Rightarrow> FdManager \<Rightarrow> bool \<times> FdManager" where
  "del_fdctx f m = (find_fdctx f m \<noteq> None, m\<lparr>fd_ctxs := map_erase (<) f (fd_ctxs m)\<rparr>)"

text \<open>A method call through the shared pointer \<open>i\<close>.\<close>

definition upd_ctx :: "cid \<Rightarrow> (FdCtx \<Rightarrow> FdCtx) \<Rightarrow> FdManager \<Rightarrow> FdManager" where
  "upd_ctx i g m = m\<lparr>ctx_obj := (ctx_obj m)(i := g (ctx_obj m i))\<rparr>"

section \<open>Facts\<close>

text \<open>
  The map is ordered, holds allocated contexts, no context serves two descriptors, and each
  context knows its descriptor.
\<close>

definition fdm_wf :: "FdManager \<Rightarrow> bool" where
  "fdm_wf m \<longleftrightarrow> sorted_wrt (<) (map_keys (fd_ctxs m))
     \<and> (\<forall>(f, i) \<in> set (fd_ctxs m). i < ctx_fresh m \<and> ctx_fd (ctx_obj m i) = f)"

lemma map_set_mem: "set (map_set (<) f i m) \<subseteq> insert (f :: 'k::linorder, i) (set m)"
  by (induction m) (auto split: if_splits)

lemma map_erase_mem: "set (map_erase lt f m) \<subseteq> set m"
  by (induction m) (auto split: if_splits)

lemma find_fdctx_mem: "find_fdctx f m = Some i \<Longrightarrow> (f, i) \<in> set (fd_ctxs m)"
  using std_less.map_find_key [of f "fd_ctxs m" i] by (auto simp: find_fdctx_def)

lemma wf_mk_FdManager [wf_intros]: "fdm_wf mk_FdManager"
  by (simp add: fdm_wf_def mk_FdManager_def)

lemma mk_FdCtx_fields:
  "mk_FdCtx f k = (c, k') \<Longrightarrow> ctx_fd c = f \<and> \<not> user_nonblock c \<and> is_closed c = (kstat k f = None)
     \<and> is_socket c = (kstat k f = Some True) \<and> recv_timeout c = NOT 0 \<and> send_timeout c = NOT 0"
  by (auto simp: mk_FdCtx_def Let_def split: option.splits)

lemma wf_get_fdctx [wf_intros]:
  assumes "fdm_wf m" and "get_fdctx f b (m, k) = (r, m', k')"
  shows "fdm_wf m'"
proof (cases "\<not> b \<or> find_fdctx f m \<noteq> None")
  case True
  with assms show ?thesis by (auto simp: get_fdctx_def Let_def)
next
  case False
  obtain c k1 where c: "mk_FdCtx f k = (c, k1)" by fastforce
  have m': "m' = m\<lparr>ctx_obj := (ctx_obj m)(ctx_fresh m := c), ctx_fresh := Suc (ctx_fresh m),
      fd_ctxs := map_set (<) f (ctx_fresh m) (fd_ctxs m)\<rparr>"
    using assms(2) False c by (auto simp: get_fdctx_def Let_def)
  have "ctx_fd c = f" using mk_FdCtx_fields [OF c] by simp
  then show ?thesis
    using assms(1) map_set_mem [of f "ctx_fresh m" "fd_ctxs m"]
    unfolding m' by (fastforce simp: fdm_wf_def std_less.map_set_sorted)
qed

lemma wf_del_fdctx [wf_intros]: "fdm_wf m \<Longrightarrow> fdm_wf (snd (del_fdctx f m))"
  using map_erase_mem [of "(<)" f "fd_ctxs m"]
  by (auto simp: fdm_wf_def del_fdctx_def std_less.map_erase_sorted)

lemma wf_upd_ctx [wf_intros]:
  assumes "fdm_wf m" and "\<And>c. ctx_fd (g c) = ctx_fd c"
  shows "fdm_wf (upd_ctx i g m)"
  using assms by (auto simp: fdm_wf_def upd_ctx_def)

end
