(* ===== verification/Hook.thy ===== *)
theory Hook
  imports IO_Manager Fd_Manager "HOL-Library.Signed_Division"
begin

text \<open>
  The hooked system calls (src/sylar/hook.h, hook.cpp): \<open>sleep\<close> and its relatives become timers, the
  reading, writing, accepting and connecting calls become non-blocking calls that park the
  fiber on the event loop, and the option calls keep the illusion of a blocking socket.

  A parked call gives up the processor, so a call is a small machine: it is fed the answers of
  the system call it wraps (return value and \<open>errno\<close>) and the moments at which its fiber runs
  again, each with whatever the rest of the program has made of the world meanwhile. Timer
  closures are numbers, as in the theory of timers.
\<close>

section \<open>World\<close>

definition EINTR :: int where "EINTR = 4"
definition EBADF :: int where "EBADF = 9"
definition EAGAIN :: int where "EAGAIN = 11"
definition ETIMEDOUT :: int where "ETIMEDOUT = 110"
definition EINPROGRESS :: int where "EINPROGRESS = 115"

lemmas errno_defs = EINTR_def EBADF_def EAGAIN_def ETIMEDOUT_def EINPROGRESS_def

record world =
  fdm :: FdManager
  kern :: kernel
  iom :: iomanager
  errno :: int
  hook_enable :: bool
  connect_timeout :: u64

definition set_hook_enable :: "bool \<Rightarrow> world \<Rightarrow> world" where
  "set_hook_enable flag w = w\<lparr>hook_enable := flag\<rparr>"

definition lookup_ctx :: "int \<Rightarrow> world \<Rightarrow> cid option" where
  "lookup_ctx f w = fst (get_fdctx f False (fdm w, kern w))"

definition the_ctx :: "cid \<Rightarrow> world \<Rightarrow> FdCtx" where
  "the_ctx i w = ctx_obj (fdm w) i"

definition ensure_ctx :: "int \<Rightarrow> world \<Rightarrow> world" where
  "ensure_ctx f w = (let (_, m, k) = get_fdctx f True (fdm w, kern w) in w\<lparr>fdm := m, kern := k\<rparr>)"

section \<open>Sleeping\<close>

text \<open>
  \<open>in_fiber\<close> says that there is an event loop and the caller is not the main fiber. The first
  component tells whether the fiber is parked; otherwise the original function is called.
\<close>

definition park_for :: "u64 \<Rightarrow> u64 \<Rightarrow> nat \<Rightarrow> world \<Rightarrow> world" where
  "park_for now ms wake w =
     w\<lparr>iom := (iom w)\<lparr>tmgr := snd (add_timer now False ms wake 0 (tmgr (iom w)))\<rparr>\<rparr>"

definition hook_sleep :: "u64 \<Rightarrow> bool \<Rightarrow> u32 \<Rightarrow> nat \<Rightarrow> world \<Rightarrow> bool \<times> world" where
  "hook_sleep now in_fiber seconds wake w =
     (if \<not> hook_enable w \<or> \<not> in_fiber then (False, w)
      else (True, park_for now (ucast (seconds * 1000)) wake w))"

definition hook_usleep :: "u64 \<Rightarrow> bool \<Rightarrow> u32 \<Rightarrow> nat \<Rightarrow> world \<Rightarrow> bool \<times> world" where
  "hook_usleep now in_fiber usec wake w =
     (if \<not> hook_enable w \<or> \<not> in_fiber then (False, w)
      else (True, park_for now (ucast (usec div 1000)) wake w))"

definition hook_nanosleep :: "u64 \<Rightarrow> bool \<Rightarrow> int \<Rightarrow> int \<Rightarrow> nat \<Rightarrow> world \<Rightarrow> bool \<times> world" where
  "hook_nanosleep now in_fiber tv_sec tv_nsec wake w =
     (if \<not> hook_enable w \<or> \<not> in_fiber then (False, w)
      else (True, park_for now (of_int (tv_sec * 1000 + tv_nsec sdiv 1000000)) wake w))"

section \<open>Reading, writing and accepting\<close>

record io_call =
  io_ctl :: epoll_ctl
  io_fd :: int
  io_event :: u32
  io_timeout_type :: int
  io_fiber :: fib
  io_in_fiber :: bool
  io_cb :: nat
  io_guard :: nat

datatype phase =
    Direct
  | Calling cid
  | Parked cid "tid option"
  | Returned int
  | Aborted

text \<open>What happens to a call from outside: an answer at a time, or its fiber runs again in a new world.\<close>

datatype stimulus = Answer int int u64 | Wake bool world

definition hook_begin :: "io_call \<Rightarrow> world \<Rightarrow> phase" where
  "hook_begin c w =
     (if \<not> hook_enable w then Direct
      else case lookup_ctx (io_fd c) w of
             None \<Rightarrow> Direct
           | Some i \<Rightarrow>
               if is_closed (the_ctx i w) \<or> \<not> is_socket (the_ctx i w) \<or> user_nonblock (the_ctx i w)
               then Direct else Calling i)"

definition arm_timeout :: "io_call \<Rightarrow> u64 \<Rightarrow> u64 \<Rightarrow> world \<Rightarrow> tid option \<times> world" where
  "arm_timeout c now timeout w =
     (let (t, tm) = add_cond_timer now False timeout (io_cb c) (io_guard c) 0 (tmgr (iom w))
      in (t, w\<lparr>iom := (iom w)\<lparr>tmgr := tm\<rparr>\<rparr>))"

definition cancel_timer :: "tid option \<Rightarrow> world \<Rightarrow> world" where
  "cancel_timer timer w =
     (case timer of None \<Rightarrow> w | Some t \<Rightarrow> w\<lparr>iom := (iom w)\<lparr>tmgr := snd (cancel t (tmgr (iom w)))\<rparr>\<rparr>)"

text \<open>Registering the fiber for the event; when that fails the timer is withdrawn.\<close>

definition park_on :: "io_call \<Rightarrow> cid \<Rightarrow> tid option \<Rightarrow> world \<Rightarrow> phase \<times> world" where
  "park_on c i timer w =
     (let (ret, m) = add_event_fiber (io_ctl c) (io_fd c) (io_event c) (io_fiber c) (iom w);
          w1 = w\<lparr>iom := m\<rparr>
      in if \<not> ret then (Returned (-1), cancel_timer timer w1) else (Parked i timer, w1))"

definition set_errno :: "int \<Rightarrow> int \<Rightarrow> world \<Rightarrow> world" where
  "set_errno rt err w = (if rt = -1 then w\<lparr>errno := err\<rparr> else w)"

definition io_answer :: "io_call \<Rightarrow> cid \<Rightarrow> int \<Rightarrow> int \<Rightarrow> u64 \<Rightarrow> world \<Rightarrow> phase \<times> world" where
  "io_answer c i rt err now w =
     (let w0 = set_errno rt err w
      in if rt = -1 \<and> err = EINTR then (Calling i, w0)
         else if rt = -1 \<and> err = EAGAIN
         then if \<not> io_in_fiber c then (Aborted, w0)
              else let timeout = FdCtx_get_timeout (io_timeout_type c) (the_ctx i w0);
                       (timer, w1) = (if timeout \<noteq> NOT 0 then arm_timeout c now timeout w0 else (None, w0))
                   in park_on c i timer w1
         else (Returned rt, w0))"

definition io_wake :: "cid \<Rightarrow> tid option \<Rightarrow> bool \<Rightarrow> world \<Rightarrow> phase \<times> world" where
  "io_wake i timer timed_out w =
     (let w1 = cancel_timer timer w
      in if timed_out then (Returned (-1), w1\<lparr>errno := ETIMEDOUT\<rparr>) else (Calling i, w1))"

fun hook_step :: "io_call \<Rightarrow> stimulus \<Rightarrow> phase \<times> world \<Rightarrow> phase \<times> world" where
  "hook_step c (Answer rt err now) (Direct, w) = (Returned rt, set_errno rt err w)"
| "hook_step c (Answer rt err now) (Calling i, w) = io_answer c i rt err now w"
| "hook_step c (Wake timed_out w') (Parked i timer, w) = io_wake i timer timed_out w'"
| "hook_step c _ s = s"

definition hook_iofunc :: "io_call \<Rightarrow> stimulus list \<Rightarrow> world \<Rightarrow> phase \<times> world" where
  "hook_iofunc c ss w = fold (hook_step c) ss (hook_begin c w, w)"

text \<open>The closure of the timer: the flag \<open>timed_out\<close> of the call it belongs to, and the event is cancelled.\<close>

definition io_timeout_closure :: "io_call \<Rightarrow> world \<Rightarrow> world" where
  "io_timeout_closure c w = w\<lparr>iom := snd (cancel_event (io_ctl c) (io_fd c) (io_event c) (iom w))\<rparr>"

text \<open>The wrappers: the event and the kind of timeout each of them waits with.\<close>

definition reading :: "io_call \<Rightarrow> io_call" where
  "reading c = c\<lparr>io_event := EPOLLIN, io_timeout_type := SO_RCVTIMEO\<rparr>"

definition writing :: "io_call \<Rightarrow> io_call" where
  "writing c = c\<lparr>io_event := EPOLLOUT, io_timeout_type := SO_SNDTIMEO\<rparr>"

definition hook_read :: "io_call \<Rightarrow> stimulus list \<Rightarrow> world \<Rightarrow> phase \<times> world" where
  "hook_read c = hook_iofunc (reading c)"

definition hook_write :: "io_call \<Rightarrow> stimulus list \<Rightarrow> world \<Rightarrow> phase \<times> world" where
  "hook_write c = hook_iofunc (writing c)"

text \<open>A new connection gets a context, which makes it non-blocking.\<close>

definition hook_accept :: "io_call \<Rightarrow> stimulus list \<Rightarrow> world \<Rightarrow> phase \<times> world" where
  "hook_accept c ss w =
     (case hook_iofunc (reading c) ss w of
        (Returned f, w') \<Rightarrow> (Returned f, if f \<noteq> -1 then ensure_ctx f w' else w')
      | s \<Rightarrow> s)"

section \<open>Sockets\<close>

text \<open>\<open>f\<close> is the answer of the original \<open>socket\<close>.\<close>

definition hook_socket :: "int \<Rightarrow> world \<Rightarrow> int \<times> world" where
  "hook_socket f w = (f, if hook_enable w \<and> f \<noteq> -1 then ensure_ctx f w else w)"

text \<open>\<open>rt\<close> is the answer of the original \<open>close\<close>, which is called last.\<close>

definition hook_close :: "epoll_ctl \<Rightarrow> bool \<Rightarrow> int \<Rightarrow> int \<Rightarrow> world \<Rightarrow> int \<times> world" where
  "hook_close ctl has_iom f rt w =
     (if \<not> hook_enable w then (rt, w)
      else case lookup_ctx f w of
             None \<Rightarrow> (rt, w)
           | Some i \<Rightarrow>
               let w1 = (if has_iom then w\<lparr>iom := snd (cancel_all ctl f (iom w))\<rparr> else w)
               in (rt, w1\<lparr>fdm := snd (del_fdctx f (fdm w1))\<rparr>))"

text \<open>\<open>connect\<close>: after the wake-up the pending error of the socket is the answer.\<close>

definition connect_begin :: "io_call \<Rightarrow> world \<Rightarrow> phase \<times> world" where
  "connect_begin c w =
     (if \<not> hook_enable w then (Direct, w)
      else case lookup_ctx (io_fd c) w of
             None \<Rightarrow> (Returned (-1), w\<lparr>errno := EBADF\<rparr>)
           | Some i \<Rightarrow>
               if is_closed (the_ctx i w) then (Returned (-1), w\<lparr>errno := EBADF\<rparr>)
               else if \<not> is_socket (the_ctx i w) \<or> user_nonblock (the_ctx i w) then (Direct, w)
               else (Calling i, w))"

definition connect_answer :: "io_call \<Rightarrow> cid \<Rightarrow> int \<Rightarrow> int \<Rightarrow> u64 \<Rightarrow> world \<Rightarrow> phase \<times> world" where
  "connect_answer c i rt err now w =
     (let w0 = set_errno rt err w
      in if rt = 0 \<or> errno w0 \<noteq> EINPROGRESS then (Returned rt, w0)
         else if \<not> io_in_fiber c then (Aborted, w0)
         else let (timer, w1) = arm_timeout c now (connect_timeout w0) w0
              in park_on c i timer w1)"

definition connect_wake :: "tid option \<Rightarrow> bool \<Rightarrow> int \<Rightarrow> int \<Rightarrow> world \<Rightarrow> phase \<times> world" where
  "connect_wake timer timed_out sockopt_rt so_error w =
     (let w1 = cancel_timer timer w
      in if timed_out then (Returned (-1), w1\<lparr>errno := ETIMEDOUT\<rparr>)
         else if sockopt_rt = -1 then (Returned (-1), w1)
         else if so_error \<noteq> 0 then (Returned (-1), w1\<lparr>errno := so_error\<rparr>)
         else (Returned 0, w1))"

section \<open>Descriptor flags and options\<close>

definition hooked_ctx :: "int \<Rightarrow> world \<Rightarrow> cid option" where
  "hooked_ctx f w =
     (case lookup_ctx f w of
        None \<Rightarrow> None
      | Some i \<Rightarrow> if is_closed (the_ctx i w) \<or> \<not> is_socket (the_ctx i w) then None else Some i)"

text \<open>\<open>fcntl(fd, F_SETFL, arg)\<close>: the argument the original call gets.\<close>

definition hook_fcntl_setfl :: "int \<Rightarrow> u32 \<Rightarrow> world \<Rightarrow> u32 \<times> world" where
  "hook_fcntl_setfl f arg w =
     (case hooked_ctx f w of
        None \<Rightarrow> (arg, w)
      | Some i \<Rightarrow> (arg OR O_NONBLOCK,
                   w\<lparr>fdm := upd_ctx i (\<lambda>x. x\<lparr>user_nonblock := arg AND O_NONBLOCK \<noteq> 0\<rparr>) (fdm w)\<rparr>))"

text \<open>\<open>fcntl(fd, F_GETFL)\<close>: \<open>arg\<close> is what the original call returned.\<close>

definition hook_fcntl_getfl :: "int \<Rightarrow> u32 \<Rightarrow> world \<Rightarrow> u32" where
  "hook_fcntl_getfl f arg w =
     (case hooked_ctx f w of
        None \<Rightarrow> arg
      | Some i \<Rightarrow> if user_nonblock (the_ctx i w) then arg OR O_NONBLOCK else arg AND NOT O_NONBLOCK)"

text \<open>\<open>ioctl(fd, FIONBIO, &value)\<close>: the value is passed on as it is.\<close>

definition hook_ioctl_fionbio :: "int \<Rightarrow> int \<Rightarrow> world \<Rightarrow> int \<times> world" where
  "hook_ioctl_fionbio f value w =
     (case hooked_ctx f w of
        None \<Rightarrow> (value, w)
      | Some i \<Rightarrow> (value, w\<lparr>fdm := upd_ctx i (\<lambda>x. x\<lparr>user_nonblock := (value \<noteq> 0)\<rparr>) (fdm w)\<rparr>))"

text \<open>
  The whole \<open>fcntl\<close>: \<open>orig\<close> is the original function, \<open>arg\<close> the third argument, which only the listed commands
  read and pass on (as an integer or a pointer). And the whole \<open>ioctl\<close>, with the integer that \<open>arg\<close> points to.
\<close>

definition F_GETFL :: int where "F_GETFL = 3"
definition F_SETFL :: int where "F_SETFL = 4"
definition FIONBIO :: u64 where "FIONBIO = 0x5421"

definition fcntl_with_argument :: "int list" where
  "fcntl_with_argument = [0, 1030, 2, 8, 10, 1024, 1026, 1031, 6, 7, 5, 16, 15]"

definition hook_fcntl :: "(int \<Rightarrow> int \<Rightarrow> u64 option \<Rightarrow> u32) \<Rightarrow> int \<Rightarrow> int \<Rightarrow> u64 \<Rightarrow> world \<Rightarrow> u32 \<times> world" where
  "hook_fcntl orig f cmd arg w =
     (if cmd = F_SETFL then let (a, w1) = hook_fcntl_setfl f (ucast arg) w in (orig f cmd (Some (ucast a)), w1)
      else if cmd = F_GETFL then (hook_fcntl_getfl f (orig f cmd None) w, w)
      else if cmd \<in> set fcntl_with_argument then (orig f cmd (Some arg), w)
      else (orig f cmd None, w))"

definition hook_ioctl :: "(int \<Rightarrow> u64 \<Rightarrow> u64 \<Rightarrow> int) \<Rightarrow> int \<Rightarrow> u64 \<Rightarrow> u64 \<Rightarrow> int \<Rightarrow> world \<Rightarrow> int \<times> world" where
  "hook_ioctl orig d request arg pointed w =
     (if request = FIONBIO then (orig d request arg, snd (hook_ioctl_fionbio d pointed w)) else (orig d request arg, w))"

definition SOL_SOCKET :: int where "SOL_SOCKET = 1"

text \<open>The time a \<open>getsockopt\<close> reports, or \<open>None\<close> when the original is asked.\<close>

definition hook_getsockopt :: "int \<Rightarrow> int \<Rightarrow> int \<Rightarrow> world \<Rightarrow> (int \<times> int) option" where
  "hook_getsockopt f level optname w =
     (if \<not> hook_enable w then None
      else if level = SOL_SOCKET \<and> (optname = SO_RCVTIMEO \<or> optname = SO_SNDTIMEO)
      then (case lookup_ctx f w of
              None \<Rightarrow> None
            | Some i \<Rightarrow> let timeout = FdCtx_get_timeout optname (the_ctx i w)
                        in Some (uint (timeout div 1000), uint ((timeout mod 1000) * 1000)))
      else None)"

text \<open>The original \<open>setsockopt\<close> is called afterwards in every case.\<close>

definition hook_setsockopt :: "int \<Rightarrow> int \<Rightarrow> int \<Rightarrow> int \<times> int \<Rightarrow> world \<Rightarrow> world" where
  "hook_setsockopt f level optname tv w =
     (if \<not> hook_enable w then w
      else if level = SOL_SOCKET \<and> (optname = SO_RCVTIMEO \<or> optname = SO_SNDTIMEO)
      then (case lookup_ctx f w of
              None \<Rightarrow> w
            | Some i \<Rightarrow> w\<lparr>fdm := upd_ctx i (\<lambda>x. snd (FdCtx_set_timeout optname
                                  (of_int (fst tv * 1000 + snd tv sdiv 1000)) x)) (fdm w)\<rparr>)
      else w)"

section \<open>A hooked call behaves like a blocking one\<close>

text \<open>The worlds in which the event of the call can be waited for: nobody else waits for it.\<close>

definition free_for :: "io_call \<Rightarrow> world \<Rightarrow> bool" where
  "free_for c w \<longleftrightarrow> io_wf (iom w) \<and> waiter (iom w) (io_fd c) (io_event c) = None"

definition call_ok :: "io_call \<Rightarrow> bool" where
  "call_ok c \<longleftrightarrow> ctl_ok (io_ctl c) \<and> direction (io_event c) \<and> io_in_fiber c"

lemma lookup_ctx_eq [simp]: "lookup_ctx f w = find_fdctx f (fdm w)"
  by (simp add: lookup_ctx_def get_fdctx_def Let_def)

lemma free_for_tmgr: "free_for c (w\<lparr>iom := (iom w)\<lparr>tmgr := tm\<rparr>\<rparr>) = free_for c w"
  by (simp add: free_for_def io_wf_def waiter_def lookup_event_def)

lemma free_for_cancel [simp]: "free_for c (cancel_timer timer w) = free_for c w"
  by (cases timer) (simp_all add: cancel_timer_def free_for_tmgr)

lemma free_for_errno [simp]: "free_for c (set_errno rt err w) = free_for c w" "free_for c (w\<lparr>errno := e\<rparr>) = free_for c w"
  by (simp_all add: set_errno_def free_for_def)

lemma arm_timeout_frame:
  assumes "arm_timeout c now timeout w = (timer, w1)"
  shows "free_for c w1 = free_for c w" "fdm w1 = fdm w" "base (iom w1) = base (iom w)"
  using assms by (auto simp: arm_timeout_def free_for_tmgr split: prod.splits)

lemma park_on_parks:
  assumes "call_ok c" and "free_for c w"
  shows "\<exists>m. park_on c i timer w = (Parked i timer, w\<lparr>iom := m\<rparr>) \<and> io_wf m \<and> base m = base (iom w)
    \<and> tmgr m = tmgr (iom w) \<and> waiter m (io_fd c) (io_event c) = Some (io_fiber c)"
proof -
  have a: "io_wf (iom w)" "direction (io_event c)" "waiter (iom w) (io_fd c) (io_event c) = None" "ctl_ok (io_ctl c)"
    using assms by (simp_all add: call_ok_def free_for_def)
  obtain m where m: "add_event (io_ctl c) (io_fd c) (io_event c) (io_fiber c) (io_fiber c) (iom w) = (True, m)"
    "io_wf m" "base m = base (iom w)" "tmgr m = tmgr (iom w)"
    "\<forall>g d'. direction d' \<longrightarrow> waiter m g d' = (if g = io_fd c \<and> d' = io_event c
       then Some (if io_event c = EPOLLIN then io_fiber c else io_fiber c) else waiter (iom w) g d')"
    using add_event_spec [OF a] by blast
  have "waiter m (io_fd c) (io_event c) = Some (io_fiber c)"
    using m(5) [rule_format, OF a(2), of "io_fd c"] by simp
  with m(1-4) show ?thesis by (intro exI [of _ m]) (simp add: park_on_def add_event_fiber_def)
qed

lemma would_block_parks:
  assumes "call_ok c" and "free_for c w"
  shows "\<exists>timer w'. io_answer c i (-1) EAGAIN now w = (Parked i timer, w') \<and> io_wf (iom w')
    \<and> base (iom w') = base (iom w) \<and> waiter (iom w') (io_fd c) (io_event c) = Some (io_fiber c)"
proof -
  let ?w0 = "set_errno (-1) EAGAIN w"
  let ?t = "FdCtx_get_timeout (io_timeout_type c) (the_ctx i ?w0)"
  obtain timer w1 where w1: "(if ?t \<noteq> NOT 0 then arm_timeout c now ?t ?w0 else (None, ?w0)) = (timer, w1)" by fastforce
  have "free_for c w1 \<and> base (iom w1) = base (iom w)"
  proof (cases "?t = NOT 0")
    case True
    with w1 have "w1 = ?w0" by simp
    then show ?thesis using assms(2) by (simp add: set_errno_def)
  next
    case False
    with w1 have "arm_timeout c now ?t ?w0 = (timer, w1)" by simp
    from arm_timeout_frame [OF this] show ?thesis using assms(2) by (simp add: set_errno_def)
  qed
  then have "free_for c w1" "base (iom w1) = base (iom w)" by simp_all
  moreover have "io_answer c i (-1) EAGAIN now w = park_on c i timer w1"
  proof -
    have "EAGAIN \<noteq> EINTR" by (simp add: errno_defs)
    then show ?thesis using assms(1) unfolding io_answer_def Let_def w1 by (simp add: call_ok_def)
  qed
  moreover obtain m where "park_on c i timer w1 = (Parked i timer, w1\<lparr>iom := m\<rparr>)" "io_wf m"
      "base m = base (iom w1)" "waiter m (io_fd c) (io_event c) = Some (io_fiber c)"
    using park_on_parks [OF assms(1) \<open>free_for c w1\<close>] by blast
  ultimately show ?thesis by simp
qed

text \<open>A sequence of fruitless attempts: interrupted, or would block and woken later in a new world.\<close>

fun waits :: "(int \<times> u64 \<times> world) list \<Rightarrow> stimulus list" where
  "waits [] = []"
| "waits ((err, now, w') # as) =
     Answer (-1) err now # (if err = EAGAIN then [Wake False w'] else []) @ waits as"

lemma waits_calling:
  assumes "call_ok c"
  shows "free_for c w \<Longrightarrow> (\<forall>(err, now, w') \<in> set as. (err = EINTR \<or> err = EAGAIN) \<and> free_for c w') \<Longrightarrow>
    \<exists>w'. fold (hook_step c) (waits as) (Calling i, w) = (Calling i, w') \<and> free_for c w'"
proof (induction as arbitrary: w)
  case (Cons a as)
  obtain err now w' where a: "a = (err, now, w')" by (metis prod_cases3)
  show ?case
  proof (cases "err = EAGAIN")
    case True
    obtain timer w1 where p: "io_answer c i (-1) EAGAIN now w = (Parked i timer, w1)"
      using would_block_parks [OF assms Cons.prems(1)] by blast
    have "fold (hook_step c) (waits (a # as)) (Calling i, w) =
        fold (hook_step c) (waits as) (Calling i, cancel_timer timer w')"
      using True by (simp add: a p io_wake_def Let_def)
    then show ?thesis using Cons.IH [of "cancel_timer timer w'"] Cons.prems a by simp
  next
    case False
    then have "io_answer c i (-1) err now w = (Calling i, set_errno (-1) err w)"
      using Cons.prems(2) a by (simp add: io_answer_def)
    then show ?thesis using Cons.IH [of "set_errno (-1) err w"] Cons.prems False a by simp
  qed
qed simp


lemma no_waiter: "waiter new_iomanager f d = None" "io_wf new_iomanager"
  by (fact wf_new_iomanager)+

text \<open>A socket with descriptor 3 that is hooked, in a fresh event loop.\<close>

definition one_socket :: world where
  "one_socket =
     (let k = \<lparr>kstat = (\<lambda>f. if f = 3 then Some True else None), kflags = (\<lambda>_. 2)\<rparr>
      in snd (hook_socket 3 \<lparr>fdm = mk_FdManager, kern = k, iom = new_iomanager, errno = 0, hook_enable = True,
                             connect_timeout = 5000\<rparr>))"

definition reader :: io_call where
  "reader = reading \<lparr>io_ctl = (\<lambda>_ _ _. 0), io_fd = 3, io_event = 0, io_timeout_type = 0, io_fiber = 42,
     io_in_fiber = True, io_cb = 7, io_guard = 8\<rparr>"

lemma one_socket_facts:
  "iom one_socket = new_iomanager" "find_fdctx 3 (fdm one_socket) = Some 0" "hook_enable one_socket"
  "is_socket (the_ctx 0 one_socket)" "\<not> is_closed (the_ctx 0 one_socket)" "\<not> user_nonblock (the_ctx 0 one_socket)"
  "kflags (kern one_socket) 3 = 2 OR O_NONBLOCK" "FdCtx_get_timeout t (the_ctx 0 one_socket) = NOT 0"
  by (auto simp: one_socket_def hook_socket_def ensure_ctx_def get_fdctx_def mk_FdManager_def mk_FdCtx_def
      find_fdctx_def the_ctx_def O_NONBLOCK_def FdCtx_get_timeout_def Let_def)

lemma reader_ok: "call_ok reader" "hook_begin reader one_socket = Calling 0" "free_for reader one_socket"
  by (simp_all add: call_ok_def reader_def reading_def ctl_ok_def hook_begin_def one_socket_facts free_for_def no_waiter)




section \<open>Sleeping and options\<close>

lemma add_timer_slot:
  assumes "tm_wf m" and "add_timer now False ms f a m = (r, m')"
  shows "set (timers m') = (if now + ms \<in> due_at m ` set (timers m) then set (timers m)
      else insert (fresh m) (set (timers m)))"
    and "due_at m' (fresh m) = now + ms" and "cb (obj m' (fresh m)) = Plain f"
proof -
  let ?t = "fresh m"
  define m1 where "m1 = m\<lparr>obj := (obj m)(?t := mk_Timer now False ms (Plain f) a), fresh := Suc ?t\<rparr>"
  obtain ok where i: "insert_timer (Some ?t) m1 = (ok, m')"
    using assms(2) by (auto simp: add_timer_def new_timer_def m1_def Let_def split: prod.splits)
  have nt: "?t \<notin> set (timers m)" using assms(1) by (auto simp: tm_wf_def)
  have same: "due_at m1 t = due_at m t" if "t \<in> set (timers m)" for t using that nt by (auto simp: m1_def)
  have new: "due_at m1 ?t = now + ms" by (simp add: m1_def mk_Timer_def)
  have "sorted_wrt (Comparator m1) (timers m1)"
    using assms(1) sorted_frame [of "timers m" m1 m] same by (simp add: m1_def tm_wf_def)
  then have ins: "fst (set_insert (Comparator m1) ?t (timers m)) \<longleftrightarrow> now + ms \<notin> due_at m ` set (timers m)"
    using timer_set.set_insert_iff [of m1 "timers m" ?t] same new by (auto simp: m1_def)
  obtain b ts where s: "set_insert (Comparator m1) ?t (timers m) = (b, ts)" by fastforce
  have "timers m' = ts" "obj m' = obj m1" using insert_timer_fields [OF i] s by (simp_all add: m1_def)
  then show "set (timers m') = (if now + ms \<in> due_at m ` set (timers m) then set (timers m)
      else insert ?t (set (timers m)))"
    and "due_at m' ?t = now + ms" and "cb (obj m' ?t) = Plain f"
    using timer_set.set_insert_set [OF s] ins s new by (simp_all add: m1_def mk_Timer_def)
qed


lemma one_socket_timers:
  "tm_wf (tmgr (iom one_socket))" "timers (tmgr (iom one_socket)) = []" "fresh (tmgr (iom one_socket)) = 0"
proof -
  have "tmgr (iom one_socket) = TimerManager" by (simp add: one_socket_facts new_iomanager_def)
  then show "tm_wf (tmgr (iom one_socket))" "timers (tmgr (iom one_socket)) = []" "fresh (tmgr (iom one_socket)) = 0"
    using wf_TimerManager by (simp_all add: TimerManager_def)
qed


lemma hooked_ctx_upd:
  assumes "hooked_ctx f w = Some i" and "\<And>x. is_closed (g x) = is_closed x" and "\<And>x. is_socket (g x) = is_socket x"
  shows "hooked_ctx f (w\<lparr>fdm := upd_ctx i g (fdm w)\<rparr>) = Some i"
    and "the_ctx i (w\<lparr>fdm := upd_ctx i g (fdm w)\<rparr>) = g (the_ctx i w)"
  using assms by (auto simp: hooked_ctx_def the_ctx_def upd_ctx_def find_fdctx_def split: option.splits if_splits)

lemma timeval_ms:
  assumes "0 \<le> s" and "0 \<le> u" and "u < 1000000" and "s * 1000 + u div 1000 < 2 ^ 64"
  defines "t \<equiv> of_int (s * 1000 + u sdiv 1000) :: u64"
  shows "uint (t div 1000) = s" and "uint ((t mod 1000) * 1000) = u - u mod 1000"
proof -
  have "u sdiv 1000 = u div 1000" using assms(2) by (cases "u = 0") (simp_all add: signed_divide_int_def)
  then have "uint t = (s * 1000 + u div 1000) mod 2 ^ LENGTH(64)"
    unfolding t_def by (simp only: uint_word_of_int)
  then have t: "uint t = s * 1000 + u div 1000"
    using assms(1-4) by simp
  have d: "0 \<le> u div 1000" "u div 1000 < 1000" using assms(2,3) by simp_all
  then have td: "uint t div 1000 = s" "uint t mod 1000 = u div 1000"
    using assms(1) by (simp_all add: t)
  then show "uint (t div 1000) = s" by (simp add: uint_div_distrib)
  have "uint (t mod 1000) = u div 1000" using td by (simp add: uint_mod_distrib)
  then have "uint ((t mod 1000) * 1000) = (u div 1000 * 1000) mod 2 ^ 64" by (simp add: uint_word_ariths)
  also have "\<dots> = u div 1000 * 1000" using d by simp
  finally show "uint ((t mod 1000) * 1000) = u - u mod 1000" by (simp add: minus_mod_eq_div_mult)
qed

lemma O_NONBLOCK_exp: "O_NONBLOCK = 2 ^ 11"
  by (simp add: O_NONBLOCK_def)

lemma nonblock_bit: "bit O_NONBLOCK k \<longleftrightarrow> k = 11"
  unfolding O_NONBLOCK_exp bit_exp_iff by auto

lemma nonblock_and: "x AND O_NONBLOCK = 0 \<longleftrightarrow> \<not> bit x 11"
  unfolding O_NONBLOCK_exp by (rule and_exp_eq_0_iff_not_bit)

lemma nonblock_hidden:
  "(if x AND O_NONBLOCK \<noteq> 0 then (x OR O_NONBLOCK) OR O_NONBLOCK else (x OR O_NONBLOCK) AND NOT O_NONBLOCK) = x"
  by (rule bit_word_eqI) (auto simp: nonblock_and bit_simps nonblock_bit)

lemma hook_setsockopt_ctx:
  assumes "hook_enable w" and "lookup_ctx f w = Some i" and "optname = SO_RCVTIMEO \<or> optname = SO_SNDTIMEO"
  shows "lookup_ctx f (hook_setsockopt f SOL_SOCKET optname tv w) = Some i"
    and "hook_enable (hook_setsockopt f SOL_SOCKET optname tv w)"
    and "the_ctx i (hook_setsockopt f SOL_SOCKET optname tv w) =
      snd (FdCtx_set_timeout optname (of_int (fst tv * 1000 + snd tv sdiv 1000)) (the_ctx i w))"
  using assms by (simp_all add: hook_setsockopt_def the_ctx_def upd_ctx_def find_fdctx_def)

text \<open>
  The options of a hooked socket read back as the user set them, although the kernel's copy
  differs. After \<open>fcntl(F_SETFL, flags)\<close> the kernel's flags always include \<open>O_NONBLOCK\<close>, and
  \<open>fcntl(F_GETFL)\<close> on them returns \<open>flags\<close> itself. A timeout set with \<open>setsockopt\<close> is returned
  by \<open>getsockopt\<close> with millisecond precision, and the timeout of the other direction is kept.
\<close>

theorem hooked_options_roundtrip:
  assumes "hooked_ctx f w = Some i" and "hook_enable w" and "lookup_ctx f w = Some i"
    and "optname = SO_RCVTIMEO \<and> other_opt = SO_SNDTIMEO \<or> optname = SO_SNDTIMEO \<and> other_opt = SO_RCVTIMEO"
    and "0 \<le> s" and "0 \<le> u" and "u < 1000000" and "s * 1000 + u div 1000 < 2 ^ 64"
  shows "fst (hook_fcntl_setfl f flags w) AND O_NONBLOCK \<noteq> 0
    \<and> hook_fcntl_getfl f (fst (hook_fcntl_setfl f flags w)) (snd (hook_fcntl_setfl f flags w)) = flags
    \<and> hook_getsockopt f SOL_SOCKET optname (hook_setsockopt f SOL_SOCKET optname (s, u) w) = Some (s, u - u mod 1000)
    \<and> hook_getsockopt f SOL_SOCKET other_opt (hook_setsockopt f SOL_SOCKET optname (s, u) w) =
        hook_getsockopt f SOL_SOCKET other_opt w"
proof (intro conjI)
  show "fst (hook_fcntl_setfl f flags w) AND O_NONBLOCK \<noteq> 0"
    using assms(1) by (simp add: hook_fcntl_setfl_def O_NONBLOCK_def)
  show "hook_fcntl_getfl f (fst (hook_fcntl_setfl f flags w)) (snd (hook_fcntl_setfl f flags w)) = flags"
    using assms(1) nonblock_hidden [of flags]
    by (simp add: hook_fcntl_getfl_def hook_fcntl_setfl_def hooked_ctx_upd)
  note set = hook_setsockopt_ctx [OF assms(2,3), of optname "(s, u)"]
  show "hook_getsockopt f SOL_SOCKET optname (hook_setsockopt f SOL_SOCKET optname (s, u) w) = Some (s, u - u mod 1000)"
    "hook_getsockopt f SOL_SOCKET other_opt (hook_setsockopt f SOL_SOCKET optname (s, u) w) =
        hook_getsockopt f SOL_SOCKET other_opt w"
    using set assms(2-4) timeval_ms [OF assms(5-8)]
    by (auto simp: hook_getsockopt_def FdCtx_get_timeout_def FdCtx_set_timeout_def SO_RCVTIMEO_def SO_SNDTIMEO_def Let_def)
qed

theorem hooked_options_roundtrip_witness:
  "hook_fcntl_getfl 3 (fst (hook_fcntl_setfl 3 2 one_socket)) (snd (hook_fcntl_setfl 3 2 one_socket)) = 2
   \<and> hook_getsockopt 3 SOL_SOCKET SO_RCVTIMEO (hook_setsockopt 3 SOL_SOCKET SO_RCVTIMEO (1, 500999) one_socket) = Some (1, 500000)"
proof -
  have "hooked_ctx 3 one_socket = Some 0" "lookup_ctx 3 one_socket = Some 0"
    by (simp_all add: hooked_ctx_def one_socket_facts)
  from hooked_options_roundtrip [OF this(1) one_socket_facts(3) this(2), of SO_RCVTIMEO SO_SNDTIMEO 1 500999 2]
  show ?thesis by simp
qed

text \<open>
  \<open>ioctl(FIONBIO)\<close> passes the user's value on: a user who asks for blocking mode makes the kernel's
  descriptor blocking, and the next hooked call blocks the thread. A timeout of zero, which
  means no timeout to the kernel, is a timer that is due at once.
\<close>

lemma ioctl_makes_blocking: "fst (hook_ioctl_fionbio f 0 w) = 0"
  by (simp add: hook_ioctl_fionbio_def split: option.splits)

lemma zero_timeout_expires:
  assumes "hook_enable w" and "lookup_ctx f w = Some i"
  shows "FdCtx_get_timeout SO_RCVTIMEO (the_ctx i (hook_setsockopt f SOL_SOCKET SO_RCVTIMEO (0, 0) w)) = 0"
  using hook_setsockopt_ctx [OF assms, of SO_RCVTIMEO "(0, 0)"]
  by (simp add: FdCtx_get_timeout_def FdCtx_set_timeout_def)

end
