(* ===== verification/Cpp_String.thy ===== *)
theory Cpp_String
  imports Ordered "HOL-Library.Char_ord" "HOL-Library.List_Lexorder"
begin

text \<open>
  Strings of the C and C++ library as the framework uses them: \<open>c_str\<close> (a C function sees a
  \<open>std::string\<close> up to its first NUL), \<open>strcmp\<close> and \<open>strcasecmp\<close> in the C locale, decimal
  printing, and the case-insensitive comparator of \<open>type.h\<close>, which is shown to be a strict
  weak order, so that the laws of ordered maps hold for the header maps built on it.
\<close>

section \<open>C strings\<close>

definition c_str :: "string \<Rightarrow> string" where
  "c_str s = takeWhile (\<lambda>c. c \<noteq> CHR 0x00) s"

definition byte :: "char \<Rightarrow> nat" where
  "byte c = of_char c"

text \<open>\<open>tolower\<close> in the C locale, on unsigned character codes.\<close>

definition tolower :: "nat \<Rightarrow> nat" where
  "tolower c = (if 65 \<le> c \<and> c \<le> 90 then c + 32 else c)"

definition toupper :: "nat \<Rightarrow> nat" where
  "toupper c = (if 97 \<le> c \<and> c \<le> 122 then c - 32 else c)"

text \<open>
  \<open>strcasecmp\<close> on the characters before the terminating NUL: the difference of the first pair
  of (lower-cased) characters that differ, the terminator counting as 0.
\<close>

fun strcasecmp :: "string \<Rightarrow> string \<Rightarrow> int" where
  "strcasecmp [] [] = 0"
| "strcasecmp [] (b # bs) = - int (tolower (byte b))"
| "strcasecmp (a # as) [] = int (tolower (byte a))"
| "strcasecmp (a # as) (b # bs) =
     (if tolower (byte a) = tolower (byte b) then strcasecmp as bs
      else int (tolower (byte a)) - int (tolower (byte b)))"

fun strcmp :: "string \<Rightarrow> string \<Rightarrow> int" where
  "strcmp [] [] = 0"
| "strcmp [] (b # bs) = - int (byte b)"
| "strcmp (a # as) [] = int (byte a)"
| "strcmp (a # as) (b # bs) = (if a = b then strcmp as bs else int (byte a) - int (byte b))"

definition CaseInsensitiveLess :: "string \<Rightarrow> string \<Rightarrow> bool" where
  "CaseInsensitiveLess lhs rhs \<longleftrightarrow> strcasecmp (c_str lhs) (c_str rhs) < 0"

text \<open>What the comparator looks at: the lower-cased codes before the first NUL.\<close>

definition fold_case :: "string \<Rightarrow> nat list" where
  "fold_case s = map (\<lambda>c. tolower (byte c)) (c_str s)"

lemma c_str_Nil [simp]: "c_str [] = []"
  by (simp add: c_str_def)

lemma c_str_no_nul: "CHR 0x00 \<notin> set (c_str s)"
  by (auto simp: c_str_def dest: set_takeWhileD)

lemma c_str_id: "CHR 0x00 \<notin> set s \<Longrightarrow> c_str s = s"
  unfolding c_str_def by (subst takeWhile_eq_all_conv) auto

lemma c_str_idem [simp]: "c_str (c_str s) = c_str s"
  by (rule c_str_id) (rule c_str_no_nul)

lemma byte_inject [simp]: "byte a = byte b \<longleftrightarrow> a = b"
  by (simp add: byte_def)

lemma byte_eq_0 [simp]: "byte c = 0 \<longleftrightarrow> c = CHR 0x00"
proof -
  have "byte (CHR 0x00) = 0" by (simp add: byte_def)
  then show ?thesis by (metis byte_inject)
qed

lemma byte_pos: "CHR 0x00 \<noteq> c \<Longrightarrow> 0 < byte c" "CHR 0x00 \<noteq> c \<Longrightarrow> 0 < tolower (byte c)"
  using byte_eq_0 [of c] by (auto simp: tolower_def simp del: byte_eq_0)

lemma tolower_eq_0 [simp]: "tolower n = 0 \<longleftrightarrow> n = 0"
  by (simp add: tolower_def)

lemma tolower_idem [simp]: "tolower (tolower n) = tolower n"
  by (simp add: tolower_def)

lemma strcmp_eq_0: "CHR 0x00 \<notin> set a \<Longrightarrow> CHR 0x00 \<notin> set b \<Longrightarrow> strcmp a b = 0 \<longleftrightarrow> a = b"
  by (induction a b rule: strcmp.induct) (auto simp: byte_pos)

lemma strcasecmp_less:
  "CHR 0x00 \<notin> set a \<Longrightarrow> CHR 0x00 \<notin> set b \<Longrightarrow>
     strcasecmp a b < 0 \<longleftrightarrow> map (\<lambda>c. tolower (byte c)) a < map (\<lambda>c. tolower (byte c)) b"
  by (induction a b rule: strcasecmp.induct) (auto simp: byte_pos)

lemma strcasecmp_eq_0:
  "CHR 0x00 \<notin> set a \<Longrightarrow> CHR 0x00 \<notin> set b \<Longrightarrow>
     strcasecmp a b = 0 \<longleftrightarrow> map (\<lambda>c. tolower (byte c)) a = map (\<lambda>c. tolower (byte c)) b"
  by (induction a b rule: strcasecmp.induct) (auto simp: byte_pos)

lemma strcasecmp_c_str: "strcasecmp (c_str a) (c_str b) = 0 \<longleftrightarrow> fold_case a = fold_case b"
  using strcasecmp_eq_0 [OF c_str_no_nul c_str_no_nul, of a b] by (simp add: fold_case_def)

lemma CaseInsensitiveLess_key: "CaseInsensitiveLess a b \<longleftrightarrow> fold_case a < fold_case b"
  using strcasecmp_less [OF c_str_no_nul c_str_no_nul, of a b]
  by (simp add: CaseInsensitiveLess_def fold_case_def)

lemma CaseInsensitiveLess_fun: "CaseInsensitiveLess = (\<lambda>a b. fold_case a < fold_case b)"
  by (intro ext) (rule CaseInsensitiveLess_key)

interpretation nocase: comparator CaseInsensitiveLess
  unfolding CaseInsensitiveLess_fun by (rule comparator_key)

lemma same_nocase [simp]: "same_key CaseInsensitiveLess a b \<longleftrightarrow> fold_case a = fold_case b"
  unfolding CaseInsensitiveLess_fun by simp

section \<open>Decimal numbers\<close>

definition digit :: "nat \<Rightarrow> char" where
  "digit d = char_of (48 + d)"

text \<open>\<open>std::to_string\<close> and \<open>operator<<\<close> on an unsigned integer.\<close>

fun dec :: "nat \<Rightarrow> string" where
  "dec n = (if n < 10 then [digit n] else dec (n div 10) @ [digit (n mod 10)])"

declare dec.simps [simp del]

definition dec_int :: "int \<Rightarrow> string" where
  "dec_int i = (if i < 0 then CHR ''-'' # dec (nat (- i)) else dec (nat i))"

definition is_digit :: "char \<Rightarrow> bool" where
  "is_digit c \<longleftrightarrow> 48 \<le> byte c \<and> byte c \<le> 57"

definition digit_value :: "char \<Rightarrow> nat" where
  "digit_value c = byte c - 48"

text \<open>Reading a string of digits.\<close>

definition undec :: "string \<Rightarrow> nat" where
  "undec s = foldl (\<lambda>n c. 10 * n + digit_value c) 0 s"

text \<open>\<open>atoi\<close> of a number that fits: spaces, a sign, digits.\<close>

definition atoi :: "string \<Rightarrow> int" where
  "atoi s =
     (let t = dropWhile (\<lambda>c. c \<in> {CHR '' '', CHR 0x09, CHR 0x0A, CHR 0x0B, CHR 0x0C, CHR 0x0D}) s;
          u = (if t \<noteq> [] \<and> hd t \<in> {CHR ''+'', CHR ''-''} then tl t else t);
          n = int (undec (takeWhile is_digit u))
      in if t \<noteq> [] \<and> hd t = CHR ''-'' then - n else n)"

lemma byte_digit [simp]: "d < 10 \<Longrightarrow> byte (digit d) = 48 + d"
  by (simp add: byte_def digit_def)

lemma is_digit_digit [simp]: "d < 10 \<Longrightarrow> is_digit (digit d)"
  by (simp add: is_digit_def)

lemma digit_value_digit [simp]: "d < 10 \<Longrightarrow> digit_value (digit d) = d"
  by (simp add: digit_value_def)

lemma dec_digits: "c \<in> set (dec n) \<Longrightarrow> is_digit c"
proof (induction n rule: dec.induct)
  case (1 n)
  then show ?case by (cases "n < 10") (auto simp: dec.simps [of n])
qed

lemma dec_not_Nil [simp]: "dec n \<noteq> []"
  by (subst dec.simps) simp

lemma undec_dec [simp]: "undec (dec n) = n"
proof (induction n rule: dec.induct)
  case (1 n)
  then show ?case
    by (cases "n < 10") (auto simp: dec.simps [of n] undec_def)
qed

lemma dec_inject: "dec m = dec n \<longleftrightarrow> m = n"
  by (metis undec_dec)

end
