(* ===== verification/Yaml.thy ===== *)
theory Yaml
  imports Main
begin

text \<open>
  YAML documents as the configuration code sees them (src/sylar/config.h, config.cpp, log.cpp use
  yaml-cpp). The library itself is an argument of the model; the second part is a small flow-style
  writer and reader that shows that what the code relies on can be had.
\<close>

section \<open>Nodes\<close>

text \<open>A YAML node, by the node types of the library.\<close>

datatype yaml = Null | Scalar string | Seq "yaml list" | Map "(yaml \<times> yaml) list"

text \<open>\<open>YAML::Node::Scalar\<close>, empty for other nodes, and \<open>YAML::Node::size\<close>.\<close>

fun scalar :: "yaml \<Rightarrow> string" where
  "scalar (Scalar s) = s"
| "scalar _ = []"

fun node_size :: "yaml \<Rightarrow> nat" where
  "node_size (Seq xs) = length xs"
| "node_size (Map kvs) = length kvs"
| "node_size _ = 0"

section \<open>A writer and a reader\<close>

definition word_char :: "char \<Rightarrow> bool" where
  "word_char c \<longleftrightarrow> c \<in> set ''abcdefghijklmnopqrstuvwxyz0123456789''"

definition plain_word :: "string \<Rightarrow> bool" where
  "plain_word s \<longleftrightarrow> s \<noteq> [] \<and> list_all word_char s"

fun quoted :: "string \<Rightarrow> string" where
  "quoted [] = [CHR 0x22]"
| "quoted (c # s) = CHR 0x5C # c # quoted s"

fun unquote :: "string \<Rightarrow> (string \<times> string) option" where
  "unquote [] = None"
| "unquote [e] = (if e = CHR 0x22 then Some ([], []) else None)"
| "unquote (e # c # s) =
     (if e = CHR 0x5C then map_option (\<lambda>(t, r). (c # t, r)) (unquote s)
      else if e = CHR 0x22 then Some ([], c # s) else None)"

fun flow :: "yaml \<Rightarrow> string" where
  "flow Null = ''~''"
| "flow (Scalar s) = (if plain_word s then s else CHR 0x22 # quoted s)"
| "flow (Seq ns) = CHR 0x5B # concat (map (\<lambda>n. flow n @ '','') ns) @ [CHR 0x5D]"
| "flow (Map kvs) = CHR 0x7B # concat (map (\<lambda>(k, n). flow k @ '','' @ flow n @ '','') kvs) @ [CHR 0x7D]"

fun pairs :: "'a list \<Rightarrow> ('a \<times> 'a) list" where
  "pairs (a # b # r) = (a, b) # pairs r"
| "pairs _ = []"

text \<open>Reading a node, and the nodes up to a closing bracket; the first argument bounds the recursion.\<close>

fun read_node :: "nat \<Rightarrow> string \<Rightarrow> (yaml \<times> string) option"
and read_items :: "nat \<Rightarrow> char \<Rightarrow> string \<Rightarrow> (yaml list \<times> string) option" where
  "read_node 0 s = None"
| "read_node (Suc m) s =
     (if s = [] then None
      else if hd s = CHR 0x7E then Some (Null, tl s)
      else if hd s = CHR 0x22 then map_option (\<lambda>(t, r). (Scalar t, r)) (unquote (tl s))
      else if hd s = CHR 0x5B then map_option (\<lambda>(ns, r). (Seq ns, r)) (read_items m CHR 0x5D (tl s))
      else if hd s = CHR 0x7B then map_option (\<lambda>(ns, r). (Map (pairs ns), r)) (read_items m CHR 0x7D (tl s))
      else Some (Scalar (takeWhile word_char s), dropWhile word_char s))"
| "read_items 0 e s = None"
| "read_items (Suc m) e s =
     (if s = [] then None
      else if hd s = e then Some ([], tl s)
      else case read_node m s of
             None \<Rightarrow> None
           | Some (n, r) \<Rightarrow> map_option (\<lambda>(ns, r'). (n # ns, r')) (read_items m e (tl r)))"

definition flow_load :: "string \<Rightarrow> yaml option" where
  "flow_load s = (case read_node (length s) s of Some (n, []) \<Rightarrow> Some n | _ \<Rightarrow> None)"

lemma unquote_quoted [simp]: "unquote (quoted s @ r) = Some (s, r)"
  by (induction s) (cases r; simp)+

lemma pairs_flat: "pairs (concat (map (\<lambda>(k, n). [k, n]) kvs)) = kvs"
  by (induction kvs) auto

lemma word_charD: "word_char c \<Longrightarrow> c \<notin> {CHR 0x7E, CHR 0x22, CHR 0x5B, CHR 0x7B, CHR 0x5D, CHR 0x7D, CHR '',''}"
  by (auto simp: word_char_def)

lemma flow_start: "\<exists>c r. flow n = c # r \<and> c \<notin> {CHR 0x5D, CHR 0x7D}"
proof (cases n)
  case (Scalar s)
  then show ?thesis using word_charD by (cases s) (auto simp: plain_word_def)
qed auto

definition ended :: "string \<Rightarrow> bool" where
  "ended r \<longleftrightarrow> r = [] \<or> \<not> word_char (hd r)"

lemma takeWhile_word: "list_all word_char s \<Longrightarrow> ended r \<Longrightarrow> takeWhile word_char (s @ r) = s \<and> dropWhile word_char (s @ r) = r"
  by (induction s) (cases r; auto simp: ended_def)+

lemma read_items_flow:
  assumes "\<And>n m r. n \<in> set ns \<Longrightarrow> length (flow n) \<le> m \<Longrightarrow> ended r \<Longrightarrow> read_node m (flow n @ r) = Some (n, r)"
    and "e \<in> {CHR 0x5D, CHR 0x7D}"
  shows "length (concat (map (\<lambda>n. flow n @ '','') ns)) < m \<Longrightarrow>
    read_items m e (concat (map (\<lambda>n. flow n @ '','') ns) @ e # r) = Some (ns, r)"
  using assms(1)
proof (induction ns arbitrary: m)
  case Nil
  then show ?case by (cases m) auto
next
  case (Cons n ns)
  obtain m' where m: "m = Suc m'" using Cons.prems(1) by (cases m) auto
  let ?s = "concat (map (\<lambda>n. flow n @ '','') ns) @ e # r"
  have "ended ('','' @ ?s)" by (simp add: ended_def word_char_def)
  then have "read_node m' (flow n @ '','' @ ?s) = Some (n, '','' @ ?s)" using Cons.prems m by (intro Cons.prems(2)) auto
  moreover have "read_items m' e ?s = Some (ns, r)" using Cons.prems m by (intro Cons.IH) auto
  moreover obtain c t where "flow n = c # t" "c \<noteq> e" using flow_start [of n] assms(2) by auto
  ultimately show ?case using m by simp
qed

lemma flow_map: "flow (Map kvs) = CHR 0x7B # concat (map (\<lambda>n. flow n @ '','') (concat (map (\<lambda>(k, n). [k, n]) kvs))) @ [CHR 0x7D]"
  by (induction kvs) auto

lemma read_flow: "length (flow n) \<le> m \<Longrightarrow> ended r \<Longrightarrow> read_node m (flow n @ r) = Some (n, r)"
proof (induction n arbitrary: m r)
  case Null
  then show ?case by (cases m) auto
next
  case (Scalar s)
  then obtain m' where "m = Suc m'" by (cases m) (auto simp: plain_word_def split: if_splits)
  moreover have "unquote (quoted s @ r) = Some (s, r)" by (rule unquote_quoted)
  moreover have "flow (Scalar s) \<noteq> []" "plain_word s \<Longrightarrow> hd s \<notin> {CHR 0x7E, CHR 0x22, CHR 0x5B, CHR 0x7B}"
    using word_charD [of "hd s"] by (cases s; auto simp: plain_word_def)+
  ultimately show ?case using Scalar.prems takeWhile_word [of s r]
    by (cases "plain_word s") (simp_all del: unquote_quoted unquote.simps, simp_all add: plain_word_def)
next
  case (Seq ns)
  then obtain m' where m: "m = Suc m'" by (cases m) auto
  have "read_items m' CHR 0x5D (concat (map (\<lambda>n. flow n @ '','') ns) @ CHR 0x5D # r) = Some (ns, r)"
    using Seq m by (intro read_items_flow) auto
  then show ?case using m by simp
next
  case (Map kvs)
  then obtain m' where m: "m = Suc m'" by (cases m) auto
  let ?ns = "concat (map (\<lambda>(k, n). [k, n]) kvs)"
  have "read_items m' CHR 0x7D (concat (map (\<lambda>n. flow n @ '','') ?ns) @ CHR 0x7D # r) = Some (?ns, r)"
    using Map.prems(1) m
    by (intro read_items_flow) (auto simp del: flow.simps simp: flow_map intro: Map.IH)
  then show ?case using m by (simp del: flow.simps add: flow_map pairs_flat)
qed

lemma flow_load_flow: "flow_load (flow n) = Some n"
  using read_flow [of n "length (flow n)" "[]"] by (simp add: flow_load_def ended_def)

end
