(* ===== verification/Config.thy ===== *)
theory Config
  imports Cpp_String Prelude Yaml "HOL-Library.FSet" "HOL-Library.Finite_Map"
begin

text \<open>
  Configuration (src/sylar/config.h, config.cpp): the converters between values and YAML text,
  configuration variables with their listeners, the registry of variables, and loading a YAML
  document into it. The YAML library and \<open>boost::lexical_cast\<close> are arguments; the interface
  \<open>yaml_library\<close> states what the code relies on.
\<close>

section \<open>Types and values\<close>

text \<open>
  The types a variable can have: a basic type, known by a number, or one of the containers that
  \<open>Converter\<close> is specialised for; and their values. The two kinds of set, and of map, differ only in
  the order in which they are traversed.
\<close>

datatype ctype = Basic nat | Vector ctype | List ctype | Set ctype | Unordered_set ctype
  | StrMap ctype | Unordered_map ctype

datatype 'b cvalue = VBasic 'b | VSeq "'b cvalue list" | VSet "'b cvalue fset" | VMap "(string, 'b cvalue) fmap"

text \<open>
  The libraries: \<open>YAML::Load\<close> (which throws on a text it cannot parse), \<open>operator<<\<close> on a node,
  indexing a map node by number, iterating over a sequence node as if over a map; \<open>lexical_cast\<close>
  from and to a string, and the type of a basic value; the traversal orders; and \<open>operator==\<close>.
\<close>

record 'b libs =
  yaml_load :: "string \<Rightarrow> yaml option"
  yaml_dump :: "yaml \<Rightarrow> string"
  map_index :: "(yaml \<times> yaml) list \<Rightarrow> nat \<Rightarrow> yaml"
  seq_pairs :: "yaml list \<Rightarrow> (yaml \<times> yaml) list option"
  cast_in :: "nat \<Rightarrow> string \<Rightarrow> 'b option"
  cast_out :: "'b \<Rightarrow> string"
  kind_of :: "'b \<Rightarrow> nat"
  set_order :: "'b cvalue fset \<Rightarrow> 'b cvalue list"
  map_order :: "(string, 'b cvalue) fmap \<Rightarrow> (string \<times> 'b cvalue) list"
  value_eq :: "'b cvalue \<Rightarrow> 'b cvalue \<Rightarrow> bool"

fun node_at :: "'b libs \<Rightarrow> yaml \<Rightarrow> nat \<Rightarrow> yaml" where
  "node_at L (Seq xs) i = xs ! i"
| "node_at L (Map kvs) i = map_index L kvs i"
| "node_at L _ i = Null"

fun node_pairs :: "'b libs \<Rightarrow> yaml \<Rightarrow> (yaml \<times> yaml) list option" where
  "node_pairs L (Map kvs) = Some kvs"
| "node_pairs L (Seq xs) = seq_pairs L xs"
| "node_pairs L _ = Some []"

section \<open>Converters\<close>

text \<open>The element texts of a container are converted one by one; an exception of one ends the conversion.\<close>

fun collect :: "'a option list \<Rightarrow> 'a list option" where
  "collect [] = Some []"
| "collect (x # xs) = (case x of None \<Rightarrow> None | Some y \<Rightarrow> map_option (Cons y) (collect xs))"

definition convert_elements :: "'b libs \<Rightarrow> (string \<Rightarrow> 'a option) \<Rightarrow> string \<Rightarrow> 'a list option" where
  "convert_elements L conv v =
     (case yaml_load L v of
        None \<Rightarrow> None
      | Some node \<Rightarrow> collect (map (\<lambda>i. conv (yaml_dump L (node_at L node i))) [0..<node_size node]))"

definition convert_members :: "'b libs \<Rightarrow> (string \<Rightarrow> 'a option) \<Rightarrow> string \<Rightarrow> (string \<times> 'a) list option" where
  "convert_members L conv v =
     (case yaml_load L v of
        None \<Rightarrow> None
      | Some node \<Rightarrow>
          case node_pairs L node of
            None \<Rightarrow> None
          | Some ps \<Rightarrow> collect (map (\<lambda>(k, x). map_option (Pair (scalar k)) (conv (yaml_dump L x))) ps))"

fun convert_in :: "'b libs \<Rightarrow> ctype \<Rightarrow> string \<Rightarrow> 'b cvalue option" where
  "convert_in L (Basic k) v = map_option VBasic (cast_in L k v)"
| "convert_in L (Vector t) v = map_option VSeq (convert_elements L (convert_in L t) v)"
| "convert_in L (List t) v = map_option VSeq (convert_elements L (convert_in L t) v)"
| "convert_in L (Set t) v = map_option (\<lambda>xs. VSet (fset_of_list xs)) (convert_elements L (convert_in L t) v)"
| "convert_in L (Unordered_set t) v = map_option (\<lambda>xs. VSet (fset_of_list xs)) (convert_elements L (convert_in L t) v)"
| "convert_in L (StrMap t) v = map_option (\<lambda>xs. VMap (fmap_of_list xs)) (convert_members L (convert_in L t) v)"
| "convert_in L (Unordered_map t) v = map_option (\<lambda>xs. VMap (fmap_of_list xs)) (convert_members L (convert_in L t) v)"

text \<open>\<open>YAML::Load (convert (i))\<close> for one element.\<close>

definition load_text :: "'b libs \<Rightarrow> string option \<Rightarrow> yaml option" where
  "load_text L s = Option.bind s (yaml_load L)"

definition sequence_text :: "'b libs \<Rightarrow> ('b cvalue \<Rightarrow> string option) \<Rightarrow> 'b cvalue list \<Rightarrow> string option" where
  "sequence_text L conv xs = map_option (\<lambda>ns. yaml_dump L (Seq ns)) (collect (map (\<lambda>x. load_text L (conv x)) xs))"

definition map_text :: "'b libs \<Rightarrow> ('b cvalue \<Rightarrow> string option) \<Rightarrow> (string \<times> 'b cvalue) list \<Rightarrow> string option" where
  "map_text L conv kvs =
     map_option (\<lambda>ns. yaml_dump L (Map ns))
       (collect (map (\<lambda>(k, x). map_option (Pair (Scalar k)) (load_text L (conv x))) kvs))"

fun convert_out :: "'b libs \<Rightarrow> ctype \<Rightarrow> 'b cvalue \<Rightarrow> string option" where
  "convert_out L (Basic k) (VBasic b) = Some (cast_out L b)"
| "convert_out L (Vector t) (VSeq xs) = sequence_text L (convert_out L t) xs"
| "convert_out L (List t) (VSeq xs) = sequence_text L (convert_out L t) xs"
| "convert_out L (Set t) (VSet X) = sequence_text L (convert_out L t) (set_order L X)"
| "convert_out L (Unordered_set t) (VSet X) = sequence_text L (convert_out L t) (set_order L X)"
| "convert_out L (StrMap t) (VMap m) = map_text L (convert_out L t) (map_order L m)"
| "convert_out L (Unordered_map t) (VMap m) = map_text L (convert_out L t) (map_order L m)"
| "convert_out L _ _ = None"

section \<open>Variables\<close>

text \<open>A listener gets the old and the new value and acts on the world; it may throw.\<close>

type_synonym ('b, 'w) listener = "'b cvalue \<Rightarrow> 'b cvalue \<Rightarrow> 'w \<Rightarrow> ('w, unit) outcome"

record ('b, 'w) ConfigVar =
  cv_name :: string
  cv_description :: string
  cv_type :: ctype
  cv_value :: "'b cvalue"
  cv_cbs :: "(u64 \<times> ('b, 'w) listener) list"

definition lower :: "string \<Rightarrow> string" where
  "lower s = map (\<lambda>c. char_of (tolower (byte c))) s"

definition mk_ConfigVar :: "string \<Rightarrow> string \<Rightarrow> ctype \<Rightarrow> 'b cvalue \<Rightarrow> ('b, 'w) ConfigVar" where
  "mk_ConfigVar name description t value =
     \<lparr>cv_name = lower name, cv_description = description, cv_type = t, cv_value = value, cv_cbs = []\<rparr>"

definition ConfigVar_to_string :: "'b libs \<Rightarrow> ('b, 'w) ConfigVar \<Rightarrow> string" where
  "ConfigVar_to_string L var = (case convert_out L (cv_type var) (cv_value var) of None \<Rightarrow> [] | Some s \<Rightarrow> s)"

fun notify :: "('b, 'w) listener list \<Rightarrow> 'b cvalue \<Rightarrow> 'b cvalue \<Rightarrow> 'w \<Rightarrow> ('w, unit) outcome" where
  "notify [] old new w = (Inr (), w)"
| "notify (f # fs) old new w = and_then (f old new w) (\<lambda>_. notify fs old new)"

definition set_value ::
  "'b libs \<Rightarrow> 'b cvalue \<Rightarrow> ('b, 'w) ConfigVar \<times> 'w \<Rightarrow> (('b, 'w) ConfigVar \<times> 'w, unit) outcome" where
  "set_value L value x =
     (let (var, w) = x
      in if value_eq L value (cv_value var) then (Inr (), x)
         else case notify (map snd (cv_cbs var)) (cv_value var) value w of
                (Inl e, w1) \<Rightarrow> (Inl e, (var, w1))
              | (Inr _, w1) \<Rightarrow> (Inr (), (var\<lparr>cv_value := value\<rparr>, w1)))"

text \<open>What \<open>catch (std::exception&)\<close> catches.\<close>

definition is_exception :: "cpp_error \<Rightarrow> bool" where
  "is_exception e \<longleftrightarrow> e \<in> {Out_of_range, Logic_error, Runtime_error, Invalid_argument}"

definition from_string ::
  "'b libs \<Rightarrow> string \<Rightarrow> ('b, 'w) ConfigVar \<times> 'w \<Rightarrow> (('b, 'w) ConfigVar \<times> 'w, bool) outcome" where
  "from_string L str x =
     (case convert_in L (cv_type (fst x)) str of
        None \<Rightarrow> (Inr False, x)
      | Some v \<Rightarrow>
          (case set_value L v x of
             (Inr _, x1) \<Rightarrow> (Inr True, x1)
           | (Inl e, x1) \<Rightarrow> (if is_exception e then Inr False else Inl e, x1)))"

text \<open>The counter of listener ids is shared by all variables of one type.\<close>

definition add_listener ::
  "('b, 'w) listener \<Rightarrow> ('b, 'w) ConfigVar \<Rightarrow> (ctype \<Rightarrow> u64) \<Rightarrow> u64 \<times> ('b, 'w) ConfigVar \<times> (ctype \<Rightarrow> u64)" where
  "add_listener cb var ids =
     (let k = ids (cv_type var) + 1
      in (k, var\<lparr>cv_cbs := map_set (<) k cb (cv_cbs var)\<rparr>, ids(cv_type var := k)))"

definition del_listener :: "u64 \<Rightarrow> ('b, 'w) ConfigVar \<Rightarrow> ('b, 'w) ConfigVar" where
  "del_listener key var = var\<lparr>cv_cbs := map_erase (<) key (cv_cbs var)\<rparr>"

definition clear_listeners :: "('b, 'w) ConfigVar \<Rightarrow> ('b, 'w) ConfigVar" where
  "clear_listeners var = var\<lparr>cv_cbs := []\<rparr>"

definition get_listener :: "u64 \<Rightarrow> ('b, 'w) ConfigVar \<Rightarrow> ('b, 'w) listener option" where
  "get_listener key var = map_find (<) key (cv_cbs var)"

section \<open>The registry\<close>

text \<open>No variable is ever removed, so a pointer to a variable is represented by its key.\<close>

type_synonym ('b, 'w) registry = "(string \<times> ('b, 'w) ConfigVar) list"

definition valid_name :: "string \<Rightarrow> bool" where
  "valid_name name \<longleftrightarrow> (\<forall>c \<in> set name. c \<in> set ''abcdefghikjlmnopqrstuvwxyz._0123456789'')"

definition look_up_base :: "string \<Rightarrow> ('b, 'w) registry \<Rightarrow> ('b, 'w) ConfigVar option" where
  "look_up_base name datas = map_find (<) name datas"

definition look_up_create ::
  "string \<Rightarrow> ctype \<Rightarrow> 'b cvalue \<Rightarrow> string \<Rightarrow> ('b, 'w) registry \<Rightarrow> (('b, 'w) registry, string option) outcome" where
  "look_up_create name t default_value description datas =
     (if \<not> valid_name name then (Inl Invalid_argument, datas)
      else case map_find (<) name datas of
             Some var \<Rightarrow> (Inr (if cv_type var = t then Some name else None), datas)
           | None \<Rightarrow> (Inr (Some name), map_set (<) name (mk_ConfigVar name description t default_value) datas))"

definition look_up :: "string \<Rightarrow> ctype \<Rightarrow> ('b, 'w) registry \<Rightarrow> (('b, 'w) registry, string option) outcome" where
  "look_up name t datas =
     (if \<not> valid_name name then (Inl Invalid_argument, datas)
      else case map_find (<) name datas of
             Some var \<Rightarrow> (Inr (if cv_type var = t then Some name else None), datas)
           | None \<Rightarrow> (Inr None, datas))"

text \<open>\<open>visit\<close>: the variables in the order of their names.\<close>

definition visit :: "(('b, 'w) ConfigVar \<Rightarrow> 'a \<Rightarrow> 'a) \<Rightarrow> ('b, 'w) registry \<Rightarrow> 'a \<Rightarrow> 'a" where
  "visit cb datas = fold (\<lambda>(k, var). cb var) datas"

section \<open>Loading a document\<close>

definition member_name :: "string \<Rightarrow> yaml \<Rightarrow> string" where
  "member_name prefix k =
     (let cur = (if length prefix = 0 then scalar k else prefix @ ''.'' @ scalar k)
      in take (length prefix) cur @ lower (drop (length prefix) cur))"

fun load_all_member :: "yaml \<Rightarrow> string \<Rightarrow> (string \<times> yaml) list"
and load_members :: "(yaml \<times> yaml) list \<Rightarrow> string \<Rightarrow> (string \<times> yaml) list" where
  "load_all_member node prefix =
     (if \<not> valid_name prefix then []
      else (prefix, node) # (case node of Map kvs \<Rightarrow> load_members kvs prefix | _ \<Rightarrow> []))"
| "load_members [] prefix = []"
| "load_members ((k, x) # kvs) prefix = load_all_member x (member_name prefix k) @ load_members kvs prefix"

declare load_all_member.simps [simp del]

definition node_text :: "'b libs \<Rightarrow> yaml \<Rightarrow> string" where
  "node_text L node = (case node of Scalar s \<Rightarrow> s | _ \<Rightarrow> yaml_dump L node)"

definition load_one ::
  "'b libs \<Rightarrow> string \<Rightarrow> yaml \<Rightarrow> ('b, 'w) registry \<times> 'w \<Rightarrow> (('b, 'w) registry \<times> 'w, unit) outcome" where
  "load_one L prefix node x =
     (let (datas, w) = x
      in case look_up_base prefix datas of
           None \<Rightarrow> (Inr (), x)
         | Some var \<Rightarrow>
             let (r, var1, w1) = from_string L (node_text L node) (var, w); x1 = (map_set (<) prefix var1 datas, w1)
             in case r of Inl e \<Rightarrow> (Inl e, x1) | Inr _ \<Rightarrow> (Inr (), x1))"

fun load_each ::
  "'b libs \<Rightarrow> (string \<times> yaml) list \<Rightarrow> ('b, 'w) registry \<times> 'w \<Rightarrow> (('b, 'w) registry \<times> 'w, bool) outcome" where
  "load_each L [] x = (Inr True, x)"
| "load_each L ((prefix, node) # ns) x = and_then (load_one L prefix node x) (\<lambda>_. load_each L ns)"

definition load_from_yaml ::
  "'b libs \<Rightarrow> yaml \<Rightarrow> ('b, 'w) registry \<times> 'w \<Rightarrow> (('b, 'w) registry \<times> 'w, bool) outcome" where
  "load_from_yaml L root x = load_each L (load_all_member root []) x"

section \<open>Conversion facts\<close>

text \<open>The values of a type; \<open>P\<close> is a condition on their basic parts.\<close>

fun typed :: "('b \<Rightarrow> bool) \<Rightarrow> 'b libs \<Rightarrow> ctype \<Rightarrow> 'b cvalue \<Rightarrow> bool" where
  "typed P L (Basic k) (VBasic b) \<longleftrightarrow> kind_of L b = k \<and> P b"
| "typed P L (Vector t) (VSeq xs) \<longleftrightarrow> (\<forall>x \<in> set xs. typed P L t x)"
| "typed P L (List t) (VSeq xs) \<longleftrightarrow> (\<forall>x \<in> set xs. typed P L t x)"
| "typed P L (Set t) (VSet X) \<longleftrightarrow> (\<forall>x \<in> fset X. typed P L t x)"
| "typed P L (Unordered_set t) (VSet X) \<longleftrightarrow> (\<forall>x \<in> fset X. typed P L t x)"
| "typed P L (StrMap t) (VMap m) \<longleftrightarrow> (\<forall>k x. fmlookup m k = Some x \<longrightarrow> typed P L t x)"
| "typed P L (Unordered_map t) (VMap m) \<longleftrightarrow> (\<forall>k x. fmlookup m k = Some x \<longrightarrow> typed P L t x)"
| "typed P L _ _ \<longleftrightarrow> False"

abbreviation has_type :: "'b libs \<Rightarrow> ctype \<Rightarrow> 'b cvalue \<Rightarrow> bool" where
  "has_type \<equiv> typed (\<lambda>_. True)"

lemma collect_Some: "collect xs = Some ys \<longleftrightarrow> xs = map Some ys"
proof (induction xs arbitrary: ys)
  case (Cons x xs)
  then show ?case by (cases x; cases ys) (auto split: option.splits)
qed auto

lemma collect_mem: "collect ys = Some xs \<Longrightarrow> x \<in> set xs \<Longrightarrow> Some x \<in> set ys"
  by (auto simp: collect_Some)

lemma convert_elements_mem:
  assumes "convert_elements L conv v = Some xs" and "x \<in> set xs"
  shows "\<exists>s. conv s = Some x"
proof -
  obtain node where "collect (map (\<lambda>i. conv (yaml_dump L (node_at L node i))) [0..<node_size node]) = Some xs"
    using assms(1) by (auto simp: convert_elements_def split: option.splits)
  from collect_mem [OF this assms(2)] show ?thesis by auto
qed

lemma convert_members_mem:
  assumes "convert_members L conv v = Some xs" and "(k, x) \<in> set xs"
  shows "\<exists>s. conv s = Some x"
proof -
  obtain ps where "collect (map (\<lambda>(k, x). map_option (Pair (scalar k)) (conv (yaml_dump L x))) ps) = Some xs"
    using assms(1) by (auto simp: convert_members_def split: option.splits)
  from collect_mem [OF this assms(2)] obtain k' n where "Some (k, x) = map_option (Pair (scalar k')) (conv (yaml_dump L n))"
    by auto
  then show ?thesis by (cases "conv (yaml_dump L n)") auto
qed

lemma convert_elements_seq:
  assumes "yaml_load L s = Some (Seq ns)"
  shows "convert_elements L conv s = collect (map (\<lambda>n. conv (yaml_dump L n)) ns)"
proof -
  have "map (\<lambda>i. conv (yaml_dump L (ns ! i))) [0..<length ns] = map (\<lambda>n. conv (yaml_dump L n)) ns"
    by (rule nth_equalityI) auto
  then show ?thesis using assms by (simp add: convert_elements_def)
qed

text \<open>What the code relies on of the libraries, on the basic values that are plain text.\<close>

locale yaml_library =
  fixes L :: "'b libs" and plain :: "'b \<Rightarrow> bool"
  assumes load_dump: "yaml_load L (yaml_dump L n) = Some n"
    and plain_text: "plain b \<Longrightarrow> \<exists>n. yaml_load L (cast_out L b) = Some n \<and> yaml_dump L n = cast_out L b"
    and plain_cast: "plain b \<Longrightarrow> cast_in L (kind_of L b) (cast_out L b) = Some b"
    and cast_kind: "cast_in L k s = Some b \<Longrightarrow> kind_of L b = k"
    and set_order_set: "fset_of_list (set_order L X) = X"
    and map_order_map: "fmap_of_list (map_order L m) = m"
    and map_order_mem: "(key, x) \<in> set (map_order L m) \<Longrightarrow> fmlookup m key = Some x"
begin

text \<open>A conversion yields a value of the type asked for.\<close>

lemma convert_in_typed: "convert_in L t s = Some v \<Longrightarrow> has_type L t v"
proof (induction t arbitrary: s v)
  case (Basic k)
  then show ?case using cast_kind by auto
next
  case (StrMap t)
  then show ?case by (auto dest!: fmap_of_list_SomeD) (blast dest: convert_members_mem)
next
  case (Unordered_map t)
  then show ?case by (auto dest!: fmap_of_list_SomeD) (blast dest: convert_members_mem)
qed (auto simp: fset_of_list_elem, (blast dest: convert_elements_mem)+)

text \<open>A text that survives being read and written as part of a document.\<close>

definition good :: "ctype \<Rightarrow> 'b cvalue \<Rightarrow> bool" where
  "good t v \<longleftrightarrow> (\<exists>s n. convert_out L t v = Some s \<and> yaml_load L s = Some n \<and> yaml_dump L n = s \<and> convert_in L t s = Some v)"

lemma sequence_good:
  assumes "\<forall>x \<in> set xs. good t x"
  shows "\<exists>s ns. sequence_text L (convert_out L t) xs = Some s \<and> yaml_load L s = Some (Seq ns)
    \<and> yaml_dump L (Seq ns) = s \<and> convert_elements L (convert_in L t) s = Some xs"
proof -
  have "\<exists>ns. collect (map (\<lambda>x. load_text L (convert_out L t x)) xs) = Some ns
      \<and> map (\<lambda>n. convert_in L t (yaml_dump L n)) ns = map Some xs"
    using assms
  proof (induction xs)
    case (Cons x xs)
    then obtain ns where "collect (map (\<lambda>x. load_text L (convert_out L t x)) xs) = Some ns"
        "map (\<lambda>n. convert_in L t (yaml_dump L n)) ns = map Some xs" by auto
    moreover obtain s n where "convert_out L t x = Some s" "yaml_load L s = Some n" "yaml_dump L n = s" "convert_in L t s = Some x"
      using Cons.prems by (auto simp: good_def)
    ultimately show ?case by (intro exI [of _ "n # ns"]) (simp add: load_text_def)
  qed simp
  then obtain ns where ns: "collect (map (\<lambda>x. load_text L (convert_out L t x)) xs) = Some ns"
      "map (\<lambda>n. convert_in L t (yaml_dump L n)) ns = map Some xs" by blast
  let ?s = "yaml_dump L (Seq ns)"
  have "convert_elements L (convert_in L t) ?s = Some xs"
    using convert_elements_seq [OF load_dump, of "convert_in L t" ns] ns(2) by (simp add: collect_Some)
  then show ?thesis using ns(1) load_dump by (intro exI [of _ ?s] exI [of _ ns]) (simp add: sequence_text_def)
qed

lemma map_good:
  assumes "\<forall>(k, x) \<in> set kvs. good t x"
  shows "\<exists>s ns. map_text L (convert_out L t) kvs = Some s \<and> yaml_load L s = Some (Map ns)
    \<and> yaml_dump L (Map ns) = s \<and> convert_members L (convert_in L t) s = Some kvs"
proof -
  have "\<exists>ns. collect (map (\<lambda>(k, x). map_option (Pair (Scalar k)) (load_text L (convert_out L t x))) kvs) = Some ns
      \<and> map (\<lambda>(k, n). map_option (Pair (scalar k)) (convert_in L t (yaml_dump L n))) ns = map Some kvs"
    using assms
  proof (induction kvs)
    case (Cons y kvs)
    obtain k x where y: "y = (k, x)" by fastforce
    from Cons obtain ns where
        "collect (map (\<lambda>(k, x). map_option (Pair (Scalar k)) (load_text L (convert_out L t x))) kvs) = Some ns"
        "map (\<lambda>(k, n). map_option (Pair (scalar k)) (convert_in L t (yaml_dump L n))) ns = map Some kvs" by auto
    moreover obtain s n where "convert_out L t x = Some s" "yaml_load L s = Some n" "yaml_dump L n = s" "convert_in L t s = Some x"
      using Cons.prems y by (auto simp: good_def)
    ultimately show ?case using y by (intro exI [of _ "(Scalar k, n) # ns"]) (simp add: load_text_def)
  qed simp
  then obtain ns where ns: "collect (map (\<lambda>(k, x). map_option (Pair (Scalar k)) (load_text L (convert_out L t x))) kvs) = Some ns"
      "map (\<lambda>(k, n). map_option (Pair (scalar k)) (convert_in L t (yaml_dump L n))) ns = map Some kvs" by blast
  let ?s = "yaml_dump L (Map ns)"
  have "convert_members L (convert_in L t) ?s = Some kvs"
    using ns(2) by (simp add: convert_members_def load_dump collect_Some)
  then show ?thesis using ns(1) load_dump by (intro exI [of _ ?s] exI [of _ ns]) (simp add: map_text_def)
qed

lemma typed_good: "typed plain L t v \<Longrightarrow> good t v"
proof (induction t arbitrary: v)
  case (Basic k)
  then obtain b where "v = VBasic b" "kind_of L b = k" "plain b" by (cases v) auto
  then show ?case using plain_text plain_cast by (fastforce simp: good_def)
next
  case (Vector t)
  then obtain xs where "v = VSeq xs" "\<forall>x \<in> set xs. good t x" by (cases v) auto
  then show ?case using sequence_good [of xs t] by (auto simp: good_def)
next
  case (List t)
  then obtain xs where "v = VSeq xs" "\<forall>x \<in> set xs. good t x" by (cases v) auto
  then show ?case using sequence_good [of xs t] by (auto simp: good_def)
next
  case (Set t)
  then obtain X where "v = VSet X" "\<forall>x \<in> set (set_order L X). good t x"
    using set_order_set by (cases v) (auto, metis fset_of_list.rep_eq)
  then show ?case using sequence_good [of "set_order L X" t] set_order_set by (auto simp: good_def)
next
  case (Unordered_set t)
  then obtain X where "v = VSet X" "\<forall>x \<in> set (set_order L X). good t x"
    using set_order_set by (cases v) (auto, metis fset_of_list.rep_eq)
  then show ?case using sequence_good [of "set_order L X" t] set_order_set by (auto simp: good_def)
next
  case (StrMap t)
  then obtain m where m: "v = VMap m" "\<forall>k x. fmlookup m k = Some x \<longrightarrow> typed plain L t x" by (cases v) auto
  then have "\<forall>(k, x) \<in> set (map_order L m). good t x" using map_order_mem StrMap.IH by blast
  from map_good [OF this] m(1) show ?case using map_order_map by (auto simp: good_def)
next
  case (Unordered_map t)
  then obtain m where m: "v = VMap m" "\<forall>k x. fmlookup m k = Some x \<longrightarrow> typed plain L t x" by (cases v) auto
  then have "\<forall>(k, x) \<in> set (map_order L m). good t x" using map_order_mem Unordered_map.IH by blast
  from map_good [OF this] m(1) show ?case using map_order_map by (auto simp: good_def)
qed

end

section \<open>Registry facts\<close>

definition registry_wf :: "'b libs \<Rightarrow> ('b, 'w) registry \<Rightarrow> bool" where
  "registry_wf L datas \<longleftrightarrow> sorted_wrt (<) (map_keys datas)
     \<and> (\<forall>(n, var) \<in> set datas. cv_name var = n \<and> valid_name n \<and> has_type L (cv_type var) (cv_value var))"

lemma look_up_base_mem:
  "registry_wf L datas \<Longrightarrow> look_up_base n datas = Some var \<longleftrightarrow> (n, var) \<in> set datas"
  using std_less.map_find_mem [of datas n var] std_less.map_find_key [of n datas var]
  by (auto simp: registry_wf_def look_up_base_def)

lemma look_up_base_set: "look_up_base m (map_set (<) n var datas) = (if m = n then Some var else look_up_base m datas)"
  by (simp add: look_up_base_def std_less.map_find_set)

lemma registry_wf_set:
  assumes "registry_wf L datas" and "cv_name var = n" and "valid_name n" and "has_type L (cv_type var) (cv_value var)"
  shows "registry_wf L (map_set (<) n var datas)"
proof -
  have srt: "sorted_wrt (<) (map_keys (map_set (<) n var datas))"
    using assms(1) std_less.map_set_sorted by (auto simp: registry_wf_def)
  have "cv_name u = m \<and> valid_name m \<and> has_type L (cv_type u) (cv_value u)" if "(m, u) \<in> set (map_set (<) n var datas)" for m u
  proof -
    have "look_up_base m (map_set (<) n var datas) = Some u"
      using std_less.map_find_mem [OF srt that] by (simp add: look_up_base_def)
    then show ?thesis
      using assms look_up_base_mem [OF assms(1), of m u] by (auto simp: look_up_base_set registry_wf_def split: if_splits)
  qed
  then show ?thesis using srt by (auto simp: registry_wf_def)
qed

lemma lower_valid: "valid_name name \<Longrightarrow> lower name = name"
proof -
  have "char_of (tolower (byte c)) = c" if "c \<in> set ''abcdefghikjlmnopqrstuvwxyz._0123456789''" for c
    using that by (auto simp: tolower_def byte_def)
  then show "valid_name name \<Longrightarrow> lower name = name" by (auto simp: valid_name_def lower_def intro!: map_idI)
qed

lemma registry_wf_create:
  assumes "registry_wf L datas" and "has_type L t v"
  shows "registry_wf L (snd (look_up_create name t v desc datas))"
proof (cases "valid_name name \<and> map_find (<) name datas = None")
  case True
  have "registry_wf L (map_set (<) name (mk_ConfigVar name desc t v) datas)"
    using True assms lower_valid [of name] by (intro registry_wf_set) (simp_all add: mk_ConfigVar_def)
  then show ?thesis using True by (simp add: look_up_create_def)
next
  case False
  then show ?thesis using assms(1) by (auto simp: look_up_create_def split: option.splits)
qed

text \<open>Setting a value keeps everything else of the variable.\<close>

lemma set_value_fields:
  assumes "set_value L v (var, w) = (r, (var', w'))"
  shows "cv_name var' = cv_name var" "cv_type var' = cv_type var" "cv_cbs var' = cv_cbs var"
    "cv_value var' = cv_value var \<or> cv_value var' = v"
  using assms by (auto simp: set_value_def Let_def split: if_splits prod.splits sum.splits)

context yaml_library
begin

lemma from_string_fields:
  assumes "from_string L s (var, w) = (r, (var', w'))" and "has_type L (cv_type var) (cv_value var)"
  shows "cv_name var' = cv_name var" "cv_type var' = cv_type var" "has_type L (cv_type var') (cv_value var')"
proof -
  consider "var' = var" | v r' where "convert_in L (cv_type var) s = Some v" "set_value L v (var, w) = (r', (var', w'))"
    using assms(1) by (auto simp: from_string_def split: option.splits prod.splits sum.splits)
  then have "cv_name var' = cv_name var \<and> cv_type var' = cv_type var \<and> has_type L (cv_type var') (cv_value var')"
  proof cases
    case 2
    from set_value_fields [OF 2(2)] convert_in_typed [OF 2(1)] assms(2) show ?thesis by auto
  qed (use assms(2) in simp)
  then show "cv_name var' = cv_name var" "cv_type var' = cv_type var" "has_type L (cv_type var') (cv_value var')" by auto
qed

lemma load_one_keeps:
  assumes "load_one L n node (datas, w) = (r, (datas', w'))" and "registry_wf L datas"
  shows "registry_wf L datas'" and "map_option cv_type (look_up_base m datas') = map_option cv_type (look_up_base m datas)"
    and "m \<noteq> n \<Longrightarrow> look_up_base m datas' = look_up_base m datas"
proof -
  have "registry_wf L datas' \<and> map_option cv_type (look_up_base m datas') = map_option cv_type (look_up_base m datas)
      \<and> (m \<noteq> n \<longrightarrow> look_up_base m datas' = look_up_base m datas)"
  proof (cases "look_up_base n datas")
    case None
    then show ?thesis using assms by (simp add: load_one_def)
  next
    case (Some var)
    obtain r1 var1 w1 where f: "from_string L (node_text L node) (var, w) = (r1, (var1, w1))" by (metis prod.exhaust)
    have mem: "cv_name var = n" "valid_name n" "has_type L (cv_type var) (cv_value var)"
      using Some look_up_base_mem [OF assms(2)] assms(2) by (auto simp: registry_wf_def)
    have "datas' = map_set (<) n var1 datas"
      using assms(1) Some f by (auto simp: load_one_def Let_def split: sum.splits)
    then show ?thesis
      using registry_wf_set [OF assms(2), of var1 n] from_string_fields [OF f mem(3)] mem Some by (simp add: look_up_base_set)
  qed
  then show "registry_wf L datas'" "map_option cv_type (look_up_base m datas') = map_option cv_type (look_up_base m datas)"
    "m \<noteq> n \<Longrightarrow> look_up_base m datas' = look_up_base m datas" by auto
qed

lemma load_each_keeps:
  "load_each L ns (datas, w) = (r, (datas', w')) \<Longrightarrow> registry_wf L datas \<Longrightarrow>
     registry_wf L datas' \<and> map_option cv_type (look_up_base m datas') = map_option cv_type (look_up_base m datas)
     \<and> (m \<notin> fst ` set ns \<longrightarrow> look_up_base m datas' = look_up_base m datas)"
proof (induction ns arbitrary: datas w)
  case (Cons x ns)
  obtain n node where x: "x = (n, node)" by fastforce
  obtain r1 d1 w1 where o: "load_one L n node (datas, w) = (r1, (d1, w1))" by (metis prod.exhaust)
  note k = load_one_keeps(1) [OF o Cons.prems(2)] load_one_keeps(2,3) [OF o Cons.prems(2), of m]
  show ?case
  proof (cases r1)
    case (Inl e)
    then show ?thesis using Cons.prems(1) o x k by auto
  next
    case (Inr u)
    then have "load_each L ns (d1, w1) = (r, (datas', w'))" using Cons.prems(1) o x by simp
    from Cons.IH [OF this k(1)] k x show ?thesis by auto
  qed
qed auto

end

text \<open>Listeners that never throw.\<close>

definition quiet :: "('b, 'w) ConfigVar \<Rightarrow> bool" where
  "quiet var \<longleftrightarrow> (\<forall>(k, f) \<in> set (cv_cbs var). \<forall>old new w. fst (f old new w) = Inr ())"

lemma notify_quiet: "\<forall>f \<in> set fs. \<forall>old new w. fst (f old new w) = Inr () \<Longrightarrow> fst (notify fs old new w) = Inr ()"
proof (induction fs arbitrary: w)
  case (Cons f fs)
  obtain r w1 where "f old new w = (r, w1)" by fastforce
  moreover from this have "r = Inr ()" using Cons.prems by (metis fst_conv list.set_intros(1))
  ultimately show ?case using Cons by simp
qed simp

lemma set_value_quiet:
  assumes "quiet var"
  shows "\<exists>w'. set_value L v (var, w) = (Inr (), (if value_eq L v (cv_value var) then var else var\<lparr>cv_value := v\<rparr>, w'))"
proof -
  have "fst (notify (map snd (cv_cbs var)) (cv_value var) v w) = Inr ()"
    using assms by (intro notify_quiet) (auto simp: quiet_def)
  then show ?thesis by (auto simp: set_value_def split: prod.splits sum.splits)
qed

lemma quiet_value [simp]: "quiet (var\<lparr>cv_value := v\<rparr>) = quiet var"
  by (simp add: quiet_def)

definition all_quiet :: "('b, 'w) registry \<Rightarrow> bool" where
  "all_quiet datas \<longleftrightarrow> (\<forall>n var. look_up_base n datas = Some var \<longrightarrow> quiet var)"

text \<open>The value a variable has after the text of \<open>node\<close> has been loaded into it.\<close>

definition loaded :: "'b libs \<Rightarrow> yaml \<Rightarrow> ('b, 'w) ConfigVar \<Rightarrow> ('b, 'w) ConfigVar" where
  "loaded L node var = (case convert_in L (cv_type var) (node_text L node) of
     None \<Rightarrow> var | Some v \<Rightarrow> if value_eq L v (cv_value var) then var else var\<lparr>cv_value := v\<rparr>)"

lemma load_one_quiet:
  assumes "all_quiet datas"
  shows "\<exists>w'. load_one L n node (datas, w) = (Inr (), (case look_up_base n datas of None \<Rightarrow> datas
     | Some var \<Rightarrow> map_set (<) n (loaded L node var) datas, w'))"
proof (cases "look_up_base n datas")
  case None
  then show ?thesis by (simp add: load_one_def)
next
  case (Some var)
  then have "quiet var" using assms by (auto simp: all_quiet_def)
  have "\<exists>b w'. from_string L (node_text L node) (var, w) = (Inr b, (loaded L node var, w'))"
  proof (cases "convert_in L (cv_type var) (node_text L node)")
    case (Some v)
    with set_value_quiet [OF \<open>quiet var\<close>, of L v w] show ?thesis by (auto simp: from_string_def loaded_def)
  qed (auto simp: from_string_def loaded_def)
  then show ?thesis using Some by (auto simp: load_one_def)
qed

lemma quiet_loaded [simp]: "quiet (loaded L node var) = quiet var"
  by (auto simp: loaded_def split: option.splits)

lemma load_each_quiet:
  "all_quiet datas \<Longrightarrow> \<exists>datas' w'. load_each L ns (datas, w) = (Inr True, (datas', w')) \<and> all_quiet datas'
     \<and> (\<forall>n. look_up_base n datas' = map_option (fold (loaded L) (map snd (filter (\<lambda>x. fst x = n) ns))) (look_up_base n datas))"
proof (induction ns arbitrary: datas w)
  case (Cons x ns)
  obtain n node where x: "x = (n, node)" by fastforce
  define d1 where "d1 = (case look_up_base n datas of None \<Rightarrow> datas | Some var \<Rightarrow> map_set (<) n (loaded L node var) datas)"
  obtain w1 where o: "load_one L n node (datas, w) = (Inr (), (d1, w1))"
    using load_one_quiet [OF Cons.prems, of L n node w] by (auto simp: d1_def)
  have d1: "look_up_base m d1 = (if m = n then map_option (loaded L node) (look_up_base n datas) else look_up_base m datas)" for m
    by (simp add: d1_def look_up_base_set split: option.splits)
  have "all_quiet d1" using Cons.prems by (auto simp: all_quiet_def d1)
  from Cons.IH [OF this, of w1] obtain datas' w' where "load_each L ns (d1, w1) = (Inr True, (datas', w'))" "all_quiet datas'"
      "\<forall>n. look_up_base n datas' = map_option (fold (loaded L) (map snd (filter (\<lambda>x. fst x = n) ns))) (look_up_base n d1)" by blast
  then show ?case using o x d1 by (auto simp: option.map_comp comp_def)
qed (simp add: option.map_id)

text \<open>The names a document gives values to: below \<open>node\<close>, named \<open>p\<close>, the name \<open>n\<close> stands for \<open>x\<close>.\<close>

inductive doc_path :: "yaml \<Rightarrow> string \<Rightarrow> string \<Rightarrow> yaml \<Rightarrow> bool" where
  here: "valid_name p \<Longrightarrow> doc_path node p p node"
| below: "valid_name p \<Longrightarrow> (k, x) \<in> set kvs \<Longrightarrow> doc_path x (member_name p k) n y \<Longrightarrow> doc_path (Map kvs) p n y"

inductive_simps doc_path_map: "doc_path (Map kvs) p n y"
inductive_simps doc_path_leaf: "doc_path Null p n y" "doc_path (Scalar s) p n y" "doc_path (Seq xs) p n y"

lemma load_all_member_paths:
  "(n, y) \<in> set (load_all_member node p) \<longleftrightarrow> doc_path node p n y"
  "(n, y) \<in> set (load_members kvs p) \<longleftrightarrow> (\<exists>(k, x) \<in> set kvs. doc_path x (member_name p k) n y)"
proof (induction node p and kvs p rule: load_all_member_load_members.induct)
  case (1 node p)
  have invalid: "\<not> doc_path node p n y" if "\<not> valid_name p" using that by (auto elim: doc_path.cases)
  show ?case
  proof (cases node)
    case (Map kvs)
    show ?thesis
    proof (cases "valid_name p")
      case True
      with 1 Map show ?thesis by (auto simp: load_all_member.simps doc_path_map)
    qed (use invalid in \<open>simp add: load_all_member.simps\<close>)
  qed (use invalid in \<open>auto simp: load_all_member.simps doc_path_leaf\<close>)
qed auto

lemma loaded_idem [simp]: "loaded L node (loaded L node var) = loaded L node var"
  by (auto simp: loaded_def split: option.splits)

lemma fold_loaded_same: "\<forall>y \<in> set ys. y = x \<Longrightarrow> ys \<noteq> [] \<Longrightarrow> fold (loaded L) ys var = loaded L x var"
proof (induction ys arbitrary: var)
  case (Cons y ys)
  then show ?case by (cases "ys = []") auto
qed simp

section \<open>Steps of a program\<close>

text \<open>
  What a program does with the registry, the world its listeners act on, and the counters of
  listener ids. The values it passes to \<open>look_up\<close> and \<open>set_value\<close> have the type of the
  variable, by the types of C++; a variable's pointer comes from an earlier \<open>look_up\<close>.
\<close>

type_synonym ('b, 'w) cfg = "('b, 'w) registry \<times> 'w \<times> (ctype \<Rightarrow> u64)"

inductive cfg_step :: "'b libs \<Rightarrow> ('b, 'w) cfg \<Rightarrow> ('b, 'w) cfg \<Rightarrow> bool" for L where
  create: "has_type L t v \<Longrightarrow> look_up_create n t v desc d = (r, d') \<Longrightarrow> cfg_step L (d, w, ids) (d', w, ids)"
| set: "look_up_base n d = Some var \<Longrightarrow> has_type L (cv_type var) v \<Longrightarrow> set_value L v (var, w) = (r, (var', w'))
    \<Longrightarrow> cfg_step L (d, w, ids) (map_set (<) n var' d, w', ids)"
| listen: "look_up_base n d = Some var \<Longrightarrow> add_listener cb var ids = (k, var', ids')
    \<Longrightarrow> cfg_step L (d, w, ids) (map_set (<) n var' d, w, ids')"
| unlisten: "look_up_base n d = Some var \<Longrightarrow> cfg_step L (d, w, ids) (map_set (<) n (del_listener k var) d, w, ids)"
| clear: "look_up_base n d = Some var \<Longrightarrow> cfg_step L (d, w, ids) (map_set (<) n (clear_listeners var) d, w, ids)"
| load: "load_from_yaml L root (d, w) = (r, (d', w')) \<Longrightarrow> cfg_step L (d, w, ids) (d', w', ids)"

text \<open>A step that replaces a variable by one of the same name and type.\<close>

lemma registry_replace:
  assumes "registry_wf L d" and "look_up_base n d = Some var" and "cv_name var' = cv_name var" and "cv_type var' = cv_type var"
    and "has_type L (cv_type var) (cv_value var')"
  shows "registry_wf L (map_set (<) n var' d)"
    and "look_up_base m d = Some u \<Longrightarrow> \<exists>u'. look_up_base m (map_set (<) n var' d) = Some u' \<and> cv_type u' = cv_type u"
proof -
  have "cv_name var = n" "valid_name n" using assms(1,2) look_up_base_mem [OF assms(1)] by (auto simp: registry_wf_def)
  then show "registry_wf L (map_set (<) n var' d)" using assms by (intro registry_wf_set) auto
  show "\<exists>u'. look_up_base m (map_set (<) n var' d) = Some u' \<and> cv_type u' = cv_type u" if "look_up_base m d = Some u"
    using that assms(2,4) by (auto simp: look_up_base_set)
qed

lemma look_up_create_keeps:
  "look_up_create n t v desc d = (r, d') \<Longrightarrow> look_up_base m d = Some u \<Longrightarrow> look_up_base m d' = Some u"
  by (auto simp: look_up_create_def look_up_base_def std_less.map_find_set split: if_splits option.splits)

context yaml_library
begin

lemma cfg_step_keeps:
  assumes "cfg_step L s s'" and "registry_wf L (fst s)"
  shows "registry_wf L (fst s') \<and> (\<forall>m u. look_up_base m (fst s) = Some u \<longrightarrow>
    (\<exists>u'. look_up_base m (fst s') = Some u' \<and> cv_type u' = cv_type u))"
  using assms
proof (induction rule: cfg_step.induct)
  case (create t v n desc d r d' w ids)
  then show ?case using registry_wf_create [of L d t v n desc] look_up_create_keeps [OF create(2)] by auto
next
  case (set n d var v w r var' w' ids)
  have "has_type L (cv_type var) (cv_value var)" using set look_up_base_mem [of L d n var] by (auto simp: registry_wf_def)
  then have "has_type L (cv_type var) (cv_value var')" using set_value_fields(4) [OF set(3)] set(2) by auto
  then show ?case using registry_replace [OF _ set(1), of L var'] set(4) set_value_fields(1,2) [OF set(3)] by auto
next
  case (listen n d var cb ids k var' ids' w)
  have "has_type L (cv_type var) (cv_value var)" using listen look_up_base_mem [of L d n var] by (auto simp: registry_wf_def)
  then show ?case using registry_replace [OF _ listen(1), of L var'] listen by (auto simp: add_listener_def Let_def)
next
  case (unlisten n d var w ids k)
  have "has_type L (cv_type var) (cv_value var)" using unlisten look_up_base_mem [of L d n var] by (auto simp: registry_wf_def)
  then show ?case using registry_replace [OF _ unlisten(1), of L "del_listener k var"] unlisten by (auto simp: del_listener_def)
next
  case (clear n d var w ids)
  have "has_type L (cv_type var) (cv_value var)" using clear look_up_base_mem [of L d n var] by (auto simp: registry_wf_def)
  then show ?case using registry_replace [OF _ clear(1), of L "clear_listeners var"] clear by (auto simp: clear_listeners_def)
next
  case (load root d w r d' w' ids)
  have "load_each L (load_all_member root []) (d, w) = (r, (d', w'))" using load(1) by (simp add: load_from_yaml_def)
  note k = load_each_keeps [OF this]
  have "\<exists>u'. look_up_base m d' = Some u' \<and> cv_type u' = cv_type u" if "look_up_base m d = Some u" for m u
    using k [of m] load(2) that by (cases "look_up_base m d'") auto
  then show ?case using k load(2) by simp
qed

lemma cfg_steps_keep:
  "(cfg_step L)\<^sup>*\<^sup>* s s' \<Longrightarrow> registry_wf L (fst s) \<Longrightarrow> registry_wf L (fst s') \<and> (\<forall>m u. look_up_base m (fst s) = Some u \<longrightarrow>
    (\<exists>u'. look_up_base m (fst s') = Some u' \<and> cv_type u' = cv_type u))"
proof (induction rule: rtranclp_induct)
  case (step y z)
  from cfg_step_keeps [OF step(2)] step show ?case by metis
qed auto

end

section \<open>An instance of the libraries\<close>

text \<open>
  Strings as the only basic type, with the flow-style writer and reader. The orders in which the
  unordered containers are traversed are left open, as C++ leaves them.
\<close>

definition flow_libs :: "string libs" where
  "flow_libs = \<lparr>yaml_load = flow_load, yaml_dump = flow, map_index = (\<lambda>kvs i. Null), seq_pairs = (\<lambda>xs. None),
     cast_in = (\<lambda>k s. if k = 0 then Some s else None), cast_out = (\<lambda>s. s), kind_of = (\<lambda>s. 0),
     set_order = (\<lambda>X. SOME xs. fset_of_list xs = X),
     map_order = (\<lambda>m. SOME xs. fmap_of_list xs = m \<and> (\<forall>(k, x) \<in> set xs. fmlookup m k = Some x)),
     value_eq = (\<lambda>u v. u = v)\<rparr>"

lemma map_order_exists: "\<exists>xs. fmap_of_list xs = m \<and> (\<forall>(k, x) \<in> set xs. fmlookup m k = Some x)"
proof -
  obtain ks where ks: "fset_of_list ks = fmdom m" using exists_fset_of_list by metis
  then have "set ks = fset (fmdom m)" by (metis fset_of_list.rep_eq)
  then have dom: "set ks = dom (fmlookup m)" by (simp add: fmdom.rep_eq)
  let ?xs = "map (\<lambda>k. (k, the (fmlookup m k))) ks"
  have "fmap_of_list ?xs = m" by (rule fmap_ext) (simp add: fmlookup_of_list map_of_map_keys [OF dom])
  moreover have "fmlookup m k = Some (the (fmlookup m k))" if "k \<in> set ks" for k using that dom by (metis domIff option.collapse)
  then have "\<forall>(k, x) \<in> set ?xs. fmlookup m k = Some x" by auto
  ultimately show ?thesis by blast
qed

interpretation flow_yaml: yaml_library flow_libs plain_word
proof
  fix m :: "(string, string cvalue) fmap" and key x
  show "fmap_of_list (map_order flow_libs m) = m"
    using someI_ex [OF map_order_exists [of m]] by (simp add: flow_libs_def)
  show "(key, x) \<in> set (map_order flow_libs m) \<Longrightarrow> fmlookup m key = Some x"
    using someI_ex [OF map_order_exists [of m]] by (auto simp: flow_libs_def)
next
  fix X :: "string cvalue fset"
  show "fset_of_list (set_order flow_libs X) = X"
    using someI_ex [OF exists_fset_of_list [of X]] by (simp add: flow_libs_def)
next
  fix b
  show "plain_word b \<Longrightarrow> \<exists>n. yaml_load flow_libs (cast_out flow_libs b) = Some n \<and> yaml_dump flow_libs n = cast_out flow_libs b"
    using flow_load_flow [of "Scalar b"] by (intro exI [of _ "Scalar b"]) (simp add: flow_libs_def)
qed (auto simp: flow_libs_def flow_load_flow split: if_splits)

section \<open>Properties\<close>



text \<open>
  Setting a variable notifies its listeners exactly when the value changes, each once, in the
  order of their ids, with the old and the new value, and the value is replaced afterwards. When
  a listener throws, the later ones are not called, the old value stays, and \<open>from_string\<close> reports failure.
\<close>

theorem listeners_notified:
  assumes "cv_cbs var = pre @ (k, f) # post" and "\<forall>(i, g) \<in> set (pre @ post). \<forall>o' n' w'. g o' n' w' = (Inr (), act i o' n' w')"
    and "\<not> value_eq L v (cv_value var)" and "convert_in L (cv_type var) str = Some v"
    and "before = fold (\<lambda>i. act i (cv_value var) v) (map fst pre) w"
  shows "(fst (f (cv_value var) v before) = Inr () \<longrightarrow>
       set_value L v (var, w) = (Inr (), (var\<lparr>cv_value := v\<rparr>,
          fold (\<lambda>i. act i (cv_value var) v) (map fst post) (snd (f (cv_value var) v before)))))
    \<and> (fst (f (cv_value var) v before) = Inl Runtime_error \<longrightarrow>
       from_string L str (var, w) = (Inr False, (var, snd (f (cv_value var) v before))))
    \<and> (value_eq L u (cv_value var) \<longrightarrow> set_value L u (var, w) = (Inr (), (var, w)))"
proof -
  have all: "notify (map snd gs @ hs) old new w = notify hs old new (fold (\<lambda>i. act i old new) (map fst gs) w)"
    if "\<forall>(i, g) \<in> set gs. \<forall>o' n' w'. g o' n' w' = (Inr (), act i o' n' w')" for gs hs old new w
    using that by (induction gs arbitrary: w) auto
  have pre: "\<forall>(i, g) \<in> set pre. \<forall>o' n' w'. g o' n' w' = (Inr (), act i o' n' w')"
    and post: "\<forall>(i, g) \<in> set post. \<forall>o' n' w'. g o' n' w' = (Inr (), act i o' n' w')" using assms(2) by auto
  have "notify (map snd (cv_cbs var)) (cv_value var) v w = notify (f # map snd post) (cv_value var) v before"
    using all [OF pre, of "f # map snd post"] assms(1,5) by simp
  moreover have "notify (map snd post) (cv_value var) v w' = (Inr (), fold (\<lambda>i. act i (cv_value var) v) (map fst post) w')" for w'
    using all [OF post, of "[]"] by simp
  ultimately show ?thesis
    using assms(3,4) by (cases "f (cv_value var) v before") (auto simp: set_value_def from_string_def is_exception_def)
qed

theorem listeners_notified_witness:
  "let f = (\<lambda>old new w. (Inr (), w @ [new])); g = (\<lambda>old new w. (Inl Runtime_error, w));
       var = mk_ConfigVar ''x'' [] (Basic 0) (VBasic ''1'')
   in set_value flow_libs (VBasic ''2'') (var\<lparr>cv_cbs := [(1, f), (2, f)]\<rparr>, [])
        = (Inr (), (var\<lparr>cv_value := VBasic ''2'', cv_cbs := [(1, f), (2, f)]\<rparr>, [VBasic ''2'', VBasic ''2'']))
    \<and> from_string flow_libs ''2'' (var\<lparr>cv_cbs := [(1, f), (2, g)]\<rparr>, [])
        = (Inr False, (var\<lparr>cv_cbs := [(1, f), (2, g)]\<rparr>, [VBasic ''2'']))"
  using listeners_notified [of "(mk_ConfigVar ''x'' [] (Basic 0) (VBasic ''1''))\<lparr>cv_cbs := [(1, \<lambda>old new w. (Inr (), w @ [new])),
      (2, \<lambda>old new w. (Inr (), w @ [new]))]\<rparr>" "[(1, \<lambda>old new w. (Inr (), w @ [new]))]" 2 "\<lambda>old new w. (Inr (), w @ [new])" "[]"
      "\<lambda>i old new w. w @ [new]" flow_libs "VBasic ''2''" "''2''" "[VBasic ''2'']" "[]"]
    listeners_notified [of "(mk_ConfigVar ''x'' [] (Basic 0) (VBasic ''1''))\<lparr>cv_cbs := [(1, \<lambda>old new w. (Inr (), w @ [new])),
      (2, \<lambda>old new w. (Inl Runtime_error, w))]\<rparr>" "[(1, \<lambda>old new w. (Inr (), w @ [new]))]" 2 "\<lambda>old new w. (Inl Runtime_error, w)" "[]"
      "\<lambda>i old new w. w @ [new]" flow_libs "VBasic ''2''" "''2''" "[VBasic ''2'']" "[]"]
  by (simp add: mk_ConfigVar_def flow_libs_def)

text \<open>
  C21. The registry is well typed. Whatever sequence of lookups, assignments, listener changes and
  loaded documents a program runs, a name that \<open>look_up<T>\<close> has once answered keeps being answered for the
  same \<open>T\<close>, its variable carries that name, and its value is a value of \<open>T\<close>: no document and no
  assignment turns it into another type, even when a conversion fails or a listener throws.
\<close>

theorem config_types:
  assumes "yaml_library L plain"
    and "(cfg_step L)\<^sup>*\<^sup>* ([], w0, \<lambda>t. 0) (d, w, ids)" and "(cfg_step L)\<^sup>*\<^sup>* (d, w, ids) (d', w', ids')"
    and "look_up n t d = (Inr (Some m), d)"
  shows "m = n \<and> look_up n t d' = (Inr (Some n), d')
    \<and> (\<exists>var. look_up_base n d' = Some var \<and> cv_name var = n \<and> cv_type var = t \<and> has_type L t (cv_value var))"
proof -
  have wf: "registry_wf L d" using yaml_library.cfg_steps_keep [OF assms(1,2)] by (simp add: registry_wf_def)
  obtain u where u: "look_up_base n d = Some u" "cv_type u = t" "m = n" "valid_name n"
    using assms(4) by (auto simp: look_up_def look_up_base_def split: if_splits option.splits)
  obtain var where var: "look_up_base n d' = Some var" "cv_type var = t" and wf': "registry_wf L d'"
    using yaml_library.cfg_steps_keep [OF assms(1,3)] wf u(1,2) by auto
  have "cv_name var = n" "has_type L t (cv_value var)"
    using look_up_base_mem [OF wf', of n var] wf' var by (auto simp: registry_wf_def)
  then show ?thesis using u var by (auto simp: look_up_def look_up_base_def)
qed

text \<open>A program that creates a variable and loads a document.\<close>

definition sample_vars :: "string \<Rightarrow> (string, unit) registry" where
  "sample_vars v = [(''tcp.port'', mk_ConfigVar ''tcp.port'' [] (Basic 0) (VBasic v))]"

lemma sample_step: "cfg_step flow_libs ([], (), \<lambda>t. 0) (sample_vars ''80'', (), \<lambda>t. 0)"
proof (rule cfg_step.create)
  show "has_type flow_libs (Basic 0) (VBasic ''80'')" by (simp add: flow_libs_def)
  show "look_up_create ''tcp.port'' (Basic 0) (VBasic ''80'') [] [] = (Inr (Some ''tcp.port''), sample_vars ''80'')"
    by (simp add: look_up_create_def valid_name_def sample_vars_def)
qed

lemma sample_members:
  "load_all_member (Map [(Scalar ''Tcp'', Map [(Scalar ''Port'', Scalar ''8080'')])]) [] =
    [([], Map [(Scalar ''Tcp'', Map [(Scalar ''Port'', Scalar ''8080'')])]),
     (''tcp'', Map [(Scalar ''Port'', Scalar ''8080'')]), (''tcp.port'', Scalar ''8080'')]"
  by code_simp

lemma sample_load:
  "load_from_yaml flow_libs (Map [(Scalar ''Tcp'', Map [(Scalar ''Port'', Scalar ''8080'')])]) (sample_vars ''80'', ())
    = (Inr True, (sample_vars ''8080'', ()))"
  by (simp add: load_from_yaml_def sample_members load_one_def look_up_base_def sample_vars_def mk_ConfigVar_def
      from_string_def node_text_def set_value_def flow_libs_def)

theorem config_types_witness:
  "\<exists>var. look_up_base ''tcp.port'' (sample_vars ''8080'') = Some var \<and> cv_name var = ''tcp.port'' \<and> cv_type var = Basic 0
     \<and> has_type flow_libs (Basic 0) (cv_value var)"
proof -
  have a: "(cfg_step flow_libs)\<^sup>*\<^sup>* ([], (), \<lambda>t. 0) (sample_vars ''80'', (), \<lambda>t. 0)" using sample_step by (rule r_into_rtranclp)
  have b: "(cfg_step flow_libs)\<^sup>*\<^sup>* (sample_vars ''80'', (), \<lambda>t. 0) (sample_vars ''8080'', (), \<lambda>t. 0)"
    using cfg_step.load [OF sample_load] by (rule r_into_rtranclp)
  have "look_up ''tcp.port'' (Basic 0) (sample_vars ''80'') = (Inr (Some ''tcp.port''), sample_vars ''80'')"
    by (simp add: look_up_def valid_name_def sample_vars_def mk_ConfigVar_def)
  from config_types [OF flow_yaml.yaml_library_axioms a b this] show ?thesis by blast
qed

text \<open>
  C22. Loading a document. When no listener throws, \<open>load_from_yaml\<close> returns true; a variable
  whose name the document gives to one node, the keys lowered and joined with dots, is loaded from
  that node's text (and keeps its value when the text does not convert); every other variable is
  unchanged; no variable appears.
\<close>

theorem config_load:
  fixes datas :: "('a, 'b) registry"
  assumes "all_quiet datas"
  shows "\<exists>datas' w'. load_from_yaml L root (datas, w) = (Inr True, (datas', w'))
    \<and> (\<forall>n. look_up_base n datas = None \<longrightarrow> look_up_base n datas' = None)
    \<and> (\<forall>n. (\<nexists>x. doc_path root [] n x) \<longrightarrow> look_up_base n datas' = look_up_base n datas)
    \<and> (\<forall>n x. doc_path root [] n x \<longrightarrow> (\<forall>y. doc_path root [] n y \<longrightarrow> y = x) \<longrightarrow>
          look_up_base n datas' = map_option (loaded L x) (look_up_base n datas))"
proof -
  let ?at = "\<lambda>n. map snd (filter (\<lambda>x. fst x = n) (load_all_member root []))"
  have at: "x \<in> set (?at n) \<longleftrightarrow> doc_path root [] n x" for n x
    using load_all_member_paths(1) [of n x root "[]"] by force
  obtain datas' w' where l: "load_each L (load_all_member root []) (datas, w) = (Inr True, (datas', w'))"
      "\<And>n. look_up_base n datas' = map_option (fold (loaded L) (?at n)) (look_up_base n datas)"
    using load_each_quiet [OF assms, of L "load_all_member root []" w] by blast
  have none: "look_up_base n datas' = look_up_base n datas" if "\<nexists>x. doc_path root [] n x" for n
  proof -
    have "?at n = []" using that at [of _ n] by (metis list.set_intros(1) neq_Nil_conv)
    then show ?thesis using l(2) [of n] by (simp add: option.map_id)
  qed
  have one: "look_up_base n datas' = map_option (loaded L x) (look_up_base n datas)"
    if "doc_path root [] n x" "\<forall>y. doc_path root [] n y \<longrightarrow> y = x" for n x
  proof -
    have "fold (loaded L) (?at n) var = loaded L x var" for var :: "('a, 'b) ConfigVar"
      using that at [of _ n] by (intro fold_loaded_same) (blast, force)
    then show ?thesis using l(2) [of n] by (cases "look_up_base n datas") auto
  qed
  have "look_up_base n datas' = None" if "look_up_base n datas = None" for n using l(2) [of n] that by simp
  then show ?thesis using l(1) none one unfolding load_from_yaml_def by (intro exI [of _ datas'] exI [of _ w']) blast
qed

theorem config_load_witness:
  "\<exists>datas' w'. load_from_yaml flow_libs (Map [(Scalar ''Tcp'', Map [(Scalar ''Port'', Scalar ''8080'')])]) (sample_vars ''80'', ())
     = (Inr True, (datas', w')) \<and> look_up_base ''udp.port'' datas' = None"
proof -
  have q: "all_quiet (sample_vars ''80'')"
    by (auto simp: all_quiet_def quiet_def look_up_base_def sample_vars_def mk_ConfigVar_def split: if_splits)
  have "look_up_base ''udp.port'' (sample_vars ''80'') = None" by (simp add: look_up_base_def sample_vars_def)
  then show ?thesis using config_load [OF q, of flow_libs "Map [(Scalar ''Tcp'', Map [(Scalar ''Port'', Scalar ''8080'')])]" "()"] by blast
qed

end
