(* ===== verification/Hook_Config.thy ===== *)
theory Hook_Config
  imports Hook Config
begin

text \<open>
  The timeout of hooked \<open>connect\<close> calls (src/sylar/hook.cpp, \<open>_HookIniter\<close>): a configuration variable whose listener
  keeps the value in use up to date. The lookup of the original functions with \<open>dlsym\<close> is left out.
\<close>

section \<open>Operations\<close>

definition timeout_name :: string where
  "timeout_name = ''tcp.connect.timeout_ms''"

text \<open>The variable is of the basic type \<open>uint64_t\<close>, number 0 here.\<close>

definition g_connect_timeout :: "(u64, world) registry \<Rightarrow> (u64, world) registry" where
  "g_connect_timeout datas =
     snd (look_up_create timeout_name (Basic 0) (VBasic 5000) ''connect timeout in ms'' datas)"

definition connect_timeout_listener :: "(u64, world) listener" where
  "connect_timeout_listener old_value new_value w =
     (Inr (), case new_value of VBasic v \<Rightarrow> w\<lparr>connect_timeout := v\<rparr> | _ \<Rightarrow> w)"

definition HookIniter ::
  "(u64, world) registry \<Rightarrow> world \<Rightarrow> (ctype \<Rightarrow> u64) \<Rightarrow> (u64, world) registry \<times> world \<times> (ctype \<Rightarrow> u64)" where
  "HookIniter datas w ids =
     (let datas1 = g_connect_timeout datas
      in case look_up_base timeout_name datas1 of
           None \<Rightarrow> (datas1, w, ids)
         | Some var \<Rightarrow>
             let w1 = (case cv_value var of VBasic v \<Rightarrow> w\<lparr>connect_timeout := v\<rparr> | _ \<Rightarrow> w);
                 (k, var1, ids1) = add_listener connect_timeout_listener var ids
             in (map_set (<) timeout_name var1 datas1, w1, ids1))"

section \<open>Facts\<close>

text \<open>The timeout in use is the value of the variable, and nothing else listens.\<close>

definition timeout_follows :: "(u64, world) registry \<Rightarrow> world \<Rightarrow> bool" where
  "timeout_follows datas w \<longleftrightarrow>
     (\<exists>var k. look_up_base timeout_name datas = Some var \<and> cv_type var = Basic 0
        \<and> cv_value var = VBasic (connect_timeout w) \<and> cv_cbs var = [(k, connect_timeout_listener)])
     \<and> (\<forall>n var. look_up_base n datas = Some var \<longrightarrow> n \<noteq> timeout_name \<longrightarrow> cv_cbs var = [])"

lemma timeout_follows_init: "HookIniter [] w ids = (datas', w', ids') \<Longrightarrow> timeout_follows datas' w' \<and> connect_timeout w' = 5000"
proof -
  have "valid_name timeout_name" by (simp add: valid_name_def timeout_name_def)
  then show "HookIniter [] w ids = (datas', w', ids') \<Longrightarrow> timeout_follows datas' w' \<and> connect_timeout w' = 5000"
    by (auto simp: HookIniter_def g_connect_timeout_def look_up_create_def look_up_base_def mk_ConfigVar_def add_listener_def
        timeout_follows_def Let_def same_key_def split: if_splits)
qed

lemma timeout_follows_load_one:
  assumes "timeout_follows datas w"
  shows "\<exists>datas' w'. load_one L n node (datas, w) = (Inr (), (datas', w')) \<and> timeout_follows datas' w'"
proof (cases "look_up_base n datas")
  case None
  then show ?thesis using assms by (simp add: load_one_def)
next
  case (Some var)
  show ?thesis
  proof (cases "n = timeout_name")
    case True
    then obtain k where var: "cv_type var = Basic 0" "cv_value var = VBasic (connect_timeout w)" "cv_cbs var = [(k, connect_timeout_listener)]"
      using assms Some unfolding timeout_follows_def by (metis option.inject)
    have same: "timeout_follows (map_set (<) n var datas) w"
      using assms var True by (auto simp: timeout_follows_def look_up_base_set)
    have new: "timeout_follows (map_set (<) n (var\<lparr>cv_value := VBasic v\<rparr>) datas) (w\<lparr>connect_timeout := v\<rparr>)" for v
      using assms True var by (auto simp: timeout_follows_def look_up_base_set)
    show ?thesis using Some var same new
      by (auto simp: load_one_def from_string_def set_value_def connect_timeout_listener_def split: option.splits)
  next
    case False
    then have cbs: "cv_cbs var = []" using assms Some by (auto simp: timeout_follows_def)
    have "timeout_follows (map_set (<) n var' datas) w" if "cv_cbs var' = []" for var'
      using assms False that by (auto simp: timeout_follows_def look_up_base_set)
    then show ?thesis using Some cbs
      by (auto simp: load_one_def from_string_def set_value_def split: option.splits)
  qed
qed

lemma timeout_follows_load_each:
  "timeout_follows datas w \<Longrightarrow> \<exists>datas' w'. load_each L ns (datas, w) = (Inr True, (datas', w')) \<and> timeout_follows datas' w'"
proof (induction ns arbitrary: datas w)
  case (Cons x ns)
  obtain n node where x: "x = (n, node)" by fastforce
  obtain d1 w1 where "load_one L n node (datas, w) = (Inr (), (d1, w1))" "timeout_follows d1 w1"
    using timeout_follows_load_one [OF Cons.prems] by blast
  then show ?case using Cons.IH x by simp
qed auto

section \<open>Properties\<close>

text \<open>
  The connect timeout follows the configuration: it is 5000 ms after start-up, and after any
  document has been loaded a hooked \<open>connect\<close> that has to wait is given up after the number of milliseconds that
  the variable then holds.
\<close>

theorem connect_timeout_follows_config:
  assumes "timeout_follows datas w"
  shows "\<exists>datas' w'. load_from_yaml L root (datas, w) = (Inr True, (datas', w')) \<and> timeout_follows datas' w'
    \<and> (\<exists>ms. map_option cv_value (look_up_base timeout_name datas') = Some (VBasic ms)
         \<and> (io_in_fiber c \<longrightarrow> connect_answer c i (-1) EINPROGRESS now w' =
              (let (timer, w1) = arm_timeout c now ms (w'\<lparr>errno := EINPROGRESS\<rparr>) in park_on c i timer w1)))"
proof -
  obtain datas' w' where l: "load_from_yaml L root (datas, w) = (Inr True, (datas', w'))" "timeout_follows datas' w'"
    using timeout_follows_load_each [OF assms, of L "load_all_member root []"] by (auto simp: load_from_yaml_def)
  then show ?thesis by (intro exI [of _ datas'] exI [of _ w']) (auto simp: timeout_follows_def connect_answer_def set_errno_def Let_def)
qed

end
