(* ===== verification/Http.thy ===== *)
theory Http
  imports Cpp_String
begin

text \<open>
  The HTTP messages of src/sylar/http/http.h and http.cpp: the tables of methods and status
  codes, \<open>HttpRequest\<close> and \<open>HttpResponse\<close> with their case-insensitive header maps, the rule that
  keeps the \<open>connection\<close> header and the close flag together, and the text form of a message.

  \<open>HttpMethod\<close> values come from the table only, so it is a datatype. An \<open>HttpStatus\<close> is made from
  any integer (http_parser.cpp casts the result of \<open>atoi\<close>), so it is the integer itself and
  the enumeration is the table of its named values. \<open>boost::lexical_cast\<close> is an argument of
  \<open>get_value_as\<close>, with \<open>None\<close> for the exception it throws.
\<close>

section \<open>Methods and status codes\<close>

datatype HttpMethod =
    DELETE | GET | HEAD | POST | PUT | CONNECT | OPTIONS | TRACE | COPY | LOCK | MKCOL | MOVE |
    PROPFIND | PROPPATCH | SEARCH | UNLOCK | BIND | REBIND | UNBIND | ACL | REPORT | MKACTIVITY |
    CHECKOUT | MERGE | MSEARCH | NOTIFY | SUBSCRIBE | UNSUBSCRIBE | PATCH | PURGE | MKCALENDAR |
    LINK | UNLINK | SOURCE | HTTP_INVALID_METHOD

type_synonym HttpStatus = int

definition HTTP_METHOD_MAP :: "(HttpMethod \<times> string) list" where
  "HTTP_METHOD_MAP =
    [(DELETE, ''DELETE''), (GET, ''GET''), (HEAD, ''HEAD''), (POST, ''POST''), (PUT, ''PUT''),
     (CONNECT, ''CONNECT''), (OPTIONS, ''OPTIONS''), (TRACE, ''TRACE''), (COPY, ''COPY''),
     (LOCK, ''LOCK''), (MKCOL, ''MKCOL''), (MOVE, ''MOVE''), (PROPFIND, ''PROPFIND''),
     (PROPPATCH, ''PROPPATCH''), (SEARCH, ''SEARCH''), (UNLOCK, ''UNLOCK''), (BIND, ''BIND''),
     (REBIND, ''REBIND''), (UNBIND, ''UNBIND''), (ACL, ''ACL''), (REPORT, ''REPORT''),
     (MKACTIVITY, ''MKACTIVITY''), (CHECKOUT, ''CHECKOUT''), (MERGE, ''MERGE''),
     (MSEARCH, ''M-SEARCH''), (NOTIFY, ''NOTIFY''), (SUBSCRIBE, ''SUBSCRIBE''),
     (UNSUBSCRIBE, ''UNSUBSCRIBE''), (PATCH, ''PATCH''), (PURGE, ''PURGE''),
     (MKCALENDAR, ''MKCALENDAR''), (LINK, ''LINK''), (UNLINK, ''UNLINK''), (SOURCE, ''SOURCE'')]"

definition HTTP_STATUS_MAP :: "(HttpStatus \<times> string) list" where
  "HTTP_STATUS_MAP =
    [(100, ''Continue''), (101, ''Switching Protocols''), (102, ''Processing''), (200, ''OK''),
     (201, ''Created''), (202, ''Accepted''), (203, ''Non-Authoritative Information''),
     (204, ''No Content''), (205, ''Reset Content''), (206, ''Partial Content''),
     (207, ''Multi-Status''), (208, ''Already Reported''), (226, ''IM Used''),
     (300, ''Multiple Choices''), (301, ''Moved Permanently''), (302, ''Found''),
     (303, ''See Other''), (304, ''Not Modified''), (305, ''Use Proxy''),
     (307, ''Temporary Redirect''), (308, ''Permanent Redirect''), (400, ''Bad Request''),
     (401, ''Unauthorized''), (402, ''Payment Required''), (403, ''Forbidden''),
     (404, ''Not Found''), (405, ''Method Not Allowed''), (406, ''Not Acceptable''),
     (407, ''Proxy Authentication Required''), (408, ''Request Timeout''), (409, ''Conflict''),
     (410, ''Gone''), (411, ''Length Required''), (412, ''Precondition Failed''),
     (413, ''Payload Too Large''), (414, ''URI Too Long''), (415, ''Unsupported Media Type''),
     (416, ''Range Not Satisfiable''), (417, ''Expectation Failed''),
     (421, ''Misdirected Request''), (422, ''Unprocessable Entity''), (423, ''Locked''),
     (424, ''Failed Dependency''), (426, ''Upgrade Required''), (428, ''Precondition Required''),
     (429, ''Too Many Requests''), (431, ''Request Header Fields Too Large''),
     (451, ''Unavailable For Legal Reasons''), (500, ''Internal Server Error''),
     (501, ''Not Implemented''), (502, ''Bad Gateway''), (503, ''Service Unavailable''),
     (504, ''Gateway Timeout''), (505, ''HTTP Version Not Supported''),
     (506, ''Variant Also Negotiates''), (507, ''Insufficient Storage''),
     (508, ''Loop Detected''), (510, ''Not Extended''), (511, ''Network Authentication Required'')]"

text \<open>The cascade of comparisons the macro expands to: the first row that matches.\<close>

fun method_of_row :: "(HttpMethod \<times> string) list \<Rightarrow> string \<Rightarrow> HttpMethod" where
  "method_of_row [] m = HTTP_INVALID_METHOD"
| "method_of_row ((name, str) # rows) m = (if str = m then name else method_of_row rows m)"

definition string_to_http_method :: "string \<Rightarrow> HttpMethod" where
  "string_to_http_method m = method_of_row HTTP_METHOD_MAP m"

text \<open>The overload on C strings compares with \<open>strcmp\<close>.\<close>

fun method_of_row_c :: "(HttpMethod \<times> string) list \<Rightarrow> string \<Rightarrow> HttpMethod" where
  "method_of_row_c [] m = HTTP_INVALID_METHOD"
| "method_of_row_c ((name, str) # rows) m =
     (if strcmp (c_str m) str = 0 then name else method_of_row_c rows m)"

definition string_to_http_method_c :: "string \<Rightarrow> HttpMethod" where
  "string_to_http_method_c m = method_of_row_c HTTP_METHOD_MAP m"

definition http_method_to_string :: "HttpMethod \<Rightarrow> string" where
  "http_method_to_string m =
     (case map_of HTTP_METHOD_MAP m of Some s \<Rightarrow> s | None \<Rightarrow> ''<unknown>'')"

definition http_status_to_string :: "HttpStatus \<Rightarrow> string" where
  "http_status_to_string s =
     (case map_of HTTP_STATUS_MAP s of Some t \<Rightarrow> t | None \<Rightarrow> ''<unknown>'')"

section \<open>Header maps\<close>

type_synonym HttpHeaders = "(string \<times> string) list"

definition get_value_as :: "(string \<Rightarrow> 'a option) \<Rightarrow> HttpHeaders \<Rightarrow> string \<Rightarrow> 'a \<Rightarrow> 'a" where
  "get_value_as lexical_cast m key default_value =
     (case map_find CaseInsensitiveLess key m of
        None \<Rightarrow> default_value
      | Some s \<Rightarrow> (case lexical_cast s of None \<Rightarrow> default_value | Some v \<Rightarrow> v))"

text \<open>The body shared by the \<open>get_header\<close>, \<open>get_param\<close> and \<open>get_cookie\<close> of the message classes.\<close>

definition find_or_empty :: "string \<Rightarrow> HttpHeaders \<Rightarrow> string" where
  "find_or_empty name m = (case map_find CaseInsensitiveLess name m of Some v \<Rightarrow> v | None \<Rightarrow> [])"

section \<open>HttpRequest\<close>

record HttpRequest =
  auto_close :: bool
  req_is_websocket :: bool
  parse_flags :: u8
  req_method :: HttpMethod
  req_version :: u8
  req_path :: string
  req_query :: string
  req_fragment :: string
  req_body :: string
  req_headers :: HttpHeaders
  req_params :: HttpHeaders
  req_cookies :: HttpHeaders

definition connection_value :: "bool \<Rightarrow> string" where
  "connection_value close = (if close then ''close'' else ''keep-alive'')"

definition names_connection :: "string \<Rightarrow> bool" where
  "names_connection name \<longleftrightarrow> strcasecmp (c_str name) ''connection'' = 0"

definition says_close :: "string \<Rightarrow> bool" where
  "says_close value \<longleftrightarrow> strcasecmp (c_str value) ''close'' = 0"

lemma says_close_value [simp]: "says_close (connection_value v) \<longleftrightarrow> v"
  by (cases v) (simp_all add: says_close_def connection_value_def c_str_def byte_def tolower_def)

text \<open>\<open>set_auto_close\<close> and \<open>set_header\<close> call each other. The flag differs from its target at most
  once, so the calls nest at most three deep.\<close>

function (sequential) HttpRequest_set_auto_close :: "bool \<Rightarrow> HttpRequest \<Rightarrow> HttpRequest"
and HttpRequest_set_header :: "string \<Rightarrow> string \<Rightarrow> HttpRequest \<Rightarrow> HttpRequest" where
  "HttpRequest_set_auto_close v r =
     (if auto_close r = v then r
      else if \<not> req_is_websocket r
           then HttpRequest_set_header ''connection'' (connection_value v) (r\<lparr>auto_close := v\<rparr>)
           else r\<lparr>auto_close := v\<rparr>)"
| "HttpRequest_set_header name value r =
     (let r' = (if names_connection name
                then (if says_close value then HttpRequest_set_auto_close True r
                      else HttpRequest_set_auto_close False r)
                else r)
      in r'\<lparr>req_headers := map_set CaseInsensitiveLess name value (req_headers r')\<rparr>)"
  by pat_completeness auto

termination
  by (relation "measure (\<lambda>x. case x of
        Inl (v, r) \<Rightarrow> if auto_close r = v then 0 else 2
      | Inr (name, value, r) \<Rightarrow>
          if names_connection name \<and> auto_close r \<noteq> says_close value then 3 else 1)") auto

declare HttpRequest_set_auto_close.simps [simp del] HttpRequest_set_header.simps [simp del]

definition HttpRequest_del_header :: "string \<Rightarrow> HttpRequest \<Rightarrow> HttpRequest" where
  "HttpRequest_del_header name r =
     r\<lparr>req_headers := map_erase CaseInsensitiveLess name (req_headers r)\<rparr>"

definition HttpRequest_init_headers :: "HttpRequest \<Rightarrow> HttpRequest" where
  "HttpRequest_init_headers r =
     (if \<not> req_is_websocket r
      then HttpRequest_set_header ''connection'' (connection_value (auto_close r)) r else r)"

definition mk_HttpRequest :: "u8 \<Rightarrow> bool \<Rightarrow> HttpRequest" where
  "mk_HttpRequest v close = HttpRequest_init_headers
     \<lparr>auto_close = close, req_is_websocket = False, parse_flags = 0, req_method = GET,
      req_version = v, req_path = ''/'', req_query = [], req_fragment = [], req_body = [],
      req_headers = [], req_params = [], req_cookies = []\<rparr>"

definition HttpRequest_set_websocket :: "bool \<Rightarrow> HttpRequest \<Rightarrow> HttpRequest" where
  "HttpRequest_set_websocket v r =
     (if req_is_websocket r = v then r
      else let r' = r\<lparr>req_is_websocket := v\<rparr>
           in if v then HttpRequest_del_header ''connection'' r'
              else HttpRequest_set_header ''connection'' (connection_value (auto_close r')) r')"

definition HttpRequest_set_body :: "string \<Rightarrow> HttpRequest \<Rightarrow> HttpRequest" where
  "HttpRequest_set_body v r =
     (HttpRequest_set_header ''content-length'' (dec (length v)) r)\<lparr>req_body := v\<rparr>"

definition HttpRequest_get_header :: "string \<Rightarrow> HttpRequest \<Rightarrow> string" where
  "HttpRequest_get_header name r = find_or_empty name (req_headers r)"

definition HttpRequest_get_header_as :: "(string \<Rightarrow> 'a option) \<Rightarrow> string \<Rightarrow> 'a \<Rightarrow> HttpRequest \<Rightarrow> 'a" where
  "HttpRequest_get_header_as lexical_cast name d r = get_value_as lexical_cast (req_headers r) name d"

definition HttpRequest_get_param :: "string \<Rightarrow> HttpRequest \<Rightarrow> string" where
  "HttpRequest_get_param name r = find_or_empty name (req_params r)"

definition HttpRequest_del_param :: "string \<Rightarrow> HttpRequest \<Rightarrow> HttpRequest" where
  "HttpRequest_del_param name r = r\<lparr>req_params := map_erase CaseInsensitiveLess name (req_params r)\<rparr>"

definition HttpRequest_set_param :: "string \<Rightarrow> string \<Rightarrow> HttpRequest \<Rightarrow> HttpRequest" where
  "HttpRequest_set_param name value r =
     r\<lparr>req_params := map_set CaseInsensitiveLess name value (req_params r)\<rparr>"

definition HttpRequest_get_cookie :: "string \<Rightarrow> HttpRequest \<Rightarrow> string" where
  "HttpRequest_get_cookie name r = find_or_empty name (req_cookies r)"

definition HttpRequest_del_cookie :: "string \<Rightarrow> HttpRequest \<Rightarrow> HttpRequest" where
  "HttpRequest_del_cookie name r =
     r\<lparr>req_cookies := map_erase CaseInsensitiveLess name (req_cookies r)\<rparr>"

definition HttpRequest_set_cookie :: "string \<Rightarrow> string \<Rightarrow> HttpRequest \<Rightarrow> HttpRequest" where
  "HttpRequest_set_cookie name value r =
     r\<lparr>req_cookies := map_set CaseInsensitiveLess name value (req_cookies r)\<rparr>"

definition CRLF :: string where
  "CRLF = [CHR 0x0D, CHR 0x0A]"

fun print_headers :: "HttpHeaders \<Rightarrow> string" where
  "print_headers [] = []"
| "print_headers ((name, value) # m) = name @ '': '' @ value @ CRLF @ print_headers m"

definition print_version :: "u8 \<Rightarrow> string" where
  "print_version v = ''HTTP/'' @ dec (unat (drop_bit 4 v)) @ ''.'' @ dec (unat (v AND 0x0F))"

definition print_body :: "string \<Rightarrow> string" where
  "print_body b = (if b \<noteq> [] then CRLF @ b else CRLF)"

definition HttpRequest_to_string :: "HttpRequest \<Rightarrow> string" where
  "HttpRequest_to_string r =
     http_method_to_string (req_method r) @ '' '' @ req_path r
     @ (if req_query r = [] then [] else ''?'') @ req_query r
     @ (if req_fragment r = [] then [] else ''#'') @ req_fragment r
     @ '' '' @ print_version (req_version r) @ CRLF
     @ print_headers (req_headers r) @ print_body (req_body r)"

section \<open>HttpResponse\<close>

record HttpResponse =
  close_flag :: bool
  rsp_is_websocket :: bool
  rsp_version :: u8
  rsp_status :: HttpStatus
  rsp_reason :: string
  rsp_body :: string
  rsp_headers :: HttpHeaders
  rsp_cookies :: "string list"

definition HttpResponse_set_header :: "string \<Rightarrow> string \<Rightarrow> HttpResponse \<Rightarrow> HttpResponse" where
  "HttpResponse_set_header name value r =
     r\<lparr>rsp_headers := map_set CaseInsensitiveLess name value (rsp_headers r)\<rparr>"

definition HttpResponse_del_header :: "string \<Rightarrow> HttpResponse \<Rightarrow> HttpResponse" where
  "HttpResponse_del_header name r =
     r\<lparr>rsp_headers := map_erase CaseInsensitiveLess name (rsp_headers r)\<rparr>"

definition HttpResponse_get_header :: "string \<Rightarrow> HttpResponse \<Rightarrow> string" where
  "HttpResponse_get_header name r = find_or_empty name (rsp_headers r)"

definition HttpResponse_get_header_as :: "(string \<Rightarrow> 'a option) \<Rightarrow> string \<Rightarrow> 'a \<Rightarrow> HttpResponse \<Rightarrow> 'a" where
  "HttpResponse_get_header_as lexical_cast name d r = get_value_as lexical_cast (rsp_headers r) name d"

definition HttpResponse_init_headers :: "HttpResponse \<Rightarrow> HttpResponse" where
  "HttpResponse_init_headers r =
     (if \<not> rsp_is_websocket r
      then HttpResponse_set_header ''connection'' (connection_value (close_flag r)) r else r)"

definition mk_HttpResponse :: "u8 \<Rightarrow> bool \<Rightarrow> HttpResponse" where
  "mk_HttpResponse v close = HttpResponse_init_headers
     \<lparr>close_flag = close, rsp_is_websocket = False, rsp_version = v, rsp_status = 200,
      rsp_reason = [], rsp_body = [], rsp_headers = [], rsp_cookies = []\<rparr>"

definition HttpResponse_set_close :: "bool \<Rightarrow> HttpResponse \<Rightarrow> HttpResponse" where
  "HttpResponse_set_close v r =
     (if close_flag r = v then r
      else let r' = r\<lparr>close_flag := v\<rparr>
           in if \<not> rsp_is_websocket r'
              then HttpResponse_set_header ''connection'' (connection_value (close_flag r')) r'
              else r')"

definition HttpResponse_set_websocket :: "bool \<Rightarrow> HttpResponse \<Rightarrow> HttpResponse" where
  "HttpResponse_set_websocket v r =
     (if rsp_is_websocket r = v then r
      else let r' = r\<lparr>rsp_is_websocket := v\<rparr>
           in if v then HttpResponse_del_header ''connection'' r'
              else HttpResponse_set_header ''connection'' (connection_value (close_flag r')) r')"

definition HttpResponse_set_body :: "string \<Rightarrow> HttpResponse \<Rightarrow> HttpResponse" where
  "HttpResponse_set_body v r =
     (HttpResponse_set_header ''content-length'' (dec (length v)) r)\<lparr>rsp_body := v\<rparr>"

definition print_cookies :: "string list \<Rightarrow> string" where
  "print_cookies cs = concat (map (\<lambda>c. ''Set-Cookie: '' @ c @ CRLF) cs)"

text \<open>\<open>static_cast<uint32_t>\<close> of the status: the value modulo \<open>2 ^ 32\<close>.\<close>

definition HttpResponse_to_string :: "HttpResponse \<Rightarrow> string" where
  "HttpResponse_to_string r =
     print_version (rsp_version r) @ '' '' @ dec (nat (rsp_status r mod 2 ^ 32)) @ '' ''
     @ http_status_to_string (rsp_status r) @ CRLF
     @ print_headers (rsp_headers r) @ print_cookies (rsp_cookies r) @ print_body (rsp_body r)"

section \<open>Names of methods\<close>

lemma method_table_distinct:
  "distinct (map fst HTTP_METHOD_MAP)" "distinct (map snd HTTP_METHOD_MAP)"
  by code_simp+

lemma method_table_names: "m \<in> fst ` set HTTP_METHOD_MAP \<longleftrightarrow> m \<noteq> HTTP_INVALID_METHOD"
  by (cases m) (simp_all add: HTTP_METHOD_MAP_def)

lemma method_table_no_nul: "s \<in> snd ` set HTTP_METHOD_MAP \<Longrightarrow> CHR 0x00 \<notin> set s"
  by (auto simp: HTTP_METHOD_MAP_def)

lemma method_of_row_mem:
  "distinct (map snd t) \<Longrightarrow> (m, s) \<in> set t \<Longrightarrow> method_of_row t s = m"
proof (induction t)
  case (Cons row t)
  have "s \<in> snd ` set t" if "(m, s) \<in> set t" using that by force
  with Cons show ?case by (cases row) auto
qed simp

lemma method_of_row_not_mem: "s \<notin> snd ` set t \<Longrightarrow> method_of_row t s = HTTP_INVALID_METHOD"
  by (induction t) auto

lemma method_of_row_c_eq:
  "(\<forall>x \<in> snd ` set t. CHR 0x00 \<notin> set x) \<Longrightarrow> method_of_row_c t s = method_of_row t (c_str s)"
  by (induction t) (auto simp: strcmp_eq_0 c_str_no_nul)

lemma method_row: "m \<noteq> HTTP_INVALID_METHOD \<Longrightarrow> (m, http_method_to_string m) \<in> set HTTP_METHOD_MAP"
proof -
  assume "m \<noteq> HTTP_INVALID_METHOD"
  then obtain s where "(m, s) \<in> set HTTP_METHOD_MAP" using method_table_names [of m] by auto
  then show ?thesis using map_of_is_SomeI [OF method_table_distinct(1)] by (simp add: http_method_to_string_def)
qed

lemma method_of_name:
  assumes "m \<noteq> HTTP_INVALID_METHOD"
  shows "string_to_http_method (http_method_to_string m) = m"
  unfolding string_to_http_method_def
  by (rule method_of_row_mem [OF method_table_distinct(2) method_row [OF assms]])

lemma name_of_method:
  assumes "string_to_http_method s \<noteq> HTTP_INVALID_METHOD"
  shows "http_method_to_string (string_to_http_method s) = s"
proof -
  have "s \<in> snd ` set HTTP_METHOD_MAP"
    using assms method_of_row_not_mem unfolding string_to_http_method_def by blast
  then obtain m where m: "(m, s) \<in> set HTTP_METHOD_MAP" by auto
  then have "http_method_to_string m = s"
    using map_of_is_SomeI [OF method_table_distinct(1) m] by (simp add: http_method_to_string_def)
  moreover have "string_to_http_method s = m"
    unfolding string_to_http_method_def by (rule method_of_row_mem [OF method_table_distinct(2) m])
  ultimately show ?thesis by simp
qed

lemma string_to_http_method_iff:
  "string_to_http_method s = m \<longleftrightarrow>
     (if m = HTTP_INVALID_METHOD then s \<notin> http_method_to_string ` (UNIV - {HTTP_INVALID_METHOD})
      else s = http_method_to_string m)"
proof (cases "string_to_http_method s = HTTP_INVALID_METHOD")
  case True
  then have "s \<noteq> http_method_to_string k" if "k \<noteq> HTTP_INVALID_METHOD" for k
    using method_of_name [OF that] that by auto
  with True show ?thesis by auto
next
  case False
  have "s = http_method_to_string m \<Longrightarrow> m \<noteq> HTTP_INVALID_METHOD \<Longrightarrow> string_to_http_method s = m"
    using method_of_name by simp
  with False name_of_method [OF False] show ?thesis by (metis DiffI UNIV_I image_eqI singletonD)
qed

lemma invalid_method_unnamed:
  "string_to_http_method (http_method_to_string HTTP_INVALID_METHOD) = HTTP_INVALID_METHOD"
  by code_simp

lemma string_to_http_method_c_eq: "string_to_http_method_c s = string_to_http_method (c_str s)"
  unfolding string_to_http_method_c_def string_to_http_method_def
  by (rule method_of_row_c_eq) (rule ballI, erule method_table_no_nul)

text \<open>
  Method names: a string is read as the method \<open>m\<close> exactly when it is the printed name of
  \<open>m\<close>, and as the invalid method exactly when it is the name of no method. So printing and
  reading are inverse to each other, and the overload on C strings agrees up to the first NUL.
\<close>

theorem http_method_roundtrip:
  "(string_to_http_method s = m \<longleftrightarrow>
      (if m = HTTP_INVALID_METHOD then s \<notin> http_method_to_string ` (UNIV - {HTTP_INVALID_METHOD})
       else s = http_method_to_string m))
   \<and> string_to_http_method (http_method_to_string m) = m
   \<and> string_to_http_method_c s = string_to_http_method (c_str s)"
proof (intro conjI)
  show "string_to_http_method (http_method_to_string m) = m"
    by (cases "m = HTTP_INVALID_METHOD") (simp_all add: invalid_method_unnamed method_of_name)
qed (fact string_to_http_method_iff string_to_http_method_c_eq)+

section \<open>Laws of the header maps\<close>

lemma find_or_empty_set:
  "find_or_empty n (map_set CaseInsensitiveLess n' v m) =
     (if fold_case n = fold_case n' then v else find_or_empty n m)"
  by (simp add: find_or_empty_def nocase.map_find_set)

lemma find_or_empty_erase:
  "sorted_wrt CaseInsensitiveLess (map_keys m) \<Longrightarrow>
   find_or_empty n (map_erase CaseInsensitiveLess n' m) =
     (if fold_case n = fold_case n' then [] else find_or_empty n m)"
  by (simp add: find_or_empty_def nocase.map_find_erase)

lemma names_connection_iff: "names_connection n \<longleftrightarrow> fold_case n = fold_case ''connection''"
  using strcasecmp_c_str [of n "''connection''"] by (simp add: names_connection_def c_str_id)

lemma HttpRequest_set_auto_close_eq:
  "HttpRequest_set_auto_close v r =
     (if auto_close r = v \<or> req_is_websocket r then r\<lparr>auto_close := v\<rparr>
      else r\<lparr>auto_close := v,
             req_headers := map_set CaseInsensitiveLess ''connection'' (connection_value v) (req_headers r)\<rparr>)"
  by (auto simp: HttpRequest_set_auto_close.simps HttpRequest_set_header.simps)

lemma HttpRequest_set_header_eq:
  "HttpRequest_set_header name value r =
     (let r' = (if names_connection name then HttpRequest_set_auto_close (says_close value) r else r)
      in r'\<lparr>req_headers := map_set CaseInsensitiveLess name value (req_headers r')\<rparr>)"
  by (cases "says_close value") (simp_all add: HttpRequest_set_header.simps)

lemma HttpRequest_get_set_header:
  "HttpRequest_get_header n (HttpRequest_set_header n' v r) =
     (if fold_case n = fold_case n' then v else HttpRequest_get_header n r)"
  by (auto simp: HttpRequest_get_header_def HttpRequest_set_header_eq HttpRequest_set_auto_close_eq
      find_or_empty_set names_connection_iff Let_def)

lemma HttpResponse_get_set_header:
  "HttpResponse_get_header n (HttpResponse_set_header n' v r) =
     (if fold_case n = fold_case n' then v else HttpResponse_get_header n r)"
  by (simp add: HttpResponse_get_header_def HttpResponse_set_header_def find_or_empty_set)

lemma get_value_as_set:
  "get_value_as lc (map_set CaseInsensitiveLess n' v m) n d =
     (if fold_case n = fold_case n' then (case lc v of None \<Rightarrow> d | Some x \<Rightarrow> x) else get_value_as lc m n d)"
  by (simp add: get_value_as_def nocase.map_find_set)

lemma HttpRequest_set_body_headers:
  "req_headers (HttpRequest_set_body b r) =
     map_set CaseInsensitiveLess ''content-length'' (dec (length b)) (req_headers r)"
proof -
  have "\<not> names_connection ''content-length''"
    by (simp add: names_connection_def c_str_def byte_def tolower_def)
  then show ?thesis by (simp add: HttpRequest_set_body_def HttpRequest_set_header_eq)
qed

lemma fold_case_content_length: "fold_case ''Content-Length'' = fold_case ''content-length''"
  by (simp add: fold_case_def c_str_def byte_def tolower_def)

lemma HttpRequest_body_length:
  "req_body (HttpRequest_set_body b r) = b"
  "HttpRequest_get_header ''Content-Length'' (HttpRequest_set_body b r) = dec (length b)"
  "lc (dec (length b)) = Some n \<Longrightarrow>
     HttpRequest_get_header_as lc ''content-length'' d (HttpRequest_set_body b r) = n"
  by (simp_all add: HttpRequest_get_header_def HttpRequest_get_header_as_def HttpRequest_set_body_headers
      find_or_empty_set get_value_as_set fold_case_content_length)
    (simp add: HttpRequest_set_body_def)

lemma HttpResponse_body_length:
  "rsp_body (HttpResponse_set_body b s) = b"
  "lc (dec (length b)) = Some n \<Longrightarrow>
     HttpResponse_get_header_as lc ''content-length'' d (HttpResponse_set_body b s) = n"
  by (simp_all add: HttpResponse_set_body_def HttpResponse_get_header_as_def HttpResponse_set_header_def
      get_value_as_set)

text \<open>
  The header map of a message: after \<open>set_header\<close> the value is found under every spelling of
  the name that differs in letter case only, and every other header keeps its value, also when
  the header is \<open>connection\<close> and the call updates the close flag on the way. After \<open>set_body\<close>
  the body is stored and \<open>content-length\<close> reads back, as text and through a numeric reader, as
  the length of the body, on requests and on responses.
\<close>

theorem http_headers_case_insensitive:
  assumes reads: "\<forall>n. lexical_cast (dec n) = Some n"
  shows "HttpRequest_get_header n (HttpRequest_set_header n' v r) =
           (if fold_case n = fold_case n' then v else HttpRequest_get_header n r)
       \<and> HttpResponse_get_header n (HttpResponse_set_header n' v s) =
           (if fold_case n = fold_case n' then v else HttpResponse_get_header n s)
       \<and> req_body (HttpRequest_set_body b r) = b \<and> rsp_body (HttpResponse_set_body b s) = b
       \<and> HttpRequest_get_header ''Content-Length'' (HttpRequest_set_body b r) = dec (length b)
       \<and> HttpRequest_get_header_as lexical_cast ''content-length'' 0 (HttpRequest_set_body b r) = length b
       \<and> HttpResponse_get_header_as lexical_cast ''content-length'' 0 (HttpResponse_set_body b s) = length b"
  using reads HttpRequest_body_length(3) [of lexical_cast] HttpResponse_body_length(2) [of lexical_cast]
    HttpRequest_body_length(1,2) HttpResponse_body_length(1)
    HttpRequest_get_set_header HttpResponse_get_set_header by simp

theorem http_headers_case_insensitive_witness:
  "HttpRequest_get_header_as (\<lambda>s. Some (undec s)) ''content-length'' 0
     (HttpRequest_set_body ''hello'' (mk_HttpRequest 0x11 True)) = 5"
  using http_headers_case_insensitive [of "\<lambda>s. Some (undec s)" _ _ _ "mk_HttpRequest 0x11 True"
      "mk_HttpResponse 0x11 True" "''hello''"] by simp

section \<open>The connection header and the close flag\<close>

text \<open>
  The states of a request that its constructor and its mutators produce. The wholesale
  \<open>set_headers\<close> is left out: it replaces the map without looking at the flag.
\<close>

inductive request_built :: "HttpRequest \<Rightarrow> bool" where
  new: "request_built (mk_HttpRequest v close)"
| set_auto_close: "request_built r \<Longrightarrow> request_built (HttpRequest_set_auto_close b r)"
| set_websocket: "request_built r \<Longrightarrow> request_built (HttpRequest_set_websocket b r)"
| set_header: "request_built r \<Longrightarrow> request_built (HttpRequest_set_header n v r)"
| del_header: "request_built r \<Longrightarrow> request_built (HttpRequest_del_header n r)"
| init_headers: "request_built r \<Longrightarrow> request_built (HttpRequest_init_headers r)"
| set_body: "request_built r \<Longrightarrow> request_built (HttpRequest_set_body b r)"
| set_line: "request_built r \<Longrightarrow> request_built (r\<lparr>req_method := m, req_version := v, req_path := p,
    req_query := q, req_fragment := f\<rparr>)"
| set_param: "request_built r \<Longrightarrow> request_built (HttpRequest_set_param n v r)"
| del_param: "request_built r \<Longrightarrow> request_built (HttpRequest_del_param n r)"
| set_cookie: "request_built r \<Longrightarrow> request_built (HttpRequest_set_cookie n v r)"
| del_cookie: "request_built r \<Longrightarrow> request_built (HttpRequest_del_cookie n r)"

definition connection_header :: "HttpRequest \<Rightarrow> string option" where
  "connection_header r = map_find CaseInsensitiveLess ''connection'' (req_headers r)"

text \<open>The maps are ordered, and the flag is what the header says.\<close>

definition request_ok :: "HttpRequest \<Rightarrow> bool" where
  "request_ok r \<longleftrightarrow>
     sorted_wrt CaseInsensitiveLess (map_keys (req_headers r))
     \<and> sorted_wrt CaseInsensitiveLess (map_keys (req_params r))
     \<and> sorted_wrt CaseInsensitiveLess (map_keys (req_cookies r))
     \<and> (req_is_websocket r
        \<or> pred_option (\<lambda>v. auto_close r = says_close v) (connection_header r))"

lemmas request_defs = request_ok_def connection_header_def HttpRequest_set_header_eq
  HttpRequest_set_auto_close_eq HttpRequest_del_header_def

lemma request_ok_set_auto_close [wf_intros]: "request_ok r \<Longrightarrow> request_ok (HttpRequest_set_auto_close v r)"
  by (auto simp: request_defs nocase.map_find_set intro: nocase.map_set_sorted)

lemma request_ok_set_header [wf_intros]: "request_ok r \<Longrightarrow> request_ok (HttpRequest_set_header n v r)"
  by (auto simp: request_defs nocase.map_find_set names_connection_iff Let_def
      intro!: nocase.map_set_sorted)

lemma request_ok_del_header [wf_intros]: "request_ok r \<Longrightarrow> request_ok (HttpRequest_del_header n r)"
  by (auto simp: request_defs nocase.map_find_erase intro!: nocase.map_erase_sorted)

text \<open>Leaving websocket mode writes the header anew, whatever it was before.\<close>

lemma request_ok_write_connection:
  assumes "request_ok r"
  shows "request_ok (HttpRequest_set_header ''connection'' v (r\<lparr>req_is_websocket := w\<rparr>))"
proof -
  have "names_connection ''connection''" by (simp add: names_connection_iff)
  with assms show ?thesis
    by (auto simp: request_defs nocase.map_find_set Let_def intro!: nocase.map_set_sorted)
qed

lemma request_ok_set_websocket [wf_intros]:
  assumes "request_ok r"
  shows "request_ok (HttpRequest_set_websocket v r)"
proof (cases v)
  case True
  with assms show ?thesis
    by (auto simp: HttpRequest_set_websocket_def request_ok_def HttpRequest_del_header_def Let_def
        intro!: nocase.map_erase_sorted)
next
  case False
  with assms request_ok_write_connection show ?thesis
    by (simp add: HttpRequest_set_websocket_def Let_def)
qed

lemma request_ok_init_headers [wf_intros]: "request_ok r \<Longrightarrow> request_ok (HttpRequest_init_headers r)"
  by (simp add: HttpRequest_init_headers_def wf_intros)

lemma request_ok_new [wf_intros]: "request_ok (mk_HttpRequest v close)"
  unfolding mk_HttpRequest_def by (rule request_ok_init_headers) (simp add: request_ok_def connection_header_def)

lemma request_ok_set_body [wf_intros]:
  assumes "request_ok r"
  shows "request_ok (HttpRequest_set_body b r)"
  using request_ok_set_header [OF assms, of "''content-length''" "dec (length b)"]
  by (simp add: HttpRequest_set_body_def request_ok_def connection_header_def)

lemmas request_ok_rest_defs = request_ok_def connection_header_def HttpRequest_set_param_def
  HttpRequest_del_param_def HttpRequest_set_cookie_def HttpRequest_del_cookie_def



text \<open>
  A response does not follow its header: \<open>set_header(''connection'', ...)\<close> leaves the flag
  \<open>is_close\<close>, which the server obeys, as it was. After this call on a fresh keep-alive response
  the client is told \<open>close\<close> while the server goes on reading; the same call on a request
  would have set the flag.
\<close>

theorem response_header_can_disagree:
  "close_flag (HttpResponse_set_header n v r) = close_flag r
   \<and> HttpResponse_get_header ''connection'' (HttpResponse_set_header ''Connection'' ''close'' (mk_HttpResponse ver False)) = ''close''
   \<and> \<not> close_flag (HttpResponse_set_header ''Connection'' ''close'' (mk_HttpResponse ver False))
   \<and> auto_close (HttpRequest_set_header ''Connection'' ''close'' (mk_HttpRequest ver False))"
proof -
  have "fold_case ''connection'' = fold_case ''Connection''"
    by (simp add: fold_case_def c_str_def byte_def tolower_def)
  moreover have "says_close ''close''" using says_close_value [of True] by (simp add: connection_value_def)
  ultimately show ?thesis
    by (simp add: HttpResponse_get_set_header) (auto simp: HttpResponse_set_header_def mk_HttpResponse_def
        HttpResponse_init_headers_def HttpRequest_set_header_eq HttpRequest_set_auto_close_eq
        names_connection_iff Let_def)
qed

section \<open>The text form of a message\<close>

text \<open>
  What a receiver makes of the text: the start line up to the first CRLF, header fields up to
  the empty line, and the rest as the body.
\<close>

fun split_crlf :: "string \<Rightarrow> (string \<times> string) option" where
  "split_crlf (c # d # s) =
     (if c = CHR 0x0D \<and> d = CHR 0x0A then Some ([], s)
      else map_option (\<lambda>(l, r). (c # l, r)) (split_crlf (d # s)))"
| "split_crlf s = None"

fun split_field :: "string \<Rightarrow> (string \<times> string) option" where
  "split_field (c # d # s) =
     (if c = CHR '':'' \<and> d = CHR '' '' then Some ([], s)
      else map_option (\<lambda>(l, r). (c # l, r)) (split_field (d # s)))"
| "split_field s = None"

lemma split_crlf_shorter: "split_crlf s = Some (l, r) \<Longrightarrow> length r < length s"
  by (induction s arbitrary: l rule: split_crlf.induct) (fastforce split: if_splits)+

function read_headers :: "string \<Rightarrow> (HttpHeaders \<times> string) option" where
  "read_headers s =
     (case split_crlf s of
        None \<Rightarrow> None
      | Some (line, rest) \<Rightarrow>
          if line = [] then Some ([], rest)
          else case split_field line of
                 None \<Rightarrow> None
               | Some h \<Rightarrow> map_option (\<lambda>(hs, b). (h # hs, b)) (read_headers rest))"
  by pat_completeness auto

termination
  by (relation "measure length") (auto dest: split_crlf_shorter)

declare read_headers.simps [simp del]

definition read_message :: "string \<Rightarrow> (string \<times> HttpHeaders \<times> string) option" where
  "read_message s =
     (case split_crlf s of None \<Rightarrow> None
      | Some (line, rest) \<Rightarrow> map_option (\<lambda>(hs, b). (line, hs, b)) (read_headers rest))"

definition field_clean :: "string \<times> string \<Rightarrow> bool" where
  "field_clean h \<longleftrightarrow> fst h \<noteq> [] \<and> CHR '':'' \<notin> set (fst h) \<and> CHR 0x0D \<notin> set (fst h @ snd h)"

definition request_line :: "HttpRequest \<Rightarrow> string" where
  "request_line r = http_method_to_string (req_method r) @ '' '' @ req_path r
     @ (if req_query r = [] then [] else ''?'' @ req_query r)
     @ (if req_fragment r = [] then [] else ''#'' @ req_fragment r) @ '' '' @ print_version (req_version r)"

definition status_line :: "HttpResponse \<Rightarrow> string" where
  "status_line r = print_version (rsp_version r) @ '' '' @ dec (nat (rsp_status r mod 2 ^ 32)) @ '' ''
     @ http_status_to_string (rsp_status r)"

lemma split_crlf_line: "CHR 0x0D \<notin> set l \<Longrightarrow> split_crlf (l @ CRLF @ s) = Some (l, s)"
proof (induction l)
  case (Cons c l)
  then show ?case by (cases "l @ CRLF @ s") (auto simp: CRLF_def)
qed (simp add: CRLF_def)

lemma split_field_line: "CHR '':'' \<notin> set n \<Longrightarrow> split_field (n @ '': '' @ v) = Some (n, v)"
proof (induction n)
  case (Cons c n)
  then show ?case by (cases "n @ '': '' @ v") auto
qed simp

lemma read_headers_end: "read_headers (CRLF @ b) = Some ([], b)"
  using split_crlf_line [of "[]" b] by (simp add: read_headers.simps)

lemma read_headers_field:
  assumes "field_clean (n, v)"
  shows "read_headers (n @ '': '' @ v @ CRLF @ s) =
    map_option (\<lambda>(hs, b). ((n, v) # hs, b)) (read_headers s)"
proof -
  have "split_crlf ((n @ '': '' @ v) @ CRLF @ s) = Some (n @ '': '' @ v, s)"
    using assms by (intro split_crlf_line) (auto simp: field_clean_def)
  moreover have "split_field (n @ '': '' @ v) = Some (n, v)"
    using assms by (intro split_field_line) (simp add: field_clean_def)
  ultimately show ?thesis by (subst read_headers.simps) simp
qed

lemma read_print_headers:
  "(\<forall>h \<in> set m. field_clean h) \<Longrightarrow>
     read_headers (print_headers m @ s) = map_option (\<lambda>(hs, b). (m @ hs, b)) (read_headers s)"
proof (induction m)
  case Nil
  then show ?case by (simp add: case_prod_beta option.map_ident)
next
  case (Cons h m)
  obtain n v where h: "h = (n, v)" by fastforce
  with Cons read_headers_field [of n v "print_headers m @ s"] show ?case
    by (simp add: option.map_comp comp_def case_prod_beta)
qed

lemma print_cookies_headers: "print_cookies cs = print_headers (map (Pair ''Set-Cookie'') cs)"
  by (induction cs) (simp_all add: print_cookies_def)

lemma print_body_eq: "print_body b = CRLF @ b"
  by (simp add: print_body_def)

lemma dec_no_cr: "CHR 0x0D \<notin> set (dec n)"
  using dec_digits [of "CHR 0x0D" n] by (auto simp: is_digit_def byte_def)

lemma print_version_no_cr: "CHR 0x0D \<notin> set (print_version v)"
  by (simp add: print_version_def dec_no_cr)

lemma map_of_no_cr:
  "(\<forall>x \<in> snd ` set t. CHR 0x0D \<notin> set x) \<Longrightarrow>
   CHR 0x0D \<notin> set (case map_of t k of Some s \<Rightarrow> s | None \<Rightarrow> ''<unknown>'')"
  by (fastforce split: option.splits dest: map_of_SomeD)

lemma method_no_cr: "CHR 0x0D \<notin> set (http_method_to_string m)"
  unfolding http_method_to_string_def by (rule map_of_no_cr) (simp add: HTTP_METHOD_MAP_def)

lemma status_no_cr: "CHR 0x0D \<notin> set (http_status_to_string c)"
  unfolding http_status_to_string_def by (rule map_of_no_cr) (simp add: HTTP_STATUS_MAP_def)

lemma read_message_text:
  assumes "CHR 0x0D \<notin> set l" and "\<forall>h \<in> set m. field_clean h"
  shows "read_message (l @ CRLF @ print_headers m @ CRLF @ b) = Some (l, m, b)"
  using split_crlf_line [OF assms(1)] read_print_headers [OF assms(2)] read_headers_end
  by (simp add: read_message_def)

text \<open>
  The text of a message reads back: when no start-line part, header name, header value or
  cookie contains a carriage return and no header name is empty or contains a colon, a reader
  that splits at CRLF recovers from \<open>operator<<\<close> the start line, the header fields in the order
  of the map (followed by one \<open>Set-Cookie\<close> field per cookie of a response) and the body, byte for byte.
\<close>

theorem message_text_roundtrip:
  assumes "CHR 0x0D \<notin> set (req_path r @ req_query r @ req_fragment r)"
    and "\<forall>h \<in> set (req_headers r). field_clean h"
    and "\<forall>h \<in> set (rsp_headers s). field_clean h"
    and "\<forall>c \<in> set (rsp_cookies s). CHR 0x0D \<notin> set c"
  shows "read_message (HttpRequest_to_string r) = Some (request_line r, req_headers r, req_body r)
    \<and> read_message (HttpResponse_to_string s) =
        Some (status_line s, rsp_headers s @ map (Pair ''Set-Cookie'') (rsp_cookies s), rsp_body s)"
proof
  have "CHR 0x0D \<notin> set (request_line r)"
    using assms(1) by (simp add: request_line_def method_no_cr print_version_no_cr)
  from read_message_text [OF this assms(2), of "req_body r"]
  show "read_message (HttpRequest_to_string r) = Some (request_line r, req_headers r, req_body r)"
    by (simp add: HttpRequest_to_string_def request_line_def print_body_eq split: if_splits)
next
  have "CHR 0x0D \<notin> set (status_line s)"
    by (simp add: status_line_def print_version_no_cr dec_no_cr status_no_cr)
  moreover have "\<forall>h \<in> set (rsp_headers s @ map (Pair ''Set-Cookie'') (rsp_cookies s)). field_clean h"
    using assms(3,4) by (auto simp: field_clean_def)
  moreover have "print_headers (a @ c) = print_headers a @ print_headers c" for a c
    by (induction a rule: print_headers.induct) auto
  ultimately show "read_message (HttpResponse_to_string s) =
      Some (status_line s, rsp_headers s @ map (Pair ''Set-Cookie'') (rsp_cookies s), rsp_body s)"
    using read_message_text [of "status_line s" "rsp_headers s @ map (Pair ''Set-Cookie'') (rsp_cookies s)" "rsp_body s"]
    by (simp add: HttpResponse_to_string_def status_line_def print_body_eq print_cookies_headers)
qed

theorem message_text_roundtrip_witness:
  "read_message (HttpRequest_to_string (mk_HttpRequest 0x11 True)) =
     Some (''GET / HTTP/1.1'', [(''connection'', ''close'')], [])"
proof -
  have r: "mk_HttpRequest 0x11 True =
    \<lparr>auto_close = True, req_is_websocket = False, parse_flags = 0, req_method = GET,
      req_version = 0x11, req_path = ''/'', req_query = [], req_fragment = [], req_body = [],
      req_headers = [(''connection'', ''close'')], req_params = [], req_cookies = []\<rparr>"
    by (simp add: mk_HttpRequest_def HttpRequest_init_headers_def HttpRequest_set_header_eq
        HttpRequest_set_auto_close_eq Let_def connection_value_def)
      (use says_close_value [of True] in \<open>simp add: connection_value_def\<close>)
  have s: "rsp_headers (mk_HttpResponse 0x11 True) = [(''connection'', ''close'')]"
    "rsp_cookies (mk_HttpResponse 0x11 True) = []"
    by (simp_all add: mk_HttpResponse_def HttpResponse_init_headers_def HttpResponse_set_header_def connection_value_def)
  have "request_line (mk_HttpRequest 0x11 True) = ''GET / HTTP/1.1''"
    unfolding r by code_simp
  then show ?thesis
    using message_text_roundtrip [of "mk_HttpRequest 0x11 True" "mk_HttpResponse 0x11 True"] s
    by (simp add: r field_clean_def)
qed

end
