(* ===== verification/Servlet.thy ===== *)
theory Servlet
  imports Http
begin

text \<open>
  The servlets of src/sylar/http/http_servlet.h and http_servlet.cpp. A servlet is an object
  with a name and the virtual method \<open>handle_request\<close>, which may change the request, the
  response and whatever the session \<open>'w\<close> reaches, and may throw. Pointers to servlets that may
  be null are options. \<open>fnmatch\<close> of the C library is an argument of the lookups; the
  reader-writer lock makes every operation one atomic step.
\<close>

section \<open>Servlets\<close>

type_synonym 'w exchange = "HttpRequest \<times> HttpResponse \<times> 'w"
type_synonym 'w handler = "'w exchange \<Rightarrow> ('w exchange, bool) outcome"

record 'w HttpServlet =
  servlet_name :: string
  servlet_handle :: "'w handler"

text \<open>An empty callback is refused by the constructor.\<close>

definition mk_FunctionHttpServlet :: "'w handler option \<Rightarrow> string \<Rightarrow> cpp_error + 'w HttpServlet" where
  "mk_FunctionHttpServlet cb name =
     (case cb of
        None \<Rightarrow> Inl Invalid_argument
      | Some f \<Rightarrow> Inr \<lparr>servlet_name = name, servlet_handle = f\<rparr>)"

definition not_found_page :: string where
  "not_found_page = ''<html><head><title>404 Not Found</title></head>''
     @ ''<body><center><h1>404 Not Found</h1></center>''
     @ ''<hr><center>sylar http server</center></body></html>''"

definition NotFoundServlet_handle_request :: "'w handler" where
  "NotFoundServlet_handle_request x =
     (case x of (request, response, session) \<Rightarrow>
        let r1 = response\<lparr>rsp_status := 404\<rparr>;
            r2 = HttpResponse_set_header ''Server'' ''sylar/1.0.0'' r1;
            r3 = HttpResponse_set_header ''Content-Type'' ''text/html'' r2;
            r4 = HttpResponse_set_body not_found_page r3
        in (Inr True, (request, r4, session)))"

definition mk_NotFoundServlet :: "string \<Rightarrow> 'w HttpServlet" where
  "mk_NotFoundServlet name = \<lparr>servlet_name = name, servlet_handle = NotFoundServlet_handle_request\<rparr>"

section \<open>Dispatch\<close>

record 'w ServletDispatch =
  default_servlet :: "'w HttpServlet option"
  exact_matchs :: "string \<rightharpoonup> 'w HttpServlet option"
  fuzzy_matchs :: "(string \<times> 'w HttpServlet option) list"

definition mk_ServletDispatch :: "'w ServletDispatch" where
  "mk_ServletDispatch =
     \<lparr>default_servlet = Some (mk_NotFoundServlet ''not found servlet''), exact_matchs = Map.empty,
      fuzzy_matchs = []\<rparr>"

definition get_default_servlet :: "'w ServletDispatch \<Rightarrow> 'w HttpServlet option" where
  "get_default_servlet d = default_servlet d"

definition set_default_servlet :: "'w HttpServlet option \<Rightarrow> 'w ServletDispatch \<Rightarrow> 'w ServletDispatch" where
  "set_default_servlet v d = d\<lparr>default_servlet := v\<rparr>"

definition get_exact_servlet :: "string \<Rightarrow> 'w ServletDispatch \<Rightarrow> 'w HttpServlet option" where
  "get_exact_servlet url d = (case exact_matchs d url of None \<Rightarrow> None | Some s \<Rightarrow> s)"

fun fuzzy_loop :: "(string \<Rightarrow> string \<Rightarrow> int) \<Rightarrow> string \<Rightarrow> (string \<times> 'w HttpServlet option) list \<Rightarrow> 'w HttpServlet option" where
  "fuzzy_loop fnmatch url [] = None"
| "fuzzy_loop fnmatch url ((pat, s) # rest) =
     (if fnmatch (c_str pat) (c_str url) = 0 then s else fuzzy_loop fnmatch url rest)"

definition get_fuzzy_servlet ::
  "(string \<Rightarrow> string \<Rightarrow> int) \<Rightarrow> string \<Rightarrow> 'w ServletDispatch \<Rightarrow> 'w HttpServlet option" where
  "get_fuzzy_servlet fnmatch url d = fuzzy_loop fnmatch url (fuzzy_matchs d)"

definition get_servlet ::
  "(string \<Rightarrow> string \<Rightarrow> int) \<Rightarrow> string \<Rightarrow> 'w ServletDispatch \<Rightarrow> 'w HttpServlet option" where
  "get_servlet fnmatch url d =
     (case get_exact_servlet url d of Some s \<Rightarrow> Some s | None \<Rightarrow> get_fuzzy_servlet fnmatch url d)"

definition ServletDispatch_handle_request ::
  "(string \<Rightarrow> string \<Rightarrow> int) \<Rightarrow> 'w ServletDispatch \<Rightarrow> 'w handler" where
  "ServletDispatch_handle_request fnmatch d x =
     (let matched = (case get_servlet fnmatch (req_path (fst x)) d of
                       Some s \<Rightarrow> Some s | None \<Rightarrow> get_default_servlet d)
      in case matched of Some s \<Rightarrow> servlet_handle s x | None \<Rightarrow> (Inr False, x))"

definition add_exact_servlet :: "string \<Rightarrow> 'w HttpServlet option \<Rightarrow> 'w ServletDispatch \<Rightarrow> 'w ServletDispatch" where
  "add_exact_servlet url s d = d\<lparr>exact_matchs := (exact_matchs d)(url \<mapsto> s)\<rparr>"

definition add_exact_function ::
  "string \<Rightarrow> 'w handler option \<Rightarrow> 'w ServletDispatch \<Rightarrow> ('w ServletDispatch, unit) outcome" where
  "add_exact_function url cb d =
     (case mk_FunctionHttpServlet cb ''function http servlet'' of
        Inl e \<Rightarrow> (Inl e, d) | Inr s \<Rightarrow> (Inr (), add_exact_servlet url (Some s) d))"

fun put_fuzzy :: "string \<Rightarrow> 'v \<Rightarrow> (string \<times> 'v) list \<Rightarrow> (string \<times> 'v) list" where
  "put_fuzzy url s [] = [(url, s)]"
| "put_fuzzy url s ((u, t) # rest) = (if u = url then (u, s) # rest else (u, t) # put_fuzzy url s rest)"

definition add_fuzzy_servlet :: "string \<Rightarrow> 'w HttpServlet option \<Rightarrow> 'w ServletDispatch \<Rightarrow> 'w ServletDispatch" where
  "add_fuzzy_servlet url s d = d\<lparr>fuzzy_matchs := put_fuzzy url s (fuzzy_matchs d)\<rparr>"

definition add_fuzzy_function ::
  "string \<Rightarrow> 'w handler option \<Rightarrow> 'w ServletDispatch \<Rightarrow> ('w ServletDispatch, unit) outcome" where
  "add_fuzzy_function url cb d =
     (case mk_FunctionHttpServlet cb ''function http servlet'' of
        Inl e \<Rightarrow> (Inl e, d) | Inr s \<Rightarrow> (Inr (), add_fuzzy_servlet url (Some s) d))"

definition del_exact_servlet :: "string \<Rightarrow> 'w ServletDispatch \<Rightarrow> bool \<times> 'w ServletDispatch" where
  "del_exact_servlet url d =
     (if exact_matchs d url = None then (False, d)
      else (True, d\<lparr>exact_matchs := (exact_matchs d)(url := None)\<rparr>))"

fun drop_fuzzy :: "string \<Rightarrow> (string \<times> 'v) list \<Rightarrow> bool \<times> (string \<times> 'v) list" where
  "drop_fuzzy url [] = (False, [])"
| "drop_fuzzy url ((u, t) # rest) =
     (if u = url then (True, rest) else (let (b, r) = drop_fuzzy url rest in (b, (u, t) # r)))"

definition del_fuzzy_servlet :: "string \<Rightarrow> 'w ServletDispatch \<Rightarrow> bool \<times> 'w ServletDispatch" where
  "del_fuzzy_servlet url d =
     (let (b, fs) = drop_fuzzy url (fuzzy_matchs d) in (b, d\<lparr>fuzzy_matchs := fs\<rparr>))"

section \<open>Facts\<close>

text \<open>No pattern is registered twice.\<close>

definition dispatch_wf :: "'w ServletDispatch \<Rightarrow> bool" where
  "dispatch_wf d \<longleftrightarrow> distinct (map fst (fuzzy_matchs d))"

lemma put_fuzzy_keys: "set (map fst (put_fuzzy u s fs)) = insert u (set (map fst fs))"
  by (induction u s fs rule: put_fuzzy.induct) auto

lemma put_fuzzy_distinct: "distinct (map fst fs) \<Longrightarrow> distinct (map fst (put_fuzzy u s fs))"
proof (induction u s fs rule: put_fuzzy.induct)
  case (2 url s u t rest)
  with put_fuzzy_keys [of url s rest] show ?case by auto
qed simp

text \<open>Registering a pattern again keeps its place; a new one comes last.\<close>

lemma put_fuzzy_eq:
  "put_fuzzy u s fs =
     (if u \<in> set (map fst fs) then
        takeWhile (\<lambda>p. fst p \<noteq> u) fs @ (u, s) # tl (dropWhile (\<lambda>p. fst p \<noteq> u) fs)
      else fs @ [(u, s)])"
  by (induction u s fs rule: put_fuzzy.induct) auto

lemma drop_fuzzy_eq:
  "distinct (map fst fs) \<Longrightarrow>
     drop_fuzzy u fs = (u \<in> set (map fst fs), filter (\<lambda>p. fst p \<noteq> u) fs)"
proof (induction u fs rule: drop_fuzzy.induct)
  case (2 url u t rest)
  then have "filter (\<lambda>p. fst p \<noteq> u) rest = rest" by (auto simp: filter_id_conv image_iff)
  with 2 show ?case by auto
qed simp

text \<open>The pattern of the registry that decides a URL.\<close>

definition first_match :: "(string \<Rightarrow> string \<Rightarrow> int) \<Rightarrow> string \<Rightarrow> (string \<times> 'v) list \<Rightarrow> (string \<times> 'v) option" where
  "first_match fnmatch url fs = find (\<lambda>p. fnmatch (c_str (fst p)) (c_str url) = 0) fs"

lemma fuzzy_loop_eq:
  "fuzzy_loop fnmatch url fs = (case first_match fnmatch url fs of None \<Rightarrow> None | Some p \<Rightarrow> snd p)"
  by (induction fnmatch url fs rule: fuzzy_loop.induct) (auto simp: first_match_def)

lemma find_SomeD: "find P xs = Some x \<Longrightarrow> P x"
  by (auto simp: find_Some_iff)

lemma first_match_put:
  "first_match fn url (put_fuzzy u s fs) =
     (case first_match fn url fs of
        Some p \<Rightarrow> Some (fst p, if fst p = u then s else snd p)
      | None \<Rightarrow> if fn (c_str u) (c_str url) = 0 then Some (u, s) else None)"
  by (induction u s fs rule: put_fuzzy.induct) (auto simp: first_match_def dest: find_SomeD split: option.splits)

lemma get_fuzzy_exact [simp]: "get_fuzzy_servlet fn u (d\<lparr>exact_matchs := m\<rparr>) = get_fuzzy_servlet fn u d"
  by (simp add: get_fuzzy_servlet_def)

lemma get_servlet_eq:
  "get_servlet fn u d =
     (if get_exact_servlet u d = None then get_fuzzy_servlet fn u d else get_exact_servlet u d)"
  by (auto simp: get_servlet_def split: option.splits)

lemma mk_ServletDispatch_wf [wf_intros]: "dispatch_wf mk_ServletDispatch"
  by (simp add: dispatch_wf_def mk_ServletDispatch_def)

text \<open>
  C29. Routing of a URL. An exact registration decides its own URL, before every pattern, and no
  other URL; when it is deleted the URL goes to the patterns again. Among the patterns the one
  registered first decides, registering a pattern again only replaces its servlet, a new
  pattern never takes a URL from an older one, and deleting a pattern leaves the order of the
  others. The patterns stay pairwise distinct.
\<close>

theorem servlet_routing:
  assumes "dispatch_wf d"
  shows "get_servlet fn u (add_exact_servlet url (Some s) d) = (if u = url then Some s else get_servlet fn u d)
    \<and> get_servlet fn u (snd (del_exact_servlet url d)) =
        (if u = url then get_fuzzy_servlet fn u d else get_servlet fn u d)
    \<and> get_fuzzy_servlet fn u (add_fuzzy_servlet pat (Some s) d) =
        (case first_match fn u (fuzzy_matchs d) of
           Some (p, t) \<Rightarrow> if p = pat then Some s else t
         | None \<Rightarrow> if fn (c_str pat) (c_str u) = 0 then Some s else None)
    \<and> del_fuzzy_servlet pat d =
        (pat \<in> set (map fst (fuzzy_matchs d)), d\<lparr>fuzzy_matchs := filter (\<lambda>p. fst p \<noteq> pat) (fuzzy_matchs d)\<rparr>)
    \<and> dispatch_wf (add_exact_servlet url (Some s) d) \<and> dispatch_wf (add_fuzzy_servlet pat (Some s) d)
    \<and> dispatch_wf (snd (del_exact_servlet url d)) \<and> dispatch_wf (snd (del_fuzzy_servlet pat d))"
proof -
  have del: "del_fuzzy_servlet pat d =
      (pat \<in> set (map fst (fuzzy_matchs d)), d\<lparr>fuzzy_matchs := filter (\<lambda>p. fst p \<noteq> pat) (fuzzy_matchs d)\<rparr>)"
    using assms by (simp add: del_fuzzy_servlet_def dispatch_wf_def drop_fuzzy_eq)
  have "dispatch_wf (snd (del_fuzzy_servlet pat d))"
    using assms by (simp add: del dispatch_wf_def distinct_map_filter)
  moreover have "dispatch_wf (add_fuzzy_servlet pat (Some s) d)"
    using assms by (simp add: dispatch_wf_def add_fuzzy_servlet_def put_fuzzy_distinct)
  moreover have "get_fuzzy_servlet fn u (add_fuzzy_servlet pat (Some s) d) =
        (case first_match fn u (fuzzy_matchs d) of
           Some (p, t) \<Rightarrow> if p = pat then Some s else t
         | None \<Rightarrow> if fn (c_str pat) (c_str u) = 0 then Some s else None)"
    by (auto simp: get_fuzzy_servlet_def add_fuzzy_servlet_def fuzzy_loop_eq first_match_put split: option.splits)
  ultimately show ?thesis
    using assms del
    by (auto simp: get_servlet_eq get_exact_servlet_def add_exact_servlet_def del_exact_servlet_def
        dispatch_wf_def)
qed

theorem servlet_routing_witness:
  "get_servlet (\<lambda>p u. 0) ''/a'' (add_exact_servlet ''/a'' (Some (mk_NotFoundServlet ''x'')) (mk_ServletDispatch :: unit ServletDispatch))
     = Some (mk_NotFoundServlet ''x'')"
  using servlet_routing [OF mk_ServletDispatch_wf, of "\<lambda>p u. 0" "''/a''" "''/a''"
      "mk_NotFoundServlet ''x'' :: unit HttpServlet" "''*''"] by simp

text \<open>
  The dispatcher handles a request with the servlet that its path is routed to. Without one
  it uses the default servlet, which is the 404 page unless it was replaced: then the answer has
  status 404, the page as its body and a matching \<open>content-length\<close>, and the call succeeds. Only
  a dispatcher whose default was set to null reports failure, and then nothing is changed.
\<close>

theorem unrouted_request_not_found:
  "ServletDispatch_handle_request fn d x =
     (case get_servlet fn (req_path (fst x)) d of
        Some s \<Rightarrow> servlet_handle s x
      | None \<Rightarrow> (case default_servlet d of Some s \<Rightarrow> servlet_handle s x | None \<Rightarrow> (Inr False, x)))
   \<and> (\<exists>response'. ServletDispatch_handle_request fn mk_ServletDispatch (request, response, w) =
        (Inr True, (request, response', w))
      \<and> rsp_status response' = 404 \<and> rsp_body response' = not_found_page
      \<and> HttpResponse_get_header ''content-length'' response' = dec (length not_found_page)
      \<and> close_flag response' = close_flag response)
   \<and> ServletDispatch_handle_request fn (set_default_servlet None mk_ServletDispatch) x = (Inr False, x)"
proof (intro conjI)
  have none: "get_servlet fn u mk_ServletDispatch = None"
    "get_servlet fn u (set_default_servlet None mk_ServletDispatch) = None" for u
    by (simp_all add: get_servlet_eq get_exact_servlet_def get_fuzzy_servlet_def mk_ServletDispatch_def
        set_default_servlet_def)
  show "\<exists>response'. ServletDispatch_handle_request fn mk_ServletDispatch (request, response, w) =
        (Inr True, (request, response', w))
      \<and> rsp_status response' = 404 \<and> rsp_body response' = not_found_page
      \<and> HttpResponse_get_header ''content-length'' response' = dec (length not_found_page)
      \<and> close_flag response' = close_flag response"
    by (simp add: ServletDispatch_handle_request_def none)
      (simp add: get_default_servlet_def mk_ServletDispatch_def mk_NotFoundServlet_def
        NotFoundServlet_handle_request_def Let_def HttpResponse_set_body_def HttpResponse_set_header_def
        HttpResponse_get_header_def find_or_empty_set)
  show "ServletDispatch_handle_request fn (set_default_servlet None mk_ServletDispatch) x = (Inr False, x)"
    by (simp add: ServletDispatch_handle_request_def none)
      (simp add: get_default_servlet_def set_default_servlet_def)
qed (simp add: ServletDispatch_handle_request_def get_default_servlet_def split: option.splits)

end
