(* ===== verification/Address.thy ===== *)
theory Address
  imports Util Cpp_String
begin

text \<open>
  Socket addresses (src/sylar/address.h, address.cpp). The structures of the socket interface are
  records whose integers are kept as the source keeps them, ports and IPv4 addresses in network
  byte order; \<open>get_addr\<close> is the object representation of the structure on a little-endian
  host. The resolver and the list of interfaces (\<open>getaddrinfo\<close>, \<open>getifaddrs\<close>) and \<open>inet_pton\<close>
  are arguments: what they return is a value the code then works on, the addresses as memory
  blocks behind possibly null pointers.
\<close>

section \<open>Structures\<close>

record sockaddr_in =
  sin_family :: u16
  sin_port :: u16
  sin_addr :: u32
  sin_zero :: bytes

record sockaddr_in6 =
  sin6_family :: u16
  sin6_port :: u16
  sin6_flowinfo :: u32
  sin6_addr :: bytes
  sin6_scope_id :: u32

record sockaddr_un =
  sun_family :: u16
  sun_path :: bytes

record sockaddr =
  sa_family :: u16
  sa_data :: bytes

text \<open>The class hierarchy: \<open>IPAddress\<close> has two subclasses, \<open>Address\<close> two more.\<close>

datatype IPAddress = IPv4Address sockaddr_in | IPv6Address sockaddr_in6

datatype Address =
    IP IPAddress
  | UnixAddress sockaddr_un nat
  | UnknownAddress sockaddr nat

definition AF_UNSPEC :: int where "AF_UNSPEC = 0"
definition AF_UNIX :: int where "AF_UNIX = 1"
definition AF_INET :: int where "AF_INET = 2"
definition AF_INET6 :: int where "AF_INET6 = 10"

section \<open>Object representation\<close>

fun raw_ip :: "IPAddress \<Rightarrow> bytes" where
  "raw_ip (IPv4Address a) =
     to_le 2 (sin_family a) @ to_le 2 (sin_port a) @ to_le 4 (sin_addr a) @ sin_zero a"
| "raw_ip (IPv6Address a) =
     to_le 2 (sin6_family a) @ to_le 2 (sin6_port a) @ to_le 4 (sin6_flowinfo a) @ sin6_addr a
     @ to_le 4 (sin6_scope_id a)"

fun get_addr :: "Address \<Rightarrow> bytes" where
  "get_addr (IP a) = raw_ip a"
| "get_addr (UnixAddress a n) = to_le 2 (sun_family a) @ sun_path a"
| "get_addr (UnknownAddress a n) = to_le 2 (sa_family a) @ sa_data a"

fun get_addr_len :: "Address \<Rightarrow> nat" where
  "get_addr_len (IP (IPv4Address a)) = 16"
| "get_addr_len (IP (IPv6Address a)) = 28"
| "get_addr_len (UnixAddress a n) = n"
| "get_addr_len (UnknownAddress a n) = n"

text \<open>Reading a structure from the memory a \<open>const sockaddr*\<close> points to.\<close>

definition family_at :: "bytes \<Rightarrow> u16" where
  "family_at m = of_le (take 2 m)"

definition sockaddr_in_at :: "bytes \<Rightarrow> sockaddr_in" where
  "sockaddr_in_at m = \<lparr>sin_family = of_le (take 2 m), sin_port = of_le (take 2 (drop 2 m)),
     sin_addr = of_le (take 4 (drop 4 m)), sin_zero = take 8 (drop 8 m)\<rparr>"

definition sockaddr_in6_at :: "bytes \<Rightarrow> sockaddr_in6" where
  "sockaddr_in6_at m = \<lparr>sin6_family = of_le (take 2 m), sin6_port = of_le (take 2 (drop 2 m)),
     sin6_flowinfo = of_le (take 4 (drop 4 m)), sin6_addr = take 16 (drop 8 m),
     sin6_scope_id = of_le (take 4 (drop 24 m))\<rparr>"

definition sockaddr_at :: "bytes \<Rightarrow> sockaddr" where
  "sockaddr_at m = \<lparr>sa_family = of_le (take 2 m), sa_data = take 14 (drop 2 m)\<rparr>"

section \<open>IPv4\<close>

definition mk_IPv4Address :: sockaddr_in where
  "mk_IPv4Address = \<lparr>sin_family = 2, sin_port = 0, sin_addr = 0, sin_zero = replicate 8 0\<rparr>"

definition mk_IPv4Address_value :: "u32 \<Rightarrow> u16 \<Rightarrow> sockaddr_in" where
  "mk_IPv4Address_value address port =
     mk_IPv4Address\<lparr>sin_port := htons port, sin_addr := htonl address\<rparr>"

definition mk_IPv4Address_text :: "(string \<Rightarrow> u32 option) \<Rightarrow> string \<Rightarrow> u16 \<Rightarrow> cpp_error + sockaddr_in" where
  "mk_IPv4Address_text inet_pton address port =
     (case inet_pton address of
        None \<Rightarrow> Inl Logic_error
      | Some a \<Rightarrow> Inr (mk_IPv4Address\<lparr>sin_port := htons port, sin_addr := a\<rparr>))"

definition octet :: "nat \<Rightarrow> u32 \<Rightarrow> string" where
  "octet s a = dec (unat (drop_bit s a AND 0xFF))"

definition IPv4Address_output :: "sockaddr_in \<Rightarrow> string" where
  "IPv4Address_output a =
     (let address = htonl (sin_addr a)
      in octet 24 address @ ''.'' @ octet 16 address @ ''.'' @ octet 8 address @ ''.'' @ octet 0 address
         @ '':'' @ dec (unat (htons (sin_port a))))"

text \<open>\<open>bit_mask<T>\<close>: the shift is done in 64 bits and the result is cut to \<open>T\<close>.\<close>

definition bit_mask :: "nat \<Rightarrow> 'a::len word" where
  "bit_mask prefix_len =
     (let p = (if prefix_len > LENGTH('a) then LENGTH('a) else prefix_len)
      in ucast (NOT (push_bit (LENGTH('a) - p) (1 :: u64) - 1)))"

definition IPv4Address_get_broadcast_address :: "nat \<Rightarrow> sockaddr_in \<Rightarrow> sockaddr_in" where
  "IPv4Address_get_broadcast_address prefix_len a =
     (if prefix_len < 32
      then let m = bit_mask prefix_len :: u32 in a\<lparr>sin_addr := sin_addr a OR htonl (NOT m)\<rparr>
      else a)"

definition IPv4Address_get_network_address :: "nat \<Rightarrow> sockaddr_in \<Rightarrow> sockaddr_in" where
  "IPv4Address_get_network_address prefix_len a =
     (if prefix_len < 32
      then let m = bit_mask prefix_len :: u32 in a\<lparr>sin_addr := sin_addr a AND htonl m\<rparr>
      else a)"

section \<open>IPv6\<close>

definition mk_IPv6Address :: sockaddr_in6 where
  "mk_IPv6Address = \<lparr>sin6_family = 10, sin6_port = 0, sin6_flowinfo = 0, sin6_addr = replicate 16 0,
     sin6_scope_id = 0\<rparr>"

definition mk_IPv6Address_bytes :: "bytes \<Rightarrow> u16 \<Rightarrow> sockaddr_in6" where
  "mk_IPv6Address_bytes address port =
     mk_IPv6Address\<lparr>sin6_port := htons port, sin6_addr := take 16 address\<rparr>"

definition mk_IPv6Address_text :: "(string \<Rightarrow> bytes option) \<Rightarrow> string \<Rightarrow> u16 \<Rightarrow> cpp_error + sockaddr_in6" where
  "mk_IPv6Address_text inet_pton address port =
     (case inet_pton address of
        None \<Rightarrow> Inl Logic_error
      | Some a \<Rightarrow> Inr (mk_IPv6Address\<lparr>sin6_port := htons port, sin6_addr := a\<rparr>))"

text \<open>\<open>std::hex\<close>: lower case, no leading zeros.\<close>

definition hex_char :: "nat \<Rightarrow> char" where
  "hex_char d = (if d < 10 then char_of (48 + d) else char_of (87 + d))"

fun hex :: "nat \<Rightarrow> string" where
  "hex n = (if n < 16 then [hex_char n] else hex (n div 16) @ [hex_char (n mod 16)])"

declare hex.simps [simp del]

text \<open>The address is read through a \<open>const uint16_t*\<close>, so each group is in host byte order.\<close>

definition group :: "bytes \<Rightarrow> nat \<Rightarrow> u16" where
  "group a i = of_le (take 2 (drop (2 * i) a))"

definition IPv6Address_output :: "sockaddr_in6 \<Rightarrow> string" where
  "IPv6Address_output a =
     ''['' @ hex (unat (group (sin6_addr a) 0))
     @ concat (map (\<lambda>i. '':'' @ hex (unat (group (sin6_addr a) i))) [1..<8])
     @ '']'' @ '':'' @ dec (unat (htons (sin6_port a)))"

definition IPv6Address_get_broadcast_address :: "nat \<Rightarrow> sockaddr_in6 \<Rightarrow> sockaddr_in6" where
  "IPv6Address_get_broadcast_address prefix_len a =
     (if prefix_len < 128
      then let i = prefix_len div 8; bs = sin6_addr a
           in a\<lparr>sin6_addr := take i bs @ [bs ! i OR NOT (bit_mask (prefix_len mod 8))] @ replicate (15 - i) 0xFF\<rparr>
      else a)"

definition IPv6Address_get_network_address :: "nat \<Rightarrow> sockaddr_in6 \<Rightarrow> sockaddr_in6" where
  "IPv6Address_get_network_address prefix_len a =
     (if prefix_len < 128
      then let i = prefix_len div 8; bs = sin6_addr a
           in a\<lparr>sin6_addr := take i bs @ [bs ! i AND bit_mask (prefix_len mod 8)] @ replicate (15 - i) 0x00\<rparr>
      else a)"

section \<open>Virtual methods of IPAddress\<close>

fun get_broadcast_address :: "nat \<Rightarrow> IPAddress \<Rightarrow> IPAddress" where
  "get_broadcast_address p (IPv4Address a) = IPv4Address (IPv4Address_get_broadcast_address p a)"
| "get_broadcast_address p (IPv6Address a) = IPv6Address (IPv6Address_get_broadcast_address p a)"

fun get_network_address :: "nat \<Rightarrow> IPAddress \<Rightarrow> IPAddress" where
  "get_network_address p (IPv4Address a) = IPv4Address (IPv4Address_get_network_address p a)"
| "get_network_address p (IPv6Address a) = IPv6Address (IPv6Address_get_network_address p a)"

fun get_port :: "IPAddress \<Rightarrow> u16" where
  "get_port (IPv4Address a) = htons (sin_port a)"
| "get_port (IPv6Address a) = htons (sin6_port a)"

fun set_port :: "u16 \<Rightarrow> IPAddress \<Rightarrow> IPAddress" where
  "set_port p (IPv4Address a) = IPv4Address (a\<lparr>sin_port := htons p\<rparr>)"
| "set_port p (IPv6Address a) = IPv6Address (a\<lparr>sin6_port := htons p\<rparr>)"

section \<open>Unix domain and unknown addresses\<close>

definition MAX_PATH_LEN :: nat where
  "MAX_PATH_LEN = 108 - 1"

text \<open>\<open>strncpy (dst, src, n)\<close> into a zeroed array of 108 bytes.\<close>

definition strncpy_zeroed :: "string \<Rightarrow> nat \<Rightarrow> bytes" where
  "strncpy_zeroed src n =
     (let copied = map of_char (take n (c_str src)) in copied @ replicate (108 - length copied) 0)"

definition mk_UnixAddress :: Address where
  "mk_UnixAddress = UnixAddress \<lparr>sun_family = 1, sun_path = replicate 108 0\<rparr> (2 + MAX_PATH_LEN)"

definition mk_UnixAddress_path :: "string \<Rightarrow> cpp_error + Address" where
  "mk_UnixAddress_path path =
     (if length path > MAX_PATH_LEN then Inl Logic_error
      else Inr (UnixAddress \<lparr>sun_family = 1, sun_path = strncpy_zeroed path (length path)\<rparr> (2 + length path)))"

definition text_at :: "bytes \<Rightarrow> string" where
  "text_at m = map (\<lambda>b. char_of (unat b)) m"

definition UnixAddress_get_path :: "sockaddr_un \<Rightarrow> nat \<Rightarrow> string" where
  "UnixAddress_get_path a len =
     (if len > 2
      then if sun_path a ! 0 = 0
           then [CHR 0x5C, CHR ''0''] @ text_at (take (len - 2 - 1) (drop 1 (sun_path a)))
           else c_str (text_at (sun_path a))
      else [])"

definition mk_UnknownAddress_zero :: Address where
  "mk_UnknownAddress_zero = UnknownAddress \<lparr>sa_family = 0, sa_data = replicate 14 0\<rparr> 16"

definition mk_UnknownAddress :: "int \<Rightarrow> Address" where
  "mk_UnknownAddress family =
     UnknownAddress \<lparr>sa_family = of_int family, sa_data = replicate 14 0\<rparr> 16"

section \<open>Address\<close>

definition create_family :: "int \<Rightarrow> Address" where
  "create_family family =
     (if family = AF_INET then IP (IPv4Address mk_IPv4Address)
      else if family = AF_INET6 then IP (IPv6Address mk_IPv6Address)
      else if family = AF_UNIX then mk_UnixAddress
      else mk_UnknownAddress family)"

definition create :: "bytes option \<Rightarrow> Address option" where
  "create addr =
     (case addr of
        None \<Rightarrow> None
      | Some m \<Rightarrow>
          if uint (family_at m) = AF_INET then Some (IP (IPv4Address (sockaddr_in_at m)))
          else if uint (family_at m) = AF_INET6 then Some (IP (IPv6Address (sockaddr_in6_at m)))
          else Some (UnknownAddress (sockaddr_at m) 16))"

definition get_family :: "Address \<Rightarrow> int" where
  "get_family a = uint (family_at (get_addr a))"

fun Address_output :: "Address \<Rightarrow> string" where
  "Address_output (IP (IPv4Address a)) = IPv4Address_output a"
| "Address_output (IP (IPv6Address a)) = IPv6Address_output a"
| "Address_output (UnixAddress a n) = UnixAddress_get_path a n"
| "Address_output (UnknownAddress a n) =
     ''UnknownAddress family='' @ dec (unat (sa_family a)) @ '' len='' @ dec n"

fun memcmp :: "bytes \<Rightarrow> bytes \<Rightarrow> nat \<Rightarrow> int" where
  "memcmp (a # as) (b # bs) (Suc n) = (if a = b then memcmp as bs n else uint a - uint b)"
| "memcmp as bs n = 0"

definition Address_less :: "Address \<Rightarrow> Address \<Rightarrow> bool" where
  "Address_less a b =
     (let min_len = min (get_addr_len a) (get_addr_len b);
          result = memcmp (get_addr a) (get_addr b) min_len
      in if result < 0 then True
         else if result = 0 \<and> get_addr_len b > min_len then True
         else False)"

definition Address_eq :: "Address \<Rightarrow> Address \<Rightarrow> bool" where
  "Address_eq a b =
     (let len = get_addr_len a
      in if len \<noteq> get_addr_len b then False else memcmp (get_addr a) (get_addr b) len = 0)"

definition Address_ne :: "Address \<Rightarrow> Address \<Rightarrow> bool" where
  "Address_ne a b \<longleftrightarrow> \<not> Address_eq a b"

section \<open>Resolver\<close>

fun find_char :: "char \<Rightarrow> string \<Rightarrow> nat option" where
  "find_char c [] = None"
| "find_char c (x # xs) = (if x = c then Some 0 else map_option Suc (find_char c xs))"

text \<open>The host and the service of \<open>[host]:service\<close> and of \<open>host:service\<close>.\<close>

definition split_host :: "string \<Rightarrow> string \<times> string" where
  "split_host host =
     (let (node, service) =
        (if host \<noteq> []
         then if host ! 0 = CHR ''[''
              then (case find_char (CHR '']'') host of
                      None \<Rightarrow> ([], [])
                    | Some node_end \<Rightarrow>
                        (take (node_end - 1) (drop 1 host),
                         if length host > node_end + 2 then drop (node_end + 2) host else []))
              else (case find_char (CHR '':'') host of
                      None \<Rightarrow> ([], [])
                    | Some node_end \<Rightarrow>
                        (take node_end host,
                         if length host > node_end + 1 then drop (node_end + 1) host else []))
         else ([], []))
      in (if node = [] then host else node, service))"

text \<open>
  \<open>getaddrinfo\<close>: node, service (null or a string), family, socket type and protocol of the
  hints; an error code, or the list of \<open>ai_addr\<close> pointers of the result.
\<close>

type_synonym resolver = "string \<Rightarrow> string option \<Rightarrow> int \<Rightarrow> int \<Rightarrow> int \<Rightarrow> int + bytes option list"

definition lookup_address ::
  "resolver \<Rightarrow> Address list \<Rightarrow> string \<Rightarrow> int \<Rightarrow> int \<Rightarrow> int \<Rightarrow> bool \<times> Address list" where
  "lookup_address getaddrinfo result host family socket_type protocol =
     (let (node, service) = split_host host
      in case getaddrinfo (c_str node) (Some (c_str service)) family socket_type protocol of
           Inl err \<Rightarrow> (False, result)
         | Inr found \<Rightarrow> (let result' = result @ List.map_filter create found in (result' \<noteq> [], result')))"

definition lookup_first_address :: "resolver \<Rightarrow> string \<Rightarrow> int \<Rightarrow> int \<Rightarrow> int \<Rightarrow> Address option" where
  "lookup_first_address getaddrinfo host family socket_type protocol =
     (let (v, results) = lookup_address getaddrinfo [] host family socket_type protocol
      in if v then Some (results ! 0) else None)"

text \<open>\<open>dynamic_pointer_cast<IPAddress>\<close>.\<close>

fun as_ip :: "Address \<Rightarrow> IPAddress option" where
  "as_ip (IP a) = Some a"
| "as_ip _ = None"

definition lookup_ip_address ::
  "resolver \<Rightarrow> IPAddress list \<Rightarrow> string \<Rightarrow> int \<Rightarrow> int \<Rightarrow> bool \<times> IPAddress list" where
  "lookup_ip_address getaddrinfo result host socket_type protocol =
     (let (v, adds) = lookup_address getaddrinfo [] host AF_UNSPEC socket_type protocol
      in if \<not> v then (False, result)
         else let result' = result @ List.map_filter as_ip adds in (result' \<noteq> [], result'))"

definition lookup_first_ip_address :: "resolver \<Rightarrow> string \<Rightarrow> int \<Rightarrow> int \<Rightarrow> IPAddress option" where
  "lookup_first_ip_address getaddrinfo host socket_type protocol =
     (let (v, results) = lookup_ip_address getaddrinfo [] host socket_type protocol
      in if v then Some (results ! 0) else None)"

text \<open>
  \<open>IPAddress::create\<close> does not look at the error code: when the resolver fails, the loop runs
  over a pointer that was never assigned.
\<close>

definition IPAddress_create :: "resolver \<Rightarrow> string option \<Rightarrow> u16 \<Rightarrow> cpp_error + IPAddress option" where
  "IPAddress_create getaddrinfo address port =
     (case address of
        None \<Rightarrow> Inr None
      | Some node \<Rightarrow>
          (case getaddrinfo (c_str node) None AF_UNSPEC 0 0 of
             Inl err \<Rightarrow> Inl Indeterminate_value
           | Inr found \<Rightarrow>
               (case List.map_filter (\<lambda>p. Option.bind (create p) as_ip) found of
                  [] \<Rightarrow> Inr None
                | a # _ \<Rightarrow> Inr (Some (set_port port a)))))"

section \<open>Interfaces\<close>

text \<open>\<open>while(mask) { mask &= (mask - 1); ++prefix_len; }\<close>\<close>

function count_bits :: "'a::len word \<Rightarrow> u32 \<Rightarrow> u32" where
  "count_bits m n = (if m = 0 then n else count_bits (m AND (m - 1)) (n + 1))"
  by pat_completeness auto

termination
proof (relation "measure (\<lambda>(m, n). unat m)")
  fix m :: "'a word"
  assume "m \<noteq> 0"
  then have "unat (m - 1) < unat m" by (metis measure_unat word_gt_0)
  moreover have "unat (m AND (m - 1)) \<le> unat (m - 1)"
    by (simp add: word_le_nat_alt [symmetric] word_and_le1)
  ultimately show "((m AND (m - 1), n + 1), (m, n)) \<in> measure (\<lambda>(m, n). unat m)" for n by simp
qed simp

declare count_bits.simps [simp del]

record ifaddr =
  ifa_name :: string
  ifa_addr :: "bytes option"
  ifa_netmask :: "bytes option"

type_synonym interfaces = "(string \<times> (Address \<times> u32) list) list"

fun push_interface :: "string \<Rightarrow> Address \<times> u32 \<Rightarrow> interfaces \<Rightarrow> interfaces" where
  "push_interface name a [] = [(name, [a])]"
| "push_interface name a ((k, as) # m) =
     (if k = name then (k, as @ [a]) # m else (k, as) # push_interface name a m)"

definition prefix_len_of :: "bytes \<Rightarrow> bytes option \<Rightarrow> cpp_error + u32" where
  "prefix_len_of addr netmask =
     (if uint (family_at addr) = AF_INET
      then (case netmask of None \<Rightarrow> Inl Null_deref
            | Some m \<Rightarrow> Inr (count_bits (htonl (sin_addr (sockaddr_in_at m))) 0))
      else if uint (family_at addr) = AF_INET6
      then (case netmask of None \<Rightarrow> Inl Null_deref
            | Some m \<Rightarrow> Inr (fold count_bits (sin6_addr (sockaddr_in6_at m)) 0))
      else Inr 0)"

fun interface_loop :: "int \<Rightarrow> ifaddr list \<Rightarrow> interfaces \<Rightarrow> cpp_error + interfaces" where
  "interface_loop family [] result = Inr result"
| "interface_loop family (cur # rest) result =
     (case ifa_addr cur of
        None \<Rightarrow> Inl Null_deref
      | Some addr \<Rightarrow>
          if family \<noteq> uint (family_at addr) \<and> family \<noteq> AF_UNSPEC then interface_loop family rest result
          else (case prefix_len_of addr (ifa_netmask cur) of
                  Inl e \<Rightarrow> Inl e
                | Inr prefix_len \<Rightarrow>
                    (case create (Some addr) of
                       None \<Rightarrow> interface_loop family rest result
                     | Some a \<Rightarrow>
                         if prefix_len = 0 then interface_loop family rest result
                         else interface_loop family rest (push_interface (ifa_name cur) (a, prefix_len) result))))"

definition get_interface_address :: "ifaddr list option \<Rightarrow> int \<Rightarrow> interfaces \<Rightarrow> cpp_error + bool \<times> interfaces" where
  "get_interface_address getifaddrs family result =
     (case getifaddrs of
        None \<Rightarrow> Inr (False, result)
      | Some l \<Rightarrow> map_sum id (\<lambda>r. (r \<noteq> [], r)) (interface_loop family l result))"

definition get_interface_address_of ::
  "ifaddr list option \<Rightarrow> string \<Rightarrow> int \<Rightarrow> (Address \<times> u32) list \<Rightarrow> cpp_error + bool \<times> (Address \<times> u32) list" where
  "get_interface_address_of getifaddrs interface_name family result =
     (case get_interface_address getifaddrs family [] of
        Inl e \<Rightarrow> Inl e
      | Inr (ok, results) \<Rightarrow>
          if \<not> ok then Inr (False, result)
          else (case map_of results interface_name of
                  None \<Rightarrow> Inr (False, result) | Some as \<Rightarrow> Inr (True, as)))"

section \<open>Masks\<close>

lemma bit_mask_eq:
  assumes "LENGTH('a::len) \<le> 64"
  shows "(bit_mask p :: 'a word) = NOT (mask (LENGTH('a) - p))"
proof -
  have "push_bit k (1 :: u64) - 1 = mask k" for k by (simp add: mask_eq_exp_minus_1 push_bit_eq_mult)
  then show ?thesis
    by (intro bit_word_eqI) (use assms in \<open>auto simp: bit_mask_def Let_def bit_simps\<close>)
qed

lemma nat_or_mask: "x OR mask n = x - x mod 2 ^ n + (2 ^ n - 1 :: nat)"
proof -
  have "x OR mask n = push_bit n (drop_bit n x) OR mask n"
    by (rule bit_eqI) (auto simp: bit_simps)
  also have "\<dots> = push_bit n (drop_bit n x) + mask n"
    by (rule disjunctive_add_eq_or [symmetric]) (rule bit_eqI, auto simp: bit_simps)
  finally show ?thesis
    by (simp add: push_bit_eq_mult drop_bit_eq_div mask_eq_exp_minus_1 minus_mod_eq_div_mult)
qed

lemma unat_or_mask:
  fixes x :: "'a::len word"
  assumes "n \<le> LENGTH('a)"
  shows "unat (x OR mask n) = unat x - unat x mod 2 ^ n + (2 ^ n - 1)"
proof -
  have "unat (x OR mask n) = unat x OR mask n"
    by (rule bit_eqI) (use assms in \<open>auto simp: bit_simps dest: bit_imp_le_length\<close>)
  then show ?thesis by (simp only: nat_or_mask)
qed

text \<open>Byte reversal works bit by bit.\<close>

lemma bit_bswap:
  fixes v :: "'a::len word"
  assumes "LENGTH('a) = 8 * n"
  shows "bit (of_le (rev (to_le n v)) :: 'a word) k \<longleftrightarrow> k < 8 * n \<and> bit v (8 * (n - Suc (k div 8)) + k mod 8)"
  using assms by (auto simp: bit_of_le rev_nth to_le_nth bit_simps less_mult_imp_div_less)

lemma htonl_or: "htonl (a OR b) = htonl a OR htonl b"
  by (rule bit_word_eqI) (auto simp: htonl_def bit_bswap [of 4] bit_simps)

lemma htonl_and: "htonl (a AND b) = htonl a AND htonl b"
  by (rule bit_word_eqI) (auto simp: htonl_def bit_bswap [of 4] bit_simps)

lemma htonl_htonl [simp]: "htonl (htonl a) = a"
  unfolding htonl_def by (rule bswap_bswap) simp

lemma htons_htons [simp]: "htons (htons a) = a"
  unfolding htons_def by (rule bswap_bswap) simp

section \<open>Addresses as numbers\<close>

definition be :: "bytes \<Rightarrow> nat" where
  "be bs = foldl (\<lambda>n b. 256 * n + unat b) 0 bs"

definition ip_value :: "IPAddress \<Rightarrow> nat" where
  "ip_value a = (case a of IPv4Address x \<Rightarrow> unat (htonl (sin_addr x)) | IPv6Address x \<Rightarrow> be (sin6_addr x))"

definition ip_width :: "IPAddress \<Rightarrow> nat" where
  "ip_width a = (case a of IPv4Address x \<Rightarrow> 32 | IPv6Address x \<Rightarrow> 128)"

definition ip_wf :: "IPAddress \<Rightarrow> bool" where
  "ip_wf a = (case a of IPv4Address x \<Rightarrow> length (sin_zero x) = 8 | IPv6Address x \<Rightarrow> length (sin6_addr x) = 16)"

lemma be_simps [simp]: "be [] = 0" "be [b] = unat b"
  by (simp_all add: be_def)

lemma be_append: "be (xs @ ys) = be xs * 256 ^ length ys + be ys"
proof (induction ys rule: rev_induct)
  case (snoc y ys)
  have "be (zs @ [y]) = 256 * be zs + unat y" for zs by (simp add: be_def)
  from this [of "xs @ ys"] this [of ys] snoc show ?case by (simp add: algebra_simps flip: append_assoc)
qed simp

lemma be_less: "be bs < 256 ^ length bs"
proof (induction bs rule: rev_induct)
  case (snoc b bs)
  have "unat b < 256" using unsigned_less [of b, where ?'a = nat] by simp
  with snoc be_append [of bs "[b]"] show ?case by simp
qed simp

lemma be_Cons: "be (b # bs) = unat b * 256 ^ length bs + be bs"
  using be_append [of "[b]" bs] by simp

lemma be_zeros: "be (replicate k 0) = 0"
  by (induction k) (simp_all add: be_Cons)

lemma be_ones: "be (replicate k 0xFF) = 256 ^ k - 1"
proof (induction k)
  case (Suc k)
  have "(1 :: nat) \<le> 256 ^ k" by simp
  with Suc show ?case by (simp add: be_Cons)
qed simp

lemma be_patch:
  "be (xs @ [b] @ ys) = be xs * 256 ^ Suc (length ys) + (unat b * 256 ^ length ys + be ys)"
  by (simp add: be_append be_Cons)

lemma pow_split: "2 ^ (8 * k + n) = 256 ^ k * (2 :: nat) ^ n"
  by (simp add: power_add power_mult)

lemma bits_after:
  assumes "p < (128 :: nat)"
  shows "128 - p = 8 * (15 - p div 8) + (8 - p mod 8)"
proof -
  have "p = 8 * (p div 8) + p mod 8" "p mod 8 < 8" "p div 8 < 16" using assms by simp_all
  then show ?thesis by linarith
qed

lemma fill_low:
  assumes "0 < (c :: nat)" and "0 < d"
  shows "(b + (c - 1)) * d + (d - 1) = b * d + (c * d - 1)"
  using assms by (cases c; cases d) (simp_all add: algebra_simps)

text \<open>Cutting a 16-byte address after its \<open>p\<close> leading bits.\<close>

lemma be_split:
  assumes "length bs = 16" and "p < 128"
  defines "i \<equiv> p div 8"
  shows "be bs = be (take i bs) * 256 ^ (16 - i) + unat (bs ! i) * 256 ^ (15 - i) + be (drop (Suc i) bs)"
    and "be bs mod 2 ^ (128 - p) = (unat (bs ! i) mod 2 ^ (8 - p mod 8)) * 256 ^ (15 - i) + be (drop (Suc i) bs)"
proof -
  have i: "i < 16" using assms(2) by (simp add: i_def)
  have s: "16 - i = Suc (15 - i)" using i by simp
  have "bs = take i bs @ bs ! i # drop (Suc i) bs" using i assms(1) by (simp add: id_take_nth_drop)
  then have "be bs = be (take i bs @ bs ! i # drop (Suc i) bs)" by (rule arg_cong)
  then show v: "be bs = be (take i bs) * 256 ^ (16 - i) + unat (bs ! i) * 256 ^ (15 - i) + be (drop (Suc i) bs)"
    using assms(1) i by (simp add: be_append be_Cons s)
  let ?k = "15 - i" and ?n = "8 - p mod 8"
  have k: "128 - p = 8 * ?k + ?n" unfolding i_def by (rule bits_after) (rule assms(2))
  have C: "be (drop (Suc i) bs) < 256 ^ ?k" using be_less [of "drop (Suc i) bs"] assms(1) by simp
  have v': "be bs = 256 ^ ?k * (be (take i bs) * 256 + unat (bs ! i)) + be (drop (Suc i) bs)"
    unfolding v s by (simp add: algebra_simps)
  have "(2 :: nat) ^ ?n dvd 2 ^ 8" by (rule le_imp_power_dvd) simp
  then have "be (take i bs) * 256 mod 2 ^ ?n = 0" by (simp add: dvd_eq_mod_eq_0 [symmetric])
  then have "(be (take i bs) * 256 + unat (bs ! i)) mod 2 ^ ?n = unat (bs ! i) mod 2 ^ ?n"
    using mod_add_left_eq [of "be (take i bs) * 256" "2 ^ ?n" "unat (bs ! i)"] by simp
  then have "be bs mod (256 ^ ?k * 2 ^ ?n) = 256 ^ ?k * (unat (bs ! i) mod 2 ^ ?n) + be (drop (Suc i) bs)"
    using v' C by (simp add: mod_mult2_eq)
  then show "be bs mod 2 ^ (128 - p) = (unat (bs ! i) mod 2 ^ ?n) * 256 ^ ?k + be (drop (Suc i) bs)"
    by (simp only: k pow_split mult.commute)
qed

lemma network_value:
  assumes "ip_wf a"
  shows "ip_value (get_network_address p a) = ip_value a - ip_value a mod 2 ^ (ip_width a - p)"
proof (cases a)
  case (IPv4Address x)
  then show ?thesis
    by (simp add: ip_value_def ip_width_def IPv4Address_get_network_address_def Let_def htonl_and
        bit_mask_eq unat_clear_low)
next
  case (IPv6Address x)
  show ?thesis
  proof (cases "p < 128")
    case True
    let ?i = "p div 8" and ?bs = "sin6_addr x"
    have i: "16 - ?i = Suc (15 - ?i)" "?i < 16" "min 16 ?i = ?i" using True by simp_all
    have len: "length ?bs = 16" using assms IPv6Address by (simp add: ip_wf_def)
    have "unat (?bs ! ?i AND bit_mask (p mod 8)) = unat (?bs ! ?i) - unat (?bs ! ?i) mod 2 ^ (8 - p mod 8)"
      by (simp add: bit_mask_eq unat_clear_low)
    then have "be (take ?i ?bs @ [?bs ! ?i AND bit_mask (p mod 8)] @ replicate (15 - ?i) 0) =
        be (take ?i ?bs) * 256 ^ (16 - ?i) + (unat (?bs ! ?i) - unat (?bs ! ?i) mod 2 ^ (8 - p mod 8)) * 256 ^ (15 - ?i)"
      by (simp add: be_append be_Cons be_zeros i)
    also have "\<dots> = be ?bs - be ?bs mod 2 ^ (128 - p)"
      using be_split [OF len True] by (simp add: diff_mult_distrib)
    finally show ?thesis
      using IPv6Address True
      by (simp add: ip_value_def ip_width_def IPv6Address_get_network_address_def Let_def)
  qed (simp add: IPv6Address ip_value_def ip_width_def IPv6Address_get_network_address_def)
qed

lemma broadcast_value:
  assumes "ip_wf a"
  shows "ip_value (get_broadcast_address p a) =
    ip_value a - ip_value a mod 2 ^ (ip_width a - p) + (2 ^ (ip_width a - p) - 1)"
proof (cases a)
  case (IPv4Address x)
  then show ?thesis
    by (simp add: ip_value_def ip_width_def IPv4Address_get_broadcast_address_def Let_def htonl_or
        bit_mask_eq unat_or_mask)
next
  case (IPv6Address x)
  show ?thesis
  proof (cases "p < 128")
    case True
    let ?i = "p div 8" and ?bs = "sin6_addr x" and ?n = "8 - p mod 8"
    have i: "16 - ?i = Suc (15 - ?i)" "?i < 16" "min 16 ?i = ?i" using True by simp_all
    have len: "length ?bs = 16" using assms IPv6Address by (simp add: ip_wf_def)
    let ?B = "unat (?bs ! ?i) - unat (?bs ! ?i) mod 2 ^ ?n"
    have "unat (?bs ! ?i OR NOT (bit_mask (p mod 8))) = ?B + (2 ^ ?n - 1)"
      by (simp add: bit_mask_eq unat_or_mask)
    then have "be (take ?i ?bs @ [?bs ! ?i OR NOT (bit_mask (p mod 8))] @ replicate (15 - ?i) 0xFF) =
        be (take ?i ?bs) * 256 ^ (16 - ?i) + ((?B + (2 ^ ?n - 1)) * 256 ^ (15 - ?i) + (256 ^ (15 - ?i) - 1))"
      by (simp only: be_patch be_ones i length_replicate)
    also have "(?B + (2 ^ ?n - 1)) * 256 ^ (15 - ?i) + (256 ^ (15 - ?i) - 1) =
        ?B * 256 ^ (15 - ?i) + (2 ^ ?n * 256 ^ (15 - ?i) - 1)"
      by (rule fill_low) simp_all
    also have "be (take ?i ?bs) * 256 ^ (16 - ?i) + (?B * 256 ^ (15 - ?i) + (2 ^ ?n * 256 ^ (15 - ?i) - 1)) =
        be (take ?i ?bs) * 256 ^ (16 - ?i) + ?B * 256 ^ (15 - ?i) + (2 ^ ?n * 256 ^ (15 - ?i) - 1)"
      by (rule add.assoc [symmetric])
    also have "2 ^ ?n * 256 ^ (15 - ?i) = (2 :: nat) ^ (128 - p)"
    proof -
      have "128 - p = 8 * (15 - ?i) + ?n" using True by (rule bits_after)
      then show ?thesis by (simp only: pow_split mult.commute)
    qed
    also have "be (take ?i ?bs) * 256 ^ (16 - ?i)
        + (unat (?bs ! ?i) - unat (?bs ! ?i) mod 2 ^ ?n) * 256 ^ (15 - ?i) = be ?bs - be ?bs mod 2 ^ (128 - p)"
      using be_split [OF len True] by (simp add: diff_mult_distrib)
    finally show ?thesis
      using IPv6Address True
      by (simp add: ip_value_def ip_width_def IPv6Address_get_broadcast_address_def Let_def)
  qed (simp add: IPv6Address ip_value_def ip_width_def IPv6Address_get_broadcast_address_def)
qed

lemma subnet_port:
  "get_port (get_network_address p a) = get_port a" "get_port (get_broadcast_address p a) = get_port a"
  "get_port (set_port q a) = q"
  by (cases a; simp add: IPv4Address_get_network_address_def IPv4Address_get_broadcast_address_def
      IPv6Address_get_network_address_def IPv6Address_get_broadcast_address_def Let_def)+

text \<open>
  C24. Subnets. Read as a number (32 bits for IPv4, the 16 bytes most significant first for IPv6),
  \<open>get_network_address\<close> clears the bits after the prefix and \<open>get_broadcast_address\<close> sets them: the
  address lies between the two, which are the ends of an aligned block of \<open>2 ^ (width - p)\<close>
  addresses. A prefix of the full width or more leaves the address alone, and the port is kept.
\<close>

theorem subnet_bounds:
  assumes "ip_wf a"
  shows "ip_value (get_network_address p a) = ip_value a - ip_value a mod 2 ^ (ip_width a - p)
    \<and> ip_value (get_broadcast_address p a) = ip_value (get_network_address p a) + (2 ^ (ip_width a - p) - 1)
    \<and> ip_value (get_network_address p a) \<le> ip_value a \<and> ip_value a \<le> ip_value (get_broadcast_address p a)
    \<and> 2 ^ (ip_width a - p) dvd ip_value (get_network_address p a)
    \<and> get_port (get_network_address p a) = get_port a \<and> get_port (get_broadcast_address p a) = get_port a"
proof -
  have "ip_value a mod 2 ^ (ip_width a - p) < 2 ^ (ip_width a - p)" by simp
  then have "ip_value a \<le> ip_value a - ip_value a mod 2 ^ (ip_width a - p) + (2 ^ (ip_width a - p) - 1)"
    by linarith
  then show ?thesis
    using network_value [OF assms, of p] broadcast_value [OF assms, of p] subnet_port(1,2) [of p a]
    by (simp add: minus_mod_eq_mult_div)
qed

theorem subnet_bounds_witness:
  "ip_value (get_network_address 8 (IPv4Address (mk_IPv4Address_value 0x0A010203 80))) = 0x0A000000
   \<and> ip_value (get_broadcast_address 8 (IPv4Address (mk_IPv4Address_value 0x0A010203 80))) = 0x0AFFFFFF"
  using subnet_bounds [of "IPv4Address (mk_IPv4Address_value 0x0A010203 80)" 8]
  by (simp add: ip_wf_def ip_value_def ip_width_def mk_IPv4Address_value_def mk_IPv4Address_def)

section \<open>Counting the bits of a netmask\<close>

lemma finite_bits: "finite {k. bit (m :: 'a::len word) k}"
  by (rule finite_subset [of _ "{..<LENGTH('a)}"]) (auto dest: bit_imp_le_length)

lemma clear_lowest:
  assumes "m \<noteq> (0 :: 'a::len word)"
  shows "\<exists>k. bit m k \<and> {j. bit (m AND (m - 1)) j} = {j. bit m j} - {k}"
proof -
  define k where "k = (LEAST j. bit m j)"
  have "\<exists>j. bit m j" using assms by (metis bit_0_eq bit_eqI bot_apply bot_bool_def)
  then have k: "bit m k" "\<And>j. j < k \<Longrightarrow> \<not> bit m j"
    unfolding k_def by (rule LeastI_ex) (rule not_less_Least)
  have "m = unset_bit k m + 2 ^ k"
  proof -
    have "unset_bit k m + 2 ^ k = unset_bit k m OR 2 ^ k"
      by (rule disjunctive_add_eq_or) (rule bit_word_eqI, auto simp: bit_simps)
    also have "\<dots> = m" using k(1) by (intro bit_word_eqI) (auto simp: bit_simps)
    finally show ?thesis by simp
  qed
  then have "m - 1 = unset_bit k m + mask k" by (simp add: mask_eq_exp_minus_1 algebra_simps)
  also have "\<dots> = unset_bit k m OR mask k"
    by (rule disjunctive_add_eq_or) (rule bit_word_eqI, use k(2) in \<open>auto simp: bit_simps\<close>)
  finally have "{j. bit (m AND (m - 1)) j} = {j. bit m j} - {k}"
    using k(2) by (auto simp: bit_simps dest: bit_imp_le_length)
  with k(1) show ?thesis by blast
qed

lemma count_bits_card: "count_bits m n = n + of_nat (card {k. bit m k})"
proof (induction m n rule: count_bits.induct)
  case (1 m n)
  show ?case
  proof (cases "m = 0")
    case False
    then obtain k where k: "bit m k" "{j. bit (m AND (m - 1)) j} = {j. bit m j} - {k}"
      using clear_lowest by blast
    then have "card {j. bit m j} = Suc (card {j. bit (m AND (m - 1)) j})"
      using card.remove [OF finite_bits, of k m] by simp
    with 1 False show ?thesis by (subst count_bits.simps) simp
  qed (simp add: count_bits.simps)
qed

lemma count_bit_mask:
  assumes "LENGTH('a::len) \<le> 64" and "p \<le> LENGTH('a)"
  shows "count_bits (bit_mask p :: 'a word) n = n + of_nat p"
proof -
  have "{k. bit (bit_mask p :: 'a word) k} = {LENGTH('a) - p ..< LENGTH('a)}"
    using assms(1) by (auto simp: bit_mask_eq bit_simps)
  with assms(2) show ?thesis by (simp add: count_bits_card)
qed

lemma count_bytes:
  "(count_bits (0xFF :: u8) ^^ i) n = n + of_nat (8 * i)"
  "(count_bits (0x00 :: u8) ^^ i) n = n"
proof -
  have "(bit_mask 8 :: u8) = 0xFF" "(bit_mask 0 :: u8) = 0" by code_simp+
  then have "count_bits (0xFF :: u8) k = k + 8" "count_bits (0 :: u8) k = k" for k
    using count_bit_mask [of 8 k, where ?'a = 8] count_bit_mask [of 0 k, where ?'a = 8] by simp_all
  then show "(count_bits (0xFF :: u8) ^^ i) n = n + of_nat (8 * i)"
    "(count_bits (0x00 :: u8) ^^ i) n = n"
    by (induction i arbitrary: n) simp_all
qed

text \<open>The IPv6 netmask of \<open>q\<close> bits, which is the network part of the all-ones address, and its bits counted.\<close>

lemma ipv6_netmask:
  assumes q: "q \<le> 128"
  defines "a \<equiv> IPv6Address_get_network_address q (mk_IPv6Address_bytes (replicate 16 0xFF) 0)"
  shows "length (sin6_addr a) = 16" and "fold count_bits (sin6_addr a) 0 = (of_nat q :: u32)"
proof -
  have "(0xFF :: u8) = - 1" by simp
  then have ones: "(0xFF :: u8) AND x = x" for x by (metis and.left_neutral)
  have addr: "sin6_addr a = (if q < 128 then replicate (q div 8) 0xFF @ [bit_mask (q mod 8)]
      @ replicate (15 - q div 8) 0 else replicate 16 0xFF)"
    by (auto simp: a_def IPv6Address_get_network_address_def mk_IPv6Address_bytes_def Let_def ones
        less_mult_imp_div_less)
  show "length (sin6_addr a) = 16" unfolding addr by (auto simp: less_mult_imp_div_less)
  show "fold count_bits (sin6_addr a) 0 = (of_nat q :: u32)"
  proof (cases "q < 128")
    case True
    have "fold count_bits (sin6_addr a) 0 = of_nat (8 * (q div 8)) + (of_nat (q mod 8) :: u32)"
      using True count_bit_mask [of "q mod 8", where ?'a = 8]
      by (simp add: addr count_bytes)
    also have "\<dots> = of_nat (8 * (q div 8) + q mod 8)" by (simp only: of_nat_add)
    also have "8 * (q div 8) + q mod 8 = q" by simp
    finally show ?thesis .
  next
    case False
    with q have "q = 128" by simp
    moreover from False addr have "sin6_addr a = replicate 16 0xFF" by (simp only: if_False)
    ultimately show ?thesis by (simp only: fold_replicate count_bytes) simp
  qed
qed

text \<open>
  C26. The prefix length that \<open>get_interface_address\<close> reads from a netmask: Kernighan's loop ends
  and counts the one bits, so the netmask of a prefix of \<open>p\<close> bits, in either family, gives \<open>p\<close>.
\<close>

theorem netmask_prefix_roundtrip:
  "count_bits (m :: 'a::len word) n = n + of_nat (card {k. bit m k})
   \<and> prefix_len_of (raw_ip (IPv4Address mk_IPv4Address))
       (Some (raw_ip (IPv4Address (IPv4Address_get_network_address (min p 32) (mk_IPv4Address_value (-1) 0))))) =
         Inr (of_nat (min p 32))
   \<and> prefix_len_of (raw_ip (IPv6Address mk_IPv6Address))
       (Some (raw_ip (IPv6Address (IPv6Address_get_network_address (min p 128) (mk_IPv6Address_bytes (replicate 16 0xFF) 0))))) =
         Inr (of_nat (min p 128))"
proof (intro conjI)
  show "count_bits m n = n + of_nat (card {k. bit m k})" by (rule count_bits_card)
next
  let ?q = "min p 32"
  let ?a = "IPv4Address_get_network_address ?q (mk_IPv4Address_value (-1) 0)"
  have "htonl (sin_addr ?a) = bit_mask ?q"
    by (auto simp: IPv4Address_get_network_address_def mk_IPv4Address_value_def Let_def htonl_and
        bit_mask_eq min_def)
  moreover have "sin_addr (sockaddr_in_at (raw_ip (IPv4Address ?a))) = sin_addr ?a"
    by (simp add: sockaddr_in_at_def of_le_to_le_full)
  moreover have "uint (family_at (raw_ip (IPv4Address mk_IPv4Address))) = AF_INET" by code_simp
  ultimately show "prefix_len_of (raw_ip (IPv4Address mk_IPv4Address)) (Some (raw_ip (IPv4Address ?a))) = Inr (of_nat ?q)"
    using count_bit_mask [of ?q 0, where ?'a = 32] by (simp add: prefix_len_of_def)
next
  define q where "q = min p 128"
  let ?a = "IPv6Address_get_network_address q (mk_IPv6Address_bytes (replicate 16 0xFF) 0)"
  have "q \<le> 128" by (simp add: q_def)
  note mask = ipv6_netmask [OF this]
  have "sin6_addr (sockaddr_in6_at (raw_ip (IPv6Address ?a))) = sin6_addr ?a"
    using mask(1) by (simp add: sockaddr_in6_at_def)
  moreover have "uint (family_at (raw_ip (IPv6Address mk_IPv6Address))) = AF_INET6" by code_simp
  ultimately show "prefix_len_of (raw_ip (IPv6Address mk_IPv6Address))
      (Some (raw_ip (IPv6Address (IPv6Address_get_network_address (min p 128) (mk_IPv6Address_bytes (replicate 16 0xFF) 0))))) =
        Inr (of_nat (min p 128))"
    using mask(2) by (simp add: prefix_len_of_def AF_INET_def AF_INET6_def q_def [symmetric])
qed

section \<open>Order and equality\<close>

definition addr_wf :: "Address \<Rightarrow> bool" where
  "addr_wf a \<longleftrightarrow> get_addr_len a \<le> length (get_addr a)"

text \<open>The bytes that the comparisons look at.\<close>

definition addr_bytes :: "Address \<Rightarrow> bytes" where
  "addr_bytes a = take (get_addr_len a) (get_addr a)"

lemma memcmp_eq_0:
  "n \<le> length as \<Longrightarrow> n \<le> length bs \<Longrightarrow> memcmp as bs n = 0 \<longleftrightarrow> take n as = take n bs"
  by (induction as bs n rule: memcmp.induct) (auto simp: word_uint_eq_iff)

lemma memcmp_less:
  "n \<le> length as \<Longrightarrow> n \<le> length bs \<Longrightarrow> memcmp as bs n < 0 \<longleftrightarrow> take n as < take n bs"
  by (induction as bs n rule: memcmp.induct) (auto simp: word_less_def word_uint_eq_iff)

lemma lex_take:
  "(xs :: 'a::linorder list) < ys \<longleftrightarrow>
     (let n = min (length xs) (length ys) in take n xs < take n ys \<or> take n xs = take n ys \<and> length ys > n)"
proof (induction xs arbitrary: ys)
  case Nil
  then show ?case by (cases ys) simp_all
next
  case (Cons x xs)
  then show ?case by (cases ys) (auto simp: Let_def)
qed

lemma length_addr_bytes: "addr_wf a \<Longrightarrow> length (addr_bytes a) = get_addr_len a"
  by (simp add: addr_bytes_def addr_wf_def)

lemma Address_less_iff:
  assumes "addr_wf a" and "addr_wf b"
  shows "Address_less a b \<longleftrightarrow> addr_bytes a < addr_bytes b"
proof -
  let ?n = "min (get_addr_len a) (get_addr_len b)"
  have n: "?n \<le> length (get_addr a)" "?n \<le> length (get_addr b)" using assms by (auto simp: addr_wf_def)
  have t: "take ?n (addr_bytes a) = take ?n (get_addr a)" "take ?n (addr_bytes b) = take ?n (get_addr b)"
    by (simp_all add: addr_bytes_def min.commute min.left_commute)
  have "addr_bytes a < addr_bytes b \<longleftrightarrow> take ?n (get_addr a) < take ?n (get_addr b)
      \<or> take ?n (get_addr a) = take ?n (get_addr b) \<and> get_addr_len b > ?n"
    unfolding lex_take [of "addr_bytes a"] Let_def length_addr_bytes [OF assms(1)] length_addr_bytes [OF assms(2)] t ..
  then show ?thesis
    unfolding Address_less_def Let_def memcmp_less [OF n] memcmp_eq_0 [OF n] by simp
qed

lemma Address_eq_iff:
  assumes "addr_wf a" and "addr_wf b"
  shows "Address_eq a b \<longleftrightarrow> addr_bytes a = addr_bytes b"
proof (cases "get_addr_len a = get_addr_len b")
  case True
  with assms show ?thesis
    by (simp add: Address_eq_def Let_def memcmp_eq_0 addr_wf_def addr_bytes_def)
next
  case False
  then have "addr_bytes a \<noteq> addr_bytes b"
    using length_addr_bytes [OF assms(1)] length_addr_bytes [OF assms(2)] by auto
  with False show ?thesis by (simp add: Address_eq_def)
qed

text \<open>
  \<open>operator<\<close> on addresses is a strict total order on the bytes of the address, so addresses can
  be keys of ordered containers, and \<open>operator==\<close> is exactly the equivalence it induces: of two
  addresses one is smaller, or they are equal, and never both.
\<close>

theorem address_order_total:
  assumes "addr_wf a" and "addr_wf b" and "addr_wf c"
  shows "\<not> Address_less a a
    \<and> (Address_less a b \<and> Address_less b c \<longrightarrow> Address_less a c)
    \<and> Address_eq a b = same_key Address_less a b
    \<and> Address_eq a b = (addr_bytes a = addr_bytes b)"
  using assms by (auto simp: Address_less_iff Address_eq_iff same_key_def)

theorem address_order_total_witness:
  "Address_less (create_family 2) (create_family 10)
   \<and> Address_eq (create_family 2) (create_family 2)"
proof -
  have wf: "addr_wf (create_family 2)" "addr_wf (create_family 10)" by code_simp+
  have "Address_less (create_family 2) (create_family 10)" by code_simp
  then show ?thesis using address_order_total [OF wf(1,1,2)] by blast
qed

section \<open>Unix domain paths\<close>

lemma unat_of_char: "unat (of_char c :: u8) = of_char c"
proof -
  have "unat (of_nat (of_char c) :: u8) = of_char c" by (simp add: unat_of_nat)
  then show ?thesis by (simp add: of_nat_of_char)
qed

lemma text_map: "text_at (map of_char s) = s"
  by (induction s) (simp_all add: text_at_def unat_of_char)

lemma c_str_append_nul: "CHR 0x00 \<notin> set s \<Longrightarrow> c_str (s @ CHR 0x00 # t) = s"
  unfolding c_str_def by (subst takeWhile_append2) auto

lemma char_of_0 [simp]: "char_of (0 :: nat) = CHR 0x00"
  by (simp add: char_of_def)

lemma text_zeros: "text_at (replicate n 0) = replicate n (CHR 0x00)"
  by (simp add: text_at_def)

text \<open>
  Paths of Unix domain addresses. A path of at most 107 characters without NUL is stored
  NUL-terminated and \<open>get_path\<close> returns it; a longer path is refused with an exception. A name
  in the abstract namespace, which starts with NUL, is lost: \<open>strncpy\<close> copies up to the first
  NUL, so every such name of a given length yields the same all-zero address.
\<close>

theorem unix_path_roundtrip:
  assumes "CHR 0x00 \<notin> set path" and "length path \<le> 107"
  shows "\<exists>a. mk_UnixAddress_path path = Inr (UnixAddress a (2 + length path))
      \<and> UnixAddress_get_path a (2 + length path) = path \<and> length (sun_path a) = 108
    \<and> mk_UnixAddress_path (replicate 108 c) = Inl Logic_error
    \<and> mk_UnixAddress_path (CHR 0x00 # path') =
        (if length path' > 106 then Inl Logic_error
         else Inr (UnixAddress \<lparr>sun_family = 1, sun_path = replicate 108 0\<rparr> (3 + length path')))"
proof -
  let ?a = "\<lparr>sun_family = 1, sun_path = strncpy_zeroed path (length path)\<rparr>"
  have p: "sun_path ?a = map of_char path @ replicate (108 - length path) 0"
    using assms by (simp add: strncpy_zeroed_def c_str_id)
  have "text_at (sun_path ?a) = path @ CHR 0x00 # replicate (107 - length path) (CHR 0x00)"
  proof -
    have "108 - length path = Suc (107 - length path)" using assms(2) by simp
    then show ?thesis unfolding p by (simp add: text_at_def unat_of_char comp_def)
  qed
  then have c: "c_str (text_at (sun_path ?a)) = path" using c_str_append_nul [OF assms(1)] by simp
  have "UnixAddress_get_path ?a (2 + length path) = path"
  proof (cases path)
    case (Cons x xs)
    have "(of_char x :: u8) \<noteq> 0"
      using assms(1) Cons by (metis byte_def byte_eq_0 list.set_intros(1) unat_0 unat_of_char)
    then have "sun_path ?a ! 0 \<noteq> 0" by (subst p) (simp add: Cons)
    with c Cons show ?thesis by (simp add: UnixAddress_get_path_def)
  qed (simp add: UnixAddress_get_path_def)
  moreover have "mk_UnixAddress_path path = Inr (UnixAddress ?a (2 + length path))"
    using assms(2) by (simp add: mk_UnixAddress_path_def MAX_PATH_LEN_def)
  moreover have "length (sun_path ?a) = 108" unfolding p using assms(2) by simp
  moreover have "mk_UnixAddress_path (CHR 0x00 # path') =
        (if length path' > 106 then Inl Logic_error
         else Inr (UnixAddress \<lparr>sun_family = 1, sun_path = replicate 108 0\<rparr> (3 + length path')))"
    by (simp add: mk_UnixAddress_path_def MAX_PATH_LEN_def strncpy_zeroed_def c_str_def)
  ultimately show ?thesis
    by (intro exI [of _ ?a]) (simp add: mk_UnixAddress_path_def MAX_PATH_LEN_def)
qed

theorem unix_path_roundtrip_witness:
  "\<exists>a. mk_UnixAddress_path ''/tmp/s'' = Inr (UnixAddress a 8) \<and> UnixAddress_get_path a 8 = ''/tmp/s''"
  using unix_path_roundtrip [of "''/tmp/s''" "CHR ''x''" "''y''"] by auto

section \<open>Host names\<close>

lemma find_char_first: "c \<notin> set h \<Longrightarrow> find_char c (h @ c # t) = Some (length h)"
  by (induction h) auto

lemma find_char_None: "c \<notin> set h \<Longrightarrow> find_char c h = None"
  by (induction h) auto

text \<open>
  The host argument of \<open>lookup_address\<close>: \<open>[host]:service\<close> and \<open>host:service\<close> are taken apart,
  a bare host has an empty service, and every address of the result that can be represented is
  appended to the caller's list, in order. An IPv6 address without brackets is cut at its first colon.
\<close>

theorem host_forms:
  assumes "h \<noteq> []" and "h ! 0 \<noteq> CHR ''[''" and "CHR '':'' \<notin> set h" and "CHR '']'' \<notin> set g" and "g \<noteq> []"
    and "service \<noteq> []"
  shows "split_host (''['' @ g @ '']:'' @ service) = (g, service)
    \<and> split_host (''['' @ g @ '']'') = (g, [])
    \<and> split_host (h @ '':'' @ service) = (h, service)
    \<and> split_host h = (h, [])
    \<and> split_host ''fe80::1'' = (''fe80'', '':1'')
    \<and> lookup_address (\<lambda>n s f t p. Inr found) result h f st pr =
        (result @ List.map_filter create found \<noteq> [], result @ List.map_filter create found)
    \<and> lookup_address (\<lambda>n s f t p. Inl e) result h f st pr = (False, result)"
proof (intro conjI)
  have "find_char (CHR '']'') (''['' @ g @ '']'' @ t) = Some (Suc (length g))" for t
    using find_char_first [of "CHR '']''" "''['' @ g" t] assms(4) by simp
  from this [of "'':'' @ service"] this [of "[]"] assms(5,6)
  show "split_host (''['' @ g @ '']:'' @ service) = (g, service)" "split_host (''['' @ g @ '']'') = (g, [])"
    by (simp_all add: split_host_def)
  have "(h @ t) ! 0 = h ! 0" for t using assms(1) by (simp add: nth_append)
  with find_char_first [OF assms(3), of service] assms(1,2,6)
  show "split_host (h @ '':'' @ service) = (h, service)" by (simp add: split_host_def)
  show h: "split_host h = (h, [])"
    using assms(1,2) find_char_None [OF assms(3)] by (simp add: split_host_def)
  show "lookup_address (\<lambda>n s f t p. Inr found) result h f st pr =
      (result @ List.map_filter create found \<noteq> [], result @ List.map_filter create found)"
    "lookup_address (\<lambda>n s f t p. Inl e) result h f st pr = (False, result)"
    by (simp_all add: lookup_address_def h Let_def)
  show "split_host ''fe80::1'' = (''fe80'', '':1'')" by code_simp
qed

theorem host_forms_witness:
  "split_host ''[::1]:80'' = (''::1'', ''80'') \<and> split_host ''localhost:http'' = (''localhost'', ''http'')"
  using host_forms [of "''localhost''" "''::1''" "''80''" "[]" "[]" 0 0 0 0]
    host_forms [of "''localhost''" "''::1''" "''http''" "[]" "[]" 0 0 0 0] by simp

text \<open>Two slips that show on concrete inputs.\<close>

lemma ipv6_output_swaps_bytes:
  "IPv6Address_output (mk_IPv6Address_bytes (replicate 15 0 @ [1]) 80) = ''[0:0:0:0:0:0:0:100]:80''"
  by code_simp

lemma IPAddress_create_unresolved:
  "IPAddress_create (\<lambda>n s f t p. Inl e) (Some host) port = Inl Indeterminate_value"
  by (simp add: IPAddress_create_def)

lemma interface_without_address:
  "get_interface_address (Some [\<lparr>ifa_name = n, ifa_addr = None, ifa_netmask = None\<rparr>]) f [] = Inl Null_deref"
  by (simp add: get_interface_address_def)

end
