(* ===== verification/Socket.thy ===== *)
theory Socket
  imports Address
begin

text \<open>
  Sockets (src/sylar/socket.h, socket.cpp). The system calls are made to an operating system whose
  answers are arbitrary: \<open>answer\<close> gives the return value of a call from the calls made so far,
  and \<open>trace\<close> records them, so that theorems can speak about the calls a method makes. The
  addresses that \<open>getsockname\<close>, \<open>getpeername\<close> and \<open>accept\<close> write are given by functions of the
  descriptor. \<open>hooked\<close> tells which descriptors have a context in the \<open>FdManager\<close>, and \<open>log_errors\<close>
  whether the logger takes error messages: the text of a message is computed only then, and
  computing it has effects, since \<open>to_string\<close> fills the cached addresses.
\<close>

section \<open>State\<close>

datatype syscall =
    Sys_socket int int int
  | Sys_bind int Address
  | Sys_listen int int
  | Sys_accept int
  | Sys_connect int Address
  | Sys_close int
  | Sys_setsockopt int int int
  | Sys_getsockopt int int int
  | Sys_getsockname int
  | Sys_getpeername int
  | Sys_send int
  | Sys_sendmsg int
  | Sys_sendto int
  | Sys_recv int
  | Sys_recvmsg int
  | Sys_recvfrom int

record os =
  answer :: "syscall list \<Rightarrow> syscall \<Rightarrow> int"
  trace :: "syscall list"
  name_at :: "int \<Rightarrow> Address"
  peer_at :: "int \<Rightarrow> Address"
  hooked :: "int \<Rightarrow> bool"
  log_errors :: bool

record Socket =
  sockfd :: int
  family :: int
  sock_type :: int
  protocol :: int
  is_connected :: bool
  local_address :: "Address option"
  remote_address :: "Address option"

type_synonym sock_state = "Socket \<times> os"

definition sys :: "syscall \<Rightarrow> os \<Rightarrow> int \<times> os" where
  "sys c k = (answer k (trace k) c, k\<lparr>trace := trace k @ [c]\<rparr>)"

definition SOCK_STREAM :: int where "SOCK_STREAM = 1"
definition SOL_SOCKET_level :: int where "SOL_SOCKET_level = 1"
definition SO_REUSEADDR :: int where "SO_REUSEADDR = 2"
definition IPPROTO_TCP :: int where "IPPROTO_TCP = 6"
definition TCP_NODELAY :: int where "TCP_NODELAY = 1"

section \<open>Accessors\<close>

definition mk_Socket :: "int \<Rightarrow> int \<Rightarrow> int \<Rightarrow> Socket" where
  "mk_Socket fam ty proto = \<lparr>sockfd = -1, family = fam, sock_type = ty, protocol = proto, is_connected = False,
     local_address = None, remote_address = None\<rparr>"

definition is_valid :: "Socket \<Rightarrow> bool" where
  "is_valid s \<longleftrightarrow> sockfd s \<noteq> -1"

definition get_local_address :: "sock_state \<Rightarrow> Address option \<times> sock_state" where
  "get_local_address x =
     (let (s, k) = x
      in if sockfd s = -1 then (None, x)
         else case local_address s of
                Some a \<Rightarrow> (Some a, x)
              | None \<Rightarrow>
                  (let (rt, k1) = sys (Sys_getsockname (sockfd s)) k
                   in if rt \<noteq> 0 then (None, (s\<lparr>local_address := None\<rparr>, k1))
                      else (Some (name_at k (sockfd s)), (s\<lparr>local_address := Some (name_at k (sockfd s))\<rparr>, k1))))"

definition get_remote_address :: "sock_state \<Rightarrow> Address option \<times> sock_state" where
  "get_remote_address x =
     (let (s, k) = x
      in if sockfd s = -1 \<or> \<not> is_connected s then (None, x)
         else case remote_address s of
                Some a \<Rightarrow> (Some a, x)
              | None \<Rightarrow>
                  (let (rt, k1) = sys (Sys_getpeername (sockfd s)) k
                   in if rt \<noteq> 0 then (None, (s\<lparr>remote_address := None\<rparr>, k1))
                      else (Some (peer_at k (sockfd s)), (s\<lparr>remote_address := Some (peer_at k (sockfd s))\<rparr>, k1))))"

definition address_text :: "Address option \<Rightarrow> string" where
  "address_text a = (case a of Some b \<Rightarrow> Address_output b | None \<Rightarrow> ''nullptr'')"

definition Socket_to_string :: "sock_state \<Rightarrow> string \<times> sock_state" where
  "Socket_to_string x =
     (let s = fst x;
          head = ''[Socket sock='' @ dec_int (sockfd s) @ '' family='' @ dec_int (family s)
                 @ '' type='' @ dec_int (sock_type s) @ '' protocol='' @ dec_int (protocol s) @ '' local_address='';
          (local, x1) = get_local_address x;
          (remote, x2) = get_remote_address x1
      in (head @ address_text local @ '' remote_address='' @ address_text remote
          @ '' is_connected='' @ dec (if is_connected s then 1 else 0) @ '']'', x2))"

text \<open>An error message that prints the socket.\<close>

definition log_socket :: "sock_state \<Rightarrow> sock_state" where
  "log_socket x = (if log_errors (snd x) then snd (Socket_to_string x) else x)"

definition get_option :: "int \<Rightarrow> int \<Rightarrow> sock_state \<Rightarrow> bool \<times> sock_state" where
  "get_option level opt x =
     (let (s, k) = x; (rt, k1) = sys (Sys_getsockopt (sockfd s) level opt) k in (rt = 0, (s, k1)))"

text \<open>\<open>so_error\<close> is the value of the option when the call answers it, \<open>err\<close> the value of \<open>errno\<close> after it has failed.\<close>

definition SO_ERROR :: int where "SO_ERROR = 4"

definition Socket_get_error :: "int \<Rightarrow> int \<Rightarrow> sock_state \<Rightarrow> int \<times> sock_state" where
  "Socket_get_error so_error err x =
     (let (ok, x1) = get_option SOL_SOCKET_level SO_ERROR x in (if ok then so_error else err, x1))"

definition set_option :: "int \<Rightarrow> int \<Rightarrow> sock_state \<Rightarrow> bool \<times> sock_state" where
  "set_option level opt x =
     (let (s, k) = x; (rt, k1) = sys (Sys_setsockopt (sockfd s) level opt) k in (rt = 0, (s, k1)))"

text \<open>
  The milliseconds of a timeout as the seconds and microseconds of a \<open>timeval\<close>, and back; the
  option calls themselves only carry the structure.
\<close>

definition Socket_set_timeout :: "u64 \<Rightarrow> u64 \<times> u64" where
  "Socket_set_timeout value = (value div 1000, (value mod 1000) * 1000)"

definition Socket_get_timeout :: "u64 \<times> u64 \<Rightarrow> u64" where
  "Socket_get_timeout tv = fst tv * 1000 + snd tv div 1000"

section \<open>Life cycle\<close>

definition Socket_init :: "int \<Rightarrow> sock_state \<Rightarrow> bool \<times> sock_state" where
  "Socket_init f x =
     (let (s, k) = x;
          (s1, k1) = (if f = -1
                      then let (rt, k') = sys (Sys_socket (family s) (sock_type s) (protocol s)) k
                           in (s\<lparr>sockfd := rt, is_connected := False\<rparr>, k')
                      else (s\<lparr>sockfd := f, is_connected := True\<rparr>, k))
      in if sockfd s1 = -1 then (False, (s1, k1))
         else let x1 = (s1, k1);
                  x2 = (if hooked k1 (sockfd s1)
                        then let x' = snd (set_option SOL_SOCKET_level SO_REUSEADDR x1)
                             in if sock_type s1 = SOCK_STREAM then snd (set_option IPPROTO_TCP TCP_NODELAY x') else x'
                        else x1)
              in (True, x2))"

text \<open>\<open>if(!is_valid()) init(-1);\<close>\<close>

definition ensure_fd :: "sock_state \<Rightarrow> sock_state" where
  "ensure_fd x = (if \<not> is_valid (fst x) then snd (Socket_init (-1) x) else x)"

definition Socket_bind :: "Address option \<Rightarrow> sock_state \<Rightarrow> (sock_state, bool) outcome" where
  "Socket_bind addr x =
     (let x1 = ensure_fd x
      in case addr of
           None \<Rightarrow> if \<not> is_valid (fst x1) \<and> \<not> log_errors (snd x1) then (Inr False, x1) else (Inl Null_deref, x1)
         | Some a \<Rightarrow>
             if \<not> is_valid (fst x1) \<or> get_family a \<noteq> family (fst x1) then (Inr False, log_socket x1)
             else let (rt, k) = sys (Sys_bind (sockfd (fst x1)) a) (snd x1); x2 = (fst x1, k)
                  in if rt \<noteq> 0 then (Inr False, log_socket x2) else (Inr True, x2))"

definition Socket_listen :: "int \<Rightarrow> sock_state \<Rightarrow> bool \<times> sock_state" where
  "Socket_listen backlog x =
     (if \<not> is_valid (fst x) then (False, log_socket x)
      else let (rt, k) = sys (Sys_listen (sockfd (fst x)) backlog) (snd x); x1 = (fst x, k)
           in if rt \<noteq> 0 then (False, log_socket x1) else (True, x1))"

text \<open>The new socket is closed when the last pointer to it goes away.\<close>

definition Socket_close :: "sock_state \<Rightarrow> bool \<times> sock_state" where
  "Socket_close x =
     (let (s, k) = x
      in if sockfd s = -1 \<or> \<not> is_connected s then (True, x)
         else let x1 = (s\<lparr>is_connected := False\<rparr>, k);
                  x2 = snd (Socket_to_string x1);
                  (rt, k2) = sys (Sys_close (sockfd (fst x2))) (snd x2)
              in (rt = 0, (fst x2, k2)))"

definition Socket_destroy :: "sock_state \<Rightarrow> sock_state" where
  "Socket_destroy x = snd (Socket_close x)"

definition Socket_accept :: "sock_state \<Rightarrow> Socket option \<times> sock_state" where
  "Socket_accept x =
     (let (s, k) = x;
          (fd, k1) = sys (Sys_accept (sockfd s)) k
      in if fd = -1 then (None, (s, k1))
         else let comm = (mk_Socket (family s) (sock_type s) (protocol s))\<lparr>remote_address := Some (peer_at k fd)\<rparr>;
                  (_, comm', k2) = Socket_init fd (comm, k1)
              in (Some comm', (s, k2)))"

definition Socket_connect :: "Address option \<Rightarrow> sock_state \<Rightarrow> (sock_state, bool) outcome" where
  "Socket_connect addr x =
     (let x1 = ensure_fd x
      in if \<not> is_valid (fst x1) \<or> addr = None \<or> get_family (the addr) \<noteq> family (fst x1)
         then if addr = None \<and> log_errors (snd x1) then (Inl Null_deref, log_socket x1) else (Inr False, log_socket x1)
         else let a = the addr; (rt, k) = sys (Sys_connect (sockfd (fst x1)) a) (snd x1); x2 = (fst x1, k)
              in if rt \<noteq> 0 then (Inr False, snd (Socket_close (log_socket x2)))
                 else (Inr True, ((fst x2)\<lparr>is_connected := True\<rparr>, snd x2)))"

definition Socket_reconnect :: "sock_state \<Rightarrow> (sock_state, bool) outcome" where
  "Socket_reconnect x =
     (case get_remote_address x of
        (None, x1) \<Rightarrow> (Inr False, x1)
      | (Some _, x1) \<Rightarrow>
          let x2 = ((fst x1)\<lparr>local_address := None\<rparr>, snd x1); (remote, x3) = get_remote_address x2
          in Socket_connect remote x3)"

section \<open>Transfer\<close>

text \<open>Each call is guarded; the answer is the number of bytes, or \<open>-1\<close>.\<close>

definition guarded :: "bool \<Rightarrow> syscall \<Rightarrow> sock_state \<Rightarrow> int \<times> sock_state" where
  "guarded ok c x = (if \<not> ok then (-1, x) else let (rt, k) = sys c (snd x) in (rt, (fst x, k)))"

definition Socket_send :: "sock_state \<Rightarrow> int \<times> sock_state" where
  "Socket_send x = guarded (is_connected (fst x)) (Sys_send (sockfd (fst x))) x"

definition Socket_send_iov :: "sock_state \<Rightarrow> int \<times> sock_state" where
  "Socket_send_iov x = guarded (is_connected (fst x)) (Sys_sendmsg (sockfd (fst x))) x"

definition Socket_send_to :: "Address option \<Rightarrow> sock_state \<Rightarrow> int \<times> sock_state" where
  "Socket_send_to to x =
     (if to = None \<or> \<not> \<not> is_valid (fst x) then (-1, x) else guarded True (Sys_sendto (sockfd (fst x))) x)"

definition Socket_send_to_iov :: "Address option \<Rightarrow> sock_state \<Rightarrow> int \<times> sock_state" where
  "Socket_send_to_iov to x =
     (if to = None \<or> \<not> is_valid (fst x) then (-1, x) else guarded True (Sys_sendmsg (sockfd (fst x))) x)"

definition Socket_recv :: "sock_state \<Rightarrow> int \<times> sock_state" where
  "Socket_recv x = guarded (is_connected (fst x)) (Sys_recv (sockfd (fst x))) x"

definition Socket_recv_iov :: "sock_state \<Rightarrow> int \<times> sock_state" where
  "Socket_recv_iov x = guarded (is_connected (fst x)) (Sys_recvmsg (sockfd (fst x))) x"

definition Socket_recv_from :: "Address option \<Rightarrow> sock_state \<Rightarrow> int \<times> sock_state" where
  "Socket_recv_from from x =
     (if \<not> is_valid (fst x) \<or> from = None then (-1, x) else guarded True (Sys_recvfrom (sockfd (fst x))) x)"

definition Socket_recv_from_iov :: "Address option \<Rightarrow> sock_state \<Rightarrow> int \<times> sock_state" where
  "Socket_recv_from_iov from x =
     (if \<not> is_valid (fst x) \<or> from = None then (-1, x) else guarded True (Sys_recvmsg (sockfd (fst x))) x)"

section \<open>Facts\<close>

text \<open>The cached addresses and the trace do not matter to what a socket is.\<close>

definition same_socket :: "sock_state \<Rightarrow> sock_state \<Rightarrow> bool" where
  "same_socket x y \<longleftrightarrow> sockfd (fst y) = sockfd (fst x) \<and> is_connected (fst y) = is_connected (fst x)
     \<and> family (fst y) = family (fst x) \<and> (\<exists>t. trace (snd y) = trace (snd x) @ t \<and> (\<forall>f. Sys_close f \<notin> set t))"

lemma same_socket_refl [simp]: "same_socket x x"
  by (simp add: same_socket_def)

lemma same_socket_trans: "same_socket x y \<Longrightarrow> same_socket y z \<Longrightarrow> same_socket x z"
  by (auto simp: same_socket_def)

lemma same_socket_sys: "(\<And>f. c \<noteq> Sys_close f) \<Longrightarrow> same_socket x (fst x, snd (sys c (snd x)))"
  by (auto simp: same_socket_def sys_def)

lemma same_local: "same_socket x (snd (get_local_address x))"
  by (auto simp: get_local_address_def same_socket_def sys_def Let_def split: option.splits prod.splits)

lemma same_remote: "same_socket x (snd (get_remote_address x))"
  by (auto simp: get_remote_address_def same_socket_def sys_def Let_def split: option.splits prod.splits)

lemma same_to_string: "same_socket x (snd (Socket_to_string x))"
proof -
  have "snd (Socket_to_string x) = snd (get_remote_address (snd (get_local_address x)))"
    by (simp add: Socket_to_string_def Let_def split: prod.splits)
  then show ?thesis using same_local [of x] same_remote [of "snd (get_local_address x)"] same_socket_trans by metis
qed

lemma same_log: "same_socket x (log_socket x)"
  by (simp add: log_socket_def same_to_string)

lemma same_options: "same_socket x (snd (set_option l p x))" "same_socket x (snd (get_option l p x))"
  by (auto simp: set_option_def get_option_def same_socket_def sys_def split: prod.splits)

lemma same_guarded: "(\<And>f. c \<noteq> Sys_close f) \<Longrightarrow> same_socket x (snd (guarded b c x))"
  by (auto simp: guarded_def same_socket_def sys_def)

lemma Socket_init_fields:
  assumes "Socket_init f x = (b, y)"
  shows "is_connected (fst y) = (f \<noteq> -1)" "f \<noteq> -1 \<Longrightarrow> sockfd (fst y) = f" "family (fst y) = family (fst x)"
    "\<exists>t. trace (snd y) = trace (snd x) @ t \<and> (\<forall>f. Sys_close f \<notin> set t)"
proof -
  obtain s k where x: "x = (s, k)" by fastforce
  define x1 where "x1 = (if f = -1
      then (s\<lparr>sockfd := fst (sys (Sys_socket (family s) (sock_type s) (protocol s)) k), is_connected := False\<rparr>,
            snd (sys (Sys_socket (family s) (sock_type s) (protocol s)) k))
      else (s\<lparr>sockfd := f, is_connected := True\<rparr>, k))"
  define x2 where "x2 = snd (set_option SOL_SOCKET_level SO_REUSEADDR x1)"
  have "y = x1 \<or> y = x2 \<or> y = snd (set_option IPPROTO_TCP TCP_NODELAY x2)"
    using assms by (auto simp: Socket_init_def x x1_def x2_def Let_def split: prod.splits if_splits)
  then have "same_socket x1 y"
    using same_options(1) same_socket_trans unfolding x2_def by (metis same_socket_refl)
  moreover have "\<exists>t. trace (snd x1) = trace k @ t \<and> (\<forall>f. Sys_close f \<notin> set t)"
    by (auto simp: x1_def sys_def)
  ultimately show "is_connected (fst y) = (f \<noteq> -1)" "f \<noteq> -1 \<Longrightarrow> sockfd (fst y) = f" "family (fst y) = family (fst x)"
    "\<exists>t. trace (snd y) = trace (snd x) @ t \<and> (\<forall>f. Sys_close f \<notin> set t)"
    by (auto simp: same_socket_def x1_def x)
qed

text \<open>A connected socket has a descriptor.\<close>

definition sock_ok :: "sock_state \<Rightarrow> bool" where
  "sock_ok x \<longleftrightarrow> \<not> is_connected (fst x) \<or> is_valid (fst x)"

lemma sock_ok_same: "same_socket x y \<Longrightarrow> sock_ok x \<Longrightarrow> sock_ok y"
  by (simp add: sock_ok_def same_socket_def is_valid_def)

lemma sock_ok_init: "sock_ok (snd (Socket_init f x))"
  using Socket_init_fields [of f x "fst (Socket_init f x)" "snd (Socket_init f x)"]
  by (auto simp: sock_ok_def is_valid_def)

lemma sock_ok_ensure [wf_intros]: "sock_ok x \<Longrightarrow> sock_ok (ensure_fd x)"
  by (simp add: ensure_fd_def sock_ok_init)

lemma sock_ok_close [wf_intros]: "sock_ok x \<Longrightarrow> sock_ok (snd (Socket_close x))"
proof -
  assume a: "sock_ok x"
  let ?x1 = "((fst x)\<lparr>is_connected := False\<rparr>, snd x)"
  have "\<not> is_connected (fst (snd (Socket_to_string ?x1)))"
    using same_to_string [of ?x1] by (simp add: same_socket_def)
  with a show ?thesis
    by (cases x) (simp add: Socket_close_def Let_def sock_ok_def split: prod.splits)
qed

lemma sock_ok_pair [simp]: "sock_ok (fst x, k) = sock_ok x"
  by (simp add: sock_ok_def)

lemma sock_ok_connected: "sock_ok (s\<lparr>is_connected := True\<rparr>, k) = is_valid s"
  by (simp add: sock_ok_def is_valid_def)

lemma sock_ok_log [simp]: "sock_ok (log_socket x) = sock_ok x"
  using same_log [of x] by (auto simp: sock_ok_def same_socket_def is_valid_def)

lemma sock_ok_bind [wf_intros]: "sock_ok x \<Longrightarrow> sock_ok (snd (Socket_bind a x))"
  by (auto simp: Socket_bind_def Let_def sock_ok_ensure split: option.splits prod.splits)

lemma sock_ok_listen [wf_intros]: "sock_ok x \<Longrightarrow> sock_ok (snd (Socket_listen n x))"
  by (auto simp: Socket_listen_def Let_def split: prod.splits)

lemma sock_ok_connect [wf_intros]: "sock_ok x \<Longrightarrow> sock_ok (snd (Socket_connect a x))"
  by (auto simp: Socket_connect_def Let_def sock_ok_ensure sock_ok_close sock_ok_connected split: option.splits prod.splits)

lemma sock_ok_reconnect [wf_intros]:
  assumes "sock_ok x"
  shows "sock_ok (snd (Socket_reconnect x))"
proof -
  obtain r x1 where r: "get_remote_address x = (r, x1)" by (cases "get_remote_address x")
  have x1: "sock_ok x1" using sock_ok_same [OF same_remote assms] r by simp
  let ?x2 = "((fst x1)\<lparr>local_address := None\<rparr>, snd x1)"
  have "sock_ok ?x2" using x1 by (simp add: sock_ok_def is_valid_def)
  then have "sock_ok (snd (get_remote_address ?x2))" by (rule sock_ok_same [OF same_remote])
  with x1 r show ?thesis
    by (cases r) (auto simp: Socket_reconnect_def Let_def sock_ok_connect split: prod.splits)
qed

lemma fst_set_option [simp]: "fst (snd (set_option l p x)) = fst x"
  by (simp add: set_option_def split: prod.splits)

lemma Socket_init_fst: "f \<noteq> -1 \<Longrightarrow> fst (snd (Socket_init f x)) = (fst x)\<lparr>sockfd := f, is_connected := True\<rparr>"
  by (cases x) (simp add: Socket_init_def Let_def)

lemma sock_ok_accept [wf_intros]: "sock_ok x \<Longrightarrow> sock_ok (snd (Socket_accept x))"
  by (cases x) (auto simp: Socket_accept_def Let_def sock_ok_def split: prod.splits)

lemma accepted_socket:
  assumes "Socket_accept x = (Some c, y)"
  shows "is_connected c \<and> is_valid c \<and> remote_address c = Some (peer_at (snd x) (sockfd c)) \<and> family c = family (fst x)"
proof -
  obtain s k where x: "x = (s, k)" by fastforce
  obtain f k1 where f: "sys (Sys_accept (sockfd s)) k = (f, k1)" by fastforce
  let ?comm = "(mk_Socket (family s) (sock_type s) (protocol s))\<lparr>remote_address := Some (peer_at k f)\<rparr>"
  have nf: "f \<noteq> -1" and c: "c = fst (snd (Socket_init f (?comm, k1)))"
    using assms f by (auto simp: x Socket_accept_def Let_def split: prod.splits if_splits)
  show ?thesis unfolding c Socket_init_fst [OF nf] by (simp add: x is_valid_def nf mk_Socket_def)
qed

text \<open>\<open>reconnect\<close> asks for the peer first, which only a connected socket reports: it does nothing on a lost connection.\<close>

lemma reconnect_needs_connection:
  "\<not> is_connected (fst x) \<Longrightarrow> Socket_reconnect x = (Inr False, x)"
  by (cases x) (simp add: Socket_reconnect_def get_remote_address_def)

text \<open>The states that the public methods of a socket lead to, the operating system being arbitrary.\<close>

inductive sock_reach :: "sock_state \<Rightarrow> bool" where
  new: "sock_reach (mk_Socket fam ty proto, k)"
| accepted: "Socket_accept x = (Some c, (s, k)) \<Longrightarrow> sock_reach (c, k)"
| "bind": "sock_reach x \<Longrightarrow> sock_reach (snd (Socket_bind a x))"
| listen: "sock_reach x \<Longrightarrow> sock_reach (snd (Socket_listen n x))"
| accept: "sock_reach x \<Longrightarrow> sock_reach (snd (Socket_accept x))"
| connect: "sock_reach x \<Longrightarrow> sock_reach (snd (Socket_connect a x))"
| reconnect: "sock_reach x \<Longrightarrow> sock_reach (snd (Socket_reconnect x))"
| close: "sock_reach x \<Longrightarrow> sock_reach (snd (Socket_close x))"
| set_option: "sock_reach x \<Longrightarrow> sock_reach (snd (set_option l p x))"
| get_option: "sock_reach x \<Longrightarrow> sock_reach (snd (get_option l p x))"
| to_string: "sock_reach x \<Longrightarrow> sock_reach (snd (Socket_to_string x))"
| transfer: "sock_reach x \<Longrightarrow> (\<And>f. c \<noteq> Sys_close f) \<Longrightarrow> sock_reach (snd (guarded b c x))"

text \<open>
  A socket that is connected has a descriptor, in every state its methods lead to, whatever the
  system calls answer; so \<open>send\<close> and \<open>recv\<close>, which test \<open>is_connected\<close> only, never pass descriptor
  \<open>-1\<close> to the kernel, and make no call at all on an unconnected socket. A socket from \<open>accept\<close> is
  connected and knows its peer.
\<close>

theorem connected_socket_valid:
  assumes "sock_reach x"
  shows "(\<not> is_connected (fst x) \<or> is_valid (fst x))
    \<and> fst (Socket_send x) = (if is_connected (fst x) then answer (snd x) (trace (snd x)) (Sys_send (sockfd (fst x))) else -1)
    \<and> trace (snd (snd (Socket_send x))) =
        trace (snd x) @ (if is_connected (fst x) then [Sys_send (sockfd (fst x))] else [])
    \<and> trace (snd (snd (Socket_recv x))) =
        trace (snd x) @ (if is_connected (fst x) then [Sys_recv (sockfd (fst x))] else [])"
proof -
  from assms have "sock_ok x"
  proof (induction rule: sock_reach.induct)
    case (accepted x c s k)
    then show ?case using accepted_socket [of x c] by (simp add: sock_ok_def)
  next
    case (to_string x)
    then show ?case using sock_ok_same [OF same_to_string] by blast
  next
    case (transfer x c b)
    then show ?case using sock_ok_same [OF same_guarded] by blast
  qed (simp_all add: wf_intros sock_ok_same [OF same_options(1)] sock_ok_same [OF same_options(2)],
      simp add: sock_ok_def mk_Socket_def)
  then show ?thesis
    by (simp add: sock_ok_def Socket_send_def Socket_recv_def guarded_def sys_def)
qed

definition demo_os :: os where
  "demo_os = \<lparr>answer = (\<lambda>h c. case c of Sys_socket a b d \<Rightarrow> 5 | Sys_accept f \<Rightarrow> 6 | Sys_send f \<Rightarrow> 10 | _ \<Rightarrow> 0), trace = [],
     name_at = (\<lambda>_. create_family 2), peer_at = (\<lambda>_. create_family 2), hooked = (\<lambda>_. False), log_errors = True\<rparr>"

theorem connected_socket_valid_witness:
  "fst (Socket_send (snd (Socket_connect (Some (create_family 2)) (mk_Socket 2 1 0, demo_os)))) = 10"
proof -
  let ?x = "snd (Socket_connect (Some (create_family 2)) (mk_Socket 2 1 0, demo_os))"
  have "sock_reach ?x" by (intro sock_reach.intros)
  moreover have "get_family (create_family 2) = 2" by code_simp
  then have "is_connected (fst ?x)" "answer (snd ?x) h (Sys_send f) = 10" for h f
    by (simp_all add: Socket_connect_def ensure_fd_def is_valid_def mk_Socket_def Socket_init_def sys_def demo_os_def Let_def)
  ultimately show ?thesis using connected_socket_valid by simp
qed



end
