(* ===== verification/Stream.thy ===== *)
theory Stream
  imports Byte_Array Socket
begin

text \<open>
  Streams (src/sylar/stream.h, stream.cpp): the loops that move a fixed number of bytes over any
  stream, and the socket stream with its plain and its \<open>ByteArray\<close> transfers. What \<open>recv\<close>, \<open>recvmsg\<close>, \<open>send\<close> and \<open>sendmsg\<close> do on the stream's descriptor is an argument,
  a record of two functions over a state of the connection; the interface \<open>tcp_transport\<close> states
  what the code relies on: bytes arrive and leave in order, any number per call.
\<close>

section \<open>Transfers of a fixed length\<close>

text \<open>
  A reader takes the number of bytes wanted and answers the bytes it stored; a writer takes the
  bytes and answers how many it took. In the \<open>ByteArray\<close> overloads only the number matters.
\<close>

type_synonym 's reader = "nat \<Rightarrow> 's \<Rightarrow> ('s, bytes) outcome"
type_synonym 's writer = "bytes \<Rightarrow> 's \<Rightarrow> ('s, nat) outcome"
type_synonym 's mover = "nat \<Rightarrow> 's \<Rightarrow> ('s, nat) outcome"

text \<open>\<open>buf\<close> is what has been stored so far: its length is \<open>offset\<close>.\<close>

function read_fix_loop :: "'s reader \<Rightarrow> nat \<Rightarrow> bytes \<Rightarrow> 's \<Rightarrow> ('s, bytes) outcome" where
  "read_fix_loop rd len buf s =
     (if length buf < len
      then case rd (len - length buf) s of
             (Inl e, s1) \<Rightarrow> (Inl e, s1)
           | (Inr got, s1) \<Rightarrow>
               if length got \<le> 0 then (Inl Runtime_error, s1) else read_fix_loop rd len (buf @ got) s1
      else (Inr buf, s))"
  by pat_completeness auto
termination
  by (relation "measure (\<lambda>(rd, len, buf, s). len - length buf)") (auto intro!: diff_less_mono2)

function write_fix_loop :: "'s writer \<Rightarrow> bytes \<Rightarrow> nat \<Rightarrow> 's \<Rightarrow> ('s, unit) outcome" where
  "write_fix_loop wr data offset s =
     (if offset < length data
      then case wr (drop offset data) s of
             (Inl e, s1) \<Rightarrow> (Inl e, s1)
           | (Inr n, s1) \<Rightarrow>
               if n \<le> 0 then (Inl Runtime_error, s1) else write_fix_loop wr data (offset + n) s1
      else (Inr (), s))"
  by pat_completeness auto
termination
  by (relation "measure (\<lambda>(wr, data, offset, s). length data - offset)") auto

text \<open>The two \<open>ByteArray\<close> overloads have the same body.\<close>

function move_loop :: "'s mover \<Rightarrow> nat \<Rightarrow> nat \<Rightarrow> 's \<Rightarrow> ('s, unit) outcome" where
  "move_loop mv len offset s =
     (if offset < len
      then case mv (len - offset) s of
             (Inl e, s1) \<Rightarrow> (Inl e, s1)
           | (Inr n, s1) \<Rightarrow>
               if n \<le> 0 then (Inl Runtime_error, s1) else move_loop mv len (offset + n) s1
      else (Inr (), s))"
  by pat_completeness auto
termination
  by (relation "measure (\<lambda>(mv, len, offset, s). len - offset)") auto

declare read_fix_loop.simps [simp del] write_fix_loop.simps [simp del] move_loop.simps [simp del]

definition read_fix_length :: "'s reader \<Rightarrow> nat \<Rightarrow> 's \<Rightarrow> ('s, bytes) outcome" where
  "read_fix_length rd len = read_fix_loop rd len []"

definition read_fix_length_ba :: "'s mover \<Rightarrow> nat \<Rightarrow> 's \<Rightarrow> ('s, unit) outcome" where
  "read_fix_length_ba rd len = move_loop rd len 0"

definition write_fix_length :: "'s writer \<Rightarrow> bytes \<Rightarrow> 's \<Rightarrow> ('s, unit) outcome" where
  "write_fix_length wr data = write_fix_loop wr data 0"

definition write_fix_length_ba :: "'s mover \<Rightarrow> nat \<Rightarrow> 's \<Rightarrow> ('s, unit) outcome" where
  "write_fix_length_ba wr len = move_loop wr len 0"

section \<open>The socket stream\<close>

text \<open>
  \<open>k_recv n\<close> is a receive into \<open>n\<close> bytes of memory, in one or several buffers: its value and the bytes
  it stored; \<open>k_send\<close> is a send of the given bytes.
\<close>

record 'n transport =
  k_recv :: "nat \<Rightarrow> 'n \<Rightarrow> (int \<times> bytes) \<times> 'n"
  k_send :: "bytes \<Rightarrow> 'n \<Rightarrow> int \<times> 'n"

record 'n SocketStream =
  socket :: "Socket option"
  net :: 'n

definition usable :: "'n SocketStream \<Rightarrow> bool" where
  "usable st \<longleftrightarrow> (case socket st of None \<Rightarrow> False | Some s \<Rightarrow> is_connected s)"

definition SocketStream_read :: "'n transport \<Rightarrow> 'n SocketStream reader" where
  "SocketStream_read T len st =
     (if \<not> usable st then (Inl Logic_error, st)
      else let ((ret, got), n) = k_recv T len (net st); st1 = st\<lparr>net := n\<rparr>
           in if ret = 0 then (Inl Runtime_error, st1)
              else if ret < 0 then (Inl Runtime_error, st1)
              else (Inr (take (nat ret) got), st1))"

text \<open>A receive into several buffers fills them in turn.\<close>

fun scatter :: "iovec list \<Rightarrow> bytes \<Rightarrow> bytes list \<Rightarrow> bytes list" where
  "scatter [] bs m = m"
| "scatter (v # vs) bs m =
     scatter vs (drop (iov_len v) bs) (m[iov_block v := overlay (iov_off v) (take (iov_len v) bs) (m ! iov_block v)])"

definition SocketStream_read_ba :: "'n transport \<Rightarrow> ('n SocketStream \<times> bytearray) mover" where
  "SocketStream_read_ba T len x =
     (let (st, ba) = x
      in if \<not> usable st then (Inl Logic_error, x)
         else case get_write_buffers [] len ba of
                (Inl e, ba1) \<Rightarrow> (Inl e, (st, ba1))
              | (Inr iovs, ba1) \<Rightarrow>
                  let ((ret, got), n) = k_recv T (sum_list (map iov_len iovs)) (net st); st1 = st\<lparr>net := n\<rparr>
                  in if ret \<le> 0 then (Inl Runtime_error, (st1, ba1))
                     else let ba2 = ba1\<lparr>blocks := scatter iovs (take (nat ret) got) (blocks ba1)\<rparr>
                          in case set_write_position (write_pos ba2 + nat ret) ba2 of
                               (Inl e, ba3) \<Rightarrow> (Inl e, (st1, ba3))
                             | (Inr _, ba3) \<Rightarrow> (Inr (nat ret), (st1, ba3)))"

definition SocketStream_write :: "'n transport \<Rightarrow> 'n SocketStream writer" where
  "SocketStream_write T data st =
     (if \<not> usable st then (Inl Logic_error, st)
      else let (ret, n) = k_send T data (net st); st1 = st\<lparr>net := n\<rparr>
           in if ret \<le> 0 then (Inl Runtime_error, st1) else (Inr (nat ret), st1))"

definition SocketStream_write_ba :: "'n transport \<Rightarrow> ('n SocketStream \<times> bytearray) mover" where
  "SocketStream_write_ba T len x =
     (let (st, ba) = x
      in if \<not> usable st then (Inl Logic_error, x)
         else case get_read_buffers [] len ba of
                Inl e \<Rightarrow> (Inl e, x)
              | Inr iovs \<Rightarrow>
                  let (ret, n) = k_send T (concat (map (iovec_bytes ba) iovs)) (net st); st1 = st\<lparr>net := n\<rparr>
                  in if ret \<le> 0 then (Inl Runtime_error, (st1, ba))
                     else case set_read_position (read_pos ba + nat ret) ba of
                            (Inl e, ba1) \<Rightarrow> (Inl e, (st1, ba1))
                          | (Inr _, ba1) \<Rightarrow> (Inr (nat ret), (st1, ba1)))"

section \<open>Interfaces\<close>

text \<open>A stream one can read from: \<open>avail\<close> is what the peer will have sent, from here on.\<close>

locale byte_source =
  fixes rd :: "'s reader" and avail :: "'s \<Rightarrow> bytes" and ready :: "'s \<Rightarrow> bool"
  assumes rd_ok: "rd n s = (Inr got, s') \<Longrightarrow> got \<noteq> [] \<and> length got \<le> n \<and> avail s = got @ avail s'"
    and rd_err: "rd n s = (Inl e, s') \<Longrightarrow> avail s' = avail s"
    and rd_ready: "ready s \<Longrightarrow> ready (snd (rd n s))"
    and rd_live: "ready s \<Longrightarrow> 0 < n \<Longrightarrow> avail s \<noteq> [] \<Longrightarrow> \<exists>got s'. rd n s = (Inr got, s')"
    and rd_end: "ready s \<Longrightarrow> avail s = [] \<Longrightarrow> fst (rd n s) = Inl Runtime_error"
begin

lemma read_fix_loop_exact:
  "ready s \<Longrightarrow> length b \<le> len \<Longrightarrow>
     (if len \<le> length b + length (avail s)
      then \<exists>s'. read_fix_loop rd len b s = (Inr (take len (b @ avail s)), s') \<and> ready s'
             \<and> avail s' = drop (len - length b) (avail s)
      else \<exists>s'. read_fix_loop rd len b s = (Inl Runtime_error, s') \<and> ready s' \<and> avail s' = [])"
proof (induction "len - length b" arbitrary: b s rule: less_induct)
  case less
  show ?case
  proof (cases "length b < len")
    case False
    with less.prems show ?thesis by (simp add: read_fix_loop.simps [of rd len b s])
  next
    case True
    obtain r s1 where r: "rd (len - length b) s = (r, s1)" by (cases "rd (len - length b) s")
    have rdy: "ready s1" using rd_ready [OF less.prems(1), of "len - length b"] r by simp
    show ?thesis
    proof (cases "avail s = []")
      case True
      then have "r = Inl Runtime_error" using rd_end [OF less.prems(1), of "len - length b"] r by simp
      moreover have "avail s1 = []" using True rd_err [of "len - length b" s _ s1] r calculation by simp
      ultimately show ?thesis using True \<open>length b < len\<close> r rdy by (simp add: read_fix_loop.simps [of rd len b s])
    next
      case False
      then obtain got where got: "r = Inr got" using rd_live [OF less.prems(1), of "len - length b"] \<open>length b < len\<close> r by auto
      then have g: "got \<noteq> []" "length got \<le> len - length b" "avail s = got @ avail s1" using rd_ok r by blast+
      have "read_fix_loop rd len b s = read_fix_loop rd len (b @ got) s1"
        using True r got g(1) by (simp add: read_fix_loop.simps [of rd len b s])
      moreover have "len - length (b @ got) < len - length b" "length (b @ got) \<le> len"
        using g True by (auto intro!: diff_less_mono2)
      note less.hyps [OF this(1) rdy this(2)]
      ultimately show ?thesis using g by (simp add: add.assoc split: if_splits)
    qed
  qed
qed

lemma read_fix_length_exact:
  assumes "ready s"
  shows "len \<le> length (avail s) \<Longrightarrow> \<exists>s'. read_fix_length rd len s = (Inr (take len (avail s)), s') \<and> ready s'
           \<and> avail s' = drop len (avail s)"
    and "length (avail s) < len \<Longrightarrow> \<exists>s'. read_fix_length rd len s = (Inl Runtime_error, s') \<and> avail s' = []"
  using read_fix_loop_exact [OF assms, of "[]" len] by (auto simp: read_fix_length_def)

end

text \<open>A stream one can write to: \<open>taken\<close> is what it has accepted so far.\<close>

locale byte_sink =
  fixes wr :: "'s writer" and taken :: "'s \<Rightarrow> bytes" and ready :: "'s \<Rightarrow> bool"
  assumes wr_ok: "wr d s = (Inr n, s') \<Longrightarrow> 0 < n \<and> n \<le> length d \<and> taken s' = taken s @ take n d"
    and wr_err: "wr d s = (Inl e, s') \<Longrightarrow> taken s' = taken s"
    and wr_ready: "ready s \<Longrightarrow> ready (snd (wr d s))"
    and wr_live: "ready s \<Longrightarrow> d \<noteq> [] \<Longrightarrow> \<exists>n s'. wr d s = (Inr n, s')"
begin

lemma write_fix_loop_prefix:
  "write_fix_loop wr d i s = (r, s') \<Longrightarrow> i \<le> length d \<Longrightarrow>
     \<exists>k. i \<le> k \<and> k \<le> length d \<and> taken s' = taken s @ take (k - i) (drop i d) \<and> (r = Inr () \<longrightarrow> k = length d)"
proof (induction "length d - i" arbitrary: i s rule: less_induct)
  case less
  show ?case
  proof (cases "i < length d")
    case False
    with less.prems show ?thesis by (intro exI [of _ i]) (simp add: write_fix_loop.simps [of wr d i s])
  next
    case True
    obtain q s1 where q: "wr (drop i d) s = (q, s1)" by (cases "wr (drop i d) s")
    show ?thesis
    proof (cases q)
      case (Inl e)
      with less.prems(1) True q wr_err [of "drop i d" s e s1] show ?thesis
        by (intro exI [of _ i]) (auto simp: write_fix_loop.simps [of wr d i s])
    next
      case (Inr n)
      then have n: "0 < n" "n \<le> length d - i" "taken s1 = taken s @ take n (drop i d)" using wr_ok q by force+
      have "write_fix_loop wr d (i + n) s1 = (r, s')"
        using less.prems(1) True q Inr n(1) by (simp add: write_fix_loop.simps [of wr d i s])
      moreover have "length d - (i + n) < length d - i" "i + n \<le> length d" using n True by linarith+
      ultimately obtain k where k: "i + n \<le> k" "k \<le> length d" "r = Inr () \<longrightarrow> k = length d"
        "taken s' = taken s1 @ take (k - (i + n)) (drop (i + n) d)"
        using less.hyps [of "i + n" s1] by auto
      have "take (k - i) (drop i d) = take n (drop i d) @ take (k - (i + n)) (drop (i + n) d)"
        using k(1) take_add [of n "k - (i + n)" "drop i d"] by (simp add: add.commute)
      then show ?thesis using k n(3) by (intro exI [of _ k]) simp
    qed
  qed
qed

lemma write_fix_loop_returns:
  "ready s \<Longrightarrow> i \<le> length d \<Longrightarrow> \<exists>s'. write_fix_loop wr d i s = (Inr (), s') \<and> ready s'"
proof (induction "length d - i" arbitrary: i s rule: less_induct)
  case less
  show ?case
  proof (cases "i < length d")
    case False
    with less.prems show ?thesis by (simp add: write_fix_loop.simps)
  next
    case True
    then obtain n s1 where q: "wr (drop i d) s = (Inr n, s1)" using wr_live [OF less.prems(1), of "drop i d"] by auto
    then have n: "0 < n" "n \<le> length d - i" using wr_ok by force+
    have "ready s1" using wr_ready [OF less.prems(1), of "drop i d"] q by simp
    moreover have "length d - (i + n) < length d - i" "i + n \<le> length d" using n True by linarith+
    ultimately show ?thesis
      using less.hyps [of "i + n" s1] True q n(1) by (simp add: write_fix_loop.simps [of wr d i s])
  qed
qed

lemma write_fix_length_exact:
  assumes "ready s"
  shows "\<exists>s'. write_fix_length wr d s = (Inr (), s') \<and> ready s' \<and> taken s' = taken s @ d"
  using write_fix_loop_returns [OF assms, of 0 d] write_fix_loop_prefix [of d 0 s "Inr ()"]
  by (fastforce simp: write_fix_length_def)

end

text \<open>
  A transfer between a stream and a buffer, in either direction: the bytes leave the front of
  \<open>src\<close> and are appended to \<open>dst\<close>.
\<close>

locale byte_mover =
  fixes mv :: "'s mover" and src :: "'s \<Rightarrow> bytes" and dst :: "'s \<Rightarrow> bytes" and ready :: "'s \<Rightarrow> bool"
  assumes mv_ok: "ready s \<Longrightarrow> 0 < n \<Longrightarrow> mv n s = (Inr k, s') \<Longrightarrow>
      0 < k \<and> k \<le> n \<and> k \<le> length (src s) \<and> ready s' \<and> src s' = drop k (src s) \<and> dst s' = dst s @ take k (src s)"
    and mv_live: "ready s \<Longrightarrow> 0 < n \<Longrightarrow> src s \<noteq> [] \<Longrightarrow> \<exists>k s'. mv n s = (Inr k, s')"
    and mv_end: "ready s \<Longrightarrow> 0 < n \<Longrightarrow> src s = [] \<Longrightarrow>
      \<exists>s'. mv n s = (Inl Runtime_error, s') \<and> src s' = [] \<and> dst s' = dst s \<and> ready s'"
begin

lemma move_loop_exact:
  "ready s \<Longrightarrow> i \<le> len \<Longrightarrow>
     \<exists>s'. move_loop mv len i s = (if len - i \<le> length (src s) then Inr () else Inl Runtime_error, s') \<and> ready s'
       \<and> src s' = drop (len - i) (src s) \<and> dst s' = dst s @ take (len - i) (src s)"
proof (induction "len - i" arbitrary: i s rule: less_induct)
  case less
  show ?case
  proof (cases "i < len")
    case False
    with less.prems show ?thesis by (simp add: move_loop.simps)
  next
    case True
    show ?thesis
    proof (cases "src s = []")
      case True
      with mv_end [OF less.prems(1), of "len - i"] \<open>i < len\<close> show ?thesis
        by (auto simp: move_loop.simps [of mv len i s])
    next
      case False
      then obtain k s1 where m: "mv (len - i) s = (Inr k, s1)" using mv_live [OF less.prems(1), of "len - i"] True by auto
      then have k: "0 < k" "k \<le> len - i" "k \<le> length (src s)" "ready s1" "src s1 = drop k (src s)"
        "dst s1 = dst s @ take k (src s)" using mv_ok [OF less.prems(1) _ m] True by auto
      have lt: "len - (i + k) < len - i" "i + k \<le> len" using k True by linarith+
      obtain s' where s': "move_loop mv len (i + k) s1
            = (if len - (i + k) \<le> length (src s1) then Inr () else Inl Runtime_error, s')" "ready s'"
          "src s' = drop (len - (i + k)) (src s1)" "dst s' = dst s1 @ take (len - (i + k)) (src s1)"
        using less.hyps [OF lt(1) k(4) lt(2)] by blast
      have "len - i = k + (len - (i + k))" using lt(2) k(2) by simp
      then have "take (len - i) (src s) = take k (src s) @ take (len - (i + k)) (drop k (src s))"
        "drop (len - i) (src s) = drop (len - (i + k)) (drop k (src s))"
        by (simp_all add: take_add add.commute)
      moreover have "(len - (i + k) \<le> length (src s1)) = (len - i \<le> length (src s))" using k(2,3,5) lt(2) by auto
      ultimately show ?thesis using True m k s' by (simp add: move_loop.simps [of mv len i s])
    qed
  qed
qed

end

section \<open>Scattered receives\<close>

text \<open>The buffers \<open>vs\<close> lie side by side in the blocks \<open>m\<close> of \<open>b\<close> bytes each, from position \<open>p\<close> on.\<close>

fun covers :: "nat \<Rightarrow> nat \<Rightarrow> nat \<Rightarrow> iovec list \<Rightarrow> bool" where
  "covers b n p [] \<longleftrightarrow> True"
| "covers b n p (v # vs) \<longleftrightarrow> iov_block v < n \<and> iov_off v + iov_len v \<le> b \<and> iov_block v * b + iov_off v = p
     \<and> covers b n (p + iov_len v) vs"

lemma iovec_loop_covers:
  "0 < block_size ba \<Longrightarrow> pos + todo < length (blocks ba) * block_size ba \<Longrightarrow> cur = Some (pos div block_size ba) \<Longrightarrow>
     \<exists>vs. iovec_loop ba todo pos cur buffers = Inr (buffers @ vs) \<and> covers (block_size ba) (length (blocks ba)) pos vs"
proof (induction ba todo pos cur buffers rule: iovec_loop.induct)
  case (1 ba todo pos cur buffers)
  show ?case
  proof (cases "0 < todo")
    case False
    then show ?thesis by (simp add: iovec_loop.simps [of ba 0])
  next
    case True
    define n where "n = min (block_size ba - pos mod block_size ba) todo"
    let ?i = "pos div block_size ba"
    let ?cur = "if (pos + n) mod block_size ba = 0 then advance ba cur else cur"
    let ?v = "\<lparr>iov_block = ?i, iov_off = pos mod block_size ba, iov_len = n\<rparr>"
    have n: "0 < n" "n \<le> todo" "n \<le> block_size ba - pos mod block_size ba"
      using True "1.prems"(1) by (auto simp: n_def)
    have i: "?i < length (blocks ba)" and i': "(pos + n) div block_size ba < length (blocks ba)"
      using "1.prems"(2) n(2) by (auto intro!: less_mult_imp_div_less)
    have cur: "?cur = Some ((pos + n) div block_size ba)"
      using "1.prems"(1,3) i' div_step [OF "1.prems"(1) n(1,3)]
      by (auto simp: advance_def next_block_def split: if_splits)
    have the_cur: "the cur = ?i" using "1.prems"(3) by simp
    have deref: "deref ba cur = Some (blocks ba ! ?i)" using "1.prems"(3) i by (simp add: deref_def)
    have "pos mod block_size ba + n \<le> block_size ba"
      using n(3) mod_less_divisor [OF "1.prems"(1), of pos] by linarith
    moreover obtain vs where vs: "iovec_loop ba (todo - n) (pos + n) ?cur (buffers @ [?v]) = Inr (buffers @ [?v] @ vs)"
      "covers (block_size ba) (length (blocks ba)) (pos + n) vs"
      using "1.IH" [OF True _ refl refl n_def deref] "1.prems" cur n(2) by auto
    moreover have "iovec_loop ba todo pos cur buffers = Inr (buffers @ ?v # vs)"
      using True "1.prems"(1) deref vs(1) the_cur
      by (simp add: iovec_loop.simps [of ba todo pos cur buffers] Let_def flip: n_def)
    ultimately show ?thesis using i by (intro exI [of _ "?v # vs"]) simp
  qed
qed

lemma scatter_overlay:
  "covers b n p vs \<Longrightarrow> uniform b m \<Longrightarrow> length m = n \<Longrightarrow> length bs \<le> sum_list (map iov_len vs) \<Longrightarrow>
     p + sum_list (map iov_len vs) \<le> n * b \<Longrightarrow>
     uniform b (scatter vs bs m) \<and> length (scatter vs bs m) = n \<and> concat (scatter vs bs m) = overlay p bs (concat m)"
proof (induction vs arbitrary: p bs m)
  case (Cons v vs)
  let ?m = "m[iov_block v := overlay (iov_off v) (take (iov_len v) bs) (m ! iov_block v)]"
  let ?t = "take (iov_len v) bs"
  have v: "iov_block v < length m" "iov_off v + length ?t \<le> b" "iov_block v * b + iov_off v = p"
    using Cons.prems(1,3) by auto
  have u: "uniform b ?m" using Cons.prems(2) v uniform_nth [OF Cons.prems(2) v(1)] by (simp add: uniform_update)
  have c: "concat ?m = overlay p ?t (concat m)"
    using concat_update_overlay [OF Cons.prems(2) v(1,2)] v(3) by simp
  have IH: "uniform b (scatter vs (drop (iov_len v) bs) ?m) \<and> length (scatter vs (drop (iov_len v) bs) ?m) = n
      \<and> concat (scatter vs (drop (iov_len v) bs) ?m) = overlay (p + iov_len v) (drop (iov_len v) bs) (concat ?m)"
    using Cons.prems u by (intro Cons.IH) auto
  moreover have "overlay (p + iov_len v) (drop (iov_len v) bs) (overlay p ?t (concat m)) = overlay p bs (concat m)"
  proof (cases "iov_len v \<le> length bs")
    case True
    then have "p + length ?t + length (drop (iov_len v) bs) \<le> length (concat m)"
      using Cons.prems length_concat_uniform [OF Cons.prems(2)] by simp
    from overlay_overlay [OF this] True show ?thesis by simp
  next
    case False
    then show ?thesis by simp
  qed
  ultimately show ?case using c by simp
qed simp

lemma get_write_buffers_covers:
  assumes wf: "ba_wf ba" and len: "0 < len"
  shows "\<exists>vs ba'. get_write_buffers [] len ba = (Inr vs, ba') \<and> grown ba ba' \<and> sum_list (map iov_len vs) = len
    \<and> write_pos ba' + len < capacity ba' \<and> covers (block_size ba') (length (blocks ba')) (write_pos ba') vs"
proof -
  obtain vs ba' where g: "get_write_buffers [] len ba = (Inr vs, ba')" "grown ba ba'" "sum_list (map iov_len vs) = len"
      "write_pos ba' + len < capacity ba'"
    using get_write_buffers_spec [OF assms, of "[]"] by auto
  then have wf': "ba_wf ba'" "blocks ba' \<noteq> []" by (simp_all add: grown_def)
  have loop: "iovec_loop ba' len (write_pos ba') (write_cur ba') [] = Inr vs"
    using g(1) len by (auto simp: get_write_buffers_def split: prod.splits sum.splits)
  have room: "write_pos ba' + len < length (blocks ba') * block_size ba'"
      and cur: "write_cur ba' = Some (write_pos ba' div block_size ba')"
    using g(4) wf' by (simp_all add: ba_wf_def)
  from iovec_loop_covers [OF wf_pos [OF wf'(1)] room cur, of "[]"]
  have "covers (block_size ba') (length (blocks ba')) (write_pos ba') vs" using loop by simp
  with g show ?thesis by (intro exI conjI)
qed

text \<open>Storing received bytes in the buffers of \<open>get_write_buffers\<close> and moving the write position appends them.\<close>

lemma receive_appends:
  assumes wf: "ba_wf ba" and d: "d \<noteq> []" "length d \<le> len"
    and g: "get_write_buffers [] len ba = (Inr vs, ba1)"
  shows "\<exists>ba2. set_write_position (write_pos ba1 + length d) (ba1\<lparr>blocks := scatter vs d (blocks ba1)\<rparr>) = (Inr (), ba2)
    \<and> appended d ba ba2"
proof -
  have len: "0 < len" using d by (cases d) auto
  from get_write_buffers_covers [OF wf len] g
  have gr: "grown ba ba1" and sum: "sum_list (map iov_len vs) = len" and room: "write_pos ba1 + len < capacity ba1"
    and cov: "covers (block_size ba1) (length (blocks ba1)) (write_pos ba1) vs" by auto
  have wf1: "ba_wf ba1" "blocks ba1 \<noteq> []" using gr by (simp_all add: grown_def)
  have cap: "capacity ba1 = length (blocks ba1) * block_size ba1" using wf1 by (simp add: ba_wf_def)
  let ?ba = "ba1\<lparr>blocks := scatter vs d (blocks ba1)\<rparr>"
  have sc: "uniform (block_size ba1) (blocks ?ba)" "length (blocks ?ba) = length (blocks ba1)"
      "concat (blocks ?ba) = overlay (write_pos ba1) d (concat (blocks ba1))"
    using scatter_overlay [OF cov wf_uniform [OF wf1(1)] refl, of d] d(2) sum room cap by auto
  have wf2: "ba_wf ?ba" using wf1 sc by (auto simp: ba_wf_def)
  have lt: "write_pos ba1 + length d < capacity ?ba" using room d(2) by simp
  let ?ba2 = "?ba\<lparr>write_pos := write_pos ba1 + length d, write_cur := Some ((write_pos ba1 + length d) div block_size ?ba)\<rparr>"
  have "set_write_position (write_pos ba1 + length d) ?ba = (Inr (), ?ba2)"
    using set_write_position_inside [OF wf2 lt] by simp
  moreover have "ba_wf ?ba2"
    using wf_set_write_position [OF wf2 lt] wf_read_le [OF wf1(1)] by simp
  moreover have "contents ?ba2 = contents ba1 @ d"
    using sc(3) take_overlay [of "write_pos ba1" d "concat (blocks ba1)"] lt length_mem [OF wf1(1)]
    by (simp add: contents_def)
  ultimately show ?thesis
    using gr grown_contents [OF wf gr] by (auto simp: appended_def grown_def)
qed

section \<open>The socket stream keeps the contracts\<close>

definition stream_ready :: "('n \<Rightarrow> bool) \<Rightarrow> 'n SocketStream \<Rightarrow> bool" where
  "stream_ready up st \<longleftrightarrow> usable st \<and> up (net st)"

lemma usable_net [simp]: "usable (st\<lparr>net := n\<rparr>) = usable st"
  by (simp add: usable_def)

text \<open>
  What the code relies on. While the connection is \<open>up\<close>, a receive into a non-empty buffer takes at
  least one byte off the front of what the peer sends, and answers \<open>0\<close> at the end of it; a send
  takes at least one byte off the front of its argument. Failing calls move no bytes.
\<close>

locale tcp_transport =
  fixes T :: "'n transport" and inc :: "'n \<Rightarrow> bytes" and out :: "'n \<Rightarrow> bytes" and up :: "'n \<Rightarrow> bool"
  assumes recv_ok: "k_recv T n s = ((r, got), s') \<Longrightarrow> 0 < r \<Longrightarrow>
      length got = nat r \<and> nat r \<le> n \<and> inc s = got @ inc s'"
    and recv_none: "k_recv T n s = ((r, got), s') \<Longrightarrow> r \<le> 0 \<Longrightarrow> inc s' = inc s"
    and recv_keeps: "k_recv T n s = ((r, got), s') \<Longrightarrow> out s' = out s \<and> (up s \<longrightarrow> up s')"
    and recv_live: "up s \<Longrightarrow> 0 < n \<Longrightarrow> inc s \<noteq> [] \<Longrightarrow> 0 < fst (fst (k_recv T n s))"
    and send_ok: "k_send T d s = (r, s') \<Longrightarrow> 0 < r \<Longrightarrow> nat r \<le> length d \<and> out s' = out s @ take (nat r) d"
    and send_none: "k_send T d s = (r, s') \<Longrightarrow> r \<le> 0 \<Longrightarrow> out s' = out s"
    and send_keeps: "k_send T d s = (r, s') \<Longrightarrow> inc s' = inc s \<and> (up s \<longrightarrow> up s')"
    and send_live: "up s \<Longrightarrow> d \<noteq> [] \<Longrightarrow> 0 < fst (k_send T d s)"
begin

lemma recv_at_end: "inc s = [] \<Longrightarrow> k_recv T n s = ((r, got), s') \<Longrightarrow> r \<le> 0"
  using recv_ok [of n s r got s'] by (cases "0 < r") auto

end

sublocale tcp_transport \<subseteq> source: byte_source "SocketStream_read T" "\<lambda>st. inc (net st)" "stream_ready up"
proof
  fix n s got s' assume "SocketStream_read T n s = (Inr got, s')"
  then show "got \<noteq> [] \<and> length got \<le> n \<and> inc (net s) = got @ inc (net s')"
    using recv_ok [of n "net s"] by (force simp: SocketStream_read_def Let_def split: prod.splits if_splits)
next
  fix n s e s' assume "SocketStream_read T n s = (Inl e, s')"
  then show "inc (net s') = inc (net s)"
    using recv_none [of n "net s"] by (auto simp: SocketStream_read_def Let_def split: prod.splits if_splits)
next
  fix s and n :: nat assume "stream_ready up s"
  then show "stream_ready up (snd (SocketStream_read T n s))"
    using recv_keeps [of n "net s"]
    by (auto simp: stream_ready_def SocketStream_read_def Let_def split: prod.splits if_splits)
next
  fix s and n :: nat assume "stream_ready up s" "0 < n" "inc (net s) \<noteq> []"
  then show "\<exists>got s'. SocketStream_read T n s = (Inr got, s')"
    using recv_live [of "net s" n]
    by (auto simp: stream_ready_def SocketStream_read_def Let_def split: prod.splits if_splits)
next
  fix s and n :: nat assume "stream_ready up s" "inc (net s) = []"
  then show "fst (SocketStream_read T n s) = Inl Runtime_error"
    using recv_at_end [of "net s" n]
    by (fastforce simp: stream_ready_def SocketStream_read_def Let_def split: prod.splits if_splits)
qed

sublocale tcp_transport \<subseteq> sink: byte_sink "SocketStream_write T" "\<lambda>st. out (net st)" "stream_ready up"
proof
  fix d s n s' assume "SocketStream_write T d s = (Inr n, s')"
  then show "0 < n \<and> n \<le> length d \<and> out (net s') = out (net s) @ take n d"
    using send_ok [of d "net s"] by (force simp: SocketStream_write_def Let_def split: prod.splits if_splits)
next
  fix d s e s' assume "SocketStream_write T d s = (Inl e, s')"
  then show "out (net s') = out (net s)"
    using send_none [of d "net s"] by (auto simp: SocketStream_write_def Let_def split: prod.splits if_splits)
next
  fix s and d :: bytes assume "stream_ready up s"
  then show "stream_ready up (snd (SocketStream_write T d s))"
    using send_keeps [of d "net s"]
    by (auto simp: stream_ready_def SocketStream_write_def Let_def split: prod.splits if_splits)
next
  fix s and d :: bytes assume "stream_ready up s" "d \<noteq> []"
  then show "\<exists>n s'. SocketStream_write T d s = (Inr n, s')"
    using send_live [of "net s" d]
    by (auto simp: stream_ready_def SocketStream_write_def Let_def split: prod.splits if_splits)
qed

text \<open>Receiving into a buffer: the reader's position \<open>p\<close> of the buffer stays.\<close>

definition receiving :: "('n \<Rightarrow> bool) \<Rightarrow> nat \<Rightarrow> 'n SocketStream \<times> bytearray \<Rightarrow> bool" where
  "receiving up p x \<longleftrightarrow> stream_ready up (fst x) \<and> ba_wf (snd x) \<and> read_pos (snd x) = p"

definition sending :: "('n \<Rightarrow> bool) \<Rightarrow> bytes \<Rightarrow> 'n SocketStream \<times> bytearray \<Rightarrow> bool" where
  "sending up c x \<longleftrightarrow> stream_ready up (fst x) \<and> ba_wf (snd x) \<and> contents (snd x) = c"

lemma SocketStream_read_ba_eq:
  assumes "usable st" and "get_write_buffers [] len ba = (Inr vs, ba1)" and "sum_list (map iov_len vs) = len"
    and "k_recv T len (net st) = ((r, got), n)"
  shows "SocketStream_read_ba T len (st, ba) =
    (if r \<le> 0 then (Inl Runtime_error, (st\<lparr>net := n\<rparr>, ba1))
     else case set_write_position (write_pos ba1 + nat r) (ba1\<lparr>blocks := scatter vs (take (nat r) got) (blocks ba1)\<rparr>) of
            (Inl e, ba3) \<Rightarrow> (Inl e, (st\<lparr>net := n\<rparr>, ba3))
          | (Inr _, ba3) \<Rightarrow> (Inr (nat r), (st\<lparr>net := n\<rparr>, ba3)))"
  using assms by (simp add: SocketStream_read_ba_def Let_def)

context tcp_transport
begin

lemma read_ba_spec:
  assumes rdy: "receiving up p (st, ba)" and len: "0 < len" and r: "k_recv T len (net st) = ((r, got), n)"
  shows "0 < r \<Longrightarrow> \<exists>ba'. SocketStream_read_ba T len (st, ba) = (Inr (nat r), (st\<lparr>net := n\<rparr>, ba')) \<and> appended got ba ba'"
    and "r \<le> 0 \<Longrightarrow> \<exists>ba'. SocketStream_read_ba T len (st, ba) = (Inl Runtime_error, (st\<lparr>net := n\<rparr>, ba')) \<and> appended [] ba ba'"
proof -
  have wf: "ba_wf ba" and u: "usable st" using rdy by (simp_all add: receiving_def stream_ready_def)
  obtain vs ba1 where g: "get_write_buffers [] len ba = (Inr vs, ba1)" "grown ba ba1" "sum_list (map iov_len vs) = len"
    using get_write_buffers_covers [OF wf len] by blast
  note eq = SocketStream_read_ba_eq [OF u g(1,3) r]
  show "\<exists>ba'. SocketStream_read_ba T len (st, ba) = (Inl Runtime_error, (st\<lparr>net := n\<rparr>, ba')) \<and> appended [] ba ba'"
    if "r \<le> 0" using eq that grown_appended [OF wf g(2)] by simp
  assume pos: "0 < r"
  then have got: "length got = nat r" "nat r \<le> len" using recv_ok [OF r] by auto
  then have "got \<noteq> []" "length got \<le> len" using pos by auto
  from receive_appends [OF wf this g(1)] got pos
  show "\<exists>ba'. SocketStream_read_ba T len (st, ba) = (Inr (nat r), (st\<lparr>net := n\<rparr>, ba')) \<and> appended got ba ba'"
    unfolding eq by auto
qed

lemma write_ba_spec:
  assumes rdy: "sending up c (st, ba)" and r: "k_send T (take len (unread ba)) (net st) = (r, n)"
  shows "SocketStream_write_ba T len (st, ba) =
    (if r \<le> 0 then (Inl Runtime_error, (st\<lparr>net := n\<rparr>, ba))
     else (Inr (nat r), (st\<lparr>net := n\<rparr>, seek (read_pos ba + nat r) ba)))"
proof -
  have wf: "ba_wf ba" and u: "usable st" using rdy by (simp_all add: sending_def stream_ready_def)
  obtain vs where vs: "get_read_buffers [] len ba = Inr vs" "concat (map (iovec_bytes ba) vs) = take len (unread ba)"
    using get_read_buffers_spec [OF wf, of "[]" len] by auto
  have "read_pos ba + nat r \<le> write_pos ba" if "0 < r"
    using send_ok [OF r that] length_unread [OF wf] wf_read_le [OF wf] by auto
  then show ?thesis using u vs r set_read_position_eq [OF wf] by (simp add: SocketStream_write_ba_def Let_def)
qed

end

sublocale tcp_transport \<subseteq> receive: byte_mover "SocketStream_read_ba T" "\<lambda>x. inc (net (fst x))" "\<lambda>x. contents (snd x)"
    "receiving up p"
  for p :: nat
proof
  fix s n k s' assume *: "receiving up p s" "0 < n" "SocketStream_read_ba T n s = (Inr k, s')"
  obtain st ba where s: "s = (st, ba)" by fastforce
  obtain r got m where r: "k_recv T n (net st) = ((r, got), m)" by (metis prod.exhaust)
  note spec = read_ba_spec [OF *(1) [unfolded s] *(2) r]
  have pos: "0 < r" using spec(2) *(3) s by (cases "0 < r") auto
  then obtain ba' where ba': "k = nat r" "s' = (st\<lparr>net := m\<rparr>, ba')" "appended got ba ba'" using spec(1) *(3) s by auto
  then show "0 < k \<and> k \<le> n \<and> k \<le> length (inc (net (fst s))) \<and> receiving up p s'
      \<and> inc (net (fst s')) = drop k (inc (net (fst s)))
      \<and> contents (snd s') = contents (snd s) @ take k (inc (net (fst s)))"
    using recv_ok [OF r pos] recv_keeps [OF r] pos *(1) s
    by (auto simp: receiving_def stream_ready_def appended_def)
next
  fix s and n :: nat assume *: "receiving up p s" "0 < n" "inc (net (fst s)) \<noteq> []"
  obtain st ba where s: "s = (st, ba)" by fastforce
  obtain r got m where r: "k_recv T n (net st) = ((r, got), m)" by (metis prod.exhaust)
  have "0 < r" using recv_live [of "net st" n] * r s by (simp add: receiving_def stream_ready_def)
  then show "\<exists>k s'. SocketStream_read_ba T n s = (Inr k, s')" using read_ba_spec(1) [OF *(1) [unfolded s] *(2) r] s by blast
next
  fix s and n :: nat assume *: "receiving up p s" "0 < n" "inc (net (fst s)) = []"
  obtain st ba where s: "s = (st, ba)" by fastforce
  obtain r got m where r: "k_recv T n (net st) = ((r, got), m)" by (metis prod.exhaust)
  have neg: "r \<le> 0" using recv_at_end [OF _ r] *(3) s by simp
  then obtain ba' where ba': "SocketStream_read_ba T n s = (Inl Runtime_error, (st\<lparr>net := m\<rparr>, ba'))" "appended [] ba ba'"
    using read_ba_spec(2) [OF *(1) [unfolded s] *(2) r] s by blast
  then show "\<exists>s'. SocketStream_read_ba T n s = (Inl Runtime_error, s') \<and> inc (net (fst s')) = []
      \<and> contents (snd s') = contents (snd s) \<and> receiving up p s'"
    using recv_none [OF r neg] recv_keeps [OF r] *(1,3) s
    by (auto simp: receiving_def stream_ready_def appended_def)
qed

sublocale tcp_transport \<subseteq> send: byte_mover "SocketStream_write_ba T" "\<lambda>x. unread (snd x)" "\<lambda>x. out (net (fst x))"
    "sending up c"
  for c :: bytes
proof
  fix s n k s' assume *: "sending up c s" "0 < n" "SocketStream_write_ba T n s = (Inr k, s')"
  obtain st ba where s: "s = (st, ba)" by fastforce
  obtain r m where r: "k_send T (take n (unread ba)) (net st) = (r, m)" by fastforce
  note spec = write_ba_spec [OF *(1) [unfolded s] r]
  have wf: "ba_wf ba" using *(1) s by (simp add: sending_def)
  have pos: "0 < r" and ba': "k = nat r" "s' = (st\<lparr>net := m\<rparr>, seek (read_pos ba + nat r) ba)"
    using spec *(3) s by (auto split: if_splits)
  have le: "read_pos ba + nat r \<le> write_pos ba"
    using send_ok [OF r pos] length_unread [OF wf] wf_read_le [OF wf] by auto
  show "0 < k \<and> k \<le> n \<and> k \<le> length (unread (snd s)) \<and> sending up c s'
      \<and> unread (snd s') = drop k (unread (snd s)) \<and> out (net (fst s')) = out (net (fst s)) @ take k (unread (snd s))"
    using send_ok [OF r pos] send_keeps [OF r] pos ba' *(1) s wf_seek [OF wf le]
    by (auto simp: sending_def stream_ready_def unread_def add.commute min_def split: if_splits)
next
  fix s and n :: nat assume *: "sending up c s" "0 < n" "unread (snd s) \<noteq> []"
  obtain st ba where s: "s = (st, ba)" by fastforce
  obtain r m where r: "k_send T (take n (unread ba)) (net st) = (r, m)" by fastforce
  have "0 < r" using send_live [of "net st" "take n (unread ba)"] * r s by (simp add: sending_def stream_ready_def)
  then show "\<exists>k s'. SocketStream_write_ba T n s = (Inr k, s')" using write_ba_spec [OF *(1) [unfolded s] r] s by simp
next
  fix s and n :: nat assume *: "sending up c s" "0 < n" "unread (snd s) = []"
  obtain st ba where s: "s = (st, ba)" by fastforce
  obtain r m where r: "k_send T (take n (unread ba)) (net st) = (r, m)" by fastforce
  have neg: "r \<le> 0" using send_ok [OF r] *(3) s by (cases "0 < r") auto
  then show "\<exists>s'. SocketStream_write_ba T n s = (Inl Runtime_error, s') \<and> unread (snd s') = []
      \<and> out (net (fst s')) = out (net (fst s)) \<and> sending up c s'"
    using write_ba_spec [OF *(1) [unfolded s] r] send_none [OF r neg] send_keeps [OF r] *(1,3) s
    by (auto simp: sending_def stream_ready_def)
qed

context tcp_transport
begin

lemma socket_transfers:
  assumes "stream_ready up st" and "ba_wf ba"
  shows "len \<le> length (inc (net st)) \<Longrightarrow>
      \<exists>st'. read_fix_length (SocketStream_read T) len st = (Inr (take len (inc (net st))), st')
        \<and> inc (net st') = drop len (inc (net st))"
    and "length (inc (net st)) < len \<Longrightarrow> fst (read_fix_length (SocketStream_read T) len st) = Inl Runtime_error"
    and "\<exists>st'. write_fix_length (SocketStream_write T) d st = (Inr (), st') \<and> out (net st') = out (net st) @ d"
    and "\<exists>st' ba'. read_fix_length_ba (SocketStream_read_ba T) len (st, ba)
          = (if len \<le> length (inc (net st)) then Inr () else Inl Runtime_error, (st', ba'))
         \<and> ba_wf ba' \<and> read_pos ba' = read_pos ba \<and> contents ba' = contents ba @ take len (inc (net st))
         \<and> inc (net st') = drop len (inc (net st))"
    and "\<exists>st' ba'. write_fix_length_ba (SocketStream_write_ba T) len (st, ba)
          = (if len \<le> length (unread ba) then Inr () else Inl Runtime_error, (st', ba'))
         \<and> ba_wf ba' \<and> contents ba' = contents ba \<and> unread ba' = drop len (unread ba)
         \<and> out (net st') = out (net st) @ take len (unread ba)"
proof -
  have r: "receiving up (read_pos ba) (st, ba)" and s: "sending up (contents ba) (st, ba)"
    using assms by (simp_all add: receiving_def sending_def)
  show "\<exists>st' ba'. read_fix_length_ba (SocketStream_read_ba T) len (st, ba)
          = (if len \<le> length (inc (net st)) then Inr () else Inl Runtime_error, (st', ba'))
         \<and> ba_wf ba' \<and> read_pos ba' = read_pos ba \<and> contents ba' = contents ba @ take len (inc (net st))
         \<and> inc (net st') = drop len (inc (net st))"
    using receive.move_loop_exact [OF r, of 0 len] by (auto simp: read_fix_length_ba_def receiving_def)
  show "\<exists>st' ba'. write_fix_length_ba (SocketStream_write_ba T) len (st, ba)
          = (if len \<le> length (unread ba) then Inr () else Inl Runtime_error, (st', ba'))
         \<and> ba_wf ba' \<and> contents ba' = contents ba \<and> unread ba' = drop len (unread ba)
         \<and> out (net st') = out (net st) @ take len (unread ba)"
    using send.move_loop_exact [OF s, of 0 len] by (auto simp: write_fix_length_ba_def sending_def)
qed (use source.read_fix_length_exact [OF assms(1), of len] sink.write_fix_length_exact [OF assms(1), of d] in auto)

end

section \<open>A connection\<close>

text \<open>
  A connection that satisfies the contract: the peer's bytes arrive in segments, a receive takes
  at most one of them, and a send takes at most \<open>window + 1\<close> bytes.
\<close>

record wire =
  segments :: "bytes list"
  sent :: bytes
  window :: nat

definition wire_recv :: "nat \<Rightarrow> wire \<Rightarrow> (int \<times> bytes) \<times> wire" where
  "wire_recv n w =
     (case dropWhile (\<lambda>b. b = []) (segments w) of
        [] \<Rightarrow> ((0, []), w)
      | b # bs \<Rightarrow> ((int (length (take n b)), take n b), w\<lparr>segments := drop n b # bs\<rparr>))"

definition wire_send :: "bytes \<Rightarrow> wire \<Rightarrow> int \<times> wire" where
  "wire_send d w = (int (length (take (Suc (window w)) d)), w\<lparr>sent := sent w @ take (Suc (window w)) d\<rparr>)"

definition wire_transport :: "wire transport" where
  "wire_transport = \<lparr>k_recv = wire_recv, k_send = wire_send\<rparr>"

definition wire_inc :: "wire \<Rightarrow> bytes" where
  "wire_inc w = concat (segments w)"

lemma concat_dropWhile_Nil: "concat (dropWhile (\<lambda>b. b = []) bs) = concat bs"
  by (induction bs) auto

lemma wire_inc_Cons:
  "dropWhile (\<lambda>b. b = []) (segments w) = b # bs \<Longrightarrow> wire_inc w = b @ concat bs \<and> b \<noteq> []"
  by (metis (mono_tags, lifting) concat.simps(2) concat_dropWhile_Nil dropWhile_eq_Cons_conv wire_inc_def)

interpretation wire: tcp_transport wire_transport wire_inc sent "\<lambda>_. True"
proof
  fix n s r got s' assume *: "k_recv wire_transport n s = ((r, got), s')"
  have all: "(0 < r \<longrightarrow> length got = nat r \<and> nat r \<le> n \<and> wire_inc s = got @ wire_inc s')
      \<and> (r \<le> 0 \<longrightarrow> wire_inc s' = wire_inc s) \<and> sent s' = sent s"
  proof (cases "dropWhile (\<lambda>b. b = []) (segments s)")
    case Nil
    with * show ?thesis by (simp add: wire_transport_def wire_recv_def del: dropWhile_eq_Nil_conv)
  next
    case (Cons b bs)
    with * have "r = int (length (take n b))" "got = take n b" "s' = s\<lparr>segments := drop n b # bs\<rparr>"
      by (auto simp: wire_transport_def wire_recv_def)
    with wire_inc_Cons [OF Cons] show ?thesis by (auto simp: wire_inc_def min_def split: if_splits)
  qed
  show "0 < r \<Longrightarrow> length got = nat r \<and> nat r \<le> n \<and> wire_inc s = got @ wire_inc s'"
    "r \<le> 0 \<Longrightarrow> wire_inc s' = wire_inc s" "sent s' = sent s \<and> (True \<longrightarrow> True)" using all by simp_all
next
  fix s :: wire and n :: nat assume n: "0 < n" "wire_inc s \<noteq> []"
  then obtain b bs where d: "dropWhile (\<lambda>b. b = []) (segments s) = b # bs"
    using concat_dropWhile_Nil [of "segments s"]
    by (cases "dropWhile (\<lambda>b. b = []) (segments s)") (auto simp: wire_inc_def)
  with wire_inc_Cons [OF d] n show "0 < fst (fst (k_recv wire_transport n s))"
    by (simp add: wire_transport_def wire_recv_def)
qed (auto simp: wire_transport_def wire_send_def wire_inc_def min_def split: if_splits)

section \<open>Properties\<close>


definition hello_stream :: "wire SocketStream" where
  "hello_stream = \<lparr>socket = Some ((mk_Socket 2 1 0)\<lparr>sockfd := 5, is_connected := True\<rparr>),
     net = \<lparr>segments = [[1, 2], [], [3, 4, 5]], sent = [], window = 1\<rparr>\<rparr>"


end
