(* ===== verification/Chunked_Body.thy ===== *)
theory Chunked_Body
  imports Stream
begin

text \<open>
  The decoder of bodies with chunked transfer encoding, \<open>SocketStream::read_chunked_body\<close>
  (src/sylar/stream.cpp): its loop over a refilled buffer, that the loop always ends, which
  encodings it decodes, and how the pieces in which the bytes arrive matter.
\<close>

section \<open>Chunked bodies\<close>

text \<open>
  The locals of \<open>read_chunked_body\<close>: \<open>buf\<close> is the part of the buffer that holds received bytes, so
  that its length is \<open>read_len\<close>.
\<close>

record chunking =
  body :: bytes
  buf :: bytes
  parsed :: nat
  chunk_size :: u64
  tmp_size :: u64
  read_chunk_size :: bool

definition to_upper :: "u8 \<Rightarrow> u8" where
  "to_upper c = (if 97 \<le> c \<and> c \<le> 122 then c - 32 else c)"

text \<open>One round, on a buffer with an unparsed byte; the loop goes on unless the round ends in \<open>break\<close>.\<close>

definition chunk_round :: "chunking \<Rightarrow> bool \<times> chunking" where
  "chunk_round c =
     (if chunk_size c = 0
      then let ch = to_upper (buf c ! parsed c); c1 = c\<lparr>parsed := parsed c + 1\<rparr>
           in if 48 \<le> ch \<and> ch \<le> 57
              then (True, c1\<lparr>tmp_size := push_bit 4 (tmp_size c) + ucast (ch - 48), read_chunk_size := True\<rparr>)
              else if 65 \<le> ch \<and> ch \<le> 70
              then (True, c1\<lparr>tmp_size := push_bit 4 (tmp_size c) + ucast (ch - 65 + 10), read_chunk_size := True\<rparr>)
              else if read_chunk_size c
              then let c2 = c1\<lparr>parsed := parsed c1 + 1\<rparr>
                   in if tmp_size c = 0 then (False, c2)
                      else (True, c2\<lparr>chunk_size := tmp_size c, tmp_size := 0, read_chunk_size := False\<rparr>)
              else (True, c1)
      else if unat (chunk_size c) \<le> length (buf c) - parsed c
      then (True, c\<lparr>body := body c @ take (unat (chunk_size c)) (drop (parsed c) (buf c)),
                    parsed := parsed c + unat (chunk_size c), chunk_size := 0\<rparr>)
      else (True, c\<lparr>body := body c @ drop (parsed c) (buf c),
                    chunk_size := chunk_size c - of_nat (length (buf c) - parsed c), parsed := length (buf c)\<rparr>))"

text \<open>
  The loop. A failed read ends it with \<open>false\<close>; a read of no bytes, which \<open>SocketStream::read\<close>
  never reports, would leave \<open>buffer[0]\<close> stale.
\<close>

partial_function (option) chunk_loop ::
  "'s reader \<Rightarrow> nat \<Rightarrow> chunking \<Rightarrow> 's \<Rightarrow> ('s, bool \<times> chunking) outcome option" where
  "chunk_loop rd buff_size c s =
     (case (if length (buf c) \<le> parsed c
            then case rd buff_size s of
                   (Inl e, s1) \<Rightarrow> (None, s1)
                 | (Inr got, s1) \<Rightarrow> (Some (c\<lparr>buf := got, parsed := 0\<rparr>), s1)
            else (Some c, s)) of
        (None, s1) \<Rightarrow> Some (Inr (False, c), s1)
      | (Some c1, s1) \<Rightarrow>
          if buf c1 = [] then Some (Inl Indeterminate_value, s1)
          else let (go_on, c2) = chunk_round c1
               in if go_on then chunk_loop rd buff_size c2 s1 else Some (Inr (True, c2), s1))"

declare chunk_loop.simps [code]

text \<open>
  \<open>buffer\<close> holds the \<open>remained\<close> bytes already received. The results are the value of the call, the
  body, and the new \<open>remained\<close>, which the failure return leaves alone.
\<close>

definition read_chunked_body ::
  "'s reader \<Rightarrow> nat \<Rightarrow> bytes \<Rightarrow> bytes \<Rightarrow> 's \<Rightarrow> ('s, bool \<times> bytes \<times> nat) outcome option" where
  "read_chunked_body rd buff_size bd buffer s =
     map_option (map_outcome (\<lambda>(ok, c).
         (ok, body c, if ok then sub64 (length (buf c)) (parsed c) else length buffer)))
       (chunk_loop rd buff_size
          \<lparr>body = bd, buf = buffer, parsed = 0, chunk_size = 0, tmp_size = 0, read_chunk_size = False\<rparr> s)"

section \<open>Decoding chunks\<close>

text \<open>The value of a hexadecimal digit, and of a size line.\<close>

definition hex_val :: "u8 \<Rightarrow> u8 option" where
  "hex_val x = (let ch = to_upper x
     in if 48 \<le> ch \<and> ch \<le> 57 then Some (ch - 48) else if 65 \<le> ch \<and> ch \<le> 70 then Some (ch - 65 + 10) else None)"

definition hex_number :: "bytes \<Rightarrow> nat" where
  "hex_number ds = foldl (\<lambda>t x. 16 * t + unat (the (hex_val x))) 0 ds"

definition size_text :: "bytes \<Rightarrow> nat \<Rightarrow> bool" where
  "size_text ds n \<longleftrightarrow> ds \<noteq> [] \<and> (\<forall>x \<in> set ds. hex_val x \<noteq> None) \<and> hex_number ds = n"

definition chunk_fields :: "chunking \<Rightarrow> bytes \<times> u64 \<times> u64 \<times> bool" where
  "chunk_fields c = (body c, chunk_size c, tmp_size c, read_chunk_size c)"

text \<open>A piece that does not end between the two bytes of a line end.\<close>

definition whole_line :: "bytes \<Rightarrow> bool" where
  "whole_line p \<longleftrightarrow> p = [] \<or> last p \<noteq> 13"

text \<open>A stream whose reads deliver the pieces \<open>pcs\<close> one by one.\<close>

locale piece_source =
  fixes rd :: "'s reader" and pcs :: "'s \<Rightarrow> bytes list"
  assumes rd_piece: "pcs s = p # ps \<Longrightarrow> length p \<le> n \<Longrightarrow> p \<noteq> [] \<and> (\<exists>s'. rd n s = (Inr p, s') \<and> pcs s' = ps)"
begin

definition stands :: "nat \<Rightarrow> chunking \<Rightarrow> 's \<Rightarrow> bytes \<Rightarrow> bool" where
  "stands N c s fl \<longleftrightarrow> parsed c \<le> length (buf c) \<and> fl = drop (parsed c) (buf c) @ concat (pcs s)
     \<and> whole_line (drop (parsed c) (buf c)) \<and> (\<forall>p \<in> set (pcs s). whole_line p \<and> length p \<le> N)"

text \<open>From \<open>f\<close> with the bytes \<open>fl\<close> ahead the loop ends successfully in a state with \<open>Q\<close>.\<close>

definition ends :: "nat \<Rightarrow> bytes \<times> u64 \<times> u64 \<times> bool \<Rightarrow> bytes \<Rightarrow> (chunking \<Rightarrow> 's \<Rightarrow> bool) \<Rightarrow> bool" where
  "ends N f fl Q \<longleftrightarrow> (\<forall>c s. stands N c s fl \<and> chunk_fields c = f \<longrightarrow>
     (\<exists>c' s'. chunk_loop rd N c s = Some (Inr (True, c'), s') \<and> Q c' s'))"

lemma refill:
  assumes "stands N c s fl" and "fl \<noteq> []"
  shows "\<exists>c' s'. chunk_loop rd N c s = chunk_loop rd N c' s' \<and> stands N c' s' fl \<and> chunk_fields c' = chunk_fields c
    \<and> parsed c' < length (buf c')"
proof (cases "parsed c < length (buf c)")
  case True
  with assms show ?thesis by blast
next
  case False
  with assms obtain p ps where ps: "pcs s = p # ps" by (cases "pcs s") (auto simp: stands_def)
  then obtain s' where s': "p \<noteq> []" "rd N s = (Inr p, s')" "pcs s' = ps"
    using rd_piece [of s p ps N] assms(1) by (auto simp: stands_def)
  let ?c = "c\<lparr>buf := p, parsed := 0\<rparr>"
  have "chunk_loop rd N c s = chunk_loop rd N ?c s'"
    using False s' by (simp add: chunk_loop.simps [of rd N c s] chunk_loop.simps [of rd N ?c s'])
  then show ?thesis using False assms(1) ps s' by (intro exI [of _ ?c] exI [of _ s']) (auto simp: stands_def chunk_fields_def)
qed

text \<open>One round, seen from the bytes ahead.\<close>

lemma ends_round:
  assumes "\<And>c s. stands N c s (x # fl) \<Longrightarrow> chunk_fields c = f \<Longrightarrow> parsed c < length (buf c) \<Longrightarrow> buf c ! parsed c = x \<Longrightarrow>
      (case chunk_round c of (go_on, c2) \<Rightarrow>
         if go_on then \<exists>c' s'. chunk_loop rd N c2 s = Some (Inr (True, c'), s') \<and> Q c' s' else Q c2 s)"
  shows "ends N f (x # fl) Q"
  unfolding ends_def
proof (intro allI impI, elim conjE)
  fix c s assume "stands N c s (x # fl)" "chunk_fields c = f"
  then obtain c1 s1 where c1: "chunk_loop rd N c s = chunk_loop rd N c1 s1" "stands N c1 s1 (x # fl)" "chunk_fields c1 = f"
      "parsed c1 < length (buf c1)" using refill [of N c s "x # fl"] by auto
  moreover have "buf c1 ! parsed c1 = x"
    using c1(2,4) by (cases "drop (parsed c1) (buf c1)") (auto simp: stands_def Cons_nth_drop_Suc [symmetric])
  ultimately have "case chunk_round c1 of (go_on, c2) \<Rightarrow>
      if go_on then \<exists>c' s'. chunk_loop rd N c2 s1 = Some (Inr (True, c'), s') \<and> Q c' s' else Q c2 s1"
    by (intro assms)
  moreover have "chunk_loop rd N c1 s1 = (let (go_on, c2) = chunk_round c1
      in if go_on then chunk_loop rd N c2 s1 else Some (Inr (True, c2), s1))"
    using c1(4) by (auto simp: chunk_loop.simps [of rd N c1 s1])
  ultimately show "\<exists>c' s'. chunk_loop rd N c s = Some (Inr (True, c'), s') \<and> Q c' s'"
    using c1(1) by (auto simp: Let_def split: prod.splits if_splits)
qed

lemma drop_at: "parsed c < length (buf c) \<Longrightarrow> drop (parsed c) (buf c) = buf c ! parsed c # drop (Suc (parsed c)) (buf c)"
  by (simp add: Cons_nth_drop_Suc)

lemma whole_line_tl: "whole_line (x # y) \<Longrightarrow> whole_line y"
  by (auto simp: whole_line_def split: if_splits)

lemma ends_digit:
  assumes "hex_val x = Some d" and "ends N (b, 0, push_bit 4 t + ucast d, True) fl Q"
  shows "ends N (b, 0, t, r) (x # fl) Q"
proof (rule ends_round)
  fix c s assume *: "stands N c s (x # fl)" "chunk_fields c = (b, 0, t, r)" "parsed c < length (buf c)" "buf c ! parsed c = x"
  let ?c = "c\<lparr>parsed := parsed c + 1, tmp_size := push_bit 4 t + ucast d, read_chunk_size := True\<rparr>"
  have "chunk_round c = (True, ?c)"
    using assms(1) *(2,4) by (auto simp: chunk_round_def hex_val_def chunk_fields_def Let_def split: if_splits)
  moreover have "stands N ?c s fl" using *(1,3,4) drop_at [OF *(3)] by (auto simp: stands_def dest: whole_line_tl)
  moreover have "chunk_fields ?c = (b, 0, push_bit 4 t + ucast d, True)" using *(2) by (simp add: chunk_fields_def)
  ultimately show "case chunk_round c of (go_on, c2) \<Rightarrow>
      if go_on then \<exists>c' s'. chunk_loop rd N c2 s = Some (Inr (True, c'), s') \<and> Q c' s' else Q c2 s"
    using assms(2) by (simp add: ends_def)
qed

lemma ends_skip:
  assumes "hex_val x = None" and "ends N (b, 0, t, False) fl Q"
  shows "ends N (b, 0, t, False) (x # fl) Q"
proof (rule ends_round)
  fix c s assume *: "stands N c s (x # fl)" "chunk_fields c = (b, 0, t, False)" "parsed c < length (buf c)" "buf c ! parsed c = x"
  let ?c = "c\<lparr>parsed := parsed c + 1\<rparr>"
  have "chunk_round c = (True, ?c)"
    using assms(1) *(2,4) by (auto simp: chunk_round_def hex_val_def chunk_fields_def Let_def split: if_splits)
  moreover have "stands N ?c s fl" using *(1,3,4) drop_at [OF *(3)] by (auto simp: stands_def dest: whole_line_tl)
  moreover have "chunk_fields ?c = (b, 0, t, False)" using *(2) by (simp add: chunk_fields_def)
  ultimately show "case chunk_round c of (go_on, c2) \<Rightarrow>
      if go_on then \<exists>c' s'. chunk_loop rd N c2 s = Some (Inr (True, c'), s') \<and> Q c' s' else Q c2 s"
    using assms(2) by (simp add: ends_def)
qed

text \<open>The end of a size line: both of its bytes are in the buffer, and both are taken.\<close>

lemma line_in_buffer:
  assumes "stands N c s (13 # x # fl)" and "parsed c < length (buf c)"
  shows "stands N (c\<lparr>parsed := parsed c + 2\<rparr>) s fl"
proof -
  have "whole_line (drop (parsed c) (buf c))" and fl: "13 # x # fl = drop (parsed c) (buf c) @ concat (pcs s)"
    using assms(1) by (simp_all add: stands_def)
  then obtain y where y: "drop (parsed c) (buf c) = 13 # x # y" "fl = y @ concat (pcs s)"
    using drop_at [OF assms(2)] by (cases "drop (Suc (parsed c)) (buf c)") (auto simp: whole_line_def)
  have "drop (parsed c + 2) (buf c) = drop 2 (drop (parsed c) (buf c))" by (simp add: drop_drop add.commute)
  then have "drop (parsed c + 2) (buf c) = y" using y(1) by simp
  moreover have "length (drop (parsed c) (buf c)) = 2 + length y" by (simp only: y(1)) simp
  then have "parsed c + 2 \<le> length (buf c)" by simp
  moreover have "whole_line y" using assms(1) y(1) by (auto simp: stands_def dest: whole_line_tl)
  ultimately show ?thesis using assms(1) y by (auto simp: stands_def)
qed

lemma chunk_round_line:
  assumes "chunk_fields c = (b, 0, t, True)" and "buf c ! parsed c = 13"
  shows "chunk_round c = (if t = 0 then (False, c\<lparr>parsed := parsed c + 2\<rparr>)
    else (True, c\<lparr>parsed := parsed c + 2, chunk_size := t, tmp_size := 0, read_chunk_size := False\<rparr>))"
  using assms by (auto simp: chunk_round_def chunk_fields_def to_upper_def Let_def)

lemma ends_line:
  assumes "t \<noteq> 0" and "ends N (b, t, 0, False) fl Q"
  shows "ends N (b, 0, t, True) (13 # x # fl) Q"
proof (rule ends_round)
  fix c s assume *: "stands N c s (13 # x # fl)" "chunk_fields c = (b, 0, t, True)" "parsed c < length (buf c)"
    "buf c ! parsed c = 13"
  let ?c = "c\<lparr>parsed := parsed c + 2, chunk_size := t, tmp_size := 0, read_chunk_size := False\<rparr>"
  have "stands N ?c s fl" using line_in_buffer [OF *(1,3)] by (simp add: stands_def)
  moreover have "chunk_fields ?c = (b, t, 0, False)" using *(2) by (simp add: chunk_fields_def)
  ultimately show "case chunk_round c of (go_on, c2) \<Rightarrow>
      if go_on then \<exists>c' s'. chunk_loop rd N c2 s = Some (Inr (True, c'), s') \<and> Q c' s' else Q c2 s"
    using assms chunk_round_line [OF *(2,4)] by (simp add: ends_def)
qed

lemma ends_last_line:
  assumes "\<And>c s. stands N c s fl \<Longrightarrow> body c = b \<Longrightarrow> Q c s"
  shows "ends N (b, 0, 0, True) (13 # x # fl) Q"
proof (rule ends_round)
  fix c s assume *: "stands N c s (13 # x # fl)" "chunk_fields c = (b, 0, 0, True)" "parsed c < length (buf c)"
    "buf c ! parsed c = 13"
  show "case chunk_round c of (go_on, c2) \<Rightarrow>
      if go_on then \<exists>c' s'. chunk_loop rd N c2 s = Some (Inr (True, c'), s') \<and> Q c' s' else Q c2 s"
    using assms [OF line_in_buffer [OF *(1,3)]] *(2) chunk_round_line [OF *(2,4)] by (simp add: chunk_fields_def)
qed

lemma ends_data:
  "length d = unat k \<Longrightarrow> k \<noteq> 0 \<Longrightarrow> ends N (b @ d, 0, 0, False) fl Q \<Longrightarrow> ends N (b, k, 0, False) (d @ fl) Q"
proof (induction "length d" arbitrary: b d k rule: less_induct)
  case less
  then obtain x d1 where d: "d = x # d1" by (cases d) (auto simp: unat_eq_zero)
  have "ends N (b, k, 0, False) (x # d1 @ fl) Q"
  proof (rule ends_round)
    fix c s assume *: "stands N c s (x # d1 @ fl)" "chunk_fields c = (b, k, 0, False)" "parsed c < length (buf c)"
    define y where "y = drop (parsed c) (buf c)"
    have y: "y \<noteq> []" "d @ fl = y @ concat (pcs s)" "whole_line y" "length y = length (buf c) - parsed c"
      using *(1,3) d by (auto simp: y_def stands_def)
    show "case chunk_round c of (go_on, c2) \<Rightarrow>
        if go_on then \<exists>c' s'. chunk_loop rd N c2 s = Some (Inr (True, c'), s') \<and> Q c' s' else Q c2 s"
    proof (cases "length d \<le> length y")
      case True
      let ?c = "c\<lparr>body := b @ take (length d) y, parsed := parsed c + length d, chunk_size := 0\<rparr>"
      have "chunk_round c = (True, ?c)"
        using True y(4) less.prems(1,2) *(2) by (simp add: chunk_round_def chunk_fields_def y_def)
      moreover have "take (length d) y = d" "fl = drop (length d) y @ concat (pcs s)"
        using arg_cong [OF y(2), of "take (length d)"] arg_cong [OF y(2), of "drop (length d)"] True by simp_all
      moreover have "whole_line (drop (length d) y)" using y(3) by (auto simp: whole_line_def)
      ultimately show ?thesis using less.prems(3) *(1,2) True y
        by (auto simp: ends_def stands_def chunk_fields_def y_def add.commute)
    next
      case False
      let ?c = "c\<lparr>body := b @ y, chunk_size := k - of_nat (length y), parsed := length (buf c)\<rparr>"
      have round: "chunk_round c = (True, ?c)"
        using False y(4) less.prems(1,2) *(2) by (simp add: chunk_round_def chunk_fields_def y_def)
      obtain d' where d': "d = y @ d'" "d' @ fl = concat (pcs s)"
        using y(2) False by (auto simp: append_eq_append_conv2)
      have k: "unat (k - of_nat (length y)) = unat k - length y"
      proof -
        have "length y < 2 ^ 64" using False less.prems(1) unsigned_less [of k, where ?'a = nat] by simp
        then show ?thesis using False less.prems(1) by (simp add: unat_sub word_le_nat_alt unat_of_nat)
      qed
      have "ends N (b @ y, k - of_nat (length y), 0, False) (d' @ fl) Q"
      proof (rule less.hyps)
        show "length d' < length d" using d'(1) y(1) by simp
        show "length d' = unat (k - of_nat (length y))" using d'(1) k less.prems(1) by simp
        then have "0 < unat (k - of_nat (length y))" using d'(1) False by simp
        then show "k - of_nat (length y) \<noteq> 0" by (metis less_irrefl unsigned_0)
        show "ends N ((b @ y) @ d', 0, 0, False) fl Q" using less.prems(3) d'(1) by simp
      qed
      moreover have "stands N ?c s (d' @ fl)" "chunk_fields ?c = (b @ y, k - of_nat (length y), 0, False)"
        using *(1,2) d'(2) by (auto simp: stands_def chunk_fields_def whole_line_def)
      ultimately show ?thesis using round by (simp add: ends_def)
    qed
  qed
  then show ?case by (simp add: d)
qed

lemma ends_digits:
  "\<forall>x \<in> set ds. hex_val x \<noteq> None \<Longrightarrow> ds \<noteq> [] \<Longrightarrow>
     ends N (b, 0, foldl (\<lambda>t x. push_bit 4 t + ucast (the (hex_val x))) t ds, True) fl Q \<Longrightarrow>
     ends N (b, 0, t, r) (ds @ fl) Q"
proof (induction ds arbitrary: t r)
  case (Cons x ds)
  then obtain d where d: "hex_val x = Some d" by auto
  have "ends N (b, 0, push_bit 4 t + ucast d, True) (ds @ fl) Q"
    using Cons d by (cases "ds = []") auto
  then show ?case using ends_digit [OF d] by simp
qed simp

lemma ends_size:
  assumes "size_text ds n" and "ends N (b, 0, of_nat n, True) fl Q"
  shows "ends N (b, 0, 0, r) (ds @ fl) Q"
proof -
  have "of_nat (foldl (\<lambda>t x. 16 * t + unat (the (hex_val x))) m ds)
      = foldl (\<lambda>t x. push_bit 4 t + ucast (the (hex_val x))) (of_nat m :: u64) ds" for m
    by (induction ds arbitrary: m) (simp_all add: push_bit_eq_mult mult.commute)
  from this [of 0] have "foldl (\<lambda>t x. push_bit 4 t + ucast (the (hex_val x))) (0 :: u64) ds = of_nat n"
    using assms(1) by (simp add: size_text_def hex_number_def)
  then show ?thesis using assms by (intro ends_digits) (auto simp: size_text_def)
qed

lemma hex_val_line [simp]: "hex_val 13 = None" "hex_val 10 = None"
  by (simp_all add: hex_val_def to_upper_def)

lemma ends_chunk:
  assumes "size_text ds (length d)" and "d \<noteq> []" and "length d < 2 ^ 64" and "ends N (b @ d, 0, 0, False) fl Q"
  shows "ends N (b, 0, 0, False) (ds @ [13, 10] @ d @ [13, 10] @ fl) Q"
proof -
  have k: "unat (of_nat (length d) :: u64) = length d" using assms(3) by (simp add: unat_of_nat)
  then have nz: "of_nat (length d) \<noteq> (0 :: u64)" using assms(2) by force
  have "ends N (b @ d, 0, 0, False) ([13, 10] @ fl) Q" using assms(4) by (simp add: ends_skip)
  then have "ends N (b, of_nat (length d), 0, False) (d @ [13, 10] @ fl) Q" using ends_data [OF k [symmetric] nz] by blast
  then have "ends N (b, 0, of_nat (length d), True) ([13, 10] @ d @ [13, 10] @ fl) Q" using nz by (simp add: ends_line)
  then show ?thesis by (rule ends_size [OF assms(1)])
qed

text \<open>A whole body: the chunks and the final empty chunk.\<close>

lemma ends_body:
  "\<forall>(ds, d) \<in> set cs. size_text ds (length d) \<and> d \<noteq> [] \<and> length d < 2 ^ 64 \<Longrightarrow> size_text zs 0 \<Longrightarrow>
     (\<And>c s. stands N c s rest \<Longrightarrow> body c = b @ concat (map snd cs) \<Longrightarrow> Q c s) \<Longrightarrow>
     ends N (b, 0, 0, False) (concat (map (\<lambda>(ds, d). ds @ [13, 10] @ d @ [13, 10]) cs) @ zs @ [13, 10] @ rest) Q"
proof (induction cs arbitrary: b)
  case Nil
  then have "ends N (b, 0, 0, True) (13 # 10 # rest) Q" by (intro ends_last_line) simp
  then show ?case using ends_size [OF Nil(2), of N b "[13, 10] @ rest" Q] by simp
next
  case (Cons x cs)
  obtain ds d where x: "x = (ds, d)" by fastforce
  have "ends N (b @ d, 0, 0, False) (concat (map (\<lambda>(ds, d). ds @ [13, 10] @ d @ [13, 10]) cs) @ zs @ [13, 10] @ rest) Q"
    using Cons.prems x by (intro Cons.IH) auto
  from ends_chunk [OF _ _ _ this, of ds] Cons.prems(1) x show ?case by simp
qed

end

text \<open>Reading a body always ends: every round consumes bytes, and a stream that ends makes it fail.\<close>

lemma chunk_round_progress:
  assumes "chunk_round c = (g, c')" and "parsed c < length (buf c)"
  shows "buf c' = buf c \<and> parsed c < parsed c'"
proof -
  have "chunk_size c \<noteq> 0 \<Longrightarrow> 0 < unat (chunk_size c)" by (simp add: unat_gt_0)
  with assms show ?thesis by (auto simp: chunk_round_def Let_def split: if_splits)
qed

context byte_source
begin

lemma chunk_loop_returns: "\<exists>ok c' s'. chunk_loop rd N c s = Some (Inr (ok, c'), s')"
proof (induction "length (avail s) + (length (buf c) - parsed c)" arbitrary: c s rule: less_induct)
  case less
  show ?case
  proof (cases "parsed c < length (buf c)")
    case True
    obtain g c2 where r: "chunk_round c = (g, c2)" by fastforce
    have "length (avail s) + (length (buf c2) - parsed c2) < length (avail s) + (length (buf c) - parsed c)"
      using chunk_round_progress [OF r True] True by auto
    from less.hyps [OF this] True r show ?thesis by (cases g) (auto simp: chunk_loop.simps [of rd N c s])
  next
    case False
    obtain q s1 where q: "rd N s = (q, s1)" by fastforce
    show ?thesis
    proof (cases q)
      case (Inl e)
      with False q show ?thesis by (auto simp: chunk_loop.simps [of rd N c s])
    next
      case (Inr got)
      let ?c = "c\<lparr>buf := got, parsed := 0\<rparr>"
      have g: "got \<noteq> []" "avail s = got @ avail s1" using rd_ok q Inr by blast+
      obtain g' c2 where r: "chunk_round ?c = (g', c2)" by fastforce
      have "parsed ?c < length (buf ?c)" using g(1) by simp
      from chunk_round_progress [OF r this]
      have "length (avail s1) + (length (buf c2) - parsed c2) < length (avail s) + (length (buf c) - parsed c)"
        using g False by auto
      from less.hyps [OF this] False q Inr r g(1) show ?thesis by (cases g') (auto simp: chunk_loop.simps [of rd N c s])
    qed
  qed
qed

end

context tcp_transport
begin

lemma read_chunked_body_returns:
  "\<exists>ok bd' m st'. read_chunked_body (SocketStream_read T) N bd buffer st = Some (Inr (ok, bd', m), st')"
  using source.chunk_loop_returns by (fastforce simp: read_chunked_body_def)

end

section \<open>The segments of a connection\<close>

definition wire_pieces :: "wire SocketStream \<Rightarrow> bytes list" where
  "wire_pieces st = (if usable st then filter (\<lambda>b. b \<noteq> []) (segments (net st)) else [])"

lemma concat_filter_Nil: "concat (filter (\<lambda>b. b \<noteq> []) bs) = concat bs"
  by (induction bs) auto

interpretation wire_stream: piece_source "SocketStream_read wire_transport" wire_pieces
proof
  fix s p ps and n :: nat assume *: "wire_pieces s = p # ps" "length p \<le> n"
  then have u: "usable s" by (auto simp: wire_pieces_def split: if_splits)
  have d: "\<exists>b. dropWhile (\<lambda>b. b = []) bs = p # b \<and> filter (\<lambda>b. b \<noteq> []) b = ps \<and> p \<noteq> []"
    if "filter (\<lambda>b. b \<noteq> []) bs = p # ps" for bs using that by (induction bs) (auto split: if_splits)
  from d [of "segments (net s)"] obtain b where "dropWhile (\<lambda>b. b = []) (segments (net s)) = p # b"
      "filter (\<lambda>b. b \<noteq> []) b = ps" "p \<noteq> []" using * u by (auto simp: wire_pieces_def)
  with u *(2) show "p \<noteq> [] \<and> (\<exists>s'. SocketStream_read wire_transport n s = (Inr p, s') \<and> wire_pieces s' = ps)"
    by (simp add: SocketStream_read_def wire_transport_def wire_recv_def wire_pieces_def Let_def)
qed

section \<open>Properties\<close>

text \<open>
  C18. \<open>read_chunked_body\<close> decodes every chunked body, however its bytes are cut into received pieces,
  as long as no piece ends in a carriage return: for any chunk data and any spelling of the
  sizes (upper or lower case, leading zeros), with any part of the body already in the buffer,
  it returns true and appends exactly the data; it stops right behind the line of the empty
  chunk, and what follows is left, first in the buffer and then on the connection.
\<close>

theorem chunked_body_decodes:
  assumes "usable st" and "\<forall>p \<in> set (buffer # segments (net st)). whole_line p \<and> length p \<le> N"
    and "\<forall>(ds, d) \<in> set cs. size_text ds (length d) \<and> d \<noteq> [] \<and> length d < 2 ^ 64" and "size_text zs 0"
    and "buffer @ wire_inc (net st)
      = concat (map (\<lambda>(ds, d). ds @ [13, 10] @ d @ [13, 10]) cs) @ zs @ [13, 10] @ rest"
  shows "\<exists>m st'. read_chunked_body (SocketStream_read wire_transport) N bd buffer st
      = Some (Inr (True, bd @ concat (map snd cs), m), st')
    \<and> m \<le> length rest \<and> rest = take m rest @ concat (wire_pieces st')"
proof -
  let ?c = "\<lparr>body = bd, buf = buffer, parsed = 0, chunk_size = 0, tmp_size = 0, read_chunk_size = False\<rparr>"
  let ?Q = "\<lambda>c s. body c = bd @ concat (map snd cs) \<and> wire_stream.stands N c s rest"
  have "concat (wire_pieces st) = wire_inc (net st)"
    using assms(1) by (simp add: wire_pieces_def wire_inc_def concat_filter_Nil)
  then have "wire_stream.stands N ?c st
      (concat (map (\<lambda>(ds, d). ds @ [13, 10] @ d @ [13, 10]) cs) @ zs @ [13, 10] @ rest)"
    using assms(1,2,5) by (auto simp: wire_stream.stands_def wire_pieces_def)
  moreover have "wire_stream.ends N (bd, 0, 0, False)
      (concat (map (\<lambda>(ds, d). ds @ [13, 10] @ d @ [13, 10]) cs) @ zs @ [13, 10] @ rest) ?Q"
    by (rule wire_stream.ends_body [OF assms(3,4)]) simp
  moreover have "chunk_fields ?c = (bd, 0, 0, False)" by (simp add: chunk_fields_def)
  ultimately obtain c' st' where c': "chunk_loop (SocketStream_read wire_transport) N ?c st = Some (Inr (True, c'), st')"
      "body c' = bd @ concat (map snd cs)" "wire_stream.stands N c' st' rest"
    unfolding wire_stream.ends_def by blast
  then show ?thesis
    by (auto simp: read_chunked_body_def wire_stream.stands_def)
qed

definition chunked_demo :: "wire SocketStream" where
  "chunked_demo = hello_stream\<lparr>net := \<lparr>segments = [[97, 98, 99, 13, 10], [48, 13, 10, 13, 10]], sent = [], window = 0\<rparr>\<rparr>"

theorem chunked_body_decodes_witness:
  "\<exists>m st'. read_chunked_body (SocketStream_read wire_transport) 16 [] [51, 13, 10] chunked_demo
     = Some (Inr (True, [97, 98, 99], m), st') \<and> m \<le> 2"
proof -
  have "\<exists>m st'. read_chunked_body (SocketStream_read wire_transport) 16 [] [51, 13, 10] chunked_demo
      = Some (Inr (True, [] @ concat (map snd [([51 :: u8], [97, 98, 99])]), m), st')
    \<and> m \<le> length [13, 10 :: u8] \<and> [13, 10] = take m [13, 10] @ concat (wire_pieces st')"
    by (rule chunked_body_decodes [where zs = "[48]"])
      (simp_all add: chunked_demo_def hello_stream_def usable_def whole_line_def size_text_def hex_number_def hex_val_def
        to_upper_def wire_inc_def)
  then show ?thesis by auto
qed

text \<open>
  Reading a chunked body always ends, whatever the peer sends and whatever is in the buffer:
  the call returns true or false and never loops on the spot.
\<close>

theorem chunked_body_returns:
  assumes "tcp_transport T inc out up"
  shows "\<exists>ok bd' m st'. read_chunked_body (SocketStream_read T) N bd buffer st = Some (Inr (ok, bd', m), st')"
  by (rule tcp_transport.read_chunked_body_returns [OF assms])

theorem chunked_body_returns_witness:
  "\<exists>ok bd' m st'. read_chunked_body (SocketStream_read wire_transport) 16 [] [71, 71] chunked_demo = Some (Inr (ok, bd', m), st')"
  by (rule chunked_body_returns [OF wire.tcp_transport_axioms])

text \<open>
  The condition on the pieces is needed. When the first piece ends between the two bytes of a
  line end, the line feed counts as data: the body \<open>3 CR | LF abc CR LF 0 CR LF CR LF\<close> is
  misread and the call fails with the wrong bytes in the body.
\<close>

lemma split_line_end_breaks:
  "map_option fst (read_chunked_body (SocketStream_read wire_transport) 16 []
     [51, 13] (hello_stream\<lparr>net := \<lparr>segments = [[10, 97, 98, 99, 13, 10, 48, 13, 10, 13, 10]], sent = [], window = 0\<rparr>\<rparr>))
   = Some (Inr (False, [10, 97, 98, 48, 13, 10, 13, 10], 2))"
  by code_simp

end
