(* ===== verification/File_Util.thy ===== *)
theory File_Util
  imports Util Cpp_String
begin

text \<open>
  Namespace \<open>FSUtil\<close> of src/sylar/util.cpp: creating a directory with its ancestors and opening
  a file for writing. The file system is an argument: a state with the four calls the code
  makes, and the interface \<open>file_system\<close> says what they promise.
\<close>

section \<open>Operations\<close>

text \<open>
  \<open>fs_open app path\<close> opens for writing, truncating unless \<open>app\<close>, and answers a handle when it
  succeeds; \<open>fs_write\<close> appends through a handle.
\<close>

record 'f fs_ops =
  fs_access :: "string \<Rightarrow> 'f \<Rightarrow> bool"
  fs_mkdir :: "string \<Rightarrow> 'f \<Rightarrow> bool \<times> 'f"
  fs_open :: "bool \<Rightarrow> string \<Rightarrow> 'f \<Rightarrow> nat option \<times> 'f"
  fs_write :: "nat \<Rightarrow> string \<Rightarrow> 'f \<Rightarrow> 'f"

definition file_or_dir_exists :: "'f fs_ops \<Rightarrow> string \<Rightarrow> 'f \<Rightarrow> bool" where
  "file_or_dir_exists F path f = fs_access F (c_str path) f"

text \<open>\<open>std::string::find (c, from)\<close>.\<close>

function find_from :: "char \<Rightarrow> nat \<Rightarrow> string \<Rightarrow> nat option" where
  "find_from c i s = (if i < length s then if s ! i = c then Some i else find_from c (Suc i) s else None)"
  by pat_completeness auto
termination
  by (relation "measure (\<lambda>(c, i, s). length s - i)") auto

declare find_from.simps [simp del]

lemma find_from_Some: "find_from c i s = Some p \<Longrightarrow> i \<le> p \<and> p < length s \<and> s ! p = c \<and> (\<forall>j. i \<le> j \<and> j < p \<longrightarrow> s ! j \<noteq> c)"
proof (induction c i s rule: find_from.induct)
  case (1 c i s)
  show ?case
  proof (cases "i < length s \<and> s ! i \<noteq> c")
    case True
    with 1 have "Suc i \<le> p \<and> p < length s \<and> s ! p = c \<and> (\<forall>j. Suc i \<le> j \<and> j < p \<longrightarrow> s ! j \<noteq> c)"
      by (simp add: find_from.simps [of c i s])
    moreover from this have "\<forall>j. i \<le> j \<and> j < p \<longrightarrow> s ! j \<noteq> c"
      using True by (metis Suc_leI le_eq_less_or_eq)
    ultimately show ?thesis by simp
  next
    case False
    with 1(2) show ?thesis by (auto simp: find_from.simps [of c i s] split: if_splits)
  qed
qed

lemma find_from_None: "find_from c i s = None \<Longrightarrow> i \<le> j \<Longrightarrow> j < length s \<Longrightarrow> s ! j \<noteq> c"
proof (induction "length s - i" arbitrary: i rule: less_induct)
  case less
  have i: "s ! i \<noteq> c" "find_from c (Suc i) s = None"
    using less.prems by (auto simp: find_from.simps [of c i s] split: if_splits)
  show ?case
  proof (cases "i = j")
    case False
    then show ?thesis using less.prems i(2) by (intro less.hyps [of "Suc i"]) auto
  qed (use i in simp)
qed

text \<open>
  The loop of \<open>make_dir\<close> at the slash at \<open>pos\<close>: with a NUL stored there, the C calls see the path
  up to it.
\<close>

function make_dir_loop :: "'f fs_ops \<Rightarrow> string \<Rightarrow> nat option \<Rightarrow> 'f \<Rightarrow> bool \<times> 'f" where
  "make_dir_loop F path None f = (True, f)"
| "make_dir_loop F path (Some pos) f =
     (if length path \<le> pos then (True, f)
      else let tmp = path[pos := CHR 0x00];
               (ok, f1) = (if \<not> file_or_dir_exists F tmp f then fs_mkdir F (c_str tmp) f else (True, f))
           in if \<not> ok then (False, f1) else make_dir_loop F path (find_from (CHR ''/'') (pos + 1) path) f1)"
  by pat_completeness auto
termination
  by (relation "measure (\<lambda>(F, path, p, f). case p of None \<Rightarrow> 0 | Some i \<Rightarrow> Suc (length path) - i)")
    (auto split: option.splits dest!: find_from_Some)

definition make_dir :: "'f fs_ops \<Rightarrow> string \<Rightarrow> 'f \<Rightarrow> bool \<times> 'f" where
  "make_dir F path f =
     (if fs_access F (c_str path) f then (True, f)
      else let (ok, f1) = make_dir_loop F path (find_from (CHR ''/'') 1 path) f
           in if \<not> ok then (False, f1) else fs_mkdir F (c_str path) f1)"

text \<open>\<open>opn\<close> is \<open>ifstream::open\<close>: a handle when the stream is good.\<close>

definition open_for_read :: "(string \<Rightarrow> 'f \<Rightarrow> nat option \<times> 'f) \<Rightarrow> string \<Rightarrow> 'f \<Rightarrow> bool \<times> 'f" where
  "open_for_read opn file_name f = (let (h, f1) = opn file_name f in (h \<noteq> None, f1))"

definition open_for_write :: "'f fs_ops \<Rightarrow> bool \<Rightarrow> string \<Rightarrow> 'f \<Rightarrow> nat option \<times> 'f" where
  "open_for_write F app file_name f =
     (case fs_open F app file_name f of
        (Some h, f1) \<Rightarrow> (Some h, f1)
      | (None, f1) \<Rightarrow> fs_open F app file_name (snd (make_dir F (get_directory file_name) f1)))"

section \<open>Contract\<close>

text \<open>A path without the slashes it ends in.\<close>

definition rstrip :: "string \<Rightarrow> string" where
  "rstrip p = rev (dropWhile (\<lambda>c. c = CHR ''/'') (rev p))"

lemma length_rstrip: "length (rstrip p) \<le> length p"
  by (metis length_dropWhile_le length_rev rstrip_def)

text \<open>A path with single slashes, none at its end.\<close>

definition plain_path :: "string \<Rightarrow> bool" where
  "plain_path path \<longleftrightarrow> CHR 0x00 \<notin> set path \<and> (\<forall>i < length path. path ! i = CHR ''/'' \<longrightarrow>
     i + 1 < length path \<and> path ! (i + 1) \<noteq> CHR ''/'')"

text \<open>
  Nothing disappears, making a directory succeeds when its name is free and its parent is there
  (\<open>parent p f\<close>) and makes that name, and only names that differ from it in trailing slashes, exist.
\<close>

locale file_system =
  fixes F :: "'f fs_ops" and parent :: "string \<Rightarrow> 'f \<Rightarrow> bool"
  assumes mkdir_keeps: "fs_mkdir F p f = (ok, f') \<Longrightarrow> fs_access F q f \<Longrightarrow> fs_access F q f'"
    and mkdir_makes: "fs_mkdir F p f = (True, f') \<Longrightarrow> fs_access F p f'"
    and mkdir_only: "fs_mkdir F p f = (ok, f') \<Longrightarrow> fs_access F q f' \<Longrightarrow> \<not> fs_access F q f \<Longrightarrow> rstrip q = rstrip p"
    and mkdir_ok: "\<not> fs_access F p f \<Longrightarrow> parent p f \<Longrightarrow> fst (fs_mkdir F p f)"
    and parent_top: "(\<And>j. 0 < j \<Longrightarrow> j < length p \<Longrightarrow> p ! j \<noteq> CHR ''/'') \<Longrightarrow> parent p f"
    and parent_dir: "0 < j \<Longrightarrow> j + 1 < length p \<Longrightarrow> p ! j = CHR ''/'' \<Longrightarrow>
      (\<And>i. j < i \<Longrightarrow> i < length p \<Longrightarrow> p ! i \<noteq> CHR ''/'') \<Longrightarrow> fs_access F (take j p) f \<Longrightarrow> parent p f"
begin

lemma cut_at: "CHR 0x00 \<notin> set path \<Longrightarrow> pos < length path \<Longrightarrow> c_str (path[pos := CHR 0x00]) = take pos path"
  by (simp add: upd_conv_take_nth_drop c_str_def takeWhile_append) (auto dest: in_set_takeD)

text \<open>What one round of the loop does at a slash.\<close>

lemma make_dir_round:
  assumes "CHR 0x00 \<notin> set path" and "pos < length path"
  shows "make_dir_loop F path (Some pos) f =
    (if fs_access F (take pos path) f then make_dir_loop F path (find_from (CHR ''/'') (pos + 1) path) f
     else if fst (fs_mkdir F (take pos path) f)
     then make_dir_loop F path (find_from (CHR ''/'') (pos + 1) path) (snd (fs_mkdir F (take pos path) f))
     else (False, snd (fs_mkdir F (take pos path) f)))"
  using assms cut_at [OF assms] by (auto simp: file_or_dir_exists_def split: prod.splits)

lemma make_dir_loop_sound:
  "make_dir_loop F path (Some pos) f = (True, f') \<Longrightarrow> CHR 0x00 \<notin> set path \<Longrightarrow> pos < length path \<Longrightarrow>
     (\<forall>q. fs_access F q f \<longrightarrow> fs_access F q f')
     \<and> (\<forall>j. (j = pos \<or> pos < j \<and> path ! j = CHR ''/'') \<and> j < length path \<longrightarrow> fs_access F (take j path) f')"
proof (induction "length path - pos" arbitrary: pos f rule: less_induct)
  case less
  define f1 where "f1 = (if fs_access F (take pos path) f then f else snd (fs_mkdir F (take pos path) f))"
  define nxt where "nxt = find_from (CHR ''/'') (pos + 1) path"
  have loop: "make_dir_loop F path nxt f1 = (True, f')" and here: "fs_access F (take pos path) f1"
    using less.prems(1) make_dir_round [OF less.prems(2,3), of f] mkdir_makes [of "take pos path" f]
    by (auto simp: f1_def nxt_def prod_eq_iff split: if_splits)
  have keep: "fs_access F q f1" if "fs_access F q f" for q
    using that mkdir_keeps [of "take pos path" f _ _ q] by (auto simp: f1_def prod_eq_iff)
  show ?case
  proof (cases nxt)
    case None
    then have "f' = f1" using loop by simp
    moreover have "\<not> (pos < j \<and> path ! j = CHR ''/'' \<and> j < length path)" for j
      using find_from_None [of "CHR ''/''" "pos + 1" path j] None by (auto simp: nxt_def)
    ultimately show ?thesis using here keep by auto
  next
    case (Some p)
    then have p: "pos + 1 \<le> p" "p < length path" "\<And>j. pos < j \<Longrightarrow> j < p \<Longrightarrow> path ! j \<noteq> CHR ''/''"
      using find_from_Some [of "CHR ''/''" "pos + 1" path p] by (auto simp: nxt_def)
    have IH: "(\<forall>q. fs_access F q f1 \<longrightarrow> fs_access F q f')
        \<and> (\<forall>j. (j = p \<or> p < j \<and> path ! j = CHR ''/'') \<and> j < length path \<longrightarrow> fs_access F (take j path) f')"
      using p(1,2) loop Some less.prems(2) by (intro less.hyps) auto
    show ?thesis
    proof (intro conjI allI impI)
      fix q assume "fs_access F q f"
      then show "fs_access F q f'" using keep IH by blast
    next
      fix j assume j: "(j = pos \<or> pos < j \<and> path ! j = CHR ''/'') \<and> j < length path"
      show "fs_access F (take j path) f'"
      proof (cases "j = pos")
        case True
        then show ?thesis using here IH by blast
      next
        case False
        then have "p \<le> j" using j p(3) [of j] by (meson not_le_imp_less)
        then show ?thesis using IH j False by (cases "j = p") auto
      qed
    qed
  qed
qed

lemma make_dir_sound:
  assumes "make_dir F path f = (True, f')" and "CHR 0x00 \<notin> set path" and "\<not> fs_access F path f"
  shows "fs_access F path f'" and "0 < j \<Longrightarrow> j < length path \<Longrightarrow> path ! j = CHR ''/'' \<Longrightarrow> fs_access F (take j path) f'"
proof -
  define nxt where "nxt = find_from (CHR ''/'') 1 path"
  obtain f1 where f1: "make_dir_loop F path nxt f = (True, f1)" "fs_mkdir F path f1 = (True, f')"
    using assms by (auto simp: make_dir_def c_str_id nxt_def split: prod.splits if_splits)
  show "fs_access F path f'" by (rule mkdir_makes [OF f1(2)])
  assume j: "0 < j" "j < length path" "path ! j = CHR ''/''"
  then obtain p where p: "nxt = Some p"
    using find_from_None [of "CHR ''/''" 1 path j] by (cases nxt) (auto simp: nxt_def)
  then have "p \<le> j" "p < length path"
    using j find_from_Some [of "CHR ''/''" 1 path p] by (auto simp: nxt_def not_less [symmetric])
  then have "fs_access F (take j path) f1"
    using make_dir_loop_sound [of path p f f1] f1(1) p assms(2) j by (cases "j = p") auto
  then show "fs_access F (take j path) f'" using mkdir_keeps [OF f1(2)] by blast
qed

definition ancestors_exist :: "string \<Rightarrow> nat \<Rightarrow> 'f \<Rightarrow> bool" where
  "ancestors_exist path n f \<longleftrightarrow> (\<forall>j. 0 < j \<and> j < n \<and> path ! j = CHR ''/'' \<longrightarrow> fs_access F (take j path) f)"

lemma parent_prefix:
  assumes "plain_path path" and "n \<le> length path" and "n < length path \<Longrightarrow> path ! n = CHR ''/''"
    and "ancestors_exist path n f"
  shows "parent (take n path) f"
proof (cases "\<exists>j. 0 < j \<and> j < n \<and> path ! j = CHR ''/''")
  case False
  then show ?thesis using assms(2) by (intro parent_top) auto
next
  case True
  define j where "j = Max {j. 0 < j \<and> j < n \<and> path ! j = CHR ''/''}"
  have fin: "finite {j. 0 < j \<and> j < n \<and> path ! j = CHR ''/''}" by simp
  from True have "{j. 0 < j \<and> j < n \<and> path ! j = CHR ''/''} \<noteq> {}" by blast
  then have j: "0 < j" "j < n" "path ! j = CHR ''/''" using Max_in [OF fin] by (auto simp: j_def)
  have top: "path ! i \<noteq> CHR ''/''" if "j < i" "i < n" for i
    using that Max_ge [OF fin, of i] j(1) by (auto simp: j_def [symmetric])
  have "j + 1 \<noteq> n" using j assms(1-3) by (auto simp: plain_path_def)
  then show ?thesis
    using j top assms(2,4) by (intro parent_dir [of j]) (auto simp: ancestors_exist_def)
qed

lemma rstrip_plain: "plain_path path \<Longrightarrow> rstrip path = path"
proof (cases "path = []")
  case False
  moreover assume "plain_path path"
  ultimately have "path ! (length path - 1) \<noteq> CHR ''/''"
    unfolding plain_path_def by (metis Suc_eq_plus1 Suc_pred' diff_less length_greater_0_conv less_irrefl zero_less_one)
  then have "last path \<noteq> CHR ''/''" using False by (simp add: last_conv_nth)
  with False show ?thesis by (cases path rule: rev_cases) (auto simp: rstrip_def)
qed (simp add: rstrip_def)

lemma make_dir_loop_returns:
  "plain_path path \<Longrightarrow> 0 < pos \<Longrightarrow> pos < length path \<Longrightarrow> path ! pos = CHR ''/'' \<Longrightarrow> ancestors_exist path pos f \<Longrightarrow>
     \<not> fs_access F path f \<Longrightarrow>
     \<exists>f'. make_dir_loop F path (Some pos) f = (True, f') \<and> ancestors_exist path (length path) f' \<and> \<not> fs_access F path f'"
proof (induction "length path - pos" arbitrary: pos f rule: less_induct)
  case less
  define f1 where "f1 = (if fs_access F (take pos path) f then f else snd (fs_mkdir F (take pos path) f))"
  define nxt where "nxt = find_from (CHR ''/'') (pos + 1) path"
  have "parent (take pos path) f" using less.prems by (intro parent_prefix) auto
  then have mk: "fs_access F (take pos path) f \<or> fst (fs_mkdir F (take pos path) f)" using mkdir_ok by blast
  have nul: "CHR 0x00 \<notin> set path" using less.prems(1) by (simp add: plain_path_def)
  have loop: "make_dir_loop F path (Some pos) f = make_dir_loop F path nxt f1"
    using mk make_dir_round [OF nul less.prems(3), of f] by (auto simp: f1_def nxt_def)
  have here: "fs_access F (take pos path) f1"
    using mk mkdir_makes [of "take pos path" f] by (auto simp: f1_def prod_eq_iff)
  have keep: "fs_access F q f1" if "fs_access F q f" for q
    using that mkdir_keeps [of "take pos path" f _ _ q] by (auto simp: f1_def prod_eq_iff)
  have "rstrip path \<noteq> rstrip (take pos path)"
    using rstrip_plain [OF less.prems(1)] length_rstrip [of "take pos path"] less.prems(3) by auto
  then have free: "\<not> fs_access F path f1"
    using less.prems(6) mkdir_only [of "take pos path" f _ f1 path] by (auto simp: f1_def prod_eq_iff)
  have anc: "ancestors_exist path (Suc pos) f1"
    using less.prems(5) here keep by (auto simp: ancestors_exist_def less_Suc_eq)
  show ?case
  proof (cases nxt)
    case None
    have "\<not> (pos < j \<and> path ! j = CHR ''/'' \<and> j < length path)" for j
      using find_from_None [of "CHR ''/''" "pos + 1" path j] None by (auto simp: nxt_def)
    then have "ancestors_exist path (length path) f1"
      using anc by (auto simp: ancestors_exist_def less_Suc_eq) (metis linorder_neqE_nat)
    then show ?thesis using loop None free by simp
  next
    case (Some p)
    then have p: "pos + 1 \<le> p" "p < length path" "path ! p = CHR ''/''" "\<And>j. pos < j \<Longrightarrow> j < p \<Longrightarrow> path ! j \<noteq> CHR ''/''"
      using find_from_Some [of "CHR ''/''" "pos + 1" path p] by (auto simp: nxt_def)
    have "ancestors_exist path p f1"
      using anc p(4) by (auto simp: ancestors_exist_def less_Suc_eq) (metis linorder_neqE_nat)
    then show ?thesis using less.hyps [of p f1] less.prems(1) p free loop Some by auto
  qed
qed

lemma make_dir_returns:
  assumes "plain_path path" and "\<not> fs_access F path f"
  shows "fst (make_dir F path f)"
proof -
  define nxt where "nxt = find_from (CHR ''/'') 1 path"
  have nul: "CHR 0x00 \<notin> set path" using assms(1) by (simp add: plain_path_def)
  obtain f' where f': "make_dir_loop F path nxt f = (True, f')" "ancestors_exist path (length path) f'" "\<not> fs_access F path f'"
  proof (cases nxt)
    case None
    then have "path ! j \<noteq> CHR ''/''" if "0 < j" "j < length path" for j
      using that find_from_None [of "CHR ''/''" 1 path j] by (auto simp: nxt_def)
    then have "ancestors_exist path (length path) f" by (auto simp: ancestors_exist_def)
    then show thesis using None assms(2) that [of f] by simp
  next
    case (Some p)
    then have p: "1 \<le> p" "p < length path" "path ! p = CHR ''/''" "\<And>j. 0 < j \<Longrightarrow> j < p \<Longrightarrow> path ! j \<noteq> CHR ''/''"
      using find_from_Some [of "CHR ''/''" 1 path p] by (auto simp: nxt_def)
    then have "ancestors_exist path p f" by (auto simp: ancestors_exist_def)
    then show thesis using make_dir_loop_returns [OF assms(1), of p f] p assms(2) Some that by auto
  qed
  have "parent (take (length path) path) f'" by (rule parent_prefix [OF assms(1) _ _ f'(2)]) auto
  then have "fst (fs_mkdir F path f')" using mkdir_ok f'(3) by simp
  then show ?thesis using f'(1) [unfolded nxt_def] assms(2) by (simp add: make_dir_def c_str_id [OF nul])
qed

end

section \<open>A file system\<close>

text \<open>Directories by name, trailing slashes not counting; files by name, with one handle each.\<close>

record mem_fs =
  names :: "string list"
  stored :: "(string \<times> string) list"

definition mem_parent :: "string \<Rightarrow> mem_fs \<Rightarrow> bool" where
  "mem_parent p f = (case find_last_of (CHR ''/'') (rstrip p) of
     None \<Rightarrow> True | Some i \<Rightarrow> i = 0 \<or> rstrip (take i (rstrip p)) \<in> set (names f))"

definition mem_ops :: "mem_fs fs_ops" where
  "mem_ops = \<lparr>fs_access = (\<lambda>p f. rstrip p \<in> set (names f)),
     fs_mkdir = (\<lambda>p f. if rstrip p \<in> set (names f) \<or> \<not> mem_parent p f then (False, f) else (True, f\<lparr>names := rstrip p # names f\<rparr>)),
     fs_open = (\<lambda>app p f. if mem_parent p f then (Some (length (stored f)), f\<lparr>names := p # names f, stored := stored f @ [(p, [])]\<rparr>)
                          else (None, f)),
     fs_write = (\<lambda>h d f. f\<lparr>stored := (stored f)[h := (fst (stored f ! h), snd (stored f ! h) @ d)]\<rparr>)\<rparr>"

lemma find_last_of_None: "find_last_of c s = None \<longleftrightarrow> c \<notin> set s"
  by (induction s) (auto split: option.splits)

lemma find_last_of_iff:
  "find_last_of c s = Some i \<longleftrightarrow> i < length s \<and> s ! i = c \<and> (\<forall>j. i < j \<and> j < length s \<longrightarrow> s ! j \<noteq> c)"
proof (induction s arbitrary: i)
  case (Cons x s)
  show ?case
  proof (cases "find_last_of c s")
    case None
    then have "c \<notin> set s" by (simp add: find_last_of_None)
    with None show ?thesis by (cases i) (auto simp: in_set_conv_nth nth_Cons split: nat.splits)
  next
    case (Some k)
    then have k: "k < length s" "s ! k = c" "\<And>j. k < j \<Longrightarrow> j < length s \<Longrightarrow> s ! j \<noteq> c" using Cons [of k] by auto
    show ?thesis
    proof (cases i)
      case 0
      then show ?thesis using Some k by (auto intro!: exI [of _ "Suc k"])
    next
      case (Suc m)
      have "k = m \<longleftrightarrow> m < length s \<and> s ! m = c \<and> (\<forall>j. m < j \<and> j < length s \<longrightarrow> s ! j \<noteq> c)"
        using Some Cons [of m] by simp
      then show ?thesis using Some Suc by (auto simp: nth_Cons split: nat.splits)
    qed
  qed
qed simp

lemma rstrip_nth: "i < length (rstrip p) \<Longrightarrow> rstrip p ! i = p ! i"
proof -
  have "p = rstrip p @ rev (takeWhile (\<lambda>c. c = CHR ''/'') (rev p))"
    by (metis rev_append rev_rev_ident rstrip_def takeWhile_dropWhile_id)
  then show "i < length (rstrip p) \<Longrightarrow> rstrip p ! i = p ! i" by (metis nth_append)
qed

lemma rstrip_last: "p \<noteq> [] \<Longrightarrow> last p \<noteq> CHR ''/'' \<Longrightarrow> rstrip p = p"
  by (cases p rule: rev_cases) (auto simp: rstrip_def)

interpretation mem: file_system mem_ops mem_parent
proof
  fix p f j assume top: "\<And>j. 0 < j \<Longrightarrow> j < length p \<Longrightarrow> p ! j \<noteq> CHR ''/''"
  have "i = 0" if "find_last_of (CHR ''/'') (rstrip p) = Some i" for i
  proof -
    from that have "i < length (rstrip p)" "rstrip p ! i = CHR ''/''" by (simp_all add: find_last_of_iff)
    then show ?thesis using top [of i] length_rstrip [of p] rstrip_nth [of i p] by (cases "i = 0") auto
  qed
  then show "mem_parent p f" by (auto simp: mem_parent_def split: option.splits)
next
  fix j p f assume j: "0 < j" "j + 1 < length p" "p ! j = CHR ''/''" "\<And>i. j < i \<Longrightarrow> i < length p \<Longrightarrow> p ! i \<noteq> CHR ''/''"
    and acc: "fs_access mem_ops (take j p) f"
  have "last p \<noteq> CHR ''/''" using j(2) j(4) [of "length p - 1"] by (cases "p = []") (auto simp: last_conv_nth)
  then have "rstrip p = p" using j(2) by (intro rstrip_last) auto
  moreover have "find_last_of (CHR ''/'') p = Some j" using j by (simp add: find_last_of_iff)
  ultimately show "mem_parent p f" using acc by (simp add: mem_parent_def mem_ops_def)
qed (auto simp: mem_ops_def split: if_splits)

section \<open>Properties\<close>

text \<open>
  \<open>make_dir\<close> makes a directory with all its ancestors. For a path with single slashes, none of
  them at the end, that does not exist yet it reports success, and then the path and each of
  its ancestors exist.
\<close>

theorem make_dir_makes_ancestors:
  assumes "file_system F parent" and "plain_path path" and "\<not> fs_access F path f"
  shows "fst (make_dir F path f) \<and> fs_access F path (snd (make_dir F path f))
    \<and> (\<forall>j. 0 < j \<and> j < length path \<and> path ! j = CHR ''/'' \<longrightarrow> fs_access F (take j path) (snd (make_dir F path f)))"
proof -
  have ok: "make_dir F path f = (True, snd (make_dir F path f))"
    using file_system.make_dir_returns [OF assms] by (simp add: prod_eq_iff)
  have "CHR 0x00 \<notin> set path" using assms(2) by (simp add: plain_path_def)
  from file_system.make_dir_sound [OF assms(1) ok this assms(3)] ok show ?thesis by (metis fst_conv)
qed

theorem make_dir_makes_ancestors_witness:
  "fs_access mem_ops ''logs/app'' (snd (make_dir mem_ops ''logs/app/today'' \<lparr>names = [], stored = []\<rparr>))"
proof -
  have "plain_path ''logs/app/today''" unfolding plain_path_def by code_simp
  moreover have "\<not> fs_access mem_ops ''logs/app/today'' \<lparr>names = [], stored = []\<rparr>" by (simp add: mem_ops_def)
  ultimately have "\<forall>j. 0 < j \<and> j < length ''logs/app/today'' \<and> ''logs/app/today'' ! j = CHR ''/'' \<longrightarrow>
      fs_access mem_ops (take j ''logs/app/today'') (snd (make_dir mem_ops ''logs/app/today'' \<lparr>names = [], stored = []\<rparr>))"
    using make_dir_makes_ancestors [OF mem.file_system_axioms] by blast
  from spec [OF this, of 8] show ?thesis by simp
qed

text \<open>With a slash at the end the directory is made by the loop, and the last call then fails.\<close>

lemma make_dir_trailing_slash:
  "make_dir mem_ops ''logs/'' \<lparr>names = [], stored = []\<rparr> = (False, \<lparr>names = [''logs''], stored = []\<rparr>)"
  by code_simp

end
