(* ===== verification/Log.thy ===== *)
theory Log
  imports File_Util
begin

text \<open>
  Logging (src/sylar/log.h, log.cpp): levels, events, the pattern language of the formatter, the
  appenders for standard output and for files, loggers and their manager. Loggers and appenders
  are shared objects, so they live in a store and are referred to by number. The rendering of a
  time (\<open>localtime_r\<close> and \<open>strftime\<close>) and the file system are arguments.
\<close>

section \<open>Levels\<close>

datatype Level = UNKNOWN | DEBUG | INFO | WARN | ERROR | FATAL | UNUSED

fun level_num :: "Level \<Rightarrow> nat" where
  "level_num UNKNOWN = 0"
| "level_num DEBUG = 1"
| "level_num INFO = 2"
| "level_num WARN = 3"
| "level_num ERROR = 4"
| "level_num FATAL = 5"
| "level_num UNUSED = 6"

lemma level_num_inject: "level_num a = level_num b \<longleftrightarrow> a = b"
  by (cases a; cases b) simp_all

instantiation Level :: linorder
begin

definition less_eq_Level :: "Level \<Rightarrow> Level \<Rightarrow> bool" where
  "a \<le> b \<longleftrightarrow> level_num a \<le> level_num b"

definition less_Level :: "Level \<Rightarrow> Level \<Rightarrow> bool" where
  "a < b \<longleftrightarrow> level_num a < level_num b"

instance
  by standard (auto simp: less_eq_Level_def less_Level_def level_num_inject)

end

fun LogLevel_to_string :: "Level \<Rightarrow> string" where
  "LogLevel_to_string DEBUG = ''DEBUG''"
| "LogLevel_to_string INFO = ''INFO''"
| "LogLevel_to_string WARN = ''WARN''"
| "LogLevel_to_string ERROR = ''ERROR''"
| "LogLevel_to_string FATAL = ''FATAL''"
| "LogLevel_to_string UNUSED = ''UNUSED''"
| "LogLevel_to_string UNKNOWN = ''UNKNOWN''"

definition LogLevel_from_string :: "string \<Rightarrow> Level" where
  "LogLevel_from_string str =
     (if str = ''DEBUG'' \<or> str = ''debug'' then DEBUG
      else if str = ''INFO'' \<or> str = ''info'' then INFO
      else if str = ''WARN'' \<or> str = ''warn'' then WARN
      else if str = ''ERROR'' \<or> str = ''error'' then ERROR
      else if str = ''FATAL'' \<or> str = ''fatal'' then FATAL
      else if str = ''UNUSED'' \<or> str = ''unused'' then UNUSED
      else UNKNOWN)"

lemma level_roundtrip [simp]: "LogLevel_from_string (LogLevel_to_string l) = l"
  by (cases l) (simp_all add: LogLevel_from_string_def)

section \<open>Events\<close>

record LogEvent =
  ev_file_name :: string
  ev_line :: int
  ev_elapse :: u32
  ev_fiber_id :: u32
  ev_thread_id :: u64
  ev_time :: u64
  ev_content :: string
  ev_thread_name :: string

text \<open>The constructor leaves the text and the thread's name empty; \<open>fid_t\<close> is \<open>int\<close>.\<close>

definition mk_LogEvent :: "string \<Rightarrow> int \<Rightarrow> u32 \<Rightarrow> u64 \<Rightarrow> int \<Rightarrow> u64 \<Rightarrow> LogEvent" where
  "mk_LogEvent file_name line elapse thread_id fiber_id time =
     \<lparr>ev_file_name = file_name, ev_line = line, ev_elapse = elapse, ev_fiber_id = word_of_int fiber_id,
      ev_thread_id = thread_id, ev_time = time, ev_content = [], ev_thread_name = []\<rparr>"

text \<open>\<open>printed\<close> is what \<open>vasprintf\<close> makes of the format and its arguments, or \<open>None\<close> when it returns -1.\<close>

definition LogEvent_set_content :: "string option \<Rightarrow> LogEvent \<Rightarrow> bool \<times> LogEvent" where
  "LogEvent_set_content printed e =
     (True, case printed of None \<Rightarrow> e | Some text \<Rightarrow> e\<lparr>ev_content := ev_content e @ text\<rparr>)"

definition LogEvent_get_content :: "LogEvent \<Rightarrow> string" where
  "LogEvent_get_content e = ev_content e"

section \<open>Formatters\<close>

datatype FormatterItem =
    StringFormatterItem string | MessageFormatterItem | LevelFormatterItem | ElapseFormatterItem
  | NameFormatterItem | ThreadIdFormatterItem | FiberIdFormatterItem | ThreadNameFormatterItem
  | FileNameFormatterItem | DateTimeFormatterItem string | LineFormatterItem | NewLineFormatterItem
  | TabFormatterItem

text \<open>\<open>operator<<\<close> on \<open>std::thread::id\<close>.\<close>

definition thread_id_text :: "u64 \<Rightarrow> string" where
  "thread_id_text t = (if t = 0 then ''thread::id of a non-executing thread'' else dec (unat t))"

fun format_item :: "(string \<Rightarrow> u64 \<Rightarrow> string) \<Rightarrow> string \<Rightarrow> Level \<Rightarrow> LogEvent \<Rightarrow> FormatterItem \<Rightarrow> string" where
  "format_item strf name level event (StringFormatterItem str) = str"
| "format_item strf name level event MessageFormatterItem = ev_content event"
| "format_item strf name level event LevelFormatterItem = LogLevel_to_string level"
| "format_item strf name level event ElapseFormatterItem = dec (unat (ev_elapse event))"
| "format_item strf name level event NameFormatterItem = name"
| "format_item strf name level event ThreadIdFormatterItem = thread_id_text (ev_thread_id event)"
| "format_item strf name level event FiberIdFormatterItem = dec (unat (ev_fiber_id event))"
| "format_item strf name level event ThreadNameFormatterItem = ev_thread_name event"
| "format_item strf name level event FileNameFormatterItem = ev_file_name event"
| "format_item strf name level event (DateTimeFormatterItem fmt) = strf (c_str fmt) (ev_time event)"
| "format_item strf name level event LineFormatterItem = dec_int (ev_line event)"
| "format_item strf name level event NewLineFormatterItem = [CHR 0x0A]"
| "format_item strf name level event TabFormatterItem = [CHR 0x09]"

definition is_legal_item :: "char \<Rightarrow> bool" where
  "is_legal_item c \<longleftrightarrow> c \<in> set ''mprctFfNdlnT''"

text \<open>The item for a type character; a date without a format gets the default one.\<close>

definition default_date :: string where
  "default_date = ''%Y-%m-%d %H:%M:%S''"

definition make_item :: "char \<Rightarrow> string \<Rightarrow> FormatterItem" where
  "make_item item_type format_str =
     (if item_type = CHR ''m'' then MessageFormatterItem
      else if item_type = CHR ''p'' then LevelFormatterItem
      else if item_type = CHR ''r'' then ElapseFormatterItem
      else if item_type = CHR ''c'' then NameFormatterItem
      else if item_type = CHR ''t'' then ThreadIdFormatterItem
      else if item_type = CHR ''F'' then FiberIdFormatterItem
      else if item_type = CHR ''f'' then FileNameFormatterItem
      else if item_type = CHR ''N'' then ThreadNameFormatterItem
      else if item_type = CHR ''d'' then DateTimeFormatterItem (if format_str = [] then default_date else format_str)
      else if item_type = CHR ''l'' then LineFormatterItem
      else if item_type = CHR ''n'' then NewLineFormatterItem
      else TabFormatterItem)"

text \<open>The optional \<open>{format}\<close> behind an item; \<open>None\<close> when the brace is not closed.\<close>

definition read_format :: "string \<Rightarrow> (string \<times> string) option" where
  "read_format r =
     (if r \<noteq> [] \<and> hd r = CHR ''{''
      then case dropWhile (\<lambda>c. c \<noteq> CHR ''}'') (tl r) of
             [] \<Rightarrow> None
           | _ # rest \<Rightarrow> Some (takeWhile (\<lambda>c. c \<noteq> CHR ''}'') (tl r), rest)
      else Some ([], r))"

definition flush_text :: "string \<Rightarrow> FormatterItem list \<Rightarrow> FormatterItem list" where
  "flush_text normal_str items = (if normal_str = [] then items else items @ [StringFormatterItem normal_str])"

lemma read_format_length: "read_format r = Some (fmt, rest) \<Longrightarrow> length rest \<le> length r"
  using length_dropWhile_le [of "\<lambda>c. c \<noteq> CHR ''}''" "tl r"]
  by (auto simp: read_format_def split: if_splits list.splits)

text \<open>
  The scan of the pattern: the rest of it, the literal text collected so far and the items made so
  far; \<open>None\<close> when the pattern is illegal.
\<close>

function scan :: "string \<Rightarrow> string \<Rightarrow> FormatterItem list \<Rightarrow> FormatterItem list option" where
  "scan [] normal_str items = Some (flush_text normal_str items)"
| "scan (c # r) normal_str items =
     (if c \<noteq> CHR ''%'' then scan r (normal_str @ [c]) items
      else if r \<noteq> [] \<and> hd r = CHR ''%'' then scan (tl r) (normal_str @ ''%'') items
      else if r = [] \<or> \<not> is_legal_item (hd r) then None
      else case read_format (tl r) of
             None \<Rightarrow> None
           | Some (format_str, rest) \<Rightarrow>
               scan rest [] (flush_text normal_str items @ [make_item (hd r) format_str]))"
  by pat_completeness auto
termination
  by (relation "measure (\<lambda>(r, n, i). length r)") (auto dest: read_format_length simp: less_Suc_eq_le intro: le_trans)

declare scan.simps(2) [simp del]

record LogFormatter =
  lf_legal :: bool
  lf_pattern :: string
  lf_items :: "FormatterItem list"

definition init_items :: "string \<Rightarrow> FormatterItem list option" where
  "init_items pattern = scan pattern [] []"

definition default_pattern :: string where
  "default_pattern = ''%d{%Y-%m-%d %H:%M:%S} [%p][%c] thread:%t %N fiber:%F %f:%l%T%m%n''"

definition mk_LogFormatter :: "string \<Rightarrow> LogFormatter" where
  "mk_LogFormatter pattern =
     (let pat = (if pattern = [] then default_pattern else pattern)
      in case init_items pat of
           None \<Rightarrow> \<lparr>lf_legal = False, lf_pattern = [], lf_items = []\<rparr>
         | Some its \<Rightarrow> \<lparr>lf_legal = True, lf_pattern = pat, lf_items = its\<rparr>)"

definition LogFormatter_format ::
  "(string \<Rightarrow> u64 \<Rightarrow> string) \<Rightarrow> LogFormatter \<Rightarrow> string \<Rightarrow> Level \<Rightarrow> LogEvent \<Rightarrow> string" where
  "LogFormatter_format strf f name level event = concat (map (format_item strf name level event) (lf_items f))"

subsection \<open>Patterns and items\<close>

text \<open>A pattern for an item; literal text doubles its percent signs.\<close>

definition escape :: "string \<Rightarrow> string" where
  "escape s = concat (map (\<lambda>c. if c = CHR ''%'' then ''%%'' else [c]) s)"

fun item_pattern :: "FormatterItem \<Rightarrow> string" where
  "item_pattern (StringFormatterItem s) = escape s"
| "item_pattern MessageFormatterItem = ''%m{}''"
| "item_pattern LevelFormatterItem = ''%p{}''"
| "item_pattern ElapseFormatterItem = ''%r{}''"
| "item_pattern NameFormatterItem = ''%c{}''"
| "item_pattern ThreadIdFormatterItem = ''%t{}''"
| "item_pattern FiberIdFormatterItem = ''%F{}''"
| "item_pattern ThreadNameFormatterItem = ''%N{}''"
| "item_pattern FileNameFormatterItem = ''%f{}''"
| "item_pattern (DateTimeFormatterItem fmt) = ''%d{'' @ fmt @ ''}''"
| "item_pattern LineFormatterItem = ''%l{}''"
| "item_pattern NewLineFormatterItem = ''%n{}''"
| "item_pattern TabFormatterItem = ''%T{}''"

fun is_text :: "FormatterItem \<Rightarrow> bool" where
  "is_text (StringFormatterItem s) = True"
| "is_text _ = False"

text \<open>The item lists a pattern can produce: texts are not empty and not adjacent.\<close>

fun item_ok :: "FormatterItem \<Rightarrow> bool" where
  "item_ok (StringFormatterItem s) \<longleftrightarrow> s \<noteq> []"
| "item_ok (DateTimeFormatterItem fmt) \<longleftrightarrow> fmt \<noteq> [] \<and> CHR ''}'' \<notin> set fmt"
| "item_ok _ \<longleftrightarrow> True"

fun items_ok :: "FormatterItem list \<Rightarrow> bool" where
  "items_ok [] \<longleftrightarrow> True"
| "items_ok [i] \<longleftrightarrow> item_ok i"
| "items_ok (i # j # is) \<longleftrightarrow> item_ok i \<and> \<not> (is_text i \<and> is_text j) \<and> items_ok (j # is)"

lemma scan_escape: "scan (escape s @ r) n is = scan r (n @ s) is"
  by (induction s arbitrary: n) (simp_all add: escape_def scan.simps(2))

lemma read_format_braces: "CHR ''}'' \<notin> set fmt \<Longrightarrow> read_format (CHR ''{'' # fmt @ CHR ''}'' # r) = Some (fmt, r)"
proof -
  assume "CHR ''}'' \<notin> set fmt"
  then have "dropWhile (\<lambda>c. c \<noteq> CHR ''}'') (fmt @ CHR ''}'' # r) = CHR ''}'' # r"
      "takeWhile (\<lambda>c. c \<noteq> CHR ''}'') (fmt @ CHR ''}'' # r) = fmt"
    by (subst dropWhile_append2, auto) (subst takeWhile_append2, auto)
  then show ?thesis by (simp add: read_format_def)
qed

lemma scan_item:
  assumes "is_legal_item t" and "CHR ''}'' \<notin> set fmt"
  shows "scan (CHR ''%'' # t # CHR ''{'' # fmt @ CHR ''}'' # r) n is = scan r [] (flush_text n is @ [make_item t fmt])"
proof -
  have "t \<noteq> CHR ''%''" using assms(1) by (auto simp: is_legal_item_def)
  then show ?thesis using assms by (simp add: scan.simps(2) read_format_braces)
qed

lemma scan_one:
  assumes "item_ok i" and "\<not> is_text i"
  shows "scan (item_pattern i @ r) n is = scan r [] (flush_text n is @ [i])"
proof -
  have "\<exists>t fmt. is_legal_item t \<and> CHR ''}'' \<notin> set fmt \<and> make_item t fmt = i
      \<and> item_pattern i = CHR ''%'' # t # CHR ''{'' # fmt @ ''}''"
    using assms by (cases i) (auto simp: is_legal_item_def make_item_def)
  then show ?thesis using scan_item [of _ _ r n "is"] by fastforce
qed

lemma scan_items:
  "items_ok ls \<Longrightarrow> n = [] \<or> ls = [] \<or> \<not> is_text (hd ls) \<Longrightarrow>
     scan (concat (map item_pattern ls)) n is = Some (flush_text n is @ ls)"
proof (induction ls arbitrary: n "is" rule: items_ok.induct)
  case (2 i)
  show ?case
  proof (cases "is_text i")
    case True
    with 2 show ?thesis using scan_escape [of _ "[]"] by (cases i) (auto simp: flush_text_def)
  next
    case False
    with 2 scan_one [of i "[]"] show ?thesis by (simp add: flush_text_def)
  qed
next
  case (3 i j ls)
  show ?case
  proof (cases "is_text i")
    case True
    then obtain s where s: "i = StringFormatterItem s" by (cases i) auto
    have "scan (concat (map item_pattern (j # ls))) s is = Some (flush_text s is @ j # ls)"
      using 3 True by auto
    with s 3(2,3) show ?thesis by (auto simp: scan_escape flush_text_def)
  next
    case False
    with 3 have "scan (concat (map item_pattern (j # ls))) [] (flush_text n is @ [i])
        = Some (flush_text [] (flush_text n is @ [i]) @ j # ls)" by (intro 3(1)) auto
    with False 3(2) scan_one [of i "concat (map item_pattern (j # ls))"] show ?thesis by (simp add: flush_text_def)
  qed
qed (simp add: flush_text_def)

section \<open>Appenders and loggers\<close>

text \<open>
  An appender writes to standard output (\<open>ap_file = None\<close>) or to a file. The constructors without a
  level leave \<open>level_\<close> uninitialised (\<open>None\<close>). \<open>ap_stream\<close> is the handle of the open file, \<open>None\<close> when
  the stream is in a failed state.
\<close>

record LogAppender =
  ap_file :: "string option"
  ap_level :: "Level option"
  ap_formatter :: LogFormatter
  ap_stream :: "nat option"
  ap_last_time :: u64

record Logger =
  lg_name :: string
  lg_level :: Level
  lg_appenders :: "nat list"

record 'f logging =
  logger_at :: "nat \<Rightarrow> Logger"
  n_loggers :: nat
  appender_at :: "nat \<Rightarrow> LogAppender"
  n_appenders :: nat
  loggers :: "(string \<times> nat) list"
  root_logger :: nat
  root_appender :: nat
  cout :: string
  fsys :: 'f

definition upd_logger :: "nat \<Rightarrow> (Logger \<Rightarrow> Logger) \<Rightarrow> 'f logging \<Rightarrow> 'f logging" where
  "upd_logger i g s = s\<lparr>logger_at := (logger_at s)(i := g (logger_at s i))\<rparr>"

definition upd_appender :: "nat \<Rightarrow> (LogAppender \<Rightarrow> LogAppender) \<Rightarrow> 'f logging \<Rightarrow> 'f logging" where
  "upd_appender a g s = s\<lparr>appender_at := (appender_at s)(a := g (appender_at s a))\<rparr>"

definition new_logger :: "string \<Rightarrow> Level \<Rightarrow> 'f logging \<Rightarrow> nat \<times> 'f logging" where
  "new_logger name level s = (n_loggers s,
     s\<lparr>logger_at := (logger_at s)(n_loggers s := \<lparr>lg_name = name, lg_level = level, lg_appenders = []\<rparr>),
       n_loggers := Suc (n_loggers s)\<rparr>)"

definition new_appender :: "LogAppender \<Rightarrow> 'f logging \<Rightarrow> nat \<times> 'f logging" where
  "new_appender ap s = (n_appenders s,
     s\<lparr>appender_at := (appender_at s)(n_appenders s := ap), n_appenders := Suc (n_appenders s)\<rparr>)"

definition mk_StdoutLogAppender :: LogAppender where
  "mk_StdoutLogAppender = \<lparr>ap_file = None, ap_level = None, ap_formatter = mk_LogFormatter default_pattern,
     ap_stream = None, ap_last_time = 0\<rparr>"

definition mk_StdoutLogAppender_level :: "Level \<Rightarrow> string \<Rightarrow> LogAppender" where
  "mk_StdoutLogAppender_level level pattern = mk_StdoutLogAppender\<lparr>ap_level := Some level, ap_formatter := mk_LogFormatter pattern\<rparr>"

definition mk_FileLogAppender :: "'f fs_ops \<Rightarrow> string \<Rightarrow> 'f \<Rightarrow> LogAppender \<times> 'f" where
  "mk_FileLogAppender F file_name f =
     (let (h, f1) = open_for_write F False file_name f
      in (\<lparr>ap_file = Some file_name, ap_level = None, ap_formatter = mk_LogFormatter default_pattern,
           ap_stream = h, ap_last_time = 0\<rparr>, f1))"

definition mk_FileLogAppender_level :: "'f fs_ops \<Rightarrow> string \<Rightarrow> Level \<Rightarrow> string \<Rightarrow> 'f \<Rightarrow> LogAppender \<times> 'f" where
  "mk_FileLogAppender_level F file_name level pattern f =
     (let (a, f1) = mk_FileLogAppender F file_name f
      in (a\<lparr>ap_level := Some level, ap_formatter := mk_LogFormatter pattern\<rparr>, f1))"

definition set_formatter :: "LogFormatter \<Rightarrow> LogAppender \<Rightarrow> bool \<times> LogAppender" where
  "set_formatter fm a = (if lf_legal fm then (True, a\<lparr>ap_formatter := fm\<rparr>) else (False, a))"

definition set_formatter_pattern :: "string \<Rightarrow> LogAppender \<Rightarrow> bool \<times> LogAppender" where
  "set_formatter_pattern pattern a = set_formatter (mk_LogFormatter pattern) a"

definition reopen :: "'f fs_ops \<Rightarrow> LogAppender \<Rightarrow> 'f \<Rightarrow> bool \<times> LogAppender \<times> 'f" where
  "reopen F a f =
     (let (h, f1) = open_for_write F True (the (ap_file a)) f
      in (h \<noteq> None, a\<lparr>ap_stream := h\<rparr>, f1))"

text \<open>\<open>os << text\<close> on the file stream, which drops the text when the stream has failed.\<close>

definition put :: "'f fs_ops \<Rightarrow> nat option \<Rightarrow> string \<Rightarrow> 'f \<Rightarrow> 'f" where
  "put F h text f = (case h of None \<Rightarrow> f | Some i \<Rightarrow> fs_write F i text f)"

definition StdoutLogAppender_log ::
  "(string \<Rightarrow> u64 \<Rightarrow> string) \<Rightarrow> nat \<Rightarrow> string \<Rightarrow> Level \<Rightarrow> LogEvent \<Rightarrow> 'f logging \<Rightarrow> ('f logging, unit) outcome" where
  "StdoutLogAppender_log strf a name level event s =
     (case ap_level (appender_at s a) of
        None \<Rightarrow> (Inl Indeterminate_value, s)
      | Some l \<Rightarrow>
          if level < l then (Inr (), s)
          else (Inr (), s\<lparr>cout := cout s @ LogFormatter_format strf (ap_formatter (appender_at s a)) name level event\<rparr>))"

definition FileLogAppender_log ::
  "'f fs_ops \<Rightarrow> (string \<Rightarrow> u64 \<Rightarrow> string) \<Rightarrow> nat \<Rightarrow> string \<Rightarrow> Level \<Rightarrow> LogEvent \<Rightarrow> 'f logging \<Rightarrow> ('f logging, unit) outcome" where
  "FileLogAppender_log F strf a name level event s =
     (let ap = appender_at s a; now = ev_time event
      in case ap_level ap of
           None \<Rightarrow> (Inl Indeterminate_value, s)
         | Some l \<Rightarrow>
             if level < l then (Inr (), s)
             else let (ok, ap1, f1) =
                        (if 100 < now - ap_last_time ap \<and> \<not> file_or_dir_exists F (the (ap_file ap)) (fsys s)
                         then reopen F ap (fsys s) else (True, ap, fsys s))
                  in if \<not> ok then (Inr (), upd_appender a (\<lambda>_. ap1) (s\<lparr>fsys := f1\<rparr>))
                     else (Inr (), upd_appender a (\<lambda>_. ap1\<lparr>ap_last_time := now\<rparr>)
                            (s\<lparr>fsys := put F (ap_stream ap1) (LogFormatter_format strf (ap_formatter ap1) name level event) f1\<rparr>)))"

definition LogAppender_log ::
  "'f fs_ops \<Rightarrow> (string \<Rightarrow> u64 \<Rightarrow> string) \<Rightarrow> string \<Rightarrow> Level \<Rightarrow> LogEvent \<Rightarrow> nat \<Rightarrow> 'f logging \<Rightarrow> ('f logging, unit) outcome" where
  "LogAppender_log F strf name level event a s =
     (case ap_file (appender_at s a) of
        None \<Rightarrow> StdoutLogAppender_log strf a name level event s
      | Some _ \<Rightarrow> FileLogAppender_log F strf a name level event s)"

fun log_all ::
  "'f fs_ops \<Rightarrow> (string \<Rightarrow> u64 \<Rightarrow> string) \<Rightarrow> string \<Rightarrow> Level \<Rightarrow> LogEvent \<Rightarrow> nat list \<Rightarrow> 'f logging \<Rightarrow> ('f logging, unit) outcome" where
  "log_all F strf name level event [] s = (Inr (), s)"
| "log_all F strf name level event (a # as) s =
     and_then (LogAppender_log F strf name level event a s) (\<lambda>_. log_all F strf name level event as)"

definition Logger_log ::
  "'f fs_ops \<Rightarrow> (string \<Rightarrow> u64 \<Rightarrow> string) \<Rightarrow> Level \<Rightarrow> LogEvent \<Rightarrow> nat \<Rightarrow> 'f logging \<Rightarrow> ('f logging, unit) outcome" where
  "Logger_log F strf level event i s =
     (let l = logger_at s i
      in if level < lg_level l then (Inr (), s)
         else if lg_appenders l = [] then LogAppender_log F strf (lg_name l) level event (root_appender s) s
         else log_all F strf (lg_name l) level event (lg_appenders l) s)"

definition debug :: "'f fs_ops \<Rightarrow> (string \<Rightarrow> u64 \<Rightarrow> string) \<Rightarrow> LogEvent \<Rightarrow> nat \<Rightarrow> 'f logging \<Rightarrow> ('f logging, unit) outcome" where
  "debug F strf = Logger_log F strf DEBUG"

definition info :: "'f fs_ops \<Rightarrow> (string \<Rightarrow> u64 \<Rightarrow> string) \<Rightarrow> LogEvent \<Rightarrow> nat \<Rightarrow> 'f logging \<Rightarrow> ('f logging, unit) outcome" where
  "info F strf = Logger_log F strf INFO"

definition warn :: "'f fs_ops \<Rightarrow> (string \<Rightarrow> u64 \<Rightarrow> string) \<Rightarrow> LogEvent \<Rightarrow> nat \<Rightarrow> 'f logging \<Rightarrow> ('f logging, unit) outcome" where
  "warn F strf = Logger_log F strf WARN"

definition error :: "'f fs_ops \<Rightarrow> (string \<Rightarrow> u64 \<Rightarrow> string) \<Rightarrow> LogEvent \<Rightarrow> nat \<Rightarrow> 'f logging \<Rightarrow> ('f logging, unit) outcome" where
  "error F strf = Logger_log F strf ERROR"

definition fatal :: "'f fs_ops \<Rightarrow> (string \<Rightarrow> u64 \<Rightarrow> string) \<Rightarrow> LogEvent \<Rightarrow> nat \<Rightarrow> 'f logging \<Rightarrow> ('f logging, unit) outcome" where
  "fatal F strf = Logger_log F strf FATAL"

text \<open>
  The wrapper holds logger, event and level; text is streamed into the event's buffer through
  \<open>get_ss\<close>, and the destructor logs the event. \<open>SYLAR_LOG\<close> makes a wrapper when the logger takes the level.
\<close>

record LogEventWrap =
  wr_logger :: nat
  wr_event :: LogEvent
  wr_level :: Level

definition stream_into :: "string \<Rightarrow> LogEventWrap \<Rightarrow> LogEventWrap" where
  "stream_into text w = w\<lparr>wr_event := (wr_event w)\<lparr>ev_content := ev_content (wr_event w) @ text\<rparr>\<rparr>"

definition end_LogEventWrap ::
  "'f fs_ops \<Rightarrow> (string \<Rightarrow> u64 \<Rightarrow> string) \<Rightarrow> LogEventWrap \<Rightarrow> 'f logging \<Rightarrow> ('f logging, unit) outcome" where
  "end_LogEventWrap F strf w s = Logger_log F strf (wr_level w) (wr_event w) (wr_logger w) s"

definition SYLAR_LOG ::
  "'f fs_ops \<Rightarrow> (string \<Rightarrow> u64 \<Rightarrow> string) \<Rightarrow> nat \<Rightarrow> Level \<Rightarrow> LogEvent \<Rightarrow> string \<Rightarrow> 'f logging \<Rightarrow> ('f logging, unit) outcome" where
  "SYLAR_LOG F strf i level event text s =
     (if lg_level (logger_at s i) \<le> level
      then end_LogEventWrap F strf (stream_into text \<lparr>wr_logger = i, wr_event = event, wr_level = level\<rparr>) s
      else (Inr (), s))"

definition add_appender :: "nat \<Rightarrow> nat \<Rightarrow> 'f logging \<Rightarrow> 'f logging" where
  "add_appender i a = upd_logger i (\<lambda>l. l\<lparr>lg_appenders := lg_appenders l @ [a]\<rparr>)"

definition del_appender :: "nat \<Rightarrow> nat \<Rightarrow> 'f logging \<Rightarrow> bool \<times> 'f logging" where
  "del_appender i a s =
     (a \<in> set (lg_appenders (logger_at s i)), upd_logger i (\<lambda>l. l\<lparr>lg_appenders := remove1 a (lg_appenders l)\<rparr>) s)"

definition clear_appenders :: "nat \<Rightarrow> 'f logging \<Rightarrow> 'f logging" where
  "clear_appenders i = upd_logger i (\<lambda>l. l\<lparr>lg_appenders := []\<rparr>)"

definition Logger_set_level :: "Level \<Rightarrow> nat \<Rightarrow> 'f logging \<Rightarrow> 'f logging" where
  "Logger_set_level level i = upd_logger i (\<lambda>l. l\<lparr>lg_level := level\<rparr>)"

section \<open>The manager\<close>

definition ROOT_LEVEL :: Level where
  "ROOT_LEVEL = DEBUG"

definition no_logger :: Logger where
  "no_logger = \<lparr>lg_name = [], lg_level = UNKNOWN, lg_appenders = []\<rparr>"

definition LoggerManager :: "'f \<Rightarrow> 'f logging" where
  "LoggerManager f =
     \<lparr>logger_at = (\<lambda>_. no_logger)(0 := \<lparr>lg_name = ''root'', lg_level = ROOT_LEVEL, lg_appenders = [0]\<rparr>), n_loggers = 1,
      appender_at = (\<lambda>_. mk_StdoutLogAppender)(0 := mk_StdoutLogAppender_level ROOT_LEVEL []), n_appenders = 1,
      loggers = [(''root'', 0)], root_logger = 0, root_appender = 0, cout = [], fsys = f\<rparr>"

definition find_logger :: "string \<Rightarrow> 'f logging \<Rightarrow> nat option" where
  "find_logger name s = map_find (<) name (loggers s)"

definition get_logger :: "string \<Rightarrow> 'f logging \<Rightarrow> nat \<times> 'f logging" where
  "get_logger name s =
     (case find_logger name s of
        Some i \<Rightarrow> (i, s)
      | None \<Rightarrow> let (i, s1) = new_logger name DEBUG s in (i, s1\<lparr>loggers := map_set (<) name i (loggers s1)\<rparr>))"

definition add_logger :: "string \<Rightarrow> Level \<Rightarrow> 'f logging \<Rightarrow> bool \<times> 'f logging" where
  "add_logger name level s =
     (case find_logger name s of
        Some i \<Rightarrow> (False, s)
      | None \<Rightarrow> let (i, s1) = new_logger name level s in (True, s1\<lparr>loggers := map_set (<) name i (loggers s1)\<rparr>))"

definition del_logger :: "string \<Rightarrow> 'f logging \<Rightarrow> bool \<times> 'f logging" where
  "del_logger name s =
     (if name = ''root'' then (False, s)
      else let (i, s1) = get_logger name s;
               s2 = clear_appenders i (Logger_set_level UNUSED i s1)
           in (find_logger name s2 \<noteq> None, s2\<lparr>loggers := map_erase (<) name (loggers s2)\<rparr>))"

section \<open>Facts\<close>

definition mgr_wf :: "'f logging \<Rightarrow> bool" where
  "mgr_wf s \<longleftrightarrow> sorted_wrt (<) (map_keys (loggers s))
     \<and> (\<forall>(n, i) \<in> set (loggers s). i < n_loggers s \<and> lg_name (logger_at s i) = n)
     \<and> (''root'', root_logger s) \<in> set (loggers s)"

lemma upd_logger_simps [simp]:
  "loggers (upd_logger i g s) = loggers s" "n_loggers (upd_logger i g s) = n_loggers s"
  "root_logger (upd_logger i g s) = root_logger s" "cout (upd_logger i g s) = cout s"
  "logger_at (upd_logger i g s) j = (if j = i then g (logger_at s i) else logger_at s j)"
  "appender_at (upd_logger i g s) = appender_at s" "n_appenders (upd_logger i g s) = n_appenders s"
  "root_appender (upd_logger i g s) = root_appender s" "fsys (upd_logger i g s) = fsys s"
  by (simp_all add: upd_logger_def)

lemma new_logger_simps [simp]:
  "fst (new_logger name l s) = n_loggers s" "loggers (snd (new_logger name l s)) = loggers s"
  "n_loggers (snd (new_logger name l s)) = Suc (n_loggers s)" "root_logger (snd (new_logger name l s)) = root_logger s"
  "logger_at (snd (new_logger name l s)) j =
     (if j = n_loggers s then \<lparr>lg_name = name, lg_level = l, lg_appenders = []\<rparr> else logger_at s j)"
  by (simp_all add: new_logger_def)

lemma map_find_string: "sorted_wrt (<) (map_keys m) \<Longrightarrow> map_find (<) k m = Some v \<longleftrightarrow> (k :: string, v) \<in> set m"
  using std_less.map_find_mem [of m k v] std_less.map_find_key [of k m v] by auto

lemma map_set_string:
  "sorted_wrt (<) (map_keys m) \<Longrightarrow> (k', v') \<in> set (map_set (<) k v m) \<longleftrightarrow>
     (if k' = k then v' = v else (k' :: string, v') \<in> set m)"
  using map_find_string [OF std_less.map_set_sorted [of m k v], of k' v'] map_find_string [of m k' v']
    std_less.map_find_set [of k' k v m] by auto

lemma map_erase_string:
  "sorted_wrt (<) (map_keys m) \<Longrightarrow> (k', v') \<in> set (map_erase (<) k m) \<longleftrightarrow> k' \<noteq> k \<and> (k' :: string, v') \<in> set m"
  using map_find_string [OF std_less.map_erase_sorted [of m k], of k' v'] map_find_string [of m k' v']
    std_less.map_find_erase [of m k' k] by (auto split: if_splits)

lemma find_logger_iff: "mgr_wf s \<Longrightarrow> find_logger name s = Some i \<longleftrightarrow> (name, i) \<in> set (loggers s)"
  by (simp add: find_logger_def map_find_string mgr_wf_def)

lemma wf_LoggerManager [wf_intros]: "mgr_wf (LoggerManager f)"
  by (simp add: mgr_wf_def LoggerManager_def)

lemma wf_register:
  assumes "mgr_wf s" and "find_logger name s = None"
  shows "mgr_wf ((snd (new_logger name l s))\<lparr>loggers := map_set (<) name (n_loggers s) (loggers s)\<rparr>)"
proof -
  have new: "(name, i) \<notin> set (loggers s)" for i using assms(2) find_logger_iff [OF assms(1), of name i] by simp
  have srt: "sorted_wrt (<) (map_keys (loggers s))" using assms(1) by (simp add: mgr_wf_def)
  show ?thesis
    using assms(1) new std_less.map_set_sorted [OF srt, of name "n_loggers s"]
    by (auto simp: mgr_wf_def map_set_string [OF srt] less_Suc_eq split: if_splits dest: bspec)
qed

lemma wf_get_logger [wf_intros]: "mgr_wf s \<Longrightarrow> mgr_wf (snd (get_logger name s))"
  using wf_register [of s name DEBUG]
  by (auto simp: get_logger_def Let_def case_prod_beta split: option.splits)

lemma get_logger_spec:
  assumes "mgr_wf s" and "get_logger name s = (i, s')"
  shows "find_logger name s' = Some i" and "lg_name (logger_at s' i) = name" and "get_logger name s' = (i, s')"
    and "j < n_loggers s \<Longrightarrow> logger_at s' j = logger_at s j"
    and "(n, k) \<in> set (loggers s') \<longleftrightarrow> (if n = name then k = i else (n, k) \<in> set (loggers s))"
proof -
  have wf': "mgr_wf s'" using wf_get_logger [OF assms(1), of name] assms(2) by simp
  have srt: "sorted_wrt (<) (map_keys (loggers s))" using assms(1) by (simp add: mgr_wf_def)
  show f: "find_logger name s' = Some i"
    using assms(2) by (auto simp: get_logger_def find_logger_def Let_def case_prod_beta std_less.map_find_set split: option.splits)
  then show "lg_name (logger_at s' i) = name" using find_logger_iff [OF wf'] wf' by (auto simp: mgr_wf_def)
  show "get_logger name s' = (i, s')" using f by (simp add: get_logger_def)
  show "j < n_loggers s \<Longrightarrow> logger_at s' j = logger_at s j"
    using assms(2) by (auto simp: get_logger_def Let_def case_prod_beta split: option.splits)
  show "(n, k) \<in> set (loggers s') \<longleftrightarrow> (if n = name then k = i else (n, k) \<in> set (loggers s))"
    using assms(2) find_logger_iff [OF wf', of n k] find_logger_iff [OF assms(1), of n k] f
    by (auto simp: get_logger_def Let_def case_prod_beta map_set_string [OF srt] split: option.splits if_splits)
qed

lemma wf_add_logger [wf_intros]: "mgr_wf s \<Longrightarrow> mgr_wf (snd (add_logger name l s))"
  using wf_register [of s name l]
  by (auto simp: add_logger_def Let_def case_prod_beta split: option.splits)

lemma wf_upd_logger [wf_intros]: "mgr_wf s \<Longrightarrow> (\<And>l. lg_name (g l) = lg_name l) \<Longrightarrow> mgr_wf (upd_logger i g s)"
  by (auto simp: mgr_wf_def)

lemma wf_del_logger [wf_intros]:
  assumes "mgr_wf s"
  shows "mgr_wf (snd (del_logger name s))"
proof (cases "name = ''root''")
  case True
  then show ?thesis using assms by (simp add: del_logger_def)
next
  case False
  obtain i s1 where g: "get_logger name s = (i, s1)" by fastforce
  let ?s2 = "clear_appenders i (Logger_set_level UNUSED i s1)"
  have "mgr_wf s1" using wf_get_logger [OF assms, of name] g by simp
  then have wf: "mgr_wf ?s2" by (simp add: clear_appenders_def Logger_set_level_def wf_upd_logger)
  then have srt: "sorted_wrt (<) (map_keys (loggers ?s2))" by (simp add: mgr_wf_def)
  show ?thesis using wf False g std_less.map_erase_sorted [OF srt, of name]
    by (auto simp: del_logger_def mgr_wf_def map_erase_string [OF srt] Let_def)
qed

section \<open>Properties\<close>

text \<open>
  C33. Patterns round trip: for every list of formatter items that a pattern can produce there is a
  pattern whose scan gives exactly these items, in order, percent signs in literal text and
  date formats included; and formatting an event with it concatenates the texts of the items.
\<close>

theorem pattern_roundtrip:
  assumes "items_ok its" and "its \<noteq> []"
  shows "init_items (concat (map item_pattern its)) = Some its
    \<and> lf_legal (mk_LogFormatter (concat (map item_pattern its)))
    \<and> LogFormatter_format strf (mk_LogFormatter (concat (map item_pattern its))) name level event
        = concat (map (format_item strf name level event) its)"
proof -
  have i: "init_items (concat (map item_pattern its)) = Some its"
    using scan_items [OF assms(1), of "[]" "[]"] by (simp add: init_items_def flush_text_def)
  have "concat (map item_pattern its) \<noteq> []"
    using i assms(2) by (metis flush_text_def init_items_def option.inject scan.simps(1))
  then have "mk_LogFormatter (concat (map item_pattern its))
      = \<lparr>lf_legal = True, lf_pattern = concat (map item_pattern its), lf_items = its\<rparr>"
    unfolding mk_LogFormatter_def Let_def by (simp only: i if_False option.case)
  then show ?thesis using i by (simp add: LogFormatter_format_def)
qed

theorem pattern_roundtrip_witness:
  "init_items ''%p{}: 100%% %m{}'' = Some [LevelFormatterItem, StringFormatterItem '': 100% '', MessageFormatterItem]"
  using pattern_roundtrip [of "[LevelFormatterItem, StringFormatterItem '': 100% '', MessageFormatterItem]"]
  by (simp add: escape_def)

text \<open>The text that appender \<open>a\<close> writes for an event, and whether it writes it.\<close>

definition line_of :: "(string \<Rightarrow> u64 \<Rightarrow> string) \<Rightarrow> string \<Rightarrow> Level \<Rightarrow> LogEvent \<Rightarrow> 'f logging \<Rightarrow> nat \<Rightarrow> string" where
  "line_of strf name level event s a = LogFormatter_format strf (ap_formatter (appender_at s a)) name level event"

definition takes :: "Level \<Rightarrow> 'f logging \<Rightarrow> nat \<Rightarrow> bool" where
  "takes level s a \<longleftrightarrow> the (ap_level (appender_at s a)) \<le> level"

definition targets :: "nat \<Rightarrow> 'f logging \<Rightarrow> nat list" where
  "targets i s = (if lg_appenders (logger_at s i) = [] then [root_appender s] else lg_appenders (logger_at s i))"

text \<open>An appender in working order: it has a level, and the file it writes to is open and still there.\<close>

definition works :: "'f fs_ops \<Rightarrow> 'f logging \<Rightarrow> nat \<Rightarrow> bool" where
  "works F s a \<longleftrightarrow> ap_level (appender_at s a) \<noteq> None \<and> (case ap_file (appender_at s a) of None \<Rightarrow> True
     | Some p \<Rightarrow> ap_stream (appender_at s a) \<noteq> None \<and> fs_access F (c_str p) (fsys s))"

definition deliver :: "'f fs_ops \<Rightarrow> (string \<Rightarrow> u64 \<Rightarrow> string) \<Rightarrow> string \<Rightarrow> Level \<Rightarrow> LogEvent \<Rightarrow> nat \<Rightarrow> 'f logging \<Rightarrow> 'f logging" where
  "deliver F strf name level event a s =
     (if \<not> takes level s a then s
      else case ap_file (appender_at s a) of
             None \<Rightarrow> s\<lparr>cout := cout s @ line_of strf name level event s a\<rparr>
           | Some p \<Rightarrow> upd_appender a (ap_last_time_update (\<lambda>_. ev_time event))
               (s\<lparr>fsys := fs_write F (the (ap_stream (appender_at s a))) (line_of strf name level event s a) (fsys s)\<rparr>))"

lemma LogAppender_log_deliver:
  "works F s a \<Longrightarrow> LogAppender_log F strf name level event a s = (Inr (), deliver F strf name level event a s)"
  by (auto simp: works_def LogAppender_log_def StdoutLogAppender_log_def FileLogAppender_log_def deliver_def takes_def
      line_of_def file_or_dir_exists_def put_def upd_appender_def Let_def not_less not_le split: option.splits)

lemma deliver_keeps:
  assumes "\<And>p h d f. fs_access F p (fs_write F h d f) = fs_access F p f"
  shows "works F (deliver F strf name level event a s) b = works F s b"
    "takes level' (deliver F strf name level event a s) b = takes level' s b"
    "line_of strf name level event (deliver F strf name level event a s) b = line_of strf name level event s b"
    "ap_file (appender_at (deliver F strf name level event a s) b) = ap_file (appender_at s b)"
    "ap_stream (appender_at (deliver F strf name level event a s) b) = ap_stream (appender_at s b)"
  using assms by (auto simp: works_def takes_def line_of_def deliver_def upd_appender_def split: option.splits)

lemma deliver_effect:
  "cout (deliver F strf name level event a s) = cout s
     @ (if takes level s a \<and> ap_file (appender_at s a) = None then line_of strf name level event s a else [])"
  "fsys (deliver F strf name level event a s) =
     (if takes level s a \<and> ap_file (appender_at s a) \<noteq> None
      then fs_write F (the (ap_stream (appender_at s a))) (line_of strf name level event s a) (fsys s) else fsys s)"
  by (auto simp: deliver_def upd_appender_def split: option.splits)

lemma log_all_deliver:
  assumes "\<And>p h d f. fs_access F p (fs_write F h d f) = fs_access F p f"
  shows "\<forall>a \<in> set as. works F s a \<Longrightarrow>
    \<exists>s'. log_all F strf name level event as s = (Inr (), s')
      \<and> cout s' = cout s @ concat (map (line_of strf name level event s)
          (filter (\<lambda>a. takes level s a \<and> ap_file (appender_at s a) = None) as))
      \<and> fsys s' = fold (\<lambda>a. fs_write F (the (ap_stream (appender_at s a))) (line_of strf name level event s a))
          (filter (\<lambda>a. takes level s a \<and> ap_file (appender_at s a) \<noteq> None) as) (fsys s)"
proof (induction as arbitrary: s)
  case (Cons a as)
  let ?s = "deliver F strf name level event a s"
  note k = deliver_keeps [OF assms, where strf = strf and name = name and level = level and event = event and a = a and s = s]
  have "\<forall>b \<in> set as. works F ?s b" using Cons.prems k(1) by simp
  from Cons.IH [OF this] Cons.prems show ?case
    by (auto simp: LogAppender_log_deliver k deliver_effect)
qed simp



text \<open>The states the manager's operations lead to, with loggers and appenders changed in between.\<close>

inductive mgr_reach :: "'f logging \<Rightarrow> bool" where
  init: "mgr_reach (LoggerManager f)"
| get: "mgr_reach s \<Longrightarrow> mgr_reach (snd (get_logger name s))"
| add: "mgr_reach s \<Longrightarrow> mgr_reach (snd (add_logger name level s))"
| del: "mgr_reach s \<Longrightarrow> mgr_reach (snd (del_logger name s))"
| level: "mgr_reach s \<Longrightarrow> mgr_reach (Logger_set_level level i s)"
| app: "mgr_reach s \<Longrightarrow> mgr_reach (add_appender i a s)"
| clear: "mgr_reach s \<Longrightarrow> mgr_reach (clear_appenders i s)"

lemma reach_mgr_wf: "mgr_reach s \<Longrightarrow> mgr_wf s"
  by (induction rule: mgr_reach.induct)
    (auto intro: wf_intros simp: Logger_set_level_def add_appender_def clear_appenders_def)

text \<open>
  The logger registry: in every reachable state \<open>get_logger\<close> answers a logger of the requested name,
  the same one each time; distinct names have distinct loggers; the root logger is always
  registered and cannot be deleted; and a deleted logger is silent for every level in use, while
  the next request for its name makes a new one with level \<open>DEBUG\<close>.
\<close>

theorem logger_registry:
  assumes "mgr_reach s" and "get_logger name s = (i, s')"
  shows "lg_name (logger_at s' i) = name \<and> get_logger name s' = (i, s')
    \<and> (\<forall>n j. find_logger n s' = Some j \<and> n \<noteq> name \<longrightarrow> j \<noteq> i)
    \<and> find_logger ''root'' s = Some (root_logger s) \<and> del_logger ''root'' s = (False, s)
    \<and> (name \<noteq> ''root'' \<longrightarrow> (\<exists>s2. del_logger name s' = (True, s2) \<and> lg_level (logger_at s2 i) = UNUSED
         \<and> (\<forall>F strf level event. level \<noteq> UNUSED \<longrightarrow> Logger_log F strf level event i s2 = (Inr (), s2))
         \<and> fst (get_logger name s2) \<noteq> i \<and> lg_level (logger_at (snd (get_logger name s2)) (fst (get_logger name s2))) = DEBUG))"
proof -
  have wf: "mgr_wf s" by (rule reach_mgr_wf [OF assms(1)])
  note spec = get_logger_spec [OF wf assms(2)]
  have wf': "mgr_wf s'" using wf_get_logger [OF wf, of name] assms(2) by simp
  have mem: "(name, i) \<in> set (loggers s')" using spec(1) find_logger_iff [OF wf'] by simp
  have "\<forall>n j. find_logger n s' = Some j \<and> n \<noteq> name \<longrightarrow> j \<noteq> i"
    using find_logger_iff [OF wf'] wf' spec(2) by (fastforce simp: mgr_wf_def)
  moreover have "\<exists>s2. del_logger name s' = (True, s2) \<and> lg_level (logger_at s2 i) = UNUSED
         \<and> (\<forall>F strf level event. level \<noteq> UNUSED \<longrightarrow> Logger_log F strf level event i s2 = (Inr (), s2))
         \<and> fst (get_logger name s2) \<noteq> i \<and> lg_level (logger_at (snd (get_logger name s2)) (fst (get_logger name s2))) = DEBUG"
    if nr: "name \<noteq> ''root''"
  proof -
    let ?s1 = "clear_appenders i (Logger_set_level UNUSED i s')"
    let ?s2 = "?s1\<lparr>loggers := map_erase (<) name (loggers ?s1)\<rparr>"
    have l: "loggers ?s1 = loggers s'" "n_loggers ?s1 = n_loggers s'" "lg_level (logger_at ?s1 i) = UNUSED"
      by (simp_all add: clear_appenders_def Logger_set_level_def)
    have srt: "sorted_wrt (<) (map_keys (loggers s'))" and lt: "i < n_loggers s'" using wf' mem by (auto simp: mgr_wf_def)
    have "del_logger name s' = (True, ?s2)"
      using nr spec(1,3) l(1) by (simp add: del_logger_def find_logger_def Let_def)
    moreover have "level < UNUSED" if "level \<noteq> UNUSED" for level using that by (cases level) (simp_all add: less_Level_def)
    then have "Logger_log F strf level event i ?s2 = (Inr (), ?s2)" if "level \<noteq> UNUSED" for F strf level event
      using that l(3) by (simp add: Logger_log_def)
    moreover have "find_logger name ?s2 = None"
      using std_less.map_find_erase [OF srt, of name name] l(1) by (simp add: find_logger_def)
    then have "fst (get_logger name ?s2) \<noteq> i"
        "lg_level (logger_at (snd (get_logger name ?s2)) (fst (get_logger name ?s2))) = DEBUG"
      using lt l(2) by (simp_all add: get_logger_def Let_def case_prod_beta)
    ultimately show ?thesis using l(3) by (intro exI [of _ ?s2]) simp
  qed
  moreover have "find_logger ''root'' s = Some (root_logger s)" using wf find_logger_iff [OF wf] by (simp add: mgr_wf_def)
  ultimately show ?thesis using spec(2,3) by (simp add: del_logger_def)
qed

theorem logger_registry_witness:
  "lg_name (logger_at (snd (get_logger ''system'' (LoggerManager ()))) (fst (get_logger ''system'' (LoggerManager ())))) = ''system''"
  using logger_registry [OF mgr_reach.init, of "''system''" "()"] by (metis prod.collapse)

end
