(* ===== verification/Log_Config.thy ===== *)
theory Log_Config
  imports Log Config
begin

text \<open>
  Configuration of the loggers (src/sylar/log.cpp): the entries of the variable \<open>logs\<close>, their conversion
  from and to YAML, the listener that applies a new value to the logger manager, and the YAML form
  of the loggers. The access to YAML nodes by key and their conversion to strings are arguments.
\<close>

section \<open>Entries\<close>

record LogAppenderEntry =
  ae_type :: int
  ae_file :: string
  ae_level :: Level
  ae_formatter :: string

record LoggerEntry =
  le_name :: string
  le_level :: Level
  le_appenders :: "LogAppenderEntry list"

text \<open>Entries are ordered and compared by name, so a set of them is kept by name, and inserting keeps the first.\<close>

type_synonym entries = "(string \<times> LoggerEntry) list"

definition entry_insert :: "LoggerEntry \<Rightarrow> entries \<Rightarrow> entries" where
  "entry_insert e s = (case map_find (<) (le_name e) s of Some _ \<Rightarrow> s | None \<Rightarrow> map_set (<) (le_name e) e s)"

definition entries_eq :: "entries \<Rightarrow> entries \<Rightarrow> bool" where
  "entries_eq s t \<longleftrightarrow> list_all2 (\<lambda>x y. le_name (snd x) = le_name (snd y)) s t"

section \<open>Conversion\<close>

text \<open>
  \<open>node[key]\<close> (\<open>None\<close> when it throws, \<open>Some None\<close> for a key that is not there) and \<open>as<std::string>()\<close>
  (\<open>None\<close> when it throws).
\<close>

record fields =
  y_field :: "yaml \<Rightarrow> string \<Rightarrow> yaml option option"
  y_string :: "yaml \<Rightarrow> string option"

definition with_formatter :: "fields \<Rightarrow> yaml \<Rightarrow> LogAppenderEntry \<Rightarrow> LogAppenderEntry option option" where
  "with_formatter Y node_a appender =
     (case y_field Y node_a ''formatter'' of
        None \<Rightarrow> None
      | Some None \<Rightarrow> Some (Some appender)
      | Some (Some n) \<Rightarrow> map_option (\<lambda>f. Some (appender\<lparr>ae_formatter := f\<rparr>)) (y_string Y n))"

text \<open>One appender of the list: \<open>Some None\<close> when it is reported and skipped.\<close>

definition convert_appender :: "fields \<Rightarrow> yaml \<Rightarrow> LogAppenderEntry option option" where
  "convert_appender Y node_a =
     (case y_field Y node_a ''type'' of
        None \<Rightarrow> None
      | Some None \<Rightarrow> Some None
      | Some (Some t) \<Rightarrow>
          case y_string Y t of
            None \<Rightarrow> None
          | Some type \<Rightarrow>
              if type = ''FileLogAppender''
              then case y_field Y node_a ''file'' of
                     None \<Rightarrow> None
                   | Some None \<Rightarrow> Some None
                   | Some (Some f) \<Rightarrow>
                       Option.bind (y_string Y f) (\<lambda>file. with_formatter Y node_a
                         \<lparr>ae_type = 1, ae_file = file, ae_level = DEBUG, ae_formatter = []\<rparr>)
              else if type = ''StdoutLogAppender''
              then with_formatter Y node_a \<lparr>ae_type = 0, ae_file = [], ae_level = DEBUG, ae_formatter = []\<rparr>
              else Some None)"

definition convert_name :: "fields \<Rightarrow> yaml \<Rightarrow> string option" where
  "convert_name Y node = (case y_field Y node ''name'' of Some (Some n) \<Rightarrow> y_string Y n | _ \<Rightarrow> None)"

definition convert_level :: "fields \<Rightarrow> yaml \<Rightarrow> Level option" where
  "convert_level Y node =
     (case y_field Y node ''level'' of
        None \<Rightarrow> None | Some None \<Rightarrow> Some DEBUG | Some (Some n) \<Rightarrow> map_option LogLevel_from_string (y_string Y n))"

definition convert_appenders :: "'b libs \<Rightarrow> fields \<Rightarrow> yaml \<Rightarrow> LogAppenderEntry list option" where
  "convert_appenders L Y node =
     (case y_field Y node ''appenders'' of
        None \<Rightarrow> None
      | Some None \<Rightarrow> Some []
      | Some (Some as) \<Rightarrow>
          map_option (List.map_filter (\<lambda>x. x))
            (collect (map (\<lambda>x. convert_appender Y (node_at L as x)) [0..<node_size as])))"

definition LoggerEntry_from_string :: "'b libs \<Rightarrow> fields \<Rightarrow> string \<Rightarrow> LoggerEntry option" where
  "LoggerEntry_from_string L Y v =
     Option.bind (yaml_load L v) (\<lambda>node.
     Option.bind (convert_name Y node) (\<lambda>name.
     Option.bind (convert_level Y node) (\<lambda>level.
     Option.bind (convert_appenders L Y node) (\<lambda>appenders.
       Some \<lparr>le_name = name, le_level = level, le_appenders = appenders\<rparr>))))"

definition appender_entry_node :: "LogAppenderEntry \<Rightarrow> yaml" where
  "appender_entry_node a = Map (
     (if ae_type a = 1 then [(Scalar ''type'', Scalar ''FileLogAppender''), (Scalar ''file'', Scalar (ae_file a))]
      else if ae_type a = 0 then [(Scalar ''type'', Scalar ''StdoutLogAppender'')] else [])
     @ [(Scalar ''level'', Scalar (LogLevel_to_string (ae_level a))), (Scalar ''formatter'', Scalar (ae_formatter a))])"

text \<open>The node of a logger: the key for the appenders appears with the first of them.\<close>

definition logger_node :: "string \<Rightarrow> Level \<Rightarrow> yaml list \<Rightarrow> yaml" where
  "logger_node name level as =
     Map ([(Scalar ''name'', Scalar name), (Scalar ''level'', Scalar (LogLevel_to_string level))]
          @ (if as = [] then [] else [(Scalar ''appenders'', Seq as)]))"

definition LoggerEntry_to_string :: "'b libs \<Rightarrow> LoggerEntry \<Rightarrow> string" where
  "LoggerEntry_to_string L logger =
     yaml_dump L (logger_node (le_name logger) (le_level logger) (map appender_entry_node (le_appenders logger)))"

text \<open>The converters for \<open>std::set<LoggerEntry>\<close>.\<close>

definition logs_from_string :: "'b libs \<Rightarrow> fields \<Rightarrow> string \<Rightarrow> entries option" where
  "logs_from_string L Y v =
     map_option (\<lambda>es. fold entry_insert es []) (convert_elements L (LoggerEntry_from_string L Y) v)"

definition logs_to_string :: "'b libs \<Rightarrow> entries \<Rightarrow> string option" where
  "logs_to_string L logs =
     map_option (\<lambda>ns. yaml_dump L (Seq ns)) (collect (map (\<lambda>x. yaml_load L (LoggerEntry_to_string L (snd x))) logs))"

section \<open>YAML form of the loggers\<close>

definition appender_node :: "string option \<Rightarrow> Level \<Rightarrow> string \<Rightarrow> yaml" where
  "appender_node fo level pattern = Map (
     (case fo of
        None \<Rightarrow> [(Scalar ''type'', Scalar ''StdoutLogAppender'')]
      | Some f \<Rightarrow> [(Scalar ''type'', Scalar ''FileLogAppender''), (Scalar ''file'', Scalar f)])
     @ [(Scalar ''level'', Scalar (LogLevel_to_string level)), (Scalar ''formatter'', Scalar pattern)])"

text \<open>\<open>None\<close> when the level of an appender was never set.\<close>

definition LogAppender_to_YAML_string :: "'b libs \<Rightarrow> LogAppender \<Rightarrow> string option" where
  "LogAppender_to_YAML_string L a =
     (case ap_level a of
        None \<Rightarrow> None
      | Some level \<Rightarrow> Some (yaml_dump L (appender_node (ap_file a) level (lf_pattern (ap_formatter a)))))"

definition Logger_to_YAML_string :: "'b libs \<Rightarrow> nat \<Rightarrow> 'f logging \<Rightarrow> string option" where
  "Logger_to_YAML_string L i s =
     map_option (\<lambda>as. yaml_dump L (logger_node (lg_name (logger_at s i)) (lg_level (logger_at s i)) as))
       (collect (map (\<lambda>a. load_text L (LogAppender_to_YAML_string L (appender_at s a))) (lg_appenders (logger_at s i))))"

definition LoggerManager_to_YAML_string :: "'b libs \<Rightarrow> 'f logging \<Rightarrow> string option" where
  "LoggerManager_to_YAML_string L s =
     map_option (\<lambda>ns. yaml_dump L (if ns = [] then Null else Seq ns))
       (collect (map (\<lambda>(n, i). load_text L (Logger_to_YAML_string L i s)) (loggers s)))"

section \<open>The listener\<close>

definition make_appender :: "'f fs_ops \<Rightarrow> LogAppenderEntry \<Rightarrow> 'f logging \<Rightarrow> nat option \<times> 'f logging" where
  "make_appender F a s =
     (if ae_type a = 0 then let (p, s1) = new_appender mk_StdoutLogAppender s in (Some p, s1)
      else if ae_type a = 1
      then let (ap, f1) = mk_FileLogAppender F (ae_file a) (fsys s); (p, s1) = new_appender ap (s\<lparr>fsys := f1\<rparr>) in (Some p, s1)
      else (None, s))"

definition install_appender :: "'f fs_ops \<Rightarrow> nat \<Rightarrow> LogAppenderEntry \<Rightarrow> 'f logging \<Rightarrow> 'f logging" where
  "install_appender F i a s =
     (case make_appender F a s of
        (None, s1) \<Rightarrow> s1
      | (Some p, s1) \<Rightarrow>
          add_appender i p
            (upd_appender p (\<lambda>ap. snd (set_formatter_pattern (ae_formatter a) (ap\<lparr>ap_level := Some (ae_level a)\<rparr>))) s1))"

definition configure :: "'f fs_ops \<Rightarrow> LoggerEntry \<Rightarrow> 'f logging \<Rightarrow> 'f logging" where
  "configure F e s =
     (let (i, s1) = get_logger (le_name e) s
      in fold (install_appender F i) (le_appenders e) (clear_appenders i (Logger_set_level (le_level e) i s1)))"

definition delete_old :: "entries \<Rightarrow> LoggerEntry \<Rightarrow> 'f logging \<Rightarrow> 'f logging" where
  "delete_old new_value i s = (if map_find (<) (le_name i) new_value \<noteq> None then snd (del_logger (le_name i) s) else s)"

definition logs_listener ::
  "'f fs_ops \<Rightarrow> (string \<Rightarrow> u64 \<Rightarrow> string) \<Rightarrow> LogEvent \<Rightarrow> entries \<Rightarrow> entries \<Rightarrow> 'f logging \<Rightarrow> ('f logging, unit) outcome" where
  "logs_listener F strf event old_value new_value s =
     and_then (SYLAR_LOG F strf (root_logger s) INFO event ''logs config changed'' s)
       (\<lambda>_ s1. (Inr (), fold (delete_old new_value) (map snd old_value) (fold (configure F) (map snd new_value) s1)))"

text \<open>\<open>set_value\<close> of the variable \<open>logs\<close>, whose listener is the one above.\<close>

definition set_logs ::
  "'f fs_ops \<Rightarrow> (string \<Rightarrow> u64 \<Rightarrow> string) \<Rightarrow> LogEvent \<Rightarrow> entries \<Rightarrow> entries \<times> 'f logging \<Rightarrow> (entries \<times> 'f logging, unit) outcome" where
  "set_logs F strf event value x =
     (let (old, s) = x
      in if entries_eq value old then (Inr (), x)
         else case logs_listener F strf event old value s of
                (Inl e, s1) \<Rightarrow> (Inl e, (old, s1))
              | (Inr _, s1) \<Rightarrow> (Inr (), (value, s1)))"

section \<open>Facts on the listener\<close>

text \<open>What logging an event leaves alone.\<close>

definition setup_of :: "'f logging \<Rightarrow> (nat \<Rightarrow> Logger) \<times> nat \<times> (string \<times> nat) list \<times> nat \<times> nat \<times> nat \<times> (nat \<Rightarrow> Level option)" where
  "setup_of s = (logger_at s, n_loggers s, loggers s, root_logger s, n_appenders s, root_appender s, \<lambda>a. ap_level (appender_at s a))"

lemma LogAppender_log_setup:
  assumes "ap_level (appender_at s a) \<noteq> None"
  shows "\<exists>s'. LogAppender_log F strf name level event a s = (Inr (), s') \<and> setup_of s' = setup_of s"
proof (cases "ap_file (appender_at s a)")
  case None
  with assms show ?thesis by (auto simp: LogAppender_log_def StdoutLogAppender_log_def setup_of_def)
next
  case (Some p)
  with assms show ?thesis
    by (auto simp: LogAppender_log_def FileLogAppender_log_def reopen_def upd_appender_def setup_of_def Let_def fun_eq_iff
        split: prod.splits if_splits)
qed

lemma log_all_setup:
  "\<forall>a \<in> set as. ap_level (appender_at s a) \<noteq> None \<Longrightarrow>
    \<exists>s'. log_all F strf name level event as s = (Inr (), s') \<and> setup_of s' = setup_of s"
proof (induction as arbitrary: s)
  case (Cons a as)
  then obtain s1 where s1: "LogAppender_log F strf name level event a s = (Inr (), s1)" "setup_of s1 = setup_of s"
    using LogAppender_log_setup [of s a] by fastforce
  have "ap_level (appender_at s1 b) = ap_level (appender_at s b)" for b using s1(2) by (simp add: setup_of_def fun_eq_iff)
  then have "\<forall>b \<in> set as. ap_level (appender_at s1 b) \<noteq> None" using Cons.prems by simp
  from Cons.IH [OF this] s1 show ?case by simp
qed simp

lemma SYLAR_LOG_setup:
  assumes "\<forall>a \<in> set (targets i s). ap_level (appender_at s a) \<noteq> None"
  shows "\<exists>s'. SYLAR_LOG F strf i level event text s = (Inr (), s') \<and> setup_of s' = setup_of s"
  using assms log_all_setup [of "lg_appenders (logger_at s i)" s] LogAppender_log_setup [of s "root_appender s"]
  by (simp add: SYLAR_LOG_def end_LogEventWrap_def stream_into_def Logger_log_def Let_def targets_def split: if_splits) blast+

text \<open>The appenders of the registered loggers exist.\<close>

definition log_wf :: "'f logging \<Rightarrow> bool" where
  "log_wf s \<longleftrightarrow> mgr_wf s \<and> (\<forall>(n, i) \<in> set (loggers s). \<forall>a \<in> set (lg_appenders (logger_at s i)). a < n_appenders s)"

lemma log_wf_setup: "setup_of s' = setup_of s \<Longrightarrow> log_wf s' = log_wf s"
  by (simp add: log_wf_def mgr_wf_def setup_of_def)

text \<open>An appender as a logger's user sees it, and what an entry asks for.\<close>

definition view :: "'f logging \<Rightarrow> nat \<Rightarrow> string option \<times> Level option \<times> LogFormatter" where
  "view s a = (ap_file (appender_at s a), ap_level (appender_at s a), ap_formatter (appender_at s a))"

definition asked :: "LogAppenderEntry \<Rightarrow> string option \<times> Level option \<times> LogFormatter" where
  "asked a = (if ae_type a = 1 then Some (ae_file a) else None, Some (ae_level a),
     if lf_legal (mk_LogFormatter (ae_formatter a)) then mk_LogFormatter (ae_formatter a) else mk_LogFormatter default_pattern)"

definition usable :: "LogAppenderEntry \<Rightarrow> bool" where
  "usable a \<longleftrightarrow> ae_type a \<in> {0, 1}"

text \<open>What one step of configuring logger \<open>i\<close> keeps.\<close>

definition extends :: "nat \<Rightarrow> 'f logging \<Rightarrow> 'f logging \<Rightarrow> bool" where
  "extends i s s' \<longleftrightarrow> loggers s' = loggers s \<and> n_loggers s' = n_loggers s \<and> root_logger s' = root_logger s
     \<and> n_appenders s \<le> n_appenders s' \<and> (\<forall>a < n_appenders s. appender_at s' a = appender_at s a)
     \<and> (\<forall>j. j \<noteq> i \<longrightarrow> logger_at s' j = logger_at s j)
     \<and> lg_name (logger_at s' i) = lg_name (logger_at s i) \<and> lg_level (logger_at s' i) = lg_level (logger_at s i)"

lemma extends_trans: "extends i s s1 \<Longrightarrow> extends i s1 s2 \<Longrightarrow> extends i s s2"
  by (auto simp: extends_def)

lemma install_appender_spec:
  "extends i s (install_appender F i a s)
   \<and> (\<exists>ys. lg_appenders (logger_at (install_appender F i a s) i) = lg_appenders (logger_at s i) @ ys
        \<and> (\<forall>y \<in> set ys. y < n_appenders (install_appender F i a s))
        \<and> map (view (install_appender F i a s)) ys = map asked (filter usable [a]))"
  by (auto simp: install_appender_def make_appender_def new_appender_def mk_FileLogAppender_def add_appender_def
      upd_appender_def set_formatter_pattern_def set_formatter_def mk_StdoutLogAppender_def extends_def view_def asked_def
      usable_def Let_def split: prod.splits)

lemma view_extends: "extends i s s' \<Longrightarrow> \<forall>y \<in> set ys. y < n_appenders s \<Longrightarrow> map (view s') ys = map (view s) ys"
  by (auto simp: extends_def view_def)

lemma install_all_spec:
  "extends i s (fold (install_appender F i) as s)
   \<and> (\<exists>ys. lg_appenders (logger_at (fold (install_appender F i) as s) i) = lg_appenders (logger_at s i) @ ys
        \<and> (\<forall>y \<in> set ys. y < n_appenders (fold (install_appender F i) as s))
        \<and> map (view (fold (install_appender F i) as s)) ys = map asked (filter usable as))"
proof (induction as arbitrary: s)
  case Nil
  then show ?case by (simp add: extends_def)
next
  case (Cons a as)
  let ?s1 = "install_appender F i a s" let ?s2 = "fold (install_appender F i) as ?s1"
  from install_appender_spec [of i s F a] obtain xs where xs: "extends i s ?s1"
      "lg_appenders (logger_at ?s1 i) = lg_appenders (logger_at s i) @ xs" "\<forall>y \<in> set xs. y < n_appenders ?s1"
      "map (view ?s1) xs = map asked (filter usable [a])" by blast
  from Cons.IH [of ?s1] obtain ys where ys: "extends i ?s1 ?s2"
      "lg_appenders (logger_at ?s2 i) = lg_appenders (logger_at ?s1 i) @ ys" "\<forall>y \<in> set ys. y < n_appenders ?s2"
      "map (view ?s2) ys = map asked (filter usable as)" by blast
  have "map (view ?s2) (xs @ ys) = map asked (filter usable (a # as))"
    using view_extends [OF ys(1) xs(3)] xs(4) ys(4) by simp
  moreover have "\<forall>y \<in> set (xs @ ys). y < n_appenders ?s2" using xs(3) ys(1,3) by (auto simp: extends_def)
  ultimately show ?case using extends_trans [OF xs(1) ys(1)] xs(2) ys(2) by (intro conjI exI [of _ "xs @ ys"]) auto
qed

text \<open>The logger an entry describes is registered as it asks.\<close>

definition configured :: "'f logging \<Rightarrow> LoggerEntry \<Rightarrow> bool" where
  "configured s e \<longleftrightarrow> (\<exists>i. find_logger (le_name e) s = Some i \<and> lg_level (logger_at s i) = le_level e
     \<and> map (view s) (lg_appenders (logger_at s i)) = map asked (filter usable (le_appenders e)))"

text \<open>Every other registered logger stays as it is.\<close>

definition keeps_others :: "string set \<Rightarrow> 'f logging \<Rightarrow> 'f logging \<Rightarrow> bool" where
  "keeps_others N s s' \<longleftrightarrow> (\<forall>n i. n \<notin> N \<longrightarrow> find_logger n s = Some i \<longrightarrow> find_logger n s' = Some i
     \<and> logger_at s' i = logger_at s i
     \<and> map (view s') (lg_appenders (logger_at s i)) = map (view s) (lg_appenders (logger_at s i)))"

lemma keeps_othersD:
  "keeps_others N s s' \<Longrightarrow> n \<notin> N \<Longrightarrow> find_logger n s = Some i \<Longrightarrow> find_logger n s' = Some i \<and> logger_at s' i = logger_at s i"
  by (simp add: keeps_others_def)

lemma keeps_others_trans: "keeps_others N s s1 \<Longrightarrow> keeps_others M s1 s2 \<Longrightarrow> keeps_others (N \<union> M) s s2"
  by (fastforce simp: keeps_others_def)

lemma configured_keeps: "configured s e \<Longrightarrow> keeps_others N s s' \<Longrightarrow> le_name e \<notin> N \<Longrightarrow> configured s' e"
  unfolding configured_def keeps_others_def by fastforce

lemma configure_spec:
  assumes "log_wf s"
  shows "log_wf (configure F e s)" and "configured (configure F e s) e" and "keeps_others {le_name e} s (configure F e s)"
proof -
  obtain i s1 where g: "get_logger (le_name e) s = (i, s1)" by fastforce
  have wf: "mgr_wf s" using assms by (simp add: log_wf_def)
  note spec = get_logger_spec [OF wf g]
  have wf1: "mgr_wf s1" using wf_get_logger [OF wf, of "le_name e"] g by simp
  have app1: "n_appenders s1 = n_appenders s" "appender_at s1 = appender_at s"
    using g by (auto simp: get_logger_def new_logger_def Let_def split: option.splits)
  let ?s2 = "clear_appenders i (Logger_set_level (le_level e) i s1)"
  let ?s3 = "configure F e s"
  have s3: "?s3 = fold (install_appender F i) (le_appenders e) ?s2" using g by (simp add: configure_def)
  have s2: "loggers ?s2 = loggers s1" "n_loggers ?s2 = n_loggers s1" "root_logger ?s2 = root_logger s1"
      "n_appenders ?s2 = n_appenders s1" "appender_at ?s2 = appender_at s1" "lg_level (logger_at ?s2 i) = le_level e"
      "lg_appenders (logger_at ?s2 i) = []" "\<And>j. lg_name (logger_at ?s2 j) = lg_name (logger_at s1 j)"
      "\<And>j. j \<noteq> i \<Longrightarrow> logger_at ?s2 j = logger_at s1 j"
    by (simp_all add: clear_appenders_def Logger_set_level_def)
  from install_all_spec [of i ?s2 F "le_appenders e"] s2(7) obtain ys where ys: "extends i ?s2 ?s3"
      "lg_appenders (logger_at ?s3 i) = ys" "\<forall>y \<in> set ys. y < n_appenders ?s3"
      "map (view ?s3) ys = map asked (filter usable (le_appenders e))" unfolding s3 by auto
  have l3: "loggers ?s3 = loggers s1" "n_loggers ?s3 = n_loggers s1" "root_logger ?s3 = root_logger s1"
      "n_appenders s \<le> n_appenders ?s3" "lg_level (logger_at ?s3 i) = le_level e"
    using ys(1) s2 app1 by (auto simp: extends_def)
  have n3: "lg_name (logger_at ?s3 j) = lg_name (logger_at s1 j)" for j
    using ys(1) s2(8,9) [of j] by (cases "j = i") (auto simp: extends_def)
  have o3: "logger_at ?s3 j = logger_at s1 j" if "j \<noteq> i" for j using ys(1) s2(9) [OF that] that by (auto simp: extends_def)
  have mem: "(n, j) \<in> set (loggers s1) \<longleftrightarrow> (if n = le_name e then j = i else (n, j) \<in> set (loggers s))" for n j by (rule spec(5))
  have other: "j \<noteq> i" "j < n_loggers s" "logger_at s1 j = logger_at s j" if "(n, j) \<in> set (loggers s)" "n \<noteq> le_name e" for n j
  proof -
    show "j < n_loggers s" using wf that by (auto simp: mgr_wf_def)
    then show "logger_at s1 j = logger_at s j" by (rule spec(4))
    then show "j \<noteq> i" using spec(2) wf that by (auto simp: mgr_wf_def)
  qed
  have "mgr_wf ?s3" using wf1 l3 n3 by (simp add: mgr_wf_def)
  moreover have "a < n_appenders ?s3" if a: "(n, j) \<in> set (loggers ?s3)" "a \<in> set (lg_appenders (logger_at ?s3 j))" for n j a
  proof (cases "n = le_name e")
    case True
    then show ?thesis using a ys(2,3) mem l3(1) by auto
  next
    case False
    then have m: "(n, j) \<in> set (loggers s)" using a(1) mem l3(1) by auto
    from other [OF m False] o3 a(2) have "a \<in> set (lg_appenders (logger_at s j))" by simp
    then show ?thesis using assms m l3(4) by (fastforce simp: log_wf_def)
  qed
  ultimately show "log_wf ?s3" by (auto simp: log_wf_def)
  have f3: "find_logger n ?s3 = find_logger n s1" for n by (simp add: find_logger_def l3(1))
  show "configured ?s3 e" using spec(1) ys(2,4) l3(5) by (auto simp: configured_def f3)
  show "keeps_others {le_name e} s ?s3"
    unfolding keeps_others_def
  proof (intro allI impI)
    fix n j assume "n \<notin> {le_name e}" and "find_logger n s = Some j"
    then have n: "n \<noteq> le_name e" "(n, j) \<in> set (loggers s)" by (simp_all add: find_logger_iff [OF wf])
    have "find_logger n ?s3 = Some j" using n find_logger_iff [OF wf1] mem by (simp add: f3)
    moreover have same: "logger_at ?s3 j = logger_at s j" using other [OF n(2,1)] o3 by simp
    moreover have "\<forall>a \<in> set (lg_appenders (logger_at s j)). a < n_appenders ?s2"
      using assms n(2) s2(4) app1(1) by (fastforce simp: log_wf_def)
    from view_extends [OF ys(1) this]
    have "map (view ?s3) (lg_appenders (logger_at s j)) = map (view s) (lg_appenders (logger_at s j))"
      using s2(5) app1(2) by (simp add: view_def)
    ultimately show "find_logger n ?s3 = Some j \<and> logger_at ?s3 j = logger_at s j
      \<and> map (view ?s3) (lg_appenders (logger_at s j)) = map (view s) (lg_appenders (logger_at s j))" by simp
  qed
qed

lemma configure_all_spec:
  "log_wf s \<Longrightarrow> distinct (map le_name es) \<Longrightarrow> log_wf (fold (configure F) es s)
    \<and> (\<forall>e \<in> set es. configured (fold (configure F) es s) e) \<and> keeps_others (le_name ` set es) s (fold (configure F) es s)"
proof (induction es arbitrary: s)
  case Nil
  then show ?case by (simp add: keeps_others_def)
next
  case (Cons e es)
  let ?s1 = "configure F e s" let ?s2 = "fold (configure F) es ?s1"
  note c = configure_spec [OF Cons.prems(1), where F = F and e = e]
  have ih: "log_wf ?s2" "\<forall>e \<in> set es. configured ?s2 e" "keeps_others (le_name ` set es) ?s1 ?s2"
    using Cons.IH [OF c(1)] Cons.prems(2) by simp_all
  have "configured ?s2 e" using configured_keeps [OF c(2) ih(3)] Cons.prems(2) by simp
  then show ?case using ih keeps_others_trans [OF c(3) ih(3)] by simp
qed

lemma del_logger_spec:
  assumes "log_wf s"
  shows "log_wf (snd (del_logger n s))" and "keeps_others {n} s (snd (del_logger n s))"
    and "find_logger m (snd (del_logger n s)) = (if m = n \<and> n \<noteq> ''root'' then None else find_logger m s)"
proof -
  have wf: "mgr_wf s" using assms by (simp add: log_wf_def)
  obtain i s1 where g: "get_logger n s = (i, s1)" by fastforce
  note spec = get_logger_spec [OF wf g]
  have app1: "n_appenders s1 = n_appenders s" "appender_at s1 = appender_at s"
    using g by (auto simp: get_logger_def new_logger_def Let_def split: option.splits)
  let ?s2 = "clear_appenders i (Logger_set_level UNUSED i s1)" let ?s3 = "snd (del_logger n s)"
  have s3: "?s3 = (if n = ''root'' then s else ?s2\<lparr>loggers := map_erase (<) n (loggers s1)\<rparr>)"
    using g by (simp add: del_logger_def Let_def clear_appenders_def Logger_set_level_def)
  have srt: "sorted_wrt (<) (map_keys (loggers s1))" using wf_get_logger [OF wf, of n] g by (simp add: mgr_wf_def)
  have wf3: "mgr_wf ?s3" by (rule wf_del_logger [OF wf])
  have f3: "find_logger m ?s3 = (if m = n \<and> n \<noteq> ''root'' then None else find_logger m s)" for m
  proof (cases "m = n")
    case False
    have "find_logger m s1 = find_logger m s"
      using g False by (auto simp: get_logger_def find_logger_def Let_def std_less.map_find_set new_logger_def split: option.splits)
    then show ?thesis using s3 False std_less.map_find_erase [OF srt, of m n] by (simp add: find_logger_def)
  qed (use s3 std_less.map_find_erase [OF srt, of n n] in \<open>simp add: find_logger_def\<close>)
  have same: "logger_at ?s3 j = logger_at s j" if "(m, j) \<in> set (loggers s)" "m \<noteq> n" for m j
  proof -
    have "j < n_loggers s" "lg_name (logger_at s j) = m" using wf that by (auto simp: mgr_wf_def)
    then show ?thesis using spec(2,4) that(2) s3 by (auto simp: clear_appenders_def Logger_set_level_def)
  qed
  have a3: "n_appenders ?s3 = n_appenders s" "appender_at ?s3 = appender_at s"
    using s3 app1 by (simp_all add: clear_appenders_def Logger_set_level_def)
  have "a < n_appenders s" if "(m, j) \<in> set (loggers ?s3)" "a \<in> set (lg_appenders (logger_at ?s3 j))" for m j a
  proof (cases "n = ''root''")
    case True
    then show ?thesis using that assms s3 by (fastforce simp: log_wf_def)
  next
    case False
    have m: "m \<noteq> n" "(m, j) \<in> set (loggers s)"
      using f3 [of m] that(1) find_logger_iff [OF wf3, of m j] find_logger_iff [OF wf, of m j] False by (auto split: if_splits)
    then show ?thesis using same [OF m(2,1)] that(2) assms by (fastforce simp: log_wf_def)
  qed
  then show "log_wf ?s3" using wf3 a3 by (auto simp: log_wf_def)
  show "keeps_others {n} s ?s3"
    using f3 same a3 find_logger_iff [OF wf] by (auto simp: keeps_others_def view_def)
  show "find_logger m ?s3 = (if m = n \<and> n \<noteq> ''root'' then None else find_logger m s)" by (rule f3)
qed

lemma delete_all_spec:
  "log_wf s \<Longrightarrow> log_wf (fold (delete_old new) es s)
    \<and> keeps_others (le_name ` set es \<inter> {n. map_find (<) n new \<noteq> None}) s (fold (delete_old new) es s)
    \<and> (\<forall>n. find_logger n (fold (delete_old new) es s) =
         (if n \<in> le_name ` set es \<and> map_find (<) n new \<noteq> None \<and> n \<noteq> ''root'' then None else find_logger n s))"
proof (induction es arbitrary: s)
  case Nil
  then show ?case by (simp add: keeps_others_def)
next
  case (Cons e es)
  let ?s1 = "delete_old new e s"
  let ?N = "if map_find (<) (le_name e) new = None then {} else {le_name e}"
  have 1: "log_wf ?s1" "keeps_others ?N s ?s1"
      "find_logger n ?s1 = (if n \<in> ?N \<and> n \<noteq> ''root'' then None else find_logger n s)" for n
    using Cons.prems del_logger_spec(1,2) [OF Cons.prems, of "le_name e"] del_logger_spec(3) [OF Cons.prems, of n "le_name e"]
    by (auto simp: delete_old_def keeps_others_def)
  let ?M = "\<lambda>es. le_name ` set es \<inter> {n. map_find (<) n new \<noteq> None}"
  have "?M (e # es) = ?N \<union> ?M es" by auto
  with keeps_others_trans [OF 1(2), of "?M es"] Cons.IH [OF 1(1)]
  have k: "keeps_others (?M (e # es)) s (fold (delete_old new) (e # es) s)" by simp
  show ?case using Cons.IH [OF 1(1)] k 1(3) by auto
qed

text \<open>The value of the variable: sorted by the names of its entries.\<close>

definition entries_ok :: "entries \<Rightarrow> bool" where
  "entries_ok s \<longleftrightarrow> sorted_wrt (<) (map_keys s) \<and> (\<forall>(n, e) \<in> set s. le_name e = n)"

lemma entry_insert_ok: "entries_ok s \<Longrightarrow> entries_ok (entry_insert e s)"
  using std_less.map_set_sorted [of s "le_name e" e]
  by (auto simp: entries_ok_def entry_insert_def map_set_string split: option.splits if_splits)

lemma logs_from_string_ok: "logs_from_string L Y v = Some s \<Longrightarrow> entries_ok s"
proof -
  have "entries_ok s \<Longrightarrow> entries_ok (fold entry_insert es s)" for es s
    by (induction es arbitrary: s) (simp_all add: entry_insert_ok)
  moreover have "entries_ok []" by (simp add: entries_ok_def)
  ultimately show "logs_from_string L Y v = Some s \<Longrightarrow> entries_ok s" by (auto simp: logs_from_string_def)
qed

lemma entries_names: "entries_ok s \<Longrightarrow> map (\<lambda>x. le_name (snd x)) s = map_keys s"
  by (auto simp: entries_ok_def map_keys_def)

lemma list_all2_map_eq: "list_all2 (\<lambda>x y. f x = g y) xs ys \<longleftrightarrow> map f xs = map g ys"
  by (auto simp: list_eq_iff_nth_eq list_all2_conv_all_nth)

lemma entries_eq_names: "entries_ok s \<Longrightarrow> entries_ok t \<Longrightarrow> entries_eq s t \<longleftrightarrow> map_keys s = map_keys t"
  by (simp add: entries_eq_def list_all2_map_eq entries_names)

section \<open>Properties\<close>


text \<open>A configuration of one logger that writes its messages to standard output.\<close>

definition sample_logs :: entries where
  "sample_logs = [(''system'', \<lparr>le_name = ''system'', le_level = WARN,
     le_appenders = [\<lparr>ae_type = 0, ae_file = [], ae_level = ERROR, ae_formatter = ''%m%n''\<rparr>]\<rparr>)]"


section \<open>The YAML form read back\<close>

text \<open>What is read from the node of an appender: the level is not. And what is read for a registered logger.\<close>

definition read_back :: "string option \<Rightarrow> string \<Rightarrow> LogAppenderEntry" where
  "read_back fo pattern = \<lparr>ae_type = (if fo = None then 0 else 1), ae_file = (case fo of None \<Rightarrow> [] | Some f \<Rightarrow> f),
     ae_level = DEBUG, ae_formatter = pattern\<rparr>"

definition entry_of :: "'f logging \<Rightarrow> nat \<Rightarrow> LoggerEntry" where
  "entry_of s i = \<lparr>le_name = lg_name (logger_at s i), le_level = lg_level (logger_at s i),
     le_appenders = map (\<lambda>a. read_back (ap_file (appender_at s a)) (lf_pattern (ap_formatter (appender_at s a))))
       (lg_appenders (logger_at s i))\<rparr>"

lemma map_filter_Some [simp]: "List.map_filter (\<lambda>x. x) (map Some xs) = xs"
  by (induction xs) simp_all

lemma map_set_last:
  "\<forall>k' \<in> set (map_keys m). k' < k \<Longrightarrow> map_find (<) k m = None \<and> map_set (<) k v m = m @ [(k :: string, v)]"
  by (induction m) (auto simp: same_key_def order_less_imp_not_less)

lemma insert_sorted:
  "sorted_wrt (<) (map le_name es) \<Longrightarrow> fold entry_insert es [] = map (\<lambda>e. (le_name e, e)) es"
proof (induction es rule: rev_induct)
  case (snoc e es)
  then have "\<forall>k' \<in> set (map_keys (map (\<lambda>e. (le_name e, e)) es)). k' < le_name e"
    by (auto simp: sorted_wrt_append map_keys_def)
  from map_set_last [OF this, of e] snoc show ?case by (simp add: entry_insert_def sorted_wrt_append)
qed simp

text \<open>What the code relies on of the YAML library: a document read back, access to a map by key, and strings.\<close>

locale yaml_fields =
  fixes L :: "'b libs" and Y :: fields
  assumes load_dump: "yaml_load L (yaml_dump L n) = Some n"
    and field_map: "y_field Y (Map kvs) k = Some (map_of kvs (Scalar k))"
    and string_scalar: "y_string Y (Scalar s) = Some s"
begin

lemma convert_appender_node: "convert_appender Y (appender_node fo l pattern) = Some (Some (read_back fo pattern))"
  by (cases fo) (simp_all add: appender_node_def convert_appender_def with_formatter_def field_map string_scalar read_back_def)

lemma convert_logger_node:
  assumes "map (convert_appender Y) as = map Some os"
  shows "LoggerEntry_from_string L Y (yaml_dump L (logger_node name level as))
    = Some \<lparr>le_name = name, le_level = level, le_appenders = List.map_filter (\<lambda>x. x) os\<rparr>"
proof -
  have "map (\<lambda>i. convert_appender Y (as ! i)) [0..<length as] = map (convert_appender Y) as"
    by (rule nth_equalityI) auto
  then have "collect (map (\<lambda>i. convert_appender Y (as ! i)) [0..<length as]) = Some os"
    using assms by (simp add: collect_Some)
  then have "convert_appenders L Y (logger_node name level as) = Some (List.map_filter (\<lambda>x. x) os)"
    using assms by (auto simp: convert_appenders_def logger_node_def field_map)
  then show ?thesis
    by (simp add: LoggerEntry_from_string_def load_dump convert_name_def convert_level_def logger_node_def field_map string_scalar)
qed

lemma load_logger:
  assumes "\<forall>a \<in> set (lg_appenders (logger_at s i)). ap_level (appender_at s a) \<noteq> None"
  shows "\<exists>n. load_text L (Logger_to_YAML_string L i s) = Some n \<and> LoggerEntry_from_string L Y (yaml_dump L n) = Some (entry_of s i)"
proof -
  let ?node = "\<lambda>a. appender_node (ap_file (appender_at s a)) (the (ap_level (appender_at s a))) (lf_pattern (ap_formatter (appender_at s a)))"
  let ?as = "lg_appenders (logger_at s i)"
  have "map (\<lambda>a. load_text L (LogAppender_to_YAML_string L (appender_at s a))) ?as = map Some (map ?node ?as)"
    using assms by (auto simp: LogAppender_to_YAML_string_def load_text_def load_dump)
  then have "collect (map (\<lambda>a. load_text L (LogAppender_to_YAML_string L (appender_at s a))) ?as) = Some (map ?node ?as)"
    by (simp only: collect_Some)
  then have t: "Logger_to_YAML_string L i s
      = Some (yaml_dump L (logger_node (lg_name (logger_at s i)) (lg_level (logger_at s i)) (map ?node ?as)))"
    by (simp add: Logger_to_YAML_string_def)
  have "map (convert_appender Y) (map ?node ?as) = map Some (map Some (le_appenders (entry_of s i)))"
    by (simp add: convert_appender_node entry_of_def)
  from convert_logger_node [OF this, of "lg_name (logger_at s i)" "lg_level (logger_at s i)", unfolded map_filter_Some]
  show ?thesis using t by (simp add: load_text_def load_dump entry_of_def)
qed

lemma manager_yaml:
  assumes "mgr_wf s" and "\<forall>(n, i) \<in> set (loggers s). \<forall>a \<in> set (lg_appenders (logger_at s i)). ap_level (appender_at s a) \<noteq> None"
  shows "\<exists>text. LoggerManager_to_YAML_string L s = Some text
    \<and> logs_from_string L Y text = Some (map (\<lambda>(n, i). (n, entry_of s i)) (loggers s))"
proof -
  define node where "node i = (SOME n. load_text L (Logger_to_YAML_string L i s) = Some n
    \<and> LoggerEntry_from_string L Y (yaml_dump L n) = Some (entry_of s i))" for i
  have node: "load_text L (Logger_to_YAML_string L i s) = Some (node i)"
      "LoggerEntry_from_string L Y (yaml_dump L (node i)) = Some (entry_of s i)" if "(n, i) \<in> set (loggers s)" for n i
  proof -
    have "\<forall>a \<in> set (lg_appenders (logger_at s i)). ap_level (appender_at s a) \<noteq> None" using assms(2) that by auto
    from someI_ex [OF load_logger [OF this]]
    show "load_text L (Logger_to_YAML_string L i s) = Some (node i)"
      "LoggerEntry_from_string L Y (yaml_dump L (node i)) = Some (entry_of s i)" by (simp_all add: node_def)
  qed
  let ?ns = "map (\<lambda>(n, i). node i) (loggers s)" let ?es = "map (\<lambda>(n, i). entry_of s i) (loggers s)"
  have "loggers s \<noteq> []" using assms(1) by (auto simp: mgr_wf_def)
  have "map (\<lambda>(n, i). load_text L (Logger_to_YAML_string L i s)) (loggers s) = map Some ?ns" using node(1) by auto
  then have "collect (map (\<lambda>(n, i). load_text L (Logger_to_YAML_string L i s)) (loggers s)) = Some ?ns" by (simp only: collect_Some)
  then have t: "LoggerManager_to_YAML_string L s = Some (yaml_dump L (Seq ?ns))"
    using \<open>loggers s \<noteq> []\<close> by (simp add: LoggerManager_to_YAML_string_def)
  have "map (\<lambda>n. LoggerEntry_from_string L Y (yaml_dump L n)) ?ns = map Some ?es" using node(2) by auto
  then have c: "convert_elements L (LoggerEntry_from_string L Y) (yaml_dump L (Seq ?ns)) = Some ?es"
    using convert_elements_seq [OF load_dump, of "LoggerEntry_from_string L Y" ?ns] by (simp add: collect_Some)
  have name: "map le_name ?es = map_keys (loggers s)" using assms(1) by (auto simp: mgr_wf_def map_keys_def entry_of_def)
  then have "fold entry_insert ?es [] = map (\<lambda>e. (le_name e, e)) ?es" using assms(1) by (intro insert_sorted) (simp add: mgr_wf_def)
  moreover have "map (\<lambda>e. (le_name e, e)) ?es = map (\<lambda>(n, i). (n, entry_of s i)) (loggers s)"
    using assms(1) by (auto simp: mgr_wf_def entry_of_def)
  ultimately show ?thesis using t c by (simp add: logs_from_string_def)
qed

end

text \<open>An instance: the flow-style writer and reader, with fields looked up in maps only.\<close>

definition flow_fields :: fields where
  "flow_fields = \<lparr>y_field = (\<lambda>n k. case n of Map kvs \<Rightarrow> Some (map_of kvs (Scalar k)) | _ \<Rightarrow> None),
     y_string = (\<lambda>n. case n of Scalar s \<Rightarrow> Some s | _ \<Rightarrow> None)\<rparr>"

interpretation flow_doc: yaml_fields flow_libs flow_fields
  by unfold_locales (simp_all add: flow_fields_def flow_libs_def flow_load_flow)

text \<open>
  The YAML text of the logger manager reads back as a value of \<open>logs\<close> with one entry per registered
  logger, in the order of their names, with its name and level and with its appenders in order:
  their kind, file and pattern, but not their level, which reads as \<open>DEBUG\<close>.
\<close>

theorem manager_yaml_reads_back:
  assumes "yaml_fields L Y" and "mgr_wf s"
    and "\<forall>(n, i) \<in> set (loggers s). \<forall>a \<in> set (lg_appenders (logger_at s i)). ap_level (appender_at s a) \<noteq> None"
  shows "\<exists>text. LoggerManager_to_YAML_string L s = Some text
    \<and> logs_from_string L Y text = Some (map (\<lambda>(n, i). (n, entry_of s i)) (loggers s))"
  by (rule yaml_fields.manager_yaml [OF assms])

theorem manager_yaml_reads_back_witness:
  "\<exists>text. LoggerManager_to_YAML_string flow_libs (LoggerManager ()) = Some text
     \<and> logs_from_string flow_libs flow_fields text = Some [(''root'', entry_of (LoggerManager ()) 0)]"
  using manager_yaml_reads_back [OF flow_doc.yaml_fields_axioms wf_LoggerManager, of "()"]
  by (simp add: LoggerManager_def mk_StdoutLogAppender_level_def)

end
