(* ===== verification/Env.thy ===== *)
theory Env
  imports Cpp_String Util Ordered
begin

text \<open>
  Program arguments and environment (src/sylar/env.h, env.cpp). The process environment is an
  argument: \<open>getenv\<close> and \<open>setenv\<close> as functions on a state.
\<close>

section \<open>State and operations\<close>

record Env =
  args :: "(string \<times> string) list"
  helps :: "(string \<times> string) list"
  exe :: string
  cwd :: string
  program_name :: string

definition empty_Env :: Env where
  "empty_Env = \<lparr>args = [], helps = [], exe = [], cwd = [], program_name = []\<rparr>"

text \<open>\<open>exe_.substr (0, exe_.find_last_of ('/')) + '/'\<close>; without a slash the whole name is taken.\<close>

definition dir_of :: "string \<Rightarrow> string" where
  "dir_of p = (case find_last_of CHR ''/'' p of None \<Rightarrow> p | Some i \<Rightarrow> take i p) @ ''/''"

text \<open>The loop over the arguments; \<open>now_key\<close> is the option that waits for its value.\<close>

fun parse_args :: "string list \<Rightarrow> string option \<Rightarrow> (string \<times> string) list \<Rightarrow> bool \<times> (string \<times> string) list" where
  "parse_args [] now_key as = (True, as)"
| "parse_args (a # rest) now_key as =
     (if a \<noteq> [] \<and> hd a = CHR ''-''
      then if length a \<le> 1 then (False, as)
           else parse_args rest (Some (tl a)) (case now_key of None \<Rightarrow> as | Some k \<Rightarrow> map_set (<) k [] as)
      else case now_key of
             Some k \<Rightarrow> parse_args rest None (map_set (<) k a as)
           | None \<Rightarrow> (False, as))"

text \<open>
  \<open>link\<close> is what \<open>readlink\<close> gives for the executable (\<open>None\<close> on failure, which leaves the
  buffer of 1024 bytes zero); a name that fills the buffer is not terminated.
\<close>

definition Env_init :: "string option \<Rightarrow> string list \<Rightarrow> Env \<Rightarrow> (Env, bool) outcome" where
  "Env_init link argv e =
     (let path = (case link of None \<Rightarrow> [] | Some p \<Rightarrow> p)
      in if 1024 \<le> length path then (Inl Out_of_bounds, e)
         else let e1 = e\<lparr>exe := path, cwd := dir_of path\<rparr>
              in if argv = [] then (Inl Null_deref, e1)
                 else let (ok, as) = parse_args (tl argv) None (args e)
                      in (Inr ok, e1\<lparr>program_name := hd argv, args := as\<rparr>))"

definition Env_set :: "string \<Rightarrow> string \<Rightarrow> Env \<Rightarrow> Env" where
  "Env_set key val e = e\<lparr>args := map_set (<) key val (args e)\<rparr>"

definition Env_del :: "string \<Rightarrow> Env \<Rightarrow> bool \<times> Env" where
  "Env_del key e = (map_find (<) key (args e) \<noteq> None, e\<lparr>args := map_erase (<) key (args e)\<rparr>)"

definition Env_has :: "string \<Rightarrow> Env \<Rightarrow> bool" where
  "Env_has key e \<longleftrightarrow> map_find (<) key (args e) \<noteq> None"

definition Env_get :: "string \<Rightarrow> string \<Rightarrow> Env \<Rightarrow> string" where
  "Env_get key default_value e = (case map_find (<) key (args e) of Some v \<Rightarrow> v | None \<Rightarrow> default_value)"

definition set_help :: "string \<Rightarrow> string \<Rightarrow> Env \<Rightarrow> Env" where
  "set_help key desc e = e\<lparr>helps := map_set (<) key desc (helps e)\<rparr>"

definition remove_help :: "string \<Rightarrow> Env \<Rightarrow> Env" where
  "remove_help key e = e\<lparr>helps := map_erase (<) key (helps e)\<rparr>"

text \<open>What \<open>print_help\<close> writes; \<open>setw (5)\<close> pads the dash.\<close>

definition print_help :: "Env \<Rightarrow> string" where
  "print_help e = program_name e @ '' Help Manual:'' @ [CHR 0x0A] @ ''[options] ------ usages'' @ [CHR 0x0A]
     @ concat (map (\<lambda>(key, desc). ''    -'' @ key @ '' : '' @ desc @ [CHR 0x0A]) (helps e))"

definition Env_get_env :: "(string \<Rightarrow> 'o \<Rightarrow> string option) \<Rightarrow> string \<Rightarrow> string \<Rightarrow> 'o \<Rightarrow> string" where
  "Env_get_env getenv key default_value w = (case getenv (c_str key) w of None \<Rightarrow> default_value | Some v \<Rightarrow> v)"

definition Env_set_env :: "(string \<Rightarrow> string \<Rightarrow> 'o \<Rightarrow> int \<times> 'o) \<Rightarrow> string \<Rightarrow> string \<Rightarrow> 'o \<Rightarrow> bool \<times> 'o" where
  "Env_set_env setenv key val w = (let (r, w1) = setenv (c_str key) (c_str val) w in (r = 0, w1))"

definition get_absolute_path :: "string \<Rightarrow> Env \<Rightarrow> string" where
  "get_absolute_path path e = (if path = [] then ''/'' else if hd path = CHR ''/'' then path else cwd e @ path)"

section \<open>Properties\<close>

text \<open>Arguments written from options: an option has a name and perhaps a value, which does not start with a dash.\<close>

fun written :: "(string \<times> string option) list \<Rightarrow> string list" where
  "written [] = []"
| "written ((k, None) # os) = (CHR ''-'' # k) # written os"
| "written ((k, Some v) # os) = (CHR ''-'' # k) # v # written os"

definition option_ok :: "string \<times> string option \<Rightarrow> bool" where
  "option_ok x \<longleftrightarrow> fst x \<noteq> [] \<and> (case snd x of None \<Rightarrow> True | Some v \<Rightarrow> v = [] \<or> hd v \<noteq> CHR ''-'')"

text \<open>The options that take effect: all but a last one that has no value.\<close>

fun effective :: "(string \<times> string option) list \<Rightarrow> (string \<times> string) list" where
  "effective [] = []"
| "effective [(k, None)] = []"
| "effective ((k, v) # os) = (k, case v of None \<Rightarrow> [] | Some x \<Rightarrow> x) # effective os"

definition assign :: "(string \<times> string) list \<Rightarrow> (string \<times> string) list \<Rightarrow> (string \<times> string) list" where
  "assign kvs as = fold (\<lambda>(k, v). map_set (<) k v) kvs as"

lemma parse_written:
  "list_all option_ok os \<Longrightarrow> parse_args (written os) None as = (True, assign (effective os) as)"
  "list_all option_ok os \<Longrightarrow> parse_args (written os) (Some k) as
     = (True, if os = [] then as else assign (effective os) (map_set (<) k [] as))"
proof (induction os arbitrary: k as)
  case (Cons x os)
  obtain n v where x: "x = (n, v)" by fastforce
  { case 1
    then show ?case using Cons.IH x by (cases v; cases os) (auto simp: option_ok_def assign_def Suc_le_eq)
  next
    case 2
    then show ?case using Cons.IH x by (cases v; cases os) (auto simp: option_ok_def assign_def Suc_le_eq) }
qed (simp_all add: assign_def)

lemma assign_find: "map_find (<) k (assign kvs as) = (case map_of (rev kvs) k of Some v \<Rightarrow> Some v | None \<Rightarrow> map_find (<) k as)"
proof (induction kvs arbitrary: as)
  case (Cons x kvs)
  then show ?case
    by (cases x) (simp add: assign_def std_less.map_find_set map_add_def split: option.splits)
qed (simp add: assign_def)

text \<open>
  Arguments round trip: for every list of options, each a non-empty name with or without a
  value that does not start with a dash, \<open>init\<close> on the written arguments succeeds, and \<open>get\<close> returns
  for each name the value of its last occurrence (empty for an option without one), except that an
  option without a value at the very end is lost; names that are not given have the default.
\<close>

theorem args_roundtrip:
  assumes "list_all option_ok os" and "link = Some p" and "length p < 1024"
  shows "\<exists>e. Env_init link (prog # written os) empty_Env = (Inr True, e) \<and> program_name e = prog
    \<and> (\<forall>k d. Env_get k d e = (case map_of (rev (effective os)) k of None \<Rightarrow> d | Some v \<Rightarrow> v))
    \<and> (\<forall>k. Env_has k e \<longleftrightarrow> k \<in> fst ` set (effective os))"
proof -
  let ?e = "\<lparr>args = assign (effective os) [], helps = [], exe = p, cwd = dir_of p, program_name = prog\<rparr>"
  have "Env_init link (prog # written os) empty_Env = (Inr True, ?e)"
    using assms parse_written(1) [OF assms(1), of "[]"] by (simp add: Env_init_def empty_Env_def)
  moreover have "Env_get k d ?e = (case map_of (rev (effective os)) k of None \<Rightarrow> d | Some v \<Rightarrow> v)" for k d
    by (simp add: Env_get_def assign_find split: option.splits)
  moreover have "Env_has k ?e \<longleftrightarrow> k \<in> fst ` set (effective os)" for k
  proof -
    have "map_of (rev (effective os)) k = None \<longleftrightarrow> k \<notin> fst ` set (effective os)" by (simp add: map_of_eq_None_iff)
    then show ?thesis by (cases "map_of (rev (effective os)) k") (simp_all add: Env_has_def assign_find)
  qed
  ultimately show ?thesis by (intro exI [of _ ?e]) simp
qed

theorem args_roundtrip_witness:
  "\<exists>e. Env_init (Some ''/bin/server'') [''server'', ''-c'', ''conf'', ''-v'', ''-d''] empty_Env = (Inr True, e)
     \<and> Env_get ''c'' [] e = ''conf'' \<and> Env_has ''v'' e \<and> \<not> Env_has ''d'' e"
  using args_roundtrip [of "[(''c'', Some ''conf''), (''v'', None), (''d'', None)]" "Some ''/bin/server''" "''/bin/server''" "''server''"]
  by (auto simp: option_ok_def)

end
