(* ===== verification/Ragel.thy ===== *)
theory Ragel
  imports Cpp_String
begin

text \<open>
  The part of the Ragel language that the grammars of the program (src/sylar/uri.rl, src/sylar/http/http11_parser.rl)
  are written in: regular expressions over bytes with entering (\<open>r > a\<close>), finishing (\<open>r @ a\<close>) and leaving
  actions (\<open>r % a\<close>) and priorities, and how the machine that is built from them runs. A state of the machine is the list of expressions that
  are still to be matched, one for each way to read the text so far; a transition runs the actions of all these ways,
  but for those that another one overrides by its priority.
\<close>

section \<open>Expressions\<close>

text \<open>A class of bytes is a list of ranges of codes.\<close>

type_synonym byte_class = "(nat \<times> nat) list"

definition in_class :: "byte_class \<Rightarrow> char \<Rightarrow> bool" where
  "in_class k c \<longleftrightarrow> list_ex (\<lambda>(l, h). l \<le> byte c \<and> byte c \<le> h) k"

text \<open>The built-in classes.\<close>

definition digits :: byte_class where "digits = [(48, 57)]"
definition letters :: byte_class where "letters = [(65, 90), (97, 122)]"
definition xdigits :: byte_class where "xdigits = [(48, 57), (65, 70), (97, 102)]"
definition non_ascii :: byte_class where "non_ascii = [(128, 255)]"

definition one_of :: "string \<Rightarrow> byte_class" where
  "one_of s = map (\<lambda>c. (byte c, byte c)) s"

datatype 'a machine =
    Lambda
  | Class byte_class
  | Cat "'a machine" "'a machine"
  | Or "'a machine" "'a machine"
  | Star "'a machine"
  | Entering 'a "'a machine"
  | Leaving 'a "'a machine"
  | Finishing 'a "'a machine"
  | Prio_all nat nat "'a machine"
  | Prio_enter nat nat "'a machine"
  | Prio_finish nat nat "'a machine"

definition sym :: "char \<Rightarrow> 'a machine" where
  "sym c = Class [(byte c, byte c)]"

primrec lit :: "string \<Rightarrow> 'a machine" where
  "lit [] = Lambda"
| "lit (c # cs) = (if cs = [] then sym c else Cat (sym c) (lit cs))"

definition Opt :: "'a machine \<Rightarrow> 'a machine" where
  "Opt r = Or r Lambda"

definition Plus :: "'a machine \<Rightarrow> 'a machine" where
  "Plus r = Cat r (Star r)"

primrec Times :: "nat \<Rightarrow> 'a machine \<Rightarrow> 'a machine" where
  "Times 0 r = Lambda"
| "Times (Suc n) r = Cat r (Times n r)"

primrec Up_to :: "nat \<Rightarrow> 'a machine \<Rightarrow> 'a machine" where
  "Up_to 0 r = Lambda"
| "Up_to (Suc n) r = Opt (Cat r (Up_to n r))"

text \<open>
  The guarded concatenations \<open>r :> s\<close> and \<open>r :>> s\<close>: beginning \<open>s\<close>, or completing it, overrides staying in \<open>r\<close>. The number
  is the name of the priority.
\<close>

definition entry_guarded :: "nat \<Rightarrow> 'a machine \<Rightarrow> 'a machine \<Rightarrow> 'a machine" where
  "entry_guarded k r s = Cat (Prio_all k 0 r) (Prio_enter k 1 s)"

definition finish_guarded :: "nat \<Rightarrow> 'a machine \<Rightarrow> 'a machine \<Rightarrow> 'a machine" where
  "finish_guarded k r s = Cat (Prio_all k 0 r) (Prio_finish k 1 s)"

text \<open>
  Actions of one transition run in the order in which the expressions embed them: the entering action of
  an expression, then those inside it from left to right, then its finishing or leaving action.
\<close>

primrec number :: "'a machine \<Rightarrow> nat \<Rightarrow> (nat \<times> 'a) machine \<times> nat" where
  "number Lambda n = (Lambda, n)"
| "number (Class k) n = (Class k, n)"
| "number (Cat r s) n = (let (r', n1) = number r n; (s', n2) = number s n1 in (Cat r' s', n2))"
| "number (Or r s) n = (let (r', n1) = number r n; (s', n2) = number s n1 in (Or r' s', n2))"
| "number (Star r) n = (let (r', n1) = number r n in (Star r', n1))"
| "number (Entering a r) n = (let (r', n1) = number r (n + 1) in (Entering (n, a) r', n1))"
| "number (Leaving a r) n = (let (r', n1) = number r n in (Leaving (n1, a) r', n1 + 1))"
| "number (Finishing a r) n = (let (r', n1) = number r n in (Finishing (n1, a) r', n1 + 1))"
| "number (Prio_all k v r) n = (let (r', n1) = number r n in (Prio_all k v r', n1))"
| "number (Prio_enter k v r) n = (let (r', n1) = number r n in (Prio_enter k v r', n1))"
| "number (Prio_finish k v r) n = (let (r', n1) = number r n in (Prio_finish k v r', n1))"

section \<open>Running\<close>

primrec final :: "'a machine \<Rightarrow> bool" where
  "final Lambda = True"
| "final (Class k) = False"
| "final (Cat r s) = (final r \<and> final s)"
| "final (Or r s) = (final r \<or> final s)"
| "final (Star r) = True"
| "final (Entering a r) = final r"
| "final (Leaving a r) = final r"
| "final (Finishing a r) = final r"
| "final (Prio_all k v r) = final r"
| "final (Prio_enter k v r) = final r"
| "final (Prio_finish k v r) = final r"

text \<open>The leaving actions that are due when the machine is left in a final state.\<close>

primrec due :: "'a machine \<Rightarrow> 'a list" where
  "due Lambda = []"
| "due (Class k) = []"
| "due (Cat r s) = (if final r \<and> final s then due r @ due s else [])"
| "due (Or r s) = due r @ due s"
| "due (Star r) = due r"
| "due (Entering a r) = due r"
| "due (Leaving a r) = (if final r then due r @ [a] else [])"
| "due (Finishing a r) = due r"
| "due (Prio_all k v r) = due r"
| "due (Prio_enter k v r) = due r"
| "due (Prio_finish k v r) = due r"

text \<open>The ways to read one byte: the actions on the transition, its priorities and what is left to match.\<close>

type_synonym 'a move = "'a list \<times> (nat \<times> nat) list \<times> 'a machine"

fun moves :: "char \<Rightarrow> 'a machine \<Rightarrow> 'a move list" where
  "moves c Lambda = []"
| "moves c (Class k) = (if in_class k c then [([], [], Lambda)] else [])"
| "moves c (Cat r s) =
     map (\<lambda>(as, ps, r'). (as, ps, if r' = Lambda then s else Cat r' s)) (moves c r)
     @ (if final r then map (\<lambda>(as, ps, s'). (due r @ as, ps, s')) (moves c s) else [])"
| "moves c (Or r s) = moves c r @ moves c s"
| "moves c (Star r) =
     map (\<lambda>(as, ps, r'). (if final r then due r @ as else as, ps, if r' = Lambda then Star r else Cat r' (Star r))) (moves c r)"
| "moves c (Entering a r) = map (\<lambda>(as, ps, r'). (a # as, ps, r')) (moves c r)"
| "moves c (Leaving a r) = map (\<lambda>(as, ps, r'). (as, ps, Leaving a r')) (moves c r)"
| "moves c (Finishing a r) = map (\<lambda>(as, ps, r'). (if final r' then as @ [a] else as, ps, Finishing a r')) (moves c r)"
| "moves c (Prio_all k v r) = map (\<lambda>(as, ps, r'). (as, (k, v) # ps, Prio_all k v r')) (moves c r)"
| "moves c (Prio_enter k v r) = map (\<lambda>(as, ps, r'). (as, (k, v) # ps, r')) (moves c r)"
| "moves c (Prio_finish k v r) = map (\<lambda>(as, ps, r'). (as, if final r' then (k, v) # ps else ps, Prio_finish k v r')) (moves c r)"

definition overrides :: "'a move \<Rightarrow> 'a move \<Rightarrow> bool" where
  "overrides m' m \<longleftrightarrow> list_ex (\<lambda>(k, v). list_ex (\<lambda>(k', v'). k = k' \<and> v < v') (fst (snd m'))) (fst (snd m))"

definition unless_overridden :: "'a move list \<Rightarrow> 'a move list" where
  "unless_overridden ms = filter (\<lambda>m. \<not> list_ex (\<lambda>m'. overrides m' m) ms) ms"

text \<open>All actions of a transition, in order and without repetition.\<close>

definition in_order :: "(nat \<times> 'a) list \<Rightarrow> 'a list" where
  "in_order as = rev (remdups (rev (map snd (sort_key fst as))))"

type_synonym 'a state = "(nat \<times> 'a) machine list"

definition step :: "char \<Rightarrow> 'a state \<Rightarrow> 'a list \<times> 'a state" where
  "step c S = (let ms = unless_overridden (concat (map (moves c) S)) in (in_order (concat (map fst ms)), remdups (map (snd \<circ> snd) ms)))"

definition start :: "'a machine \<Rightarrow> 'a state" where
  "start m = [fst (number m 0)]"

definition accepting :: "'a state \<Rightarrow> bool" where
  "accepting S \<longleftrightarrow> list_ex final S"

definition at_eof :: "'a state \<Rightarrow> 'a list" where
  "at_eof S = in_order (concat (map due S))"

text \<open>
  The run over a text: an action gets the position it runs at and may throw. When no way is left the
  machine stops in its error state; at the end of the text the actions due in the state run.
\<close>

primrec perform :: "('a \<Rightarrow> nat \<Rightarrow> 's \<Rightarrow> 'e + 's) \<Rightarrow> 'a list \<Rightarrow> nat \<Rightarrow> 's \<Rightarrow> 'e + 's" where
  "perform act [] p s = Inr s"
| "perform act (a # as) p s = (case act a p s of Inl e \<Rightarrow> Inl e | Inr s' \<Rightarrow> perform act as p s')"

primrec exec :: "('a \<Rightarrow> nat \<Rightarrow> 's \<Rightarrow> 'e + 's) \<Rightarrow> string \<Rightarrow> nat \<Rightarrow> 'a state \<Rightarrow> 's \<Rightarrow> 'e + 'a state \<times> 's" where
  "exec act [] p S s = (case perform act (at_eof S) p s of Inl e \<Rightarrow> Inl e | Inr s' \<Rightarrow> Inr (S, s'))"
| "exec act (c # cs) p S s =
     (let (as, S') = step c S
      in if S' = [] then Inr ([], s)
         else case perform act as p s of Inl e \<Rightarrow> Inl e | Inr s' \<Rightarrow> exec act cs (p + 1) S' s')"

text \<open>
  The run of a machine that is fed piece by piece: no actions at the end of a piece, and an action may leave the
  machine (\<open>fbreak\<close>, the flag) after the byte it runs at. The result has the position, the state and what the actions made.
\<close>

primrec perform_until :: "('a \<Rightarrow> nat \<Rightarrow> 's \<Rightarrow> bool \<times> 's) \<Rightarrow> 'a list \<Rightarrow> nat \<Rightarrow> 's \<Rightarrow> bool \<times> 's" where
  "perform_until act [] p s = (False, s)"
| "perform_until act (a # as) p s = (let (b, s') = act a p s in if b then (True, s') else perform_until act as p s')"

primrec feed :: "('a \<Rightarrow> nat \<Rightarrow> 's \<Rightarrow> bool \<times> 's) \<Rightarrow> string \<Rightarrow> nat \<Rightarrow> 'a state \<Rightarrow> 's \<Rightarrow> nat \<times> 'a state \<times> 's" where
  "feed act [] p S s = (p, S, s)"
| "feed act (c # cs) p S s =
     (let (as, S') = step c S
      in if S' = [] then (p, [], s)
         else let (b, s') = perform_until act as p s
              in if b then (p + 1, S', s') else feed act cs (p + 1) S' s')"

section \<open>Facts\<close>

lemma no_priorities [simp]: "\<forall>m \<in> set ms. fst (snd m) = [] \<Longrightarrow> unless_overridden ms = ms"
  by (auto simp: unless_overridden_def overrides_def list_ex_iff filter_id_conv)

lemma number_sym [simp]: "number (sym c) n = (sym c, n)" by (simp add: sym_def)
lemma number_lit [simp]: "number (lit s) n = (lit s, n)" by (induction s) simp_all
lemma number_Times [simp]: "(\<And>n. number r n = (r', n)) \<Longrightarrow> number (Times k r) n = (Times k r', n)"
  by (induction k arbitrary: n) simp_all
lemma number_Up_to [simp]: "(\<And>n. number r n = (r', n)) \<Longrightarrow> number (Up_to k r) n = (Up_to k r', n)"
  by (induction k arbitrary: n) (simp_all add: Opt_def)

lemma in_class_simps [simp]:
  "in_class [] c = False" "in_class ((l, h) # k) c = (l \<le> byte c \<and> byte c \<le> h \<or> in_class k c)"
  "in_class (k @ k') c = (in_class k c \<or> in_class k' c)"
  by (auto simp: in_class_def)

lemma in_one_of [simp]: "in_class (one_of s) c = (c \<in> set s)"
  by (induction s) (auto simp: one_of_def le_antisym dest: byte_inject [THEN iffD1])

lemma moves_sym [simp]: "moves c (sym d) = (if c = d then [([], [], Lambda)] else [])"
  by (auto simp: sym_def dest: byte_inject [THEN iffD1])

lemma sym_simps [simp]: "\<not> final (sym c)" "due (sym c) = []" "sym c \<noteq> Lambda" "Lambda \<noteq> sym c"
  by (simp_all add: sym_def)

lemma exec_step:
  assumes "step c S = (as, S')" and "S' \<noteq> []" and "perform act as p s = Inr s'"
  shows "exec act (c # cs) p S s = exec act cs (p + 1) S' s'"
  using assms by simp

lemma exec_loop:
  assumes "\<forall>c \<in> set xs. step c S = ([], S)" and "S \<noteq> []"
  shows "exec act (xs @ cs) p S s = exec act cs (p + length xs) S s"
  using assms by (induction xs arbitrary: p) simp_all

text \<open>A part of the text whose first byte runs an action.\<close>

lemma exec_part:
  assumes "xs \<noteq> []" and "step (hd xs) S = (as, S')" and "S' \<noteq> []" and "perform act as p s = Inr s'"
    and "\<forall>c \<in> set (tl xs). step c S' = ([], S')"
  shows "exec act (xs @ cs) p S s = exec act cs (p + length xs) S' s'"
proof -
  have "exec act (xs @ cs) p S s = exec act (tl xs @ cs) (p + 1) S' s'"
    using exec_step [OF assms(2-4)] assms(1) by (cases xs) simp_all
  also have "\<dots> = exec act cs (p + 1 + length (tl xs)) S' s'" by (rule exec_loop [OF assms(5,3)])
  finally show ?thesis using assms(1) by (cases xs) simp_all
qed


lemma feed_bound: "p \<le> fst (feed act cs p S s) \<and> fst (feed act cs p S s) \<le> p + length cs"
proof (induction cs arbitrary: p S s)
  case (Cons c cs)
  obtain as S' where st: "step c S = (as, S')" by (metis prod.exhaust)
  obtain b s' where pf: "perform_until act as p s = (b, s')" by (metis prod.exhaust)
  show ?case using st pf Cons.IH [of "p + 1" S' s'] by auto
qed simp

lemma feed_step:
  assumes "step c S = (as, S')" and "S' \<noteq> []" and "perform_until act as p s = (False, s')"
  shows "feed act (c # cs) p S s = feed act cs (p + 1) S' s'"
  using assms by simp

lemma feed_loop:
  assumes "\<forall>c \<in> set xs. step c S = ([], S)" and "S \<noteq> []"
  shows "feed act (xs @ cs) p S s = feed act cs (p + length xs) S s"
  using assms by (induction xs arbitrary: p) simp_all

lemma feed_part:
  assumes "xs \<noteq> []" and "step (hd xs) S = (as, S')" and "S' \<noteq> []" and "perform_until act as p s = (False, s')"
    and "\<forall>c \<in> set (tl xs). step c S' = ([], S')"
  shows "feed act (xs @ cs) p S s = feed act cs (p + length xs) S' s'"
proof -
  have "feed act (xs @ cs) p S s = feed act (tl xs @ cs) (p + 1) S' s'"
    using feed_step [OF assms(2-4)] assms(1) by (cases xs) simp_all
  also have "\<dots> = feed act cs (p + 1 + length (tl xs)) S' s'" by (rule feed_loop [OF assms(5,3)])
  finally show ?thesis using assms(1) by (cases xs) simp_all
qed

text \<open>What every action keeps that runs inside the piece holds at its end.\<close>

lemma feed_keeps:
  assumes "\<And>a p s. p < n \<Longrightarrow> I s \<Longrightarrow> I (snd (act a p s))"
  shows "p + length cs \<le> n \<Longrightarrow> I s \<Longrightarrow> I (snd (snd (feed act cs p S s)))"
proof (induction cs arbitrary: p S s)
  case (Cons c cs)
  have "I s \<Longrightarrow> I (snd (perform_until act as p s))" for as s
    by (induction as arbitrary: s) (use assms [of p] Cons.prems(1) in \<open>auto simp: Let_def case_prod_beta\<close>)
  with Cons show ?case by (simp add: Let_def case_prod_beta)
qed simp

end
