(* ===== verification/Uri.thy ===== *)
theory Uri
  imports Ragel Address
begin

text \<open>
  URIs (src/sylar/uri.h, uri.rl): the class, the grammar with its actions, the parser \<open>create\<close> that runs the machine
  of the grammar, and the printed form.
\<close>

section \<open>The class\<close>

record URI =
  uri_port :: u16
  uri_scheme :: string
  uri_user :: string
  uri_host :: string
  uri_path :: string
  uri_query :: string
  uri_fragment :: string

definition mk_URI :: URI where
  "mk_URI = \<lparr>uri_port = 0, uri_scheme = [], uri_user = [], uri_host = [], uri_path = [], uri_query = [], uri_fragment = []\<rparr>"

definition is_default_port :: "URI \<Rightarrow> bool" where
  "is_default_port u =
     (if uri_port u = 0 then True
      else if uri_scheme u = ''http'' \<or> uri_scheme u = ''ws'' then uri_port u = 80
      else if uri_scheme u = ''https'' \<or> uri_scheme u = ''wss'' then uri_port u = 443
      else False)"

definition URI_get_path :: "URI \<Rightarrow> string" where
  "URI_get_path u = (if uri_path u = [] then ''/'' else uri_path u)"

definition URI_get_port :: "URI \<Rightarrow> u16" where
  "URI_get_port u =
     (if uri_port u \<noteq> 0 then uri_port u
      else if uri_scheme u = ''http'' \<or> uri_scheme u = ''ws'' then 80
      else if uri_scheme u = ''https'' \<or> uri_scheme u = ''wss'' then 443
      else uri_port u)"

definition URI_to_string :: "URI \<Rightarrow> string" where
  "URI_to_string u =
     uri_scheme u @ ''://'' @ uri_user u @ (if uri_user u = [] then [] else ''@'') @ uri_host u
     @ (if is_default_port u then [] else '':'' @ dec (unat (uri_port u)))
     @ URI_get_path u @ (if uri_query u = [] then [] else ''?'') @ uri_query u
     @ (if uri_fragment u = [] then [] else ''#'') @ uri_fragment u"

text \<open>The lookup of a host with the default arguments of \<open>lookup_ip_address\<close>.\<close>

definition URI_get_address :: "resolver \<Rightarrow> URI \<Rightarrow> IPAddress option" where
  "URI_get_address getaddrinfo u =
     map_option (set_port (URI_get_port u)) (lookup_first_ip_address getaddrinfo (uri_host u) 0 0)"

section \<open>The grammar\<close>

datatype uri_action =
    Marku | Markh | Save_scheme | Save_port | Save_userinfo | Save_host | Save_path | Save_query | Save_fragment

type_synonym uri_machine = "uri_action machine"

definition sub_delims :: byte_class where "sub_delims = one_of (''!$&'' @ [CHR 0x27] @ ''()*+,;='')"
definition unreserved :: byte_class where "unreserved = letters @ digits @ one_of ''-._~''"

definition pct_encoded :: "'a machine" where
  "pct_encoded = Cat (lit ''%'') (Cat (Class xdigits) (Class xdigits))"

definition scheme :: uri_machine where
  "scheme = Leaving Save_scheme (Entering Marku (Cat (Class letters) (Star (Class (letters @ digits @ one_of ''+-.'')))))"

definition userinfo :: "'a machine" where
  "userinfo = Star (Or (Class (unreserved @ sub_delims @ one_of '':'')) pct_encoded)"

text \<open>The unquoted 2 in the fourth alternative is the byte with code 2.\<close>

definition dec_octet :: "'a machine" where
  "dec_octet = Or (Class digits) (Or (Cat (Class [(49, 57)]) (Class digits))
     (Or (Cat (lit ''1'') (Times 2 (Class digits)))
     (Or (Cat (Class [(2, 2)]) (Cat (Class [(48, 52)]) (Class digits)))
         (Cat (lit ''25'') (Class [(48, 53)])))))"

definition IPv4address :: "'a machine" where
  "IPv4address = Cat dec_octet (Cat (lit ''.'') (Cat dec_octet (Cat (lit ''.'') (Cat dec_octet (Cat (lit ''.'') dec_octet)))))"

definition h16 :: "'a machine" where "h16 = Cat (Class xdigits) (Up_to 3 (Class xdigits))"
definition ls32 :: "'a machine" where "ls32 = Or (Cat h16 (Cat (lit '':'') h16)) IPv4address"

text \<open>\<open>(h16 ":"){n}\<close>, and the groups that may stand before \<open>"::"\<close>.\<close>

definition groups :: "nat \<Rightarrow> 'a machine" where "groups n = Times n (Cat h16 (lit '':''))"

definition before :: "nat \<Rightarrow> 'a machine" where "before n = Opt (Cat (groups n) h16)"

definition IPv6address :: "'a machine" where
  "IPv6address =
     Or (Cat (groups 6) ls32)
    (Or (Cat (lit ''::'') (Cat (groups 5) ls32))
    (Or (Cat (before 0) (Cat (lit ''::'') (Cat (groups 4) ls32)))
    (Or (Cat (before 1) (Cat (lit ''::'') (Cat (groups 3) ls32)))
    (Or (Cat (before 2) (Cat (lit ''::'') (Cat (groups 2) ls32)))
    (Or (Cat (before 3) (Cat (lit ''::'') (Cat (groups 1) ls32)))
    (Or (Cat (before 4) (Cat (lit ''::'') ls32))
    (Or (Cat (before 5) (Cat (lit ''::'') h16))
        (Cat (before 6) (lit ''::'')))))))))"

definition IPvFuture :: "'a machine" where
  "IPvFuture = Cat (lit ''v'') (Cat (Plus (Class xdigits)) (Cat (lit ''.'') (Plus (Class (unreserved @ sub_delims @ one_of '':'')))))"

definition IP_literal :: "'a machine" where
  "IP_literal = Cat (lit ''['') (Cat (Or IPv6address IPvFuture) (lit '']''))"

definition reg_name :: "'a machine" where
  "reg_name = Star (Or (Class (unreserved @ sub_delims)) pct_encoded)"

definition host :: "'a machine" where "host = Or IP_literal (Or IPv4address reg_name)"
definition port :: "'a machine" where "port = Star (Class digits)"

definition authority :: uri_machine where
  "authority = Entering Markh
     (Cat (Opt (Cat (Leaving Save_userinfo userinfo) (lit ''@'')))
     (Cat (Leaving Save_host (Entering Markh host))
          (Opt (Cat (lit '':'') (Leaving Save_port (Entering Markh port))))))"

definition pchar_bytes :: byte_class where
  "pchar_bytes = non_ascii @ unreserved @ sub_delims @ one_of '':@''"

definition pchar :: "'a machine" where "pchar = Or (Class pchar_bytes) pct_encoded"

text \<open>\<open>pchar - ":"\<close>.\<close>

definition pchar_nc :: "'a machine" where
  "pchar_nc = Or (Class (non_ascii @ unreserved @ sub_delims @ one_of ''@'')) pct_encoded"

definition segment :: "'a machine" where "segment = Star pchar"
definition segment_nz :: "'a machine" where "segment_nz = Plus pchar"
definition segment_nz_nc :: "'a machine" where "segment_nz_nc = Plus pchar_nc"

definition segments :: "'a machine" where "segments = Star (Cat (lit ''/'') segment)"

definition path_abempty :: "'a machine" where "path_abempty = Cat (Opt (Cat (lit ''/'') segment)) segments"
definition path_absolute :: "'a machine" where "path_absolute = Cat (lit ''/'') (Opt (Cat segment_nz segments))"
definition path_noscheme :: "'a machine" where "path_noscheme = Cat segment_nz_nc segments"
definition path_rootless :: "'a machine" where "path_rootless = Cat segment_nz segments"
definition path_empty :: "'a machine" where "path_empty = Lambda"

definition query_chars :: "'a machine" where "query_chars = Star (Or pchar (Class (one_of ''/?'')))"

definition query :: uri_machine where "query = Leaving Save_query (Entering Marku query_chars)"
definition fragment :: uri_machine where "fragment = Leaving Save_fragment (Entering Marku query_chars)"

definition hier_part :: uri_machine where
  "hier_part = Or (Cat (lit ''//'') (Cat authority (Leaving Save_path (Entering Markh path_abempty))))
     (Or path_absolute (Or path_rootless path_empty))"

definition relative_part :: uri_machine where
  "relative_part = Or (Cat (lit ''//'') (Cat authority path_abempty)) (Or path_absolute (Or path_noscheme path_empty))"

definition query_part :: uri_machine where "query_part = Opt (Cat (lit ''?'') query)"
definition fragment_part :: uri_machine where "fragment_part = Opt (Cat (lit ''#'') fragment)"

definition relative_ref :: uri_machine where
  "relative_ref = Cat relative_part (Cat query_part fragment_part)"

definition URI_machine :: uri_machine where
  "URI_machine = Cat scheme (Cat (lit '':'') (Cat hier_part (Cat query_part fragment_part)))"

definition URI_reference :: uri_machine where
  "URI_reference = Or URI_machine relative_ref"

section \<open>The actions and the parser\<close>

text \<open>
  The variable \<open>mark\<close> is a pointer into the text, \<open>None\<close> the null pointer. A string built from a null pointer throws;
  \<open>atoi\<close> reads on to the first byte that is no digit, and the port keeps the low 16 bits.
\<close>

record uri_state =
  mark :: "nat option"
  uri :: URI

definition marked :: "string \<Rightarrow> nat \<Rightarrow> (string \<Rightarrow> URI \<Rightarrow> URI) \<Rightarrow> uri_state \<Rightarrow> cpp_error + uri_state" where
  "marked text p put s =
     (case mark s of None \<Rightarrow> Inl Logic_error | Some m \<Rightarrow> Inr (s\<lparr>uri := put (take (p - m) (drop m text)) (uri s)\<rparr>))"

fun uri_act :: "string \<Rightarrow> uri_action \<Rightarrow> nat \<Rightarrow> uri_state \<Rightarrow> cpp_error + uri_state" where
  "uri_act text Marku p s = Inr (s\<lparr>mark := Some p\<rparr>)"
| "uri_act text Markh p s = Inr (s\<lparr>mark := Some p\<rparr>)"
| "uri_act text Save_scheme p s = map_sum id (\<lambda>s. s\<lparr>mark := None\<rparr>) (marked text p (\<lambda>v u. u\<lparr>uri_scheme := v\<rparr>) s)"
| "uri_act text Save_port p s =
     (case mark s of
        None \<Rightarrow> Inl Null_deref
      | Some m \<Rightarrow> Inr (if p = m then s\<lparr>mark := None\<rparr>
                       else s\<lparr>mark := None, uri := (uri s)\<lparr>uri_port := word_of_int (atoi (drop m text))\<rparr>\<rparr>))"
| "uri_act text Save_userinfo p s =
     (if mark s = None then Inr s else map_sum id (\<lambda>s. s\<lparr>mark := None\<rparr>) (marked text p (\<lambda>v u. u\<lparr>uri_user := v\<rparr>) s))"
| "uri_act text Save_host p s = (if mark s = None then Inr s else marked text p (\<lambda>v u. u\<lparr>uri_host := v\<rparr>) s)"
| "uri_act text Save_path p s = map_sum id (\<lambda>s. s\<lparr>mark := None\<rparr>) (marked text p (\<lambda>v u. u\<lparr>uri_path := v\<rparr>) s)"
| "uri_act text Save_query p s = map_sum id (\<lambda>s. s\<lparr>mark := None\<rparr>) (marked text p (\<lambda>v u. u\<lparr>uri_query := v\<rparr>) s)"
| "uri_act text Save_fragment p s = map_sum id (\<lambda>s. s\<lparr>mark := None\<rparr>) (marked text p (\<lambda>v u. u\<lparr>uri_fragment := v\<rparr>) s)"

definition URI_create :: "string \<Rightarrow> cpp_error + URI option" where
  "URI_create text =
     (case exec (uri_act text) text 0 (start URI_reference) \<lparr>mark = None, uri = mk_URI\<rparr> of
        Inl e \<Rightarrow> Inl e
      | Inr (S, s) \<Rightarrow> Inr (if S = [] then None else if accepting S then Some (uri s) else None))"

section \<open>Facts about the machine\<close>

text \<open>Parts without actions are not changed by the numbering.\<close>

lemma number_pct [simp]: "number pct_encoded n = (pct_encoded, n)" by (simp add: pct_encoded_def)
lemma number_userinfo [simp]: "number userinfo n = (userinfo, n)" by (simp add: userinfo_def)
lemma number_reg_name [simp]: "number reg_name n = (reg_name, n)" by (simp add: reg_name_def)
lemma number_dec_octet [simp]: "number dec_octet n = (dec_octet, n)" by (simp add: dec_octet_def)
lemma number_IPv4 [simp]: "number IPv4address n = (IPv4address, n)" by (simp add: IPv4address_def)
lemma number_h16 [simp]: "number h16 n = (h16, n)" by (simp add: h16_def)
lemma number_ls32 [simp]: "number ls32 n = (ls32, n)" by (simp add: ls32_def)
lemma number_groups [simp]: "number (groups k) n = (groups k, n)" by (simp add: groups_def)
lemma number_before [simp]: "number (before k) n = (before k, n)" by (simp add: before_def Opt_def)
lemma number_IPv6 [simp]: "number IPv6address n = (IPv6address, n)" by (simp add: IPv6address_def)
lemma number_IP_literal [simp]: "number IP_literal n = (IP_literal, n)"
  by (simp add: IP_literal_def IPvFuture_def Plus_def)
lemma number_host [simp]: "number host n = (host, n)" by (simp add: host_def)
lemma number_port [simp]: "number port n = (port, n)" by (simp add: port_def)
lemma number_pchar [simp]: "number pchar n = (pchar, n)" by (simp add: pchar_def)
lemma number_pchar_nc [simp]: "number pchar_nc n = (pchar_nc, n)" by (simp add: pchar_nc_def)
lemma number_segment [simp]: "number segment n = (segment, n)" by (simp add: segment_def)
lemma number_segments [simp]: "number segments n = (segments, n)" by (simp add: segments_def)
lemma number_query_chars [simp]: "number query_chars n = (query_chars, n)" by (simp add: query_chars_def)
lemma number_paths [simp]: "number path_abempty n = (path_abempty, n)" "number path_absolute n = (path_absolute, n)"
  "number path_noscheme n = (path_noscheme, n)" "number path_rootless n = (path_rootless, n)" "number path_empty n = (path_empty, n)"
  by (simp_all add: path_abempty_def path_absolute_def path_noscheme_def path_rootless_def path_empty_def
      Opt_def segment_nz_def segment_nz_nc_def Plus_def)

type_synonym numbered = "(nat \<times> uri_action) machine"

definition HOST :: numbered where "HOST = Leaving (5, Save_host) (Entering (4, Markh) host)"
definition PORT :: numbered where "PORT = Leaving (7, Save_port) (Entering (6, Markh) port)"
definition PORT_part :: numbered where "PORT_part = Opt (Cat (lit '':'') PORT)"
definition PATH :: numbered where "PATH = Leaving (9, Save_path) (Entering (8, Markh) path_abempty)"
definition QUERY :: numbered where "QUERY = Leaving (11, Save_query) (Entering (10, Marku) query_chars)"
definition FRAGMENT :: numbered where "FRAGMENT = Leaving (13, Save_fragment) (Entering (12, Marku) query_chars)"
definition FRAGMENT_part :: numbered where "FRAGMENT_part = Opt (Cat (lit ''#'') FRAGMENT)"
definition REST :: numbered where "REST = Cat (Opt (Cat (lit ''?'') QUERY)) FRAGMENT_part"
definition AUTHORITY :: numbered where "AUTHORITY = Entering (2, Markh)
     (Cat (Opt (Cat (Leaving (3, Save_userinfo) userinfo) (lit ''@'')))  (Cat HOST PORT_part))"
definition HIER :: numbered where "HIER = Or (Cat (lit ''//'') (Cat AUTHORITY PATH)) (Or path_absolute (Or path_rootless path_empty))"
definition AFTER_SCHEME :: numbered where "AFTER_SCHEME = Cat (lit '':'') (Cat HIER REST)"
definition SCHEME :: numbered where "SCHEME = Leaving (1, Save_scheme) (Entering (0, Marku) (Cat (Class letters) (Star (Class (letters @ digits @ one_of ''+-.'')))))"

definition REL_REST :: numbered where
  "REL_REST = Cat (Opt (Cat (lit ''?'') (Leaving (21, Save_query) (Entering (20, Marku) query_chars))))
     (Opt (Cat (lit ''#'') (Leaving (23, Save_fragment) (Entering (22, Marku) query_chars))))"

lemma start_eq:
  "\<exists>x. start URI_reference =
     [Or (Cat SCHEME AFTER_SCHEME) (Cat (Or (Cat (lit ''//'') x) (Or path_absolute (Or path_noscheme path_empty))) REL_REST)]"
  by (simp add: start_def URI_reference_def URI_machine_def scheme_def hier_part_def authority_def query_part_def fragment_part_def
     query_def fragment_def relative_ref_def relative_part_def Opt_def HOST_def PORT_def PORT_part_def PATH_def QUERY_def FRAGMENT_def
     FRAGMENT_part_def REST_def AUTHORITY_def HIER_def AFTER_SCHEME_def SCHEME_def REL_REST_def case_prod_beta)

text \<open>Classes of bytes.\<close>

lemma not_special: "in_class (unreserved @ sub_delims) c \<Longrightarrow> c \<notin> set ''%:@/?#[''"
  by (auto simp: unreserved_def sub_delims_def letters_def digits_def byte_def)


lemma no_pchar [simp]: "\<not> in_class pchar_bytes CHR ''/''" "\<not> in_class pchar_bytes CHR ''?''" "\<not> in_class pchar_bytes CHR ''#''"
    "\<not> in_class pchar_bytes CHR ''%''"
  by (simp_all add: pchar_bytes_def non_ascii_def unreserved_def sub_delims_def letters_def digits_def byte_def)

lemma pchar_facts: "in_class pchar_bytes c \<Longrightarrow> c \<noteq> CHR ''%'' \<and> c \<noteq> CHR ''/'' \<and> c \<noteq> CHR ''?'' \<and> c \<noteq> CHR ''#''"
  by (auto simp del: in_class_simps)

lemma plain_finals [simp]: "final userinfo" "final reg_name" "final host" "final port" "final segment" "final segments" "final query_chars"
    "final path_abempty" "\<not> final pct_encoded"
  by (simp_all add: userinfo_def reg_name_def host_def port_def segment_def segments_def query_chars_def path_abempty_def Opt_def pct_encoded_def)

lemma moves_pct: "c \<noteq> CHR ''%'' \<Longrightarrow> moves c pct_encoded = []" by (simp add: pct_encoded_def)

lemma plain_moves:
  assumes "c \<noteq> CHR ''%''"
  shows "moves c userinfo = (if in_class (unreserved @ sub_delims @ one_of '':'') c then [([], [], userinfo)] else [])"
    "moves c reg_name = (if in_class (unreserved @ sub_delims) c then [([], [], reg_name)] else [])"
    "moves c segment = (if in_class pchar_bytes c then [([], [], segment)] else [])"
    "moves c pchar_nc = (if in_class (non_ascii @ unreserved @ sub_delims @ one_of ''@'') c then [([], [], Lambda)] else [])"
    "moves c query_chars = (if in_class pchar_bytes c \<or> c = CHR ''/'' \<or> c = CHR ''?'' then [([], [], query_chars)] else [])"
  using moves_pct [OF assms]
  by (auto simp: userinfo_def reg_name_def segment_def pchar_nc_def query_chars_def pchar_def simp del: in_class_simps)

lemma plain_shapes [simp]: "userinfo \<noteq> Lambda" "reg_name \<noteq> Lambda" "port \<noteq> Lambda" "segment \<noteq> Lambda" "segments \<noteq> Lambda"
    "query_chars \<noteq> Lambda"
  by (simp_all add: userinfo_def reg_name_def port_def segment_def segments_def query_chars_def)

lemma pchar_moves: "in_class pchar_bytes c \<Longrightarrow> moves c segment = [([], [], segment)]"
    "in_class pchar_bytes c \<Longrightarrow> moves c query_chars = [([], [], query_chars)]"
  using plain_moves(3,5) [of c] pchar_facts [of c] by simp_all

lemma moves_port: "moves c port = (if in_class digits c then [([], [], port)] else [])" by (simp add: port_def)

lemma moves_segments: "moves c segments = (if c = CHR ''/'' then [([], [], Cat segment segments)] else [])"
  by (simp add: segments_def segment_def)

lemma moves_path_abempty: "moves c path_abempty = (if c = CHR ''/'' then [([], [], Cat segment segments), ([], [], Cat segment segments)] else [])"
  by (simp add: path_abempty_def Opt_def moves_segments)


lemma plain_due [simp]: "due userinfo = []" "due reg_name = []" "due port = []" "due segment = []" "due segments = []" "due query_chars = []"
    "due path_abempty = []"
  by (simp_all add: userinfo_def reg_name_def port_def segment_def segments_def query_chars_def path_abempty_def Opt_def pct_encoded_def pchar_def)

lemma due_host [simp]: "due host = []"
  by (simp add: host_def IP_literal_def IPv4address_def)

section \<open>The states along a URI\<close>

definition letter :: "char \<Rightarrow> bool" where "letter c \<longleftrightarrow> in_class letters c"
definition scheme_char :: "char \<Rightarrow> bool" where "scheme_char c \<longleftrightarrow> in_class (letters @ digits @ one_of ''+-.'') c"
definition name_char :: "char \<Rightarrow> bool" where "name_char c \<longleftrightarrow> in_class (unreserved @ sub_delims) c"
definition path_char :: "char \<Rightarrow> bool" where "path_char c \<longleftrightarrow> in_class pchar_bytes c \<or> c = CHR ''/''"
definition query_char :: "char \<Rightarrow> bool" where "query_char c \<longleftrightarrow> in_class pchar_bytes c \<or> c = CHR ''/'' \<or> c = CHR ''?''"

lemma final_dec_octet [simp]: "\<not> final dec_octet" "\<not> final pchar_nc" "due pchar_nc = []"
  by (simp_all add: dec_octet_def pchar_nc_def) (simp add: pct_encoded_def)

lemma letter_facts:
  assumes "letter c"
  shows "in_class letters c" "\<not> in_class digits c" "c \<noteq> CHR ''[''" "c \<noteq> CHR ''%''" "byte c \<noteq> 2" "\<not> (49 \<le> byte c \<and> byte c \<le> 57)"
    "c \<noteq> CHR ''1''" "c \<noteq> CHR ''2''" "c \<noteq> CHR ''/''" "c \<noteq> CHR ''?''" "c \<noteq> CHR ''#''" "c \<noteq> CHR '':''" "c \<noteq> CHR ''@''"
  using assms by (auto simp: letter_def letters_def digits_def byte_def)

lemma moves_dec_octet: "letter c \<Longrightarrow> moves c dec_octet = []"
  using letter_facts [of c] by (auto simp: dec_octet_def)

lemma moves_host: "letter c \<Longrightarrow> moves c host = [([], [], reg_name)]"
  using letter_facts [of c] moves_dec_octet [of c]
  by (simp add: host_def IP_literal_def IPv4address_def plain_moves unreserved_def)

definition SCHEME_state :: "uri_action state" where
  "SCHEME_state = [Cat (Leaving (1, Save_scheme) (Star (Class (letters @ digits @ one_of ''+-.'')))) AFTER_SCHEME,
     Cat (Cat (Star pchar_nc) segments) REL_REST]"

definition in_user :: numbered where
  "in_user = Cat (Cat (Cat (Cat (Leaving (3, Save_userinfo) userinfo) (lit ''@'')) (Cat HOST PORT_part)) PATH) REST"

definition in_host :: numbered where
  "in_host = Cat (Cat (Cat (Leaving (5, Save_host) reg_name) PORT_part) PATH) REST"

definition at_port :: numbered where "at_port = Cat (Cat PORT PATH) REST"
definition in_port :: numbered where "in_port = Cat (Cat (Leaving (7, Save_port) port) PATH) REST"
definition in_path :: numbered where "in_path = Cat (Leaving (9, Save_path) (Cat segment segments)) REST"
definition at_query :: numbered where "at_query = Cat QUERY FRAGMENT_part"
definition in_query :: numbered where "in_query = Cat (Leaving (11, Save_query) query_chars) FRAGMENT_part"
definition in_fragment :: numbered where "in_fragment = Leaving (13, Save_fragment) query_chars"

lemma step_start: "letter c \<Longrightarrow> step c (start URI_reference) = ([Marku], SCHEME_state)"
proof -
  assume l: "letter c"
  obtain x where x: "start URI_reference =
     [Or (Cat SCHEME AFTER_SCHEME) (Cat (Or (Cat (lit ''//'') x) (Or path_absolute (Or path_noscheme path_empty))) REL_REST)]"
    using start_eq by blast
  show ?thesis unfolding x using letter_facts [OF l]
    by (simp add: step_def SCHEME_state_def SCHEME_def path_absolute_def path_noscheme_def path_empty_def
      segment_nz_nc_def Plus_def plain_moves moves_segments unreserved_def in_order_def REL_REST_def Opt_def)
qed


definition at_authority :: numbered where "at_authority = Cat (Cat AUTHORITY PATH) REST"
definition at_host :: numbered where "at_host = Cat (Cat (Cat HOST PORT_part) PATH) REST"

lemmas machine_defs = in_user_def in_host_def at_port_def in_port_def in_path_def at_query_def in_query_def in_fragment_def
  at_authority_def at_host_def HOST_def PORT_def PORT_part_def PATH_def QUERY_def FRAGMENT_def FRAGMENT_part_def REST_def Opt_def

lemmas machine_moves = plain_moves moves_port moves_segments moves_path_abempty

lemma step_scheme: "scheme_char c \<Longrightarrow> step c SCHEME_state = ([], SCHEME_state)"
proof -
  assume "scheme_char c"
  then have n: "in_class (letters @ digits @ one_of ''+-.'') c" "c \<notin> set ''%:/?#''"
      "in_class (non_ascii @ unreserved @ sub_delims @ one_of ''@'') c"
    by (auto simp: scheme_char_def letters_def digits_def unreserved_def sub_delims_def byte_def)
  then show ?thesis
    by (simp add: step_def SCHEME_state_def AFTER_SCHEME_def REL_REST_def Opt_def machine_moves in_order_def del: in_class_simps)
qed

lemma step_colon: "step (CHR '':'') SCHEME_state = ([Save_scheme], [Cat HIER REST])"
proof -
  have "\<not> in_class (letters @ digits @ one_of ''+-.'') CHR '':''" "\<not> in_class (non_ascii @ unreserved @ sub_delims @ one_of ''@'') CHR '':''"
    by (simp_all add: letters_def digits_def unreserved_def sub_delims_def non_ascii_def byte_def)
  then show ?thesis
    by (simp add: step_def SCHEME_state_def AFTER_SCHEME_def REL_REST_def Opt_def machine_moves in_order_def del: in_class_simps)
qed

lemma step_slashes: "\<exists>S. step (CHR ''/'') [Cat HIER REST] = ([], S) \<and> S \<noteq> [] \<and> step (CHR ''/'') S = ([], [at_authority])"
  by (simp add: step_def HIER_def path_absolute_def path_rootless_def path_empty_def segment_nz_def Plus_def machine_moves in_order_def
     pchar_def moves_pct at_authority_def REST_def FRAGMENT_part_def Opt_def)

lemma step_authority: "letter c \<Longrightarrow> step c [at_authority] = ([Markh], [in_user, in_host])"
  using letter_facts [of c]
  by (simp add: step_def AUTHORITY_def machine_defs machine_moves moves_host in_order_def unreserved_def)

lemma step_at_host: "letter c \<Longrightarrow> step c [at_host] = ([Markh], [in_host])"
  using letter_facts [of c]
  by (simp add: step_def machine_defs machine_moves moves_host in_order_def unreserved_def)


text \<open>With the user's part still possible or not.\<close>

abbreviation maybe_user :: "numbered list \<Rightarrow> bool" where
  "maybe_user us \<equiv> us = [in_user] \<or> us = []"

lemma name_facts:
  assumes "name_char c"
  shows "in_class (unreserved @ sub_delims) c" "in_class (unreserved @ sub_delims @ one_of '':'') c"
    "c \<noteq> CHR ''%''" "c \<noteq> CHR '':''" "c \<noteq> CHR ''@''" "c \<noteq> CHR ''/''" "c \<noteq> CHR ''?''" "c \<noteq> CHR ''#''"
  using assms not_special [of c] by (simp_all add: name_char_def)

lemma special_chars:
  "\<not> in_class (unreserved @ sub_delims) CHR '':''" "in_class (unreserved @ sub_delims @ one_of '':'') CHR '':''"
  "\<not> in_class (unreserved @ sub_delims) CHR ''@''" "\<not> in_class (unreserved @ sub_delims @ one_of '':'') CHR ''@''"
  "\<not> in_class (unreserved @ sub_delims) CHR ''/''" "\<not> in_class (unreserved @ sub_delims @ one_of '':'') CHR ''/''"
  "\<not> in_class digits CHR ''/''" "\<not> in_class digits CHR ''@''" "\<not> in_class digits CHR '':''"
  by (simp_all add: letters_def digits_def unreserved_def sub_delims_def byte_def)

lemma step_name: "name_char c \<Longrightarrow> maybe_user us \<Longrightarrow> step c (us @ [in_host]) = ([], us @ [in_host])"
  using name_facts [of c]
  by (auto simp: step_def machine_defs machine_moves in_order_def simp del: in_class_simps)

lemma step_at: "step (CHR ''@'') [in_user, in_host] = ([Save_userinfo], [at_host])"
  by (simp add: step_def machine_defs machine_moves in_order_def special_chars del: in_class_simps)

lemma step_host_colon: "maybe_user us \<Longrightarrow> step (CHR '':'') (us @ [in_host]) = ([Save_host], us @ [at_port])"
  by (auto simp: step_def machine_defs machine_moves in_order_def special_chars simp del: in_class_simps)

lemma digit_facts:
  assumes "is_digit c"
  shows "in_class digits c" "in_class (unreserved @ sub_delims @ one_of '':'') c"
    "c \<noteq> CHR ''%''" "c \<noteq> CHR '':''" "c \<noteq> CHR ''@''" "c \<noteq> CHR ''/''" "c \<noteq> CHR ''?''" "c \<noteq> CHR ''#''"
  using assms by (auto simp: is_digit_def digits_def unreserved_def byte_def)

lemma step_digit: "is_digit c \<Longrightarrow> maybe_user us \<Longrightarrow> step c (us @ [at_port]) = ([Markh], us @ [in_port])"
    "is_digit c \<Longrightarrow> maybe_user us \<Longrightarrow> step c (us @ [in_port]) = ([], us @ [in_port])"
  using digit_facts [of c]
  by (auto simp: step_def machine_defs machine_moves in_order_def simp del: in_class_simps)

lemma step_path: "maybe_user us \<Longrightarrow> step (CHR ''/'') (us @ [in_host]) = ([Save_host, Markh], [in_path])"
    "maybe_user us \<Longrightarrow> step (CHR ''/'') (us @ [in_port]) = ([Save_port, Markh], [in_path])"
    "path_char c \<Longrightarrow> step c [in_path] = ([], [in_path])"
  by (auto simp: step_def machine_defs machine_moves in_order_def special_chars path_char_def pchar_moves dest: pchar_facts simp del: in_class_simps)

lemma step_query: "step (CHR ''?'') [in_path] = ([Save_path], [at_query])"
    "query_char c \<Longrightarrow> step c [at_query] = ([Marku], [in_query])" "query_char c \<Longrightarrow> step c [in_query] = ([], [in_query])"
  by (auto simp: step_def machine_defs machine_moves in_order_def query_char_def pchar_moves dest: pchar_facts simp del: in_class_simps)

lemma step_fragment: "step (CHR ''#'') [in_path] = ([Save_path], [FRAGMENT])" "step (CHR ''#'') [in_query] = ([Save_query], [FRAGMENT])"
    "query_char c \<Longrightarrow> step c [FRAGMENT] = ([Marku], [in_fragment])" "query_char c \<Longrightarrow> step c [in_fragment] = ([], [in_fragment])"
  by (auto simp: step_def machine_defs machine_moves in_order_def query_char_def pchar_moves dest: pchar_facts simp del: in_class_simps)

lemma eof_states: "at_eof [in_path] = [Save_path]" "at_eof [in_query] = [Save_query]" "at_eof [in_fragment] = [Save_fragment]"
    "accepting [in_path]" "accepting [in_query]" "accepting [in_fragment]"
  by (simp_all add: at_eof_def accepting_def machine_defs in_order_def)


lemma eof_host: "at_eof [in_user, in_host] = [Save_host, Save_path]" "at_eof [in_user, in_port] = [Save_port, Save_path]" "at_eof [at_query] = [Save_query]"
    "accepting [in_user, in_host]"
  by (simp_all add: at_eof_def accepting_def machine_defs in_order_def)

lemma step_at_port: "step (CHR ''@'') [in_user, in_port] = ([Save_userinfo], [at_host])"
  by (simp add: step_def machine_defs machine_moves in_order_def special_chars del: in_class_simps)

text \<open>The parts of a URI that the parser takes apart again.\<close>

definition scheme_ok :: "string \<Rightarrow> bool" where
  "scheme_ok s \<longleftrightarrow> s \<noteq> [] \<and> letter (hd s) \<and> list_all scheme_char (tl s)"

definition name_ok :: "string \<Rightarrow> bool" where
  "name_ok s \<longleftrightarrow> s \<noteq> [] \<and> letter (hd s) \<and> list_all name_char (tl s)"

definition path_ok :: "string \<Rightarrow> bool" where
  "path_ok s \<longleftrightarrow> s \<noteq> [] \<and> hd s = CHR ''/'' \<and> list_all path_char (tl s)"

definition query_ok :: "string \<Rightarrow> bool" where
  "query_ok s \<longleftrightarrow> list_all query_char s"

abbreviation at :: "nat option \<Rightarrow> URI \<Rightarrow> uri_state" where
  "at m u \<equiv> \<lparr>mark = m, uri = u\<rparr>"

lemma exec_scheme:
  assumes "scheme_ok v" and "text = v @ ''://'' @ rest"
  shows "exec (uri_act text) text 0 (start URI_reference) (at None u) =
    exec (uri_act text) rest (length (v @ ''://'')) [at_authority] (at None (u\<lparr>uri_scheme := v\<rparr>))"
proof -
  obtain S where S: "step (CHR ''/'') [Cat HIER REST] = ([], S)" "S \<noteq> []" "step (CHR ''/'') S = ([], [at_authority])"
    using step_slashes by blast
  have "exec (uri_act text) (v @ ''://'' @ rest) 0 (start URI_reference) (at None u) =
      exec (uri_act text) (''://'' @ rest) (0 + length v) SCHEME_state (at (Some 0) u)"
    using assms(1) step_start step_scheme
    by (intro exec_part) (auto simp: scheme_ok_def list_all_iff SCHEME_state_def)
  also have "\<dots> = exec (uri_act text) rest (length (v @ ''://'')) [at_authority] (at None (u\<lparr>uri_scheme := v\<rparr>))"
    using S step_colon assms(2) by (simp add: marked_def)
  finally show ?thesis using assms(2) by simp
qed

lemma exec_user:
  assumes "name_ok v" and "text = pre @ v @ ''@'' @ rest"
  shows "exec (uri_act text) (v @ ''@'' @ rest) (length pre) [at_authority] (at None u) =
    exec (uri_act text) rest (length pre + length v + 1) [at_host] (at None (u\<lparr>uri_user := v\<rparr>))"
proof -
  have "exec (uri_act text) (v @ ''@'' @ rest) (length pre) [at_authority] (at None u) =
      exec (uri_act text) (''@'' @ rest) (length pre + length v) [in_user, in_host] (at (Some (length pre)) u)"
    using assms(1) step_authority step_name [of _ "[in_user]"]
    by (intro exec_part) (auto simp: name_ok_def list_all_iff)
  then show ?thesis using step_at assms(2) by (simp add: marked_def)
qed

lemma exec_host:
  assumes "name_ok v" and "S = [at_authority] \<and> us = [in_user] \<or> S = [at_host] \<and> us = []"
  shows "exec (uri_act text) (v @ rest) p S (at m u) =
    exec (uri_act text) rest (p + length v) (us @ [in_host]) (at (Some p) u)"
  using assms step_authority step_at_host step_name [of _ us]
  by (intro exec_part) (auto simp: name_ok_def list_all_iff)

lemma exec_path:
  assumes "path_ok v" and "text = pre @ h @ v @ rest" and "maybe_user us"
  shows "exec (uri_act text) (v @ rest) (length pre + length h) (us @ [in_host]) (at (Some (length pre)) u) =
    exec (uri_act text) rest (length pre + length h + length v) [in_path]
      (at (Some (length pre + length h)) (u\<lparr>uri_host := h\<rparr>))"
  using assms step_path
  by (intro exec_part) (auto simp: path_ok_def list_all_iff marked_def)

lemma atoi_digits:
  assumes "d \<noteq> []" and "list_all is_digit d" and "path_ok v"
  shows "atoi (d @ v @ rest) = int (undec d)"
proof -
  obtain c ds where c: "d = c # ds" "is_digit c" using assms(1,2) by (cases d) auto
  then have n: "c \<notin> {CHR '' '', CHR 0x09, CHR 0x0A, CHR 0x0B, CHR 0x0C, CHR 0x0D, CHR ''+'', CHR ''-''}"
    by (auto simp: is_digit_def byte_def)
  obtain w where v: "v = CHR ''/'' # w" using assms(3) by (cases v) (auto simp: path_ok_def)
  have "\<not> is_digit CHR ''/''" by (simp add: is_digit_def byte_def)
  then have "takeWhile is_digit (d @ v @ rest) = d"
    using assms(2) v by (simp add: takeWhile_append2 list_all_iff)
  then show ?thesis using n c by (simp add: atoi_def)
qed

lemma exec_port:
  assumes "h \<noteq> []" and "d \<noteq> []" and "list_all is_digit d" and "path_ok v" and "text = pre @ h @ '':'' @ d @ v @ rest" and "maybe_user us"
  shows "exec (uri_act text) ('':'' @ d @ v @ rest) (length pre + length h) (us @ [in_host]) (at (Some (length pre)) u) =
    exec (uri_act text) rest (length pre + length h + 1 + length d + length v) [in_path]
      (at (Some (length pre + length h + 1 + length d)) (u\<lparr>uri_host := h, uri_port := of_nat (undec d)\<rparr>))"
proof -
  let ?p = "length pre + length h + 1"
  have "exec (uri_act text) ('':'' @ d @ v @ rest) (length pre + length h) (us @ [in_host]) (at (Some (length pre)) u) =
      exec (uri_act text) (d @ v @ rest) ?p (us @ [at_port]) (at (Some (length pre)) (u\<lparr>uri_host := h\<rparr>))"
    using step_host_colon [OF assms(6)] assms(5) by (simp add: marked_def)
  also have "\<dots> = exec (uri_act text) (v @ rest) (?p + length d) (us @ [in_port]) (at (Some ?p) (u\<lparr>uri_host := h\<rparr>))"
    using assms(2,3,6) step_digit(1) [of "hd d" us] step_digit(2) [of _ us]
    by (intro exec_part) (auto simp: list_all_iff dest: list.set_sel(2))
  also have "\<dots> = exec (uri_act text) rest (?p + length d + length v) [in_path]
      (at (Some (?p + length d)) (u\<lparr>uri_host := h, uri_port := of_nat (undec d)\<rparr>))"
    using assms step_path atoi_digits [OF assms(2,3,4), of rest]
    by (intro exec_part) (auto simp: path_ok_def list_all_iff)
  finally show ?thesis .
qed

definition query_text :: "string \<Rightarrow> string" where "query_text q = (if q = [] then [] else ''?'' @ q)"
definition fragment_text :: "string \<Rightarrow> string" where "fragment_text f = (if f = [] then [] else ''#'' @ f)"


lemma exec_fragment:
  assumes "query_ok f" and "f \<noteq> []" and "text = pre @ f"
  shows "exec (uri_act text) f (length pre) [FRAGMENT] (at None u) = Inr ([in_fragment], at None (u\<lparr>uri_fragment := f\<rparr>))"
proof -
  have "exec (uri_act text) (f @ []) (length pre) [FRAGMENT] (at None u) =
      exec (uri_act text) [] (length pre + length f) [in_fragment] (at (Some (length pre)) u)"
    using assms(1,2) step_fragment(3) [of "hd f"] step_fragment(4)
    by (intro exec_part) (auto simp: query_ok_def list_all_iff dest: list.set_sel(2))
  then show ?thesis using assms(3) by (simp add: eof_states marked_def)
qed

lemma exec_query:
  assumes "query_ok q" and "q \<noteq> []" and "query_ok f" and "text = pre @ q @ fragment_text f"
  shows "\<exists>S. exec (uri_act text) (q @ fragment_text f) (length pre) [at_query] (at None u) =
      Inr (S, at None (u\<lparr>uri_query := q, uri_fragment := if f = [] then uri_fragment u else f\<rparr>)) \<and> accepting S"
proof -
  have e: "exec (uri_act text) (q @ fragment_text f) (length pre) [at_query] (at None u) =
      exec (uri_act text) (fragment_text f) (length pre + length q) [in_query] (at (Some (length pre)) u)"
    using assms(1,2) step_query(2) [of "hd q"] step_query(3)
    by (intro exec_part) (auto simp: query_ok_def list_all_iff dest: list.set_sel(2))
  show ?thesis
  proof (cases "f = []")
    case True
    then show ?thesis using e assms(4) by (simp add: fragment_text_def eof_states marked_def)
  next
    case False
    have "exec (uri_act text) (''#'' @ f) (length pre + length q) [in_query] (at (Some (length pre)) u) =
        exec (uri_act text) f (length (pre @ q @ ''#'')) [FRAGMENT] (at None (u\<lparr>uri_query := q\<rparr>))"
      using step_fragment(2) assms(4) by (simp add: marked_def)
    also have "\<dots> = Inr ([in_fragment], at None (u\<lparr>uri_query := q, uri_fragment := f\<rparr>))"
      using exec_fragment [OF assms(3) False, of "text" "pre @ q @ ''#''"] assms(4) False by (simp add: fragment_text_def)
    finally show ?thesis using e False by (simp add: fragment_text_def eof_states)
  qed
qed

lemma exec_rest:
  assumes "query_ok q" and "query_ok f" and "text = pre @ v @ query_text q @ fragment_text f"
    and "uri_query u = []" and "uri_fragment u = []"
  shows "\<exists>S. exec (uri_act text) (query_text q @ fragment_text f) (length pre + length v) [in_path] (at (Some (length pre)) u) =
      Inr (S, at None (u\<lparr>uri_path := v, uri_query := q, uri_fragment := f\<rparr>)) \<and> accepting S"
proof (cases "q = []")
  case True
  show ?thesis
  proof (cases "f = []")
    case True
    with \<open>q = []\<close> assms(3-5) show ?thesis by (simp add: fragment_text_def query_text_def eof_states marked_def)
  next
    case False
    have "exec (uri_act text) (''#'' @ f) (length pre + length v) [in_path] (at (Some (length pre)) u) =
        exec (uri_act text) f (length (pre @ v @ ''#'')) [FRAGMENT] (at None (u\<lparr>uri_path := v\<rparr>))"
      using step_fragment(1) assms(3) True by (simp add: marked_def query_text_def)
    also have "\<dots> = Inr ([in_fragment], at None (u\<lparr>uri_path := v, uri_fragment := f\<rparr>))"
      using exec_fragment [OF assms(2) False, of "text" "pre @ v @ ''#''"] assms(3) False True by (simp add: fragment_text_def query_text_def)
    finally show ?thesis using False True assms(4) by (simp add: fragment_text_def query_text_def eof_states)
  qed
next
  case False
  have "exec (uri_act text) (''?'' @ q @ fragment_text f) (length pre + length v) [in_path] (at (Some (length pre)) u) =
      exec (uri_act text) (q @ fragment_text f) (length (pre @ v @ ''?'')) [at_query] (at None (u\<lparr>uri_path := v\<rparr>))"
    using step_query(1) assms(3) False by (simp add: marked_def query_text_def)
  moreover have "(if f = [] then uri_fragment (u\<lparr>uri_path := v\<rparr>) else f) = f" using assms(5) by simp
  ultimately show ?thesis
    using exec_query [OF assms(1) False assms(2), of "text" "pre @ v @ ''?''" "u\<lparr>uri_path := v\<rparr>"] assms(3) False
    by (simp add: query_text_def del: exec.simps)
qed


section \<open>Whole URIs\<close>

definition user_text :: "string \<Rightarrow> string" where "user_text v = (if v = [] then [] else v @ ''@'')"
definition port_text :: "string \<Rightarrow> string" where "port_text d = (if d = [] then [] else '':'' @ d)"

text \<open>From the authority to the end, whether or not there was a user.\<close>

lemma exec_from_host:
  assumes "name_ok h" and "list_all is_digit d" and "path_ok v" and "query_ok q" and "query_ok f"
    and "text = pre @ h @ port_text d @ v @ query_text q @ fragment_text f"
    and "S = [at_authority] \<and> us = [in_user] \<or> S = [at_host] \<and> us = []"
    and "uri_port u = 0" and "uri_query u = []" and "uri_fragment u = []"
  shows "\<exists>S'. exec (uri_act text) (h @ port_text d @ v @ query_text q @ fragment_text f) (length pre) S (at None u) =
      Inr (S', at None (u\<lparr>uri_host := h, uri_port := of_nat (undec d), uri_path := v, uri_query := q, uri_fragment := f\<rparr>))
      \<and> accepting S'"
proof -
  have us: "maybe_user us" using assms(7) by auto
  note h = exec_host [OF assms(1,7), of "text" "port_text d @ v @ query_text q @ fragment_text f" "length pre" None u]
  show ?thesis
  proof (cases "d = []")
    case True
    then have pt: "port_text d = []" "undec d = 0" by (simp_all add: port_text_def undec_def)
    have "u\<lparr>uri_host := h, uri_port := 0, uri_path := v, uri_query := q, uri_fragment := f\<rparr> =
        u\<lparr>uri_host := h, uri_path := v, uri_query := q, uri_fragment := f\<rparr>"
      using assms(8) by simp
    then show ?thesis
      using h exec_path [OF assms(3) _ us, of "text" pre h "query_text q @ fragment_text f" u] assms(6,9,10) pt
        exec_rest [OF assms(4,5), of "text" "pre @ h" v "u\<lparr>uri_host := h\<rparr>"]
      by (simp del: exec.simps)
  next
    case False
    have "h \<noteq> []" using assms(1) by (simp add: name_ok_def)
    then show ?thesis
      using h exec_port [OF _ False assms(2,3) _ us, of h "text" pre "query_text q @ fragment_text f" u] assms(6,9,10) False
        exec_rest [OF assms(4,5), of "text" "pre @ h @ '':'' @ d" v "u\<lparr>uri_host := h, uri_port := of_nat (undec d)\<rparr>"]
      by (simp add: port_text_def add.assoc del: exec.simps)
  qed
qed

lemma URI_create_parts:
  assumes "scheme_ok sc" and "us = [] \<or> name_ok us" and "name_ok h" and "list_all is_digit d" and "path_ok v" and "query_ok q" and "query_ok f"
  shows "URI_create (sc @ ''://'' @ user_text us @ h @ port_text d @ v @ query_text q @ fragment_text f) =
    Inr (Some \<lparr>uri_port = of_nat (undec d), uri_scheme = sc, uri_user = us, uri_host = h, uri_path = v, uri_query = q, uri_fragment = f\<rparr>)"
  (is "URI_create ?text = _")
proof -
  let ?rest = "h @ port_text d @ v @ query_text q @ fragment_text f"
  let ?u = "mk_URI\<lparr>uri_scheme := sc\<rparr>"
  have s: "exec (uri_act ?text) ?text 0 (start URI_reference) (at None mk_URI) =
      exec (uri_act ?text) (user_text us @ ?rest) (length (sc @ ''://'')) [at_authority] (at None ?u)"
    by (rule exec_scheme [OF assms(1)]) simp
  have "\<exists>S. exec (uri_act ?text) ?text 0 (start URI_reference) (at None mk_URI) =
      Inr (S, at None \<lparr>uri_port = of_nat (undec d), uri_scheme = sc, uri_user = us, uri_host = h, uri_path = v, uri_query = q, uri_fragment = f\<rparr>)
      \<and> accepting S"
  proof (cases "us = []")
    case True
    then show ?thesis
      using s exec_from_host [OF assms(3-7), of ?text "sc @ ''://''" "[at_authority]" "[in_user]" ?u]
      by (simp add: user_text_def mk_URI_def del: exec.simps)
  next
    case False
    then have us: "name_ok us" using assms(2) by simp
    have "exec (uri_act ?text) (us @ ''@'' @ ?rest) (length (sc @ ''://'')) [at_authority] (at None ?u) =
        exec (uri_act ?text) ?rest (length (sc @ ''://'') + length us + 1) [at_host] (at None (?u\<lparr>uri_user := us\<rparr>))"
      using False by (intro exec_user [OF us]) (simp add: user_text_def)
    then show ?thesis
      using s False exec_from_host [OF assms(3-7), of ?text "sc @ ''://'' @ us @ ''@''" "[at_host]" "[]" "?u\<lparr>uri_user := us\<rparr>"]
      by (simp add: user_text_def mk_URI_def del: exec.simps)
  qed
  then show ?thesis by (auto simp: URI_create_def accepting_def)
qed


text \<open>A URI that ends with its host: the mark still stands at the host when the path is saved.\<close>

lemma URI_create_no_path:
  assumes "scheme_ok sc" and "name_ok h"
  shows "URI_create (sc @ ''://'' @ h) =
    Inr (Some \<lparr>uri_port = 0, uri_scheme = sc, uri_user = [], uri_host = h, uri_path = h, uri_query = [], uri_fragment = []\<rparr>)"
  using exec_scheme [OF assms(1), of "sc @ ''://'' @ h" h mk_URI]
    exec_host [OF assms(2), of "[at_authority]" "[in_user]" "sc @ ''://'' @ h" "[]" "length (sc @ ''://'')" None "mk_URI\<lparr>uri_scheme := sc\<rparr>"]
  by (simp add: URI_create_def eof_host marked_def mk_URI_def)

text \<open>A port that ends the URI, and an empty query: the mark is null when the path or the query is saved.\<close>

lemma URI_create_port_end:
  assumes "scheme_ok sc" and "name_ok h" and "d \<noteq> []" and "list_all is_digit d"
  shows "URI_create (sc @ ''://'' @ h @ '':'' @ d) = Inl Logic_error"
proof -
  let ?t = "sc @ ''://'' @ h @ '':'' @ d"
  have "exec (uri_act ?t) (d @ []) (length (sc @ ''://'') + length h + 1) [in_user, at_port] (at (Some (length (sc @ ''://''))) u) =
      exec (uri_act ?t) [] (length (sc @ ''://'') + length h + 1 + length d) [in_user, in_port]
        (at (Some (length (sc @ ''://'') + length h + 1)) u)" for u
    using assms(3,4) step_digit(1) [of "hd d" "[in_user]"] step_digit(2) [of _ "[in_user]"]
    by (intro exec_part) (auto simp: list_all_iff dest: list.set_sel(2))
  then show ?thesis
    using exec_scheme [OF assms(1), of ?t "h @ '':'' @ d" mk_URI] step_host_colon [of "[in_user]"] assms(3)
      exec_host [OF assms(2), of "[at_authority]" "[in_user]" ?t "'':'' @ d" "length (sc @ ''://'')" None "mk_URI\<lparr>uri_scheme := sc\<rparr>"]
    by (simp add: URI_create_def eof_host marked_def)
qed

lemma URI_create_empty_query:
  assumes "scheme_ok sc" and "name_ok h" and "path_ok v"
  shows "URI_create (sc @ ''://'' @ h @ v @ ''?'') = Inl Logic_error"
  using exec_scheme [OF assms(1), of "sc @ ''://'' @ h @ v @ ''?''" "h @ v @ ''?''" mk_URI] step_query(1)
    exec_host [OF assms(2), of "[at_authority]" "[in_user]" "sc @ ''://'' @ h @ v @ ''?''" "v @ ''?''" "length (sc @ ''://'')" None "mk_URI\<lparr>uri_scheme := sc\<rparr>"]
    exec_path [OF assms(3), of "sc @ ''://'' @ h @ v @ ''?''" "sc @ ''://''" h "''?''" "[in_user]" "mk_URI\<lparr>uri_scheme := sc\<rparr>"]
  by (simp add: URI_create_def eof_host marked_def)

lemma exec_at_port:
  assumes "text = pre @ d @ ''@'' @ rest"
  shows "exec (uri_act text) (''@'' @ rest) (length pre + length d) [in_user, in_port] (at (Some (length pre)) u) =
    exec (uri_act text) rest (length pre + length d + 1) [at_host] (at None (u\<lparr>uri_user := d\<rparr>))"
  using assms step_at_port by (simp add: marked_def)

text \<open>A password of digits is taken for a port on the way: the mark moves to it, and it becomes the user.\<close>

lemma URI_create_password:
  assumes "scheme_ok sc" and "name_ok w" and "d \<noteq> []" and "list_all is_digit d" and "name_ok h" and "path_ok v"
  shows "URI_create (sc @ ''://'' @ w @ '':'' @ d @ ''@'' @ h @ v) =
    Inr (Some \<lparr>uri_port = 0, uri_scheme = sc, uri_user = d, uri_host = h, uri_path = v, uri_query = [], uri_fragment = []\<rparr>)"
  (is "URI_create ?t = _")
proof -
  let ?pre = "sc @ ''://'' @ w @ '':''" and ?u = "mk_URI\<lparr>uri_scheme := sc, uri_host := w\<rparr>"
  have 1: "exec (uri_act ?t) ?t 0 (start URI_reference) (at None mk_URI) =
      exec (uri_act ?t) (d @ ''@'' @ h @ v) (length ?pre) [in_user, at_port] (at (Some (length (sc @ ''://''))) ?u)"
    using exec_scheme [OF assms(1), of ?t "w @ '':'' @ d @ ''@'' @ h @ v" mk_URI] step_host_colon [of "[in_user]"]
      exec_host [OF assms(2), of "[at_authority]" "[in_user]" ?t "'':'' @ d @ ''@'' @ h @ v" "length (sc @ ''://'')" None "mk_URI\<lparr>uri_scheme := sc\<rparr>"]
    by (simp add: marked_def)
  have 2: "exec (uri_act ?t) (d @ ''@'' @ h @ v) (length ?pre) [in_user, at_port] (at (Some (length (sc @ ''://''))) ?u) =
      exec (uri_act ?t) (''@'' @ h @ v) (length ?pre + length d) [in_user, in_port] (at (Some (length ?pre)) ?u)"
    using assms(3,4) step_digit(1) [of "hd d" "[in_user]"] step_digit(2) [of _ "[in_user]"]
    by (intro exec_part) (auto simp: list_all_iff dest: list.set_sel(2))
  have 3: "exec (uri_act ?t) (''@'' @ h @ v) (length ?pre + length d) [in_user, in_port] (at (Some (length ?pre)) ?u) =
      exec (uri_act ?t) (h @ v) (length (?pre @ d @ ''@'')) [at_host] (at None (?u\<lparr>uri_user := d\<rparr>))"
    using exec_at_port [of ?t ?pre d "h @ v" ?u] by (simp add: add.assoc del: exec.simps)
  show ?thesis
    using 1 2 3 exec_from_host [OF assms(5), of "[]" v "[]" "[]" ?t "?pre @ d @ ''@''" "[at_host]" "[]" "?u\<lparr>uri_user := d\<rparr>"] assms(6)
    by (auto simp: URI_create_def accepting_def port_text_def query_text_def fragment_text_def undec_def query_ok_def mk_URI_def simp del: exec.simps)
qed

lemmas class_defs = letter_def scheme_char_def name_char_def query_char_def path_char_def letters_def digits_def unreserved_def sub_delims_def
  pchar_bytes_def non_ascii_def byte_def

section \<open>Properties\<close>



definition sample_uri :: URI where
  "sample_uri = \<lparr>uri_port = 8080, uri_scheme = ''http'', uri_user = ''admin'', uri_host = ''a.com'', uri_path = ''/x'',
     uri_query = ''id=1'', uri_fragment = ''f''\<rparr>"


text \<open>
  C38. Where \<open>create\<close> goes wrong. A URI that ends with its host gets the host as its path; one that ends with a port, or with
  an empty query, makes \<open>create\<close> throw although the grammar accepts it; and a password of digits becomes
  the user in place of the user's name.
\<close>

theorem uri_marks_go_wrong:
  assumes "scheme_ok sc" and "name_ok h" and "path_ok v" and "d \<noteq> []" and "list_all is_digit d"
  shows "URI_create (sc @ ''://'' @ h) =
      Inr (Some \<lparr>uri_port = 0, uri_scheme = sc, uri_user = [], uri_host = h, uri_path = h, uri_query = [], uri_fragment = []\<rparr>)
    \<and> URI_create (sc @ ''://'' @ h @ '':'' @ d) = Inl Logic_error
    \<and> URI_create (sc @ ''://'' @ h @ v @ ''?'') = Inl Logic_error
    \<and> (\<forall>w. name_ok w \<longrightarrow> URI_create (sc @ ''://'' @ w @ '':'' @ d @ ''@'' @ h @ v) =
      Inr (Some \<lparr>uri_port = 0, uri_scheme = sc, uri_user = d, uri_host = h, uri_path = v, uri_query = [], uri_fragment = []\<rparr>))"
  using URI_create_no_path [OF assms(1,2)] URI_create_port_end [OF assms(1,2,4,5)] URI_create_empty_query [OF assms(1-3)]
    URI_create_password [OF assms(1) _ assms(4,5,2,3)] by blast

theorem uri_marks_go_wrong_witness:
  "URI_create ''http://a'' = Inr (Some \<lparr>uri_port = 0, uri_scheme = ''http'', uri_user = [], uri_host = ''a'', uri_path = ''a'',
       uri_query = [], uri_fragment = []\<rparr>)
   \<and> URI_create ''http://a:80'' = Inl Logic_error \<and> URI_create ''http://a/?'' = Inl Logic_error"
proof -
  have ok: "scheme_ok ''http''" "name_ok ''a''" "path_ok ''/''" "''80'' \<noteq> []" "list_all is_digit ''80''"
    by (simp_all add: scheme_ok_def name_ok_def path_ok_def class_defs is_digit_def)
  from uri_marks_go_wrong [OF ok] show ?thesis by simp
qed

end
