(* ===== verification/Http_Parser.thy ===== *)
theory Http_Parser
  imports Http Config
begin

text \<open>
  The HTTP parsers (src/sylar/http/http_parser.h, http_parser.cpp): the callbacks that build a request
  or a response while a scanner runs, the parser objects, and the sizes that follow
  the configuration. The functions of a scanner are a record: a step function that consumes text and reports what
  it recognised, with what the parsers ask of its state. \<open>Http_Scanner\<close> and \<open>Http_Client_Scanner\<close> have the two values.
\<close>

section \<open>Text\<close>

text \<open>\<open>strncmp\<close>: a string that ends early counts as continued by NUL.\<close>

fun strncmp :: "string \<Rightarrow> string \<Rightarrow> nat \<Rightarrow> int" where
  "strncmp s t 0 = 0"
| "strncmp [] [] (Suc n) = 0"
| "strncmp [] (b # t) (Suc n) = - int (byte b)"
| "strncmp (a # s) [] (Suc n) = int (byte a)"
| "strncmp (a # s) (b # t) (Suc n) =
     (if a \<noteq> b then int (byte a) - int (byte b) else if a = CHR 0x00 then 0 else strncmp s t n)"

section \<open>Requests\<close>

datatype request_event =
    Request_method string | Request_uri string | Request_fragment string | Request_path string
  | Request_query string | Request_version string | Request_header_done string | Request_field string string
  | Request_bad_range

text \<open>
  The scanner: its initial state; a run on \<open>len\<close> bytes from \<open>off\<close>, with the new state, the value
  returned and the callbacks made, in order; the tests for being finished and for an error;
  and the field \<open>content_len\<close>. \<open>Request_bad_range\<close> is a callback with a start beyond its end: its length wraps, and
  the string that the callback makes of it throws \<open>std::length_error\<close>.
\<close>

record 'p request_machine =
  http_parser_init :: 'p
  http_parser_execute :: "'p \<Rightarrow> string \<Rightarrow> nat \<Rightarrow> 'p \<times> nat \<times> request_event list"
  http_parser_is_finished :: "'p \<Rightarrow> int"
  http_parser_has_error :: "'p \<Rightarrow> int"
  content_len :: "'p \<Rightarrow> int"

record 'p HttpRequestParser =
  rp_parser :: 'p
  rp_request :: HttpRequest
  rp_errno :: int

definition mk_HttpRequestParser :: "'p request_machine \<Rightarrow> 'p HttpRequestParser" where
  "mk_HttpRequestParser M = \<lparr>rp_parser = http_parser_init M, rp_request = mk_HttpRequest 0x11 True, rp_errno = 0\<rparr>"

text \<open>\<open>get_request\<close> writes the connection header before it returns the request.\<close>

definition get_request :: "'p HttpRequestParser \<Rightarrow> 'p HttpRequestParser" where
  "get_request p = p\<lparr>rp_request := HttpRequest_init_headers (rp_request p)\<rparr>"

definition on_request_method :: "string \<Rightarrow> 'p HttpRequestParser \<Rightarrow> 'p HttpRequestParser" where
  "on_request_method at p =
     (let m = string_to_http_method at; p1 = get_request p; p2 = p1\<lparr>rp_request := (rp_request p1)\<lparr>req_method := m\<rparr>\<rparr>
      in if m = HTTP_INVALID_METHOD then p2\<lparr>rp_errno := 0x1002\<rparr> else p2)"

definition on_request_fragment :: "string \<Rightarrow> 'p HttpRequestParser \<Rightarrow> 'p HttpRequestParser" where
  "on_request_fragment at p = (let p1 = get_request p in p1\<lparr>rp_request := (rp_request p1)\<lparr>req_fragment := at\<rparr>\<rparr>)"

definition on_request_path :: "string \<Rightarrow> 'p HttpRequestParser \<Rightarrow> 'p HttpRequestParser" where
  "on_request_path at p = (let p1 = get_request p in p1\<lparr>rp_request := (rp_request p1)\<lparr>req_path := at\<rparr>\<rparr>)"

definition on_request_query :: "string \<Rightarrow> 'p HttpRequestParser \<Rightarrow> 'p HttpRequestParser" where
  "on_request_query at p = (let p1 = get_request p in p1\<lparr>rp_request := (rp_request p1)\<lparr>req_query := at\<rparr>\<rparr>)"

definition on_request_version :: "string \<Rightarrow> 'p HttpRequestParser \<Rightarrow> 'p HttpRequestParser" where
  "on_request_version at p =
     (let p1 = get_request p
      in if strncmp at ''HTTP/1.1'' (length at) = 0 then p1\<lparr>rp_request := (rp_request p1)\<lparr>req_version := 0x11\<rparr>\<rparr>
         else if strncmp at ''HTTP/1.0'' (length at) = 0 then p1\<lparr>rp_request := (rp_request p1)\<lparr>req_version := 0x10\<rparr>\<rparr>
         else p\<lparr>rp_errno := 0x1001\<rparr>)"

definition on_request_http_field :: "string \<Rightarrow> string \<Rightarrow> 'p HttpRequestParser \<Rightarrow> 'p HttpRequestParser" where
  "on_request_http_field f v p =
     (let p1 = get_request p in p1\<lparr>rp_request := HttpRequest_set_header f v (rp_request p1)\<rparr>)"

text \<open>Which callback each element has; the request URI and the end of the header have none.\<close>

fun on_request_event :: "request_event \<Rightarrow> 'p HttpRequestParser \<Rightarrow> 'p HttpRequestParser" where
  "on_request_event (Request_method at) = on_request_method at"
| "on_request_event (Request_uri at) = id"
| "on_request_event (Request_fragment at) = on_request_fragment at"
| "on_request_event (Request_path at) = on_request_path at"
| "on_request_event (Request_query at) = on_request_query at"
| "on_request_event (Request_version at) = on_request_version at"
| "on_request_event (Request_header_done at) = id"
| "on_request_event (Request_field f v) = on_request_http_field f v"
| "on_request_event Request_bad_range = id"

text \<open>\<open>execute\<close>: whether the scanner is finished, and the new offset; an exception of a callback passes through.\<close>

definition HttpRequestParser_execute ::
  "'p request_machine \<Rightarrow> string \<Rightarrow> nat \<Rightarrow> 'p HttpRequestParser
    \<Rightarrow> cpp_error + bool \<times> nat \<times> 'p HttpRequestParser" where
  "HttpRequestParser_execute M data offset p =
     (let (m, off, evs) = http_parser_execute M (rp_parser p) data offset
      in if Request_bad_range \<in> set evs then Inl Logic_error
         else Inr (http_parser_is_finished M m \<noteq> 0, off, (fold on_request_event evs p)\<lparr>rp_parser := m\<rparr>))"

definition HttpRequestParser_is_finished :: "'p request_machine \<Rightarrow> 'p HttpRequestParser \<Rightarrow> int" where
  "HttpRequestParser_is_finished M p = http_parser_is_finished M (rp_parser p)"

definition HttpRequestParser_has_error :: "'p request_machine \<Rightarrow> 'p HttpRequestParser \<Rightarrow> bool" where
  "HttpRequestParser_has_error M p \<longleftrightarrow> rp_errno p \<noteq> 0 \<or> http_parser_has_error M (rp_parser p) \<noteq> 0"

definition HttpRequestParser_get_content_length ::
  "(string \<Rightarrow> u64 option) \<Rightarrow> 'p request_machine \<Rightarrow> 'p HttpRequestParser \<Rightarrow> u64" where
  "HttpRequestParser_get_content_length lexical_cast M p =
     (if 0 < content_len M (rp_parser p) then word_of_int (content_len M (rp_parser p))
      else HttpRequest_get_header_as lexical_cast ''content-length'' 0 (rp_request p))"

section \<open>Responses\<close>

datatype response_event =
    Response_reason string | Response_status string | Response_chunk_size string | Response_version string
  | Response_header_done string | Response_last_chunk string | Response_field string string

text \<open>The client's scanner returns \<open>int\<close>, negative after an internal check has failed.\<close>

record 'p response_machine =
  httpclient_parser_init :: 'p
  httpclient_parser_execute :: "'p \<Rightarrow> string \<Rightarrow> nat \<Rightarrow> 'p \<times> int \<times> response_event list"
  httpclient_parser_is_finished :: "'p \<Rightarrow> int"
  httpclient_parser_has_error :: "'p \<Rightarrow> int"
  client_content_len :: "'p \<Rightarrow> int"
  client_chunked :: "'p \<Rightarrow> int"
  client_chunks_done :: "'p \<Rightarrow> int"

record 'p HttpResponseParser =
  sp_parser :: 'p
  sp_response :: HttpResponse
  sp_errno :: int
  sp_is_chunked :: bool

definition mk_HttpResponseParser :: "'p response_machine \<Rightarrow> 'p HttpResponseParser" where
  "mk_HttpResponseParser M =
     \<lparr>sp_parser = httpclient_parser_init M, sp_response = mk_HttpResponse 0x11 False, sp_errno = 0, sp_is_chunked = False\<rparr>"

definition on_response_reason :: "string \<Rightarrow> 'p HttpResponseParser \<Rightarrow> 'p HttpResponseParser" where
  "on_response_reason at p = p\<lparr>sp_response := (sp_response p)\<lparr>rsp_reason := at\<rparr>\<rparr>"

definition on_response_status :: "string \<Rightarrow> 'p HttpResponseParser \<Rightarrow> 'p HttpResponseParser" where
  "on_response_status at p = p\<lparr>sp_response := (sp_response p)\<lparr>rsp_status := atoi (c_str at)\<rparr>\<rparr>"

definition on_response_version :: "string \<Rightarrow> 'p HttpResponseParser \<Rightarrow> 'p HttpResponseParser" where
  "on_response_version at p =
     (if strncmp at ''HTTP/1.1'' (length at) = 0 then p\<lparr>sp_response := (sp_response p)\<lparr>rsp_version := 0x11\<rparr>\<rparr>
      else if strncmp at ''HTTP/1.0'' (length at) = 0 then p\<lparr>sp_response := (sp_response p)\<lparr>rsp_version := 0x10\<rparr>\<rparr>
      else p\<lparr>sp_errno := 0x1001\<rparr>)"

definition on_response_http_field :: "string \<Rightarrow> string \<Rightarrow> 'p HttpResponseParser \<Rightarrow> 'p HttpResponseParser" where
  "on_response_http_field f v p =
     (let p1 = p\<lparr>sp_response := HttpResponse_set_header f v (sp_response p)\<rparr>
      in if f = ''transfer-encoding'' \<and> v = ''chunked'' then p1\<lparr>sp_is_chunked := True\<rparr> else p1)"

fun on_response_event :: "response_event \<Rightarrow> 'p HttpResponseParser \<Rightarrow> 'p HttpResponseParser" where
  "on_response_event (Response_reason at) = on_response_reason at"
| "on_response_event (Response_status at) = on_response_status at"
| "on_response_event (Response_chunk_size at) = id"
| "on_response_event (Response_version at) = on_response_version at"
| "on_response_event (Response_header_done at) = id"
| "on_response_event (Response_last_chunk at) = id"
| "on_response_event (Response_field f v) = on_response_http_field f v"

text \<open>The offset is assigned to a \<open>size_t\<close>.\<close>

definition HttpResponseParser_execute ::
  "'p response_machine \<Rightarrow> string \<Rightarrow> nat \<Rightarrow> 'p HttpResponseParser
    \<Rightarrow> cpp_error + bool \<times> nat \<times> 'p HttpResponseParser" where
  "HttpResponseParser_execute M data offset p =
     (let (m, off, evs) = httpclient_parser_execute M (sp_parser p) data offset
      in Inr (httpclient_parser_is_finished M m \<noteq> 0, nat (off mod 2 ^ 64), (fold on_response_event evs p)\<lparr>sp_parser := m\<rparr>))"

definition HttpResponseParser_is_finished :: "'p response_machine \<Rightarrow> 'p HttpResponseParser \<Rightarrow> int" where
  "HttpResponseParser_is_finished M p = httpclient_parser_is_finished M (sp_parser p)"

definition is_chunked :: "'p response_machine \<Rightarrow> 'p HttpResponseParser \<Rightarrow> bool" where
  "is_chunked M p \<longleftrightarrow> sp_is_chunked p \<or> client_chunked M (sp_parser p) \<noteq> 0"

definition is_chunk_done :: "'p response_machine \<Rightarrow> 'p HttpResponseParser \<Rightarrow> bool" where
  "is_chunk_done M p \<longleftrightarrow> client_chunks_done M (sp_parser p) \<noteq> 0"

definition HttpResponseParser_has_error :: "'p response_machine \<Rightarrow> 'p HttpResponseParser \<Rightarrow> bool" where
  "HttpResponseParser_has_error M p \<longleftrightarrow> sp_errno p \<noteq> 0 \<or> httpclient_parser_has_error M (sp_parser p) \<noteq> 0"

definition HttpResponseParser_get_content_length ::
  "(string \<Rightarrow> u64 option) \<Rightarrow> 'p response_machine \<Rightarrow> 'p HttpResponseParser \<Rightarrow> u64" where
  "HttpResponseParser_get_content_length lexical_cast M p =
     (if 0 < client_content_len M (sp_parser p) then word_of_int (client_content_len M (sp_parser p))
      else HttpResponse_get_header_as lexical_cast ''content-length'' 0 (sp_response p))"

section \<open>Sizes\<close>

record http_sizes =
  t_http_request_buffer_size :: u64
  t_http_request_max_body_size :: u64
  t_http_response_buffer_size :: u64
  t_http_response_max_body_size :: u64

datatype size_var = Request_buffer | Request_max_body | Response_buffer | Response_max_body

fun size_name :: "size_var \<Rightarrow> string" where
  "size_name Request_buffer = ''http.request.buffer_size''"
| "size_name Request_max_body = ''http.request.max_body_size''"
| "size_name Response_buffer = ''http.response.buffer_size''"
| "size_name Response_max_body = ''http.response.max_body_size''"

fun size_default :: "size_var \<Rightarrow> u64" where
  "size_default Request_buffer = 4 * 1024"
| "size_default Request_max_body = 64 * 1024 * 1024"
| "size_default Response_buffer = 4 * 1024"
| "size_default Response_max_body = 64 * 1024 * 1024"

fun size_of :: "size_var \<Rightarrow> http_sizes \<Rightarrow> u64" where
  "size_of Request_buffer = t_http_request_buffer_size"
| "size_of Request_max_body = t_http_request_max_body_size"
| "size_of Response_buffer = t_http_response_buffer_size"
| "size_of Response_max_body = t_http_response_max_body_size"

fun set_size :: "size_var \<Rightarrow> u64 \<Rightarrow> http_sizes \<Rightarrow> http_sizes" where
  "set_size Request_buffer v w = w\<lparr>t_http_request_buffer_size := v\<rparr>"
| "set_size Request_max_body v w = w\<lparr>t_http_request_max_body_size := v\<rparr>"
| "set_size Response_buffer v w = w\<lparr>t_http_response_buffer_size := v\<rparr>"
| "set_size Response_max_body v w = w\<lparr>t_http_response_max_body_size := v\<rparr>"

text \<open>The variables are of the basic type \<open>uint64_t\<close>, number 0 here.\<close>

definition size_listener :: "size_var \<Rightarrow> (u64, http_sizes) listener" where
  "size_listener x old_value new_value w = (Inr (), case new_value of VBasic v \<Rightarrow> set_size x v w | _ \<Rightarrow> w)"

text \<open>
  The static initialisers: look up (or create) the variables, copy their values, and register
  the listeners.
\<close>

definition look_up_size :: "size_var \<Rightarrow> (u64, 'w) registry \<Rightarrow> (u64, 'w) registry" where
  "look_up_size x datas = snd (look_up_create (size_name x) (Basic 0) (VBasic (size_default x)) [] datas)"

definition size_vars :: "size_var list" where
  "size_vars = [Request_buffer, Request_max_body, Response_buffer, Response_max_body]"

definition copy_size :: "(u64, http_sizes) registry \<Rightarrow> size_var \<Rightarrow> http_sizes \<Rightarrow> http_sizes" where
  "copy_size datas x w =
     (case look_up_base (size_name x) datas of
        None \<Rightarrow> w
      | Some var \<Rightarrow> case cv_value var of VBasic v \<Rightarrow> set_size x v w | _ \<Rightarrow> w)"

definition listen_size :: "size_var \<Rightarrow> (u64, http_sizes) registry \<times> (ctype \<Rightarrow> u64) \<Rightarrow> (u64, http_sizes) registry \<times> (ctype \<Rightarrow> u64)" where
  "listen_size x c =
     (let (datas, ids) = c
      in case look_up_base (size_name x) datas of
           None \<Rightarrow> c
         | Some var \<Rightarrow>
             let (k, var1, ids1) = add_listener (size_listener x) var ids in (map_set (<) (size_name x) var1 datas, ids1))"

definition HttpRequestSizeIniter :: "(u64, http_sizes) cfg \<Rightarrow> (u64, http_sizes) cfg" where
  "HttpRequestSizeIniter c =
     (let (datas, w, ids) = c;
          datas1 = fold look_up_size size_vars datas;
          w1 = fold (copy_size datas1) size_vars w;
          (datas2, ids2) = fold listen_size size_vars (datas1, ids)
      in (datas2, w1, ids2))"

definition get_request_buffer_size :: "http_sizes \<Rightarrow> u64" where
  "get_request_buffer_size w = t_http_request_buffer_size w"

definition get_request_max_body_size :: "http_sizes \<Rightarrow> u64" where
  "get_request_max_body_size w = t_http_request_max_body_size w"

definition get_response_buffer_size :: "http_sizes \<Rightarrow> u64" where
  "get_response_buffer_size w = t_http_response_buffer_size w"

definition get_response_max_body_size :: "http_sizes \<Rightarrow> u64" where
  "get_response_max_body_size w = t_http_response_max_body_size w"

section \<open>Facts\<close>

text \<open>Whatever the scanner reports, the request stays consistent.\<close>

lemma get_request_ok: "request_ok (rp_request p) \<Longrightarrow> request_ok (rp_request (get_request p))"
  by (simp add: get_request_def wf_intros)

lemma request_ok_plain [simp]:
  "request_ok (r\<lparr>req_method := m\<rparr>) = request_ok r" "request_ok (r\<lparr>req_fragment := s\<rparr>) = request_ok r"
  "request_ok (r\<lparr>req_path := s\<rparr>) = request_ok r" "request_ok (r\<lparr>req_query := s\<rparr>) = request_ok r"
  "request_ok (r\<lparr>req_version := v\<rparr>) = request_ok r"
  by (simp_all add: request_ok_def connection_header_def)

lemma on_request_event_ok: "request_ok (rp_request p) \<Longrightarrow> request_ok (rp_request (on_request_event e p))"
  using get_request_ok [of p]
  by (cases e) (auto simp: on_request_method_def on_request_fragment_def on_request_path_def on_request_query_def
      on_request_version_def on_request_http_field_def Let_def intro: wf_intros)

lemma execute_ok:
  "request_ok (rp_request p) \<Longrightarrow> HttpRequestParser_execute M data off p = Inr (b, n, p') \<Longrightarrow> request_ok (rp_request p')"
proof -
  have "request_ok (rp_request p) \<Longrightarrow> request_ok (rp_request (fold on_request_event evs p))" for evs and p :: "'a HttpRequestParser"
    by (induction evs arbitrary: p) (simp_all add: on_request_event_ok)
  then show "request_ok (rp_request p) \<Longrightarrow> HttpRequestParser_execute M data off p = Inr (b, n, p') \<Longrightarrow> request_ok (rp_request p')"
    by (auto simp: HttpRequestParser_execute_def split: prod.splits if_splits)
qed

lemma new_parser_ok: "request_ok (rp_request (mk_HttpRequestParser M))"
  by (simp add: mk_HttpRequestParser_def wf_intros)

text \<open>The sizes in use are the values of their variables, and only their listeners are registered.\<close>

definition follows :: "(u64, http_sizes) registry \<Rightarrow> http_sizes \<Rightarrow> bool" where
  "follows datas w \<longleftrightarrow>
     (\<forall>x. \<exists>var k. look_up_base (size_name x) datas = Some var \<and> cv_type var = Basic 0
        \<and> cv_value var = VBasic (size_of x w) \<and> cv_cbs var = [(k, size_listener x)])
     \<and> (\<forall>n var. look_up_base n datas = Some var \<longrightarrow> n \<notin> range size_name \<longrightarrow> cv_cbs var = [])"

lemma size_of_set: "size_of x (set_size y v w) = (if x = y then v else size_of x w)"
  by (cases x; cases y) simp_all

lemma size_name_inject: "size_name x = size_name y \<longleftrightarrow> x = y"
  by (cases x; cases y) simp_all

lemma follows_load_one:
  assumes "follows datas w"
  shows "\<exists>datas' w'. load_one L n node (datas, w) = (Inr (), (datas', w')) \<and> follows datas' w'"
proof (cases "look_up_base n datas")
  case None
  then show ?thesis using assms by (simp add: load_one_def)
next
  case (Some var)
  show ?thesis
  proof (cases "n \<in> range size_name")
    case True
    then obtain x where x: "n = size_name x" by blast
    then obtain k where var: "cv_type var = Basic 0" "cv_value var = VBasic (size_of x w)" "cv_cbs var = [(k, size_listener x)]"
      using assms Some unfolding follows_def by (metis option.inject)
    have "look_up_base m (map_set (<) n var datas) = look_up_base m datas" for m using Some by (simp add: look_up_base_set)
    then have same: "follows (map_set (<) n var datas) w" using assms by (simp add: follows_def)
    have new: "follows (map_set (<) n (var\<lparr>cv_value := VBasic v\<rparr>) datas) (set_size x v w)" for v
      using assms x var by (auto simp: follows_def look_up_base_set size_name_inject size_of_set)
    show ?thesis using Some var same new
      by (auto simp: load_one_def from_string_def set_value_def size_listener_def split: option.splits)
  next
    case False
    then have cbs: "cv_cbs var = []" using assms Some by (auto simp: follows_def)
    have "follows (map_set (<) n var' datas) w" if "cv_cbs var' = []" for var'
      using assms False that by (auto simp: follows_def look_up_base_set)
    then show ?thesis using Some cbs
      by (auto simp: load_one_def from_string_def set_value_def split: option.splits)
  qed
qed

lemma follows_load_each: "follows datas w \<Longrightarrow> \<exists>datas' w'. load_each L ns (datas, w) = (Inr True, (datas', w')) \<and> follows datas' w'"
proof (induction ns arbitrary: datas w)
  case (Cons x ns)
  obtain n node where x: "x = (n, node)" by fastforce
  obtain d1 w1 where "load_one L n node (datas, w) = (Inr (), (d1, w1))" "follows d1 w1" using follows_load_one [OF Cons.prems] by blast
  then show ?case using Cons.IH x by simp
qed auto

lemma look_up_size_find:
  "look_up_base m (look_up_size x datas) =
     (if m = size_name x \<and> look_up_base m datas = None
      then Some (mk_ConfigVar (size_name x) [] (Basic 0) (VBasic (size_default x))) else look_up_base m datas)"
proof -
  have "valid_name (size_name x)" by (cases x) (simp_all add: valid_name_def)
  then show ?thesis
    by (auto simp: look_up_size_def look_up_create_def look_up_base_def std_less.map_find_set split: option.splits)
qed

lemma look_up_base_Nil [simp]: "look_up_base m [] = None"
  by (simp add: look_up_base_def)

lemma listen_size_find:
  "look_up_base m (fst (listen_size x (datas, ids))) =
     (if m = size_name x
      then map_option (\<lambda>var. var\<lparr>cv_cbs := map_set (<) (ids (cv_type var) + 1) (size_listener x) (cv_cbs var)\<rparr>) (look_up_base m datas)
      else look_up_base m datas)"
  by (auto simp: listen_size_def add_listener_def Let_def look_up_base_set split: option.splits)

lemma follows_init:
  assumes "HttpRequestSizeIniter ([], w0, ids) = (d, w, ids')"
  shows "follows d w"
proof -
  define d1 :: "(u64, http_sizes) registry" where "d1 = fold look_up_size size_vars []"
  note find = look_up_size_find listen_size_find size_name_inject
  have d1: "look_up_base (size_name x) d1 = Some (mk_ConfigVar (size_name x) [] (Basic 0) (VBasic (size_default x)))" for x
    by (cases x) (simp_all del: size_name.simps size_default.simps add: d1_def size_vars_def find)
  have d1_none: "look_up_base m d1 = None" if "m \<notin> range size_name" for m
  proof -
    have "m \<noteq> size_name x" for x using that by auto
    then show ?thesis by (simp del: size_name.simps add: d1_def size_vars_def find)
  qed
  have w: "w = fold (copy_size d1) size_vars w0" and d: "d = fst (fold listen_size size_vars (d1, ids))"
    using assms by (auto simp: HttpRequestSizeIniter_def d1_def Let_def split: prod.splits)
  have size: "size_of x w = size_default x" for x
    by (cases x) (simp_all del: size_name.simps size_of.simps set_size.simps size_default.simps
        add: w size_vars_def copy_size_def d1 mk_ConfigVar_def size_of_set)
  obtain d2 i2 where 2: "listen_size Request_buffer (d1, ids) = (d2, i2)" by fastforce
  obtain d3 i3 where 3: "listen_size Request_max_body (d2, i2) = (d3, i3)" by fastforce
  obtain d4 i4 where 4: "listen_size Response_buffer (d3, i3) = (d4, i4)" by fastforce
  obtain d5 i5 where 5: "listen_size Response_max_body (d4, i4) = (d5, i5)" by fastforce
  have eq: "d = d5" using d 2 3 4 5 by (simp add: size_vars_def)
  note step = listen_size_find [of _ Request_buffer d1 ids, unfolded 2 fst_conv] listen_size_find [of _ Request_max_body d2 i2, unfolded 3 fst_conv]
    listen_size_find [of _ Response_buffer d3 i3, unfolded 4 fst_conv] listen_size_find [of _ Response_max_body d4 i4, unfolded 5 fst_conv]
  have "\<exists>k. look_up_base (size_name x) d = Some ((mk_ConfigVar (size_name x) [] (Basic 0) (VBasic (size_default x)))
      \<lparr>cv_cbs := [(k, size_listener x)]\<rparr>)" for x
    by (cases x) (simp_all del: size_name.simps size_default.simps add: eq step size_name_inject d1 mk_ConfigVar_def)
  moreover have "look_up_base m d = None" if "m \<notin> range size_name" for m
  proof -
    have "m \<noteq> size_name x" for x using that by auto
    then show ?thesis using d1_none [OF that] by (simp del: size_name.simps add: eq step)
  qed
  ultimately show ?thesis unfolding follows_def using size by (force simp: mk_ConfigVar_def)
qed

section \<open>Properties\<close>

text \<open>
  The sizes of the HTTP buffers follow the configuration: after the static initialisers the
  sizes in use are the values of the four variables, and loading any document keeps it so,
  whatever it contains; the call succeeds.
\<close>

theorem http_sizes_follow_config:
  assumes "follows datas w"
  shows "(\<exists>datas' w'. load_from_yaml L root (datas, w) = (Inr True, (datas', w')) \<and> follows datas' w')
    \<and> (case HttpRequestSizeIniter ([], w0, ids) of (d, w1, ids1) \<Rightarrow> follows d w1)"
proof
  show "\<exists>datas' w'. load_from_yaml L root (datas, w) = (Inr True, (datas', w')) \<and> follows datas' w'"
    using follows_load_each [OF assms] by (simp add: load_from_yaml_def)
  show "case HttpRequestSizeIniter ([], w0, ids) of (d, w1, ids1) \<Rightarrow> follows d w1"
    using follows_init [of w0 ids] by (auto split: prod.splits)
qed

definition sample_sizes :: "(u64, http_sizes) cfg" where
  "sample_sizes = HttpRequestSizeIniter ([], \<lparr>t_http_request_buffer_size = 0, t_http_request_max_body_size = 0,
     t_http_response_buffer_size = 0, t_http_response_max_body_size = 0\<rparr>, \<lambda>t. 0)"

text \<open>Libraries on 64-bit numbers, with the flow-style reader.\<close>

definition number_libs :: "u64 libs" where
  "number_libs = \<lparr>yaml_load = flow_load, yaml_dump = flow, map_index = (\<lambda>kvs i. Null), seq_pairs = (\<lambda>xs. None),
     cast_in = (\<lambda>k s. Some (of_nat (undec s))), cast_out = (\<lambda>n. dec (unat n)), kind_of = (\<lambda>n. 0),
     set_order = (\<lambda>X. []), map_order = (\<lambda>m. []), value_eq = (\<lambda>u v. u = v)\<rparr>"

theorem http_sizes_follow_config_witness:
  "\<exists>datas' w'. load_from_yaml number_libs (Map [(Scalar ''http.request.buffer_size'', Scalar ''8192'')])
       (fst sample_sizes, fst (snd sample_sizes)) = (Inr True, (datas', w')) \<and> follows datas' w'"
proof -
  have "follows (fst sample_sizes) (fst (snd sample_sizes))"
    unfolding sample_sizes_def by (metis follows_init prod.collapse)
  from http_sizes_follow_config [OF this, of number_libs "Map [(Scalar ''http.request.buffer_size'', Scalar ''8192'')]"]
  show ?thesis by blast
qed

end
