(* ===== verification/Http_Scanner.thy ===== *)
theory Http_Scanner
  imports Ragel Http_Parser
begin

text \<open>
  The scanner for HTTP requests (src/sylar/http/http11_parser.h, http11_parser.rl): its grammar, its actions and the functions
  around the machine. It is a value of \<open>request_machine\<close>, the interface over which the request parser is modelled.
\<close>

section \<open>The grammar\<close>

datatype request_action =
    Act_mark | Act_start_field | Act_write_field | Act_start_value | Act_write_value | Act_request_method | Act_request_uri
  | Act_fragment | Act_start_query | Act_query_string | Act_http_version | Act_request_path | Act_done | Act_xml | Act_json

type_synonym request_grammar = "request_action machine"

definition line_end :: "'a machine" where
  "line_end = Or (lit [CHR 0x0D, CHR 0x0A]) (lit [CHR 0x0A])"

text \<open>The parameter is the field \<open>uri_relaxed\<close>, which the grammar tests where it reads one of the three bytes.\<close>

definition rq_sub_delims :: "bool \<Rightarrow> byte_class" where
  "rq_sub_delims relaxed = one_of (''!$&'' @ [CHR 0x27] @ ''()*+,;='') @ (if relaxed then one_of ''{}^'' else [])"

definition rq_unreserved :: byte_class where "rq_unreserved = letters @ digits @ one_of ''-._~''"

definition rq_pct_encoded :: "'a machine" where
  "rq_pct_encoded = Cat (lit ''%'') (Cat (Class xdigits) (Class xdigits))"

definition rq_pchar_bytes :: "bool \<Rightarrow> byte_class" where
  "rq_pchar_bytes x = non_ascii @ rq_unreserved @ rq_sub_delims x @ one_of '':@''"

definition rq_pchar :: "bool \<Rightarrow> 'a machine" where "rq_pchar x = Or (Class (rq_pchar_bytes x)) rq_pct_encoded"

definition rq_query_chars :: "bool \<Rightarrow> 'a machine" where "rq_query_chars x = Star (Or (rq_pchar x) (Class (one_of ''/?'')))"

definition rq_fragment :: "bool \<Rightarrow> request_grammar" where
  "rq_fragment x = Leaving Act_fragment (Entering Act_mark (rq_query_chars x))"

definition rq_query :: "bool \<Rightarrow> request_grammar" where "rq_query x = Leaving Act_query_string (rq_query_chars x)"

definition rq_segment_nz_nc :: "bool \<Rightarrow> 'a machine" where
  "rq_segment_nz_nc x = Plus (Or (Class (rq_unreserved @ rq_sub_delims x @ one_of ''@'')) rq_pct_encoded)"

definition rq_segment_nz :: "bool \<Rightarrow> 'a machine" where "rq_segment_nz x = Plus (rq_pchar x)"
definition rq_segment :: "bool \<Rightarrow> 'a machine" where "rq_segment x = Star (rq_pchar x)"
definition rq_segments :: "bool \<Rightarrow> 'a machine" where "rq_segments x = Star (Cat (lit ''/'') (rq_segment x))"

definition rq_path_empty :: "bool \<Rightarrow> 'a machine" where "rq_path_empty x = Times 0 (rq_pchar x)"
definition rq_path_rootless :: "bool \<Rightarrow> 'a machine" where "rq_path_rootless x = Cat (rq_segment_nz x) (rq_segments x)"
definition rq_path_noscheme :: "bool \<Rightarrow> 'a machine" where "rq_path_noscheme x = Cat (rq_segment_nz_nc x) (rq_segments x)"
definition rq_path_absolute :: "bool \<Rightarrow> 'a machine" where
  "rq_path_absolute x = Cat (lit ''/'') (Opt (Cat (rq_segment_nz x) (rq_segments x)))"
definition rq_path_abempty :: "bool \<Rightarrow> 'a machine" where "rq_path_abempty x = rq_segments x"

definition rq_reg_name :: "bool \<Rightarrow> 'a machine" where
  "rq_reg_name x = Star (Or (Class (rq_unreserved @ rq_sub_delims x)) rq_pct_encoded)"

text \<open>
  \<open>"1"-"9"\<close> is the difference of two bytes, not a range, and the number before a parenthesis is the byte with that code.
\<close>

definition rq_dec_octet :: "'a machine" where
  "rq_dec_octet = Or (Class digits) (Or (Cat (lit ''1'') (Class digits))
     (Or (Cat (lit ''1'') (Times 2 (Class digits)))
     (Or (Cat (lit ''2'') (Cat (lit ''0'') (Class digits)))
         (Cat (lit ''25'') (lit ''0'')))))"

definition rq_IPv4address :: "'a machine" where
  "rq_IPv4address = Cat rq_dec_octet (Cat (lit ''.'') (Cat rq_dec_octet (Cat (lit ''.'') (Cat rq_dec_octet (Cat (lit ''.'') rq_dec_octet)))))"

definition rq_h16 :: "'a machine" where "rq_h16 = Cat (Class xdigits) (Up_to 3 (Class xdigits))"
definition rq_ls32 :: "'a machine" where "rq_ls32 = Or (Cat rq_h16 (Cat (lit '':'') rq_h16)) rq_IPv4address"
definition rq_group :: "'a machine" where "rq_group = Cat rq_h16 (lit '':'')"

definition numbered_group :: "nat \<Rightarrow> 'a machine" where "numbered_group n = Cat (Class [(n, n)]) rq_group"

definition rq_before :: "nat \<Rightarrow> 'a machine" where
  "rq_before n = Opt (Cat (Times n rq_group) (Cat (Star rq_group) rq_h16))"

definition rq_IPv6address :: "'a machine" where
  "rq_IPv6address =
     Or (Cat (numbered_group 6) rq_ls32)
    (Or (Cat (lit ''::'') (Cat (numbered_group 5) rq_ls32))
    (Or (Cat (Opt rq_h16) (Cat (lit ''::'') (Cat (numbered_group 4) rq_ls32)))
    (Or (Cat (rq_before 1) (Cat (lit ''::'') (Cat (numbered_group 3) rq_ls32)))
    (Or (Cat (rq_before 2) (Cat (lit ''::'') (Cat (numbered_group 2) rq_ls32)))
    (Or (Cat (rq_before 3) (Cat (lit ''::'') (Cat rq_group rq_ls32)))
    (Or (Cat (rq_before 4) (Cat (lit ''::'') rq_ls32))
    (Or (Cat (rq_before 5) (Cat (lit ''::'') rq_h16))
        (Cat (rq_before 6) (lit ''::'')))))))))"

definition rq_IPvFuture :: "bool \<Rightarrow> 'a machine" where
  "rq_IPvFuture x = Cat (lit ''v'') (Cat (Plus (Class xdigits))
     (Cat (lit ''.'') (Plus (Class (rq_unreserved @ rq_sub_delims x @ one_of '':'')))))"

definition rq_IP_literal :: "bool \<Rightarrow> 'a machine" where
  "rq_IP_literal x = Cat (lit ''['') (Cat (Or rq_IPv6address (rq_IPvFuture x)) (lit '']''))"

definition rq_host :: "bool \<Rightarrow> 'a machine" where "rq_host x = Or (rq_IP_literal x) (Or rq_IPv4address (rq_reg_name x))"

definition rq_userinfo :: "bool \<Rightarrow> 'a machine" where
  "rq_userinfo x = Star (Or (Class (rq_unreserved @ rq_sub_delims x @ one_of '':'')) rq_pct_encoded)"

definition rq_authority :: "bool \<Rightarrow> 'a machine" where
  "rq_authority x = Cat (Opt (Cat (rq_userinfo x) (lit ''@''))) (Cat (rq_host x) (Opt (Cat (lit '':'') (Star (Class digits)))))"

definition rq_scheme :: "'a machine" where
  "rq_scheme = Cat (Class letters) (Star (Class (letters @ digits @ one_of ''+-.'')))"

definition rq_relative_part :: "bool \<Rightarrow> 'a machine" where
  "rq_relative_part x = Or (Cat (lit ''//'') (Cat (rq_authority x) (rq_path_abempty x)))
     (Or (rq_path_absolute x) (Or (rq_path_noscheme x) (rq_path_empty x)))"

definition rq_hier_part :: "bool \<Rightarrow> 'a machine" where
  "rq_hier_part x = Or (Cat (lit ''//'') (Cat (rq_authority x) (rq_path_abempty x)))
     (Or (rq_path_absolute x) (Or (rq_path_rootless x) (rq_path_empty x)))"

text \<open>The path, which may be followed by a query, with their actions.\<close>

definition with_query :: "bool \<Rightarrow> request_grammar \<Rightarrow> request_grammar" where
  "with_query x part = Leaving Act_request_uri (Entering Act_mark
     (Cat (Leaving Act_request_path part) (Opt (Cat (Leaving Act_start_query (lit ''?'')) (rq_query x)))))"

definition rq_fragment_part :: "bool \<Rightarrow> request_grammar" where
  "rq_fragment_part x = Opt (Cat (lit ''#'') (rq_fragment x))"

definition rq_relative_ref :: "bool \<Rightarrow> request_grammar" where
  "rq_relative_ref x = Cat (with_query x (rq_relative_part x)) (rq_fragment_part x)"

definition rq_URI :: "bool \<Rightarrow> request_grammar" where
  "rq_URI x = Cat rq_scheme (Cat (lit '':'') (Cat (with_query x (rq_hier_part x)) (rq_fragment_part x)))"

definition method_bytes :: byte_class where "method_bytes = [(65, 90), (48, 57)]"

definition rq_Method :: request_grammar where
  "rq_Method = Leaving Act_request_method (Entering Act_mark (Cat (Class method_bytes) (Up_to 19 (Class method_bytes))))"

definition rq_HTTP_Version :: request_grammar where
  "rq_HTTP_Version = Leaving Act_http_version (Entering Act_mark (Cat (lit ''HTTP/'') (Cat (lit ''1.'') (Class (one_of ''01'')))))"

definition Request_Line :: "bool \<Rightarrow> request_grammar" where
  "Request_Line x = Cat rq_Method (Cat (lit '' '') (Cat (Or (rq_URI x) (rq_relative_ref x)) (Cat (lit '' '') (Cat rq_HTTP_Version line_end))))"

text \<open>\<open>(0 - 31) | 127\<close> has just the bytes 0 and 127.\<close>

definition not_ctl :: byte_class where "not_ctl = [(1, 126), (128, 255)]"

text \<open>The ASCII bytes without 0, 127 and the separators \<open>( ) < > @ , ; : \ " / [ ] ? = { }\<close>, space and tab.\<close>

definition token_bytes :: byte_class where
  "token_bytes = [(1, 8), (10, 31), (33, 33), (35, 39), (42, 43), (45, 46), (48, 57), (65, 90), (94, 122), (124, 124), (126, 126)]"

definition blanks :: byte_class where "blanks = [(32, 32), (9, 9)]"

definition lws :: "'a machine" where "lws = Cat (Opt line_end) (Plus (Class blanks))"

definition field_name :: request_grammar where
  "field_name = Leaving Act_write_field (Entering Act_start_field (Plus (Class token_bytes)))"

definition field_value :: request_grammar where
  "field_value = Leaving Act_write_value (Entering Act_start_value (Star (Or (Class not_ctl) lws)))"

definition message_header :: request_grammar where
  "message_header = entry_guarded 0 (Cat field_name (Cat (lit '':'') (Cat (Star lws) field_value))) line_end"

definition Request :: "bool \<Rightarrow> request_grammar" where
  "Request x = Cat (Request_Line x) (Cat (Star message_header) line_end)"

definition any_byte :: byte_class where "any_byte = [(0, 255)]"

definition SocketJSON :: "bool \<Rightarrow> request_grammar" where
  "SocketJSON x = Cat (Leaving Act_request_path (Entering Act_mark (Cat (lit ''@'') (rq_relative_part x))))
     (Cat (lit '' '') (Finishing Act_json (Entering Act_mark
        (finish_guarded 1 (Cat (lit ''{'') (Cat (Star (Class any_byte)) (lit ''}''))) (lit [CHR 0x00])))))"

definition SocketXML :: request_grammar where
  "SocketXML = Finishing Act_xml (finish_guarded 2
     (Cat (Leaving Act_request_path (Entering Act_mark (Cat (lit ''<'') (Plus (Class (letters @ digits @ one_of ''-.''))))))
     (Cat (Class (one_of ''/>'' @ [(9, 13), (32, 32)])) (Cat (Star (Class any_byte)) (lit ''>''))))
     (lit [CHR 0x00]))"

definition http_main :: "bool \<Rightarrow> request_grammar" where
  "http_main x = Finishing Act_done (Or (Request x) (Or SocketXML (SocketJSON x)))"

section \<open>The actions\<close>

record http_parser =
  hp_cs :: "request_action state"
  hp_body_start :: nat
  hp_content_len :: int
  hp_nread :: nat
  hp_mark :: nat
  hp_field_start :: nat
  hp_field_len :: nat
  hp_query_start :: nat
  hp_xml_sent :: bool
  hp_json_sent :: bool

definition span_of :: "string \<Rightarrow> nat \<Rightarrow> nat \<Rightarrow> (string \<Rightarrow> request_event) \<Rightarrow> request_event" where
  "span_of buffer m p ev = (if p < m then Request_bad_range else ev (take (p - m) (drop m buffer)))"

text \<open>An action at position \<open>p\<close>: the flag is \<open>fbreak\<close>; the callbacks made so far are beside the structure.\<close>

fun request_act :: "string \<Rightarrow> request_action \<Rightarrow> nat \<Rightarrow> http_parser \<times> request_event list \<Rightarrow> bool \<times> http_parser \<times> request_event list" where
  "request_act b Act_mark p (h, evs) = (False, h\<lparr>hp_mark := p\<rparr>, evs)"
| "request_act b Act_start_field p (h, evs) = (False, h\<lparr>hp_field_start := p\<rparr>, evs)"
| "request_act b Act_write_field p (h, evs) = (False, h\<lparr>hp_field_len := p - hp_field_start h\<rparr>, evs)"
| "request_act b Act_start_value p (h, evs) = (False, h\<lparr>hp_mark := p\<rparr>, evs)"
| "request_act b Act_write_value p (h, evs) =
     (False, h, evs @ [span_of b (hp_mark h) p (Request_field (take (hp_field_len h) (drop (hp_field_start h) b)))])"
| "request_act b Act_request_method p (h, evs) = (False, h, evs @ [span_of b (hp_mark h) p Request_method])"
| "request_act b Act_request_uri p (h, evs) = (False, h, evs @ [span_of b (hp_mark h) p Request_uri])"
| "request_act b Act_fragment p (h, evs) = (False, h, evs @ [span_of b (hp_mark h) p Request_fragment])"
| "request_act b Act_start_query p (h, evs) = (False, h\<lparr>hp_query_start := p\<rparr>, evs)"
| "request_act b Act_query_string p (h, evs) = (False, h, evs @ [span_of b (hp_query_start h) p Request_query])"
| "request_act b Act_http_version p (h, evs) = (False, h, evs @ [span_of b (hp_mark h) p Request_version])"
| "request_act b Act_request_path p (h, evs) = (False, h, evs @ [span_of b (hp_mark h) p Request_path])"
| "request_act b Act_done p (h, evs) =
     (True, if hp_xml_sent h \<or> hp_json_sent h
            then (h\<lparr>hp_body_start := hp_mark h, hp_content_len := int p - int (hp_mark h) + 1\<rparr>, evs)
            else (h\<lparr>hp_body_start := p + 1\<rparr>, evs @ [Request_header_done (drop (p + 1) b)]))"
| "request_act b Act_xml p (h, evs) = (False, h\<lparr>hp_xml_sent := True\<rparr>, evs)"
| "request_act b Act_json p (h, evs) = (False, h\<lparr>hp_json_sent := True\<rparr>, evs)"

section \<open>The functions of the scanner\<close>

text \<open>\<open>query_start\<close> is not initialised; it is set before it is used.\<close>

definition http11_init :: "bool \<Rightarrow> http_parser" where
  "http11_init x = \<lparr>hp_cs = start (http_main x), hp_body_start = 0, hp_content_len = 0, hp_nread = 0, hp_mark = 0, hp_field_start = 0,
     hp_field_len = 0, hp_query_start = 0, hp_xml_sent = False, hp_json_sent = False\<rparr>"

definition http11_has_error :: "http_parser \<Rightarrow> int" where
  "http11_has_error h = (if hp_cs h = [] then 1 else 0)"

definition http11_is_finished :: "http_parser \<Rightarrow> int" where
  "http11_is_finished h = (if accepting (hp_cs h) then 1 else 0)"

definition http11_finish :: "http_parser \<Rightarrow> int" where
  "http11_finish h = (if http11_has_error h \<noteq> 0 then -1 else if http11_is_finished h \<noteq> 0 then 1 else 0)"

text \<open>One call on a buffer, from an offset inside it, with a length in the range of \<open>int\<close> (both of which the code asserts).\<close>

definition http11_execute :: "http_parser \<Rightarrow> string \<Rightarrow> nat \<Rightarrow> http_parser \<times> nat \<times> request_event list" where
  "http11_execute h buffer off =
     (if buffer = [] then (h, 0, [])
      else let h0 = h\<lparr>hp_nread := 0, hp_mark := 0, hp_field_len := 0, hp_field_start := 0\<rparr>;
               (p, S, (h1, evs)) = feed (request_act buffer) (drop off buffer) off (hp_cs h0) (h0, []);
               h2 = (if http11_has_error h1 = 0 then h1\<lparr>hp_cs := S\<rparr> else h1);
               h3 = h2\<lparr>hp_nread := hp_nread h2 + (p - off)\<rparr>
           in (h3, hp_nread h3, evs))"

definition http11 :: "bool \<Rightarrow> http_parser request_machine" where
  "http11 x = \<lparr>http_parser_init = http11_init x, http_parser_execute = http11_execute,
     http_parser_is_finished = http11_is_finished, http_parser_has_error = http11_has_error, content_len = hp_content_len\<rparr>"

section \<open>Facts about the machine\<close>

lemma rq_number_line_end [simp]: "number line_end n = (line_end, n)" by (simp add: line_end_def)
lemma rq_number_pct [simp]: "number rq_pct_encoded n = (rq_pct_encoded, n)" by (simp add: rq_pct_encoded_def)
lemma rq_number_pchar [simp]: "number (rq_pchar x) n = (rq_pchar x, n)" by (simp add: rq_pchar_def)
lemma rq_number_query_chars [simp]: "number (rq_query_chars x) n = (rq_query_chars x, n)" by (simp add: rq_query_chars_def)
lemma rq_number_segment [simp]: "number (rq_segment x) n = (rq_segment x, n)" "number (rq_segments x) n = (rq_segments x, n)"
  "number (rq_segment_nz x) n = (rq_segment_nz x, n)" "number (rq_segment_nz_nc x) n = (rq_segment_nz_nc x, n)"
  by (simp_all add: rq_segment_def rq_segments_def rq_segment_nz_def rq_segment_nz_nc_def Plus_def)
lemma rq_number_paths [simp]: "number (rq_path_empty x) n = (rq_path_empty x, n)" "number (rq_path_rootless x) n = (rq_path_rootless x, n)"
  "number (rq_path_noscheme x) n = (rq_path_noscheme x, n)" "number (rq_path_absolute x) n = (rq_path_absolute x, n)"
  "number (rq_path_abempty x) n = (rq_path_abempty x, n)"
  by (simp_all add: rq_path_empty_def rq_path_rootless_def rq_path_noscheme_def rq_path_absolute_def rq_path_abempty_def Opt_def)
lemma rq_number_h16 [simp]: "number rq_h16 n = (rq_h16, n)" "number rq_dec_octet n = (rq_dec_octet, n)"
  by (simp_all add: rq_h16_def rq_dec_octet_def)
lemma rq_number_group [simp]: "number rq_IPv4address n = (rq_IPv4address, n)" "number rq_group n = (rq_group, n)"
  "number rq_ls32 n = (rq_ls32, n)"
  by (simp_all add: rq_IPv4address_def rq_group_def rq_ls32_def)
lemma rq_number_groups [simp]: "number (numbered_group k) n = (numbered_group k, n)" "number (rq_before k) n = (rq_before k, n)"
  by (simp_all add: numbered_group_def rq_before_def Opt_def)
lemma rq_number_IPv6 [simp]: "number rq_IPv6address n = (rq_IPv6address, n)" by (simp add: rq_IPv6address_def Opt_def)
lemma rq_number_host [simp]: "number (rq_host x) n = (rq_host x, n)"
  by (simp add: rq_host_def rq_IP_literal_def rq_IPvFuture_def rq_reg_name_def Plus_def)
lemma rq_number_authority [simp]: "number (rq_authority x) n = (rq_authority x, n)" "number rq_scheme n = (rq_scheme, n)"
  by (simp_all add: rq_authority_def rq_userinfo_def rq_scheme_def Opt_def)
lemma rq_number_parts [simp]: "number (rq_relative_part x) n = (rq_relative_part x, n)" "number (rq_hier_part x) n = (rq_hier_part x, n)"
  by (simp_all add: rq_relative_part_def rq_hier_part_def)
lemma rq_number_lws [simp]: "number lws n = (lws, n)" by (simp add: lws_def Opt_def Plus_def)

type_synonym numbered_rq = "(nat \<times> request_action) machine"

definition TARGET :: "bool \<Rightarrow> nat \<Rightarrow> numbered_rq \<Rightarrow> numbered_rq" where
  "TARGET x n part = Leaving (n + 4, Act_request_uri) (Entering (n, Act_mark)
     (Cat (Leaving (n + 1, Act_request_path) part)
          (Opt (Cat (Leaving (n + 2, Act_start_query) (lit ''?'')) (Leaving (n + 3, Act_query_string) (rq_query_chars x))))))"

definition TARGET_FRAGMENT :: "bool \<Rightarrow> nat \<Rightarrow> numbered_rq" where
  "TARGET_FRAGMENT x n = Leaving (n + 1, Act_fragment) (Entering (n, Act_mark) (rq_query_chars x))"

definition FRAGMENT_OPT :: "bool \<Rightarrow> nat \<Rightarrow> numbered_rq" where
  "FRAGMENT_OPT x n = Opt (Cat (lit ''#'') (TARGET_FRAGMENT x n))"

definition VERSION :: numbered_rq where
  "VERSION = Leaving (17, Act_http_version) (Entering (16, Act_mark) (Cat (lit ''HTTP/'') (Cat (lit ''1.'') (Class (one_of ''01'')))))"

definition AFTER_TARGET :: numbered_rq where "AFTER_TARGET = Cat (lit '' '') (Cat VERSION line_end)"

definition VALUE :: numbered_rq where
  "VALUE = Leaving (21, Act_write_value) (Entering (20, Act_start_value) (Star (Or (Class not_ctl) lws)))"

definition AFTER_NAME :: numbered_rq where "AFTER_NAME = Cat (lit '':'') (Cat (Star lws) VALUE)"

definition HEADER :: numbered_rq where
  "HEADER = entry_guarded 0 (Cat (Leaving (19, Act_write_field) (Entering (18, Act_start_field) (Plus (Class token_bytes)))) AFTER_NAME) line_end"

definition HEADERS :: numbered_rq where "HEADERS = Cat (Star HEADER) line_end"

definition REFERENCE :: "bool \<Rightarrow> numbered_rq" where
  "REFERENCE x = Or (Cat rq_scheme (Cat (lit '':'') (Cat (TARGET x 2 (rq_hier_part x)) (FRAGMENT_OPT x 7))))
     (Cat (TARGET x 9 (rq_relative_part x)) (FRAGMENT_OPT x 14))"

definition AFTER_METHOD :: "bool \<Rightarrow> numbered_rq" where "AFTER_METHOD x = Cat (lit '' '') (Cat (REFERENCE x) AFTER_TARGET)"

definition METHOD :: numbered_rq where
  "METHOD = Leaving (1, Act_request_method) (Entering (0, Act_mark) (Cat (Class method_bytes) (Up_to 19 (Class method_bytes))))"

lemma number_final: "final (fst (number m n)) = final m"
  by (induction m arbitrary: n) (simp_all add: case_prod_beta)

lemma number_moves: "moves c m = [] \<Longrightarrow> moves c (fst (number m n)) = []"
  by (induction m arbitrary: n) (auto simp: case_prod_beta number_final split: if_splits)

lemma rq_start_eq:
  "\<exists>n R. start (http_main x) = [Finishing (n, Act_done) (Or (Cat (Cat METHOD (AFTER_METHOD x)) HEADERS) R)]
     \<and> (\<forall>c. in_class method_bytes c \<longrightarrow> moves c R = [])"
proof (intro exI conjI allI impI)
  let ?R = "fst (number (Or SocketXML (SocketJSON x)) 22)" and ?n = "snd (number (Or SocketXML (SocketJSON x)) 22)"
  have "number (Request x) 0 = (Cat (Cat METHOD (AFTER_METHOD x)) HEADERS, 22)"
    by (simp add: Request_def Request_Line_def rq_Method_def rq_URI_def rq_relative_ref_def with_query_def rq_query_def
      rq_fragment_part_def rq_fragment_def rq_HTTP_Version_def message_header_def field_name_def field_value_def
      entry_guarded_def Opt_def Plus_def METHOD_def AFTER_METHOD_def REFERENCE_def TARGET_def FRAGMENT_OPT_def TARGET_FRAGMENT_def
      VERSION_def AFTER_TARGET_def VALUE_def AFTER_NAME_def HEADER_def HEADERS_def case_prod_beta)
  then show "start (http_main x) = [Finishing (?n, Act_done) (Or (Cat (Cat METHOD (AFTER_METHOD x)) HEADERS) ?R)]"
    by (simp add: start_def http_main_def case_prod_beta)
  fix c assume "in_class method_bytes c"
  then have "c \<noteq> CHR ''<''" "c \<noteq> CHR ''@''" by (auto simp: method_bytes_def byte_def)
  then have "moves c (Or SocketXML (SocketJSON x)) = []"
    by (simp add: SocketXML_def SocketJSON_def finish_guarded_def)
  then show "moves c ?R = []" by (rule number_moves)
qed

section \<open>The states along a request\<close>

definition method_char :: "char \<Rightarrow> bool" where "method_char c \<longleftrightarrow> in_class method_bytes c"
definition path_byte :: "bool \<Rightarrow> char \<Rightarrow> bool" where "path_byte x c \<longleftrightarrow> in_class (rq_pchar_bytes x) c \<or> c = CHR ''/''"
definition query_byte :: "bool \<Rightarrow> char \<Rightarrow> bool" where "query_byte x c \<longleftrightarrow> in_class (rq_pchar_bytes x) c \<or> c = CHR ''/'' \<or> c = CHR ''?''"
definition name_byte :: "char \<Rightarrow> bool" where "name_byte c \<longleftrightarrow> in_class token_bytes c \<and> c \<noteq> CHR 0x0D \<and> c \<noteq> CHR 0x0A"
definition value_byte :: "char \<Rightarrow> bool" where "value_byte c \<longleftrightarrow> in_class not_ctl c \<and> c \<noteq> CHR 0x0D \<and> c \<noteq> CHR 0x0A"

definition in_method :: "nat \<Rightarrow> bool \<Rightarrow> nat \<Rightarrow> numbered_rq" where
  "in_method N x k = Finishing (N, Act_done) (Cat (Cat (Leaving (1, Act_request_method) (Up_to k (Class method_bytes))) (AFTER_METHOD x)) HEADERS)"

definition at_target :: "nat \<Rightarrow> bool \<Rightarrow> numbered_rq" where
  "at_target N x = Finishing (N, Act_done) (Cat (Cat (REFERENCE x) AFTER_TARGET) HEADERS)"

definition path_state :: "nat \<Rightarrow> bool \<Rightarrow> numbered_rq \<Rightarrow> numbered_rq" where
  "path_state N x r = Finishing (N, Act_done) (Cat (Cat (Cat (Leaving (13, Act_request_uri) (Cat (Leaving (10, Act_request_path) r)
     (Opt (Cat (Leaving (11, Act_start_query) (lit ''?'')) (Leaving (12, Act_query_string) (rq_query_chars x))))))
     (FRAGMENT_OPT x 14)) AFTER_TARGET) HEADERS)"

definition root_state :: "nat \<Rightarrow> bool \<Rightarrow> request_action state" where
  "root_state N x = [path_state N x (Cat (lit ''/'') (Cat (rq_authority x) (rq_path_abempty x))),
     path_state N x (Opt (Cat (rq_segment_nz x) (rq_segments x)))]"

definition rq_in_path :: "nat \<Rightarrow> bool \<Rightarrow> request_action state" where
  "rq_in_path N x = [path_state N x (Cat (rq_segment x) (rq_segments x))]"

definition query_state :: "nat \<Rightarrow> bool \<Rightarrow> numbered_rq \<Rightarrow> numbered_rq" where
  "query_state N x r = Finishing (N, Act_done) (Cat (Cat (Cat (Leaving (13, Act_request_uri) r) (FRAGMENT_OPT x 14)) AFTER_TARGET) HEADERS)"

definition rq_at_query :: "nat \<Rightarrow> bool \<Rightarrow> request_action state" where
  "rq_at_query N x = [query_state N x (Cat (Leaving (11, Act_start_query) Lambda) (Leaving (12, Act_query_string) (rq_query_chars x)))]"

definition rq_in_query :: "nat \<Rightarrow> bool \<Rightarrow> request_action state" where
  "rq_in_query N x = [query_state N x (Leaving (12, Act_query_string) (rq_query_chars x))]"

definition at_fragment :: "nat \<Rightarrow> bool \<Rightarrow> request_action state" where
  "at_fragment N x = [Finishing (N, Act_done) (Cat (Cat (TARGET_FRAGMENT x 14) AFTER_TARGET) HEADERS)]"

definition rq_in_fragment :: "nat \<Rightarrow> bool \<Rightarrow> request_action state" where
  "rq_in_fragment N x = [Finishing (N, Act_done) (Cat (Cat (Leaving (15, Act_fragment) (rq_query_chars x)) AFTER_TARGET) HEADERS)]"

definition at_version :: "nat \<Rightarrow> request_action state" where
  "at_version N = [Finishing (N, Act_done) (Cat (Cat VERSION line_end) HEADERS)]"

definition at_headers :: "nat \<Rightarrow> request_action state" where "at_headers N = [Finishing (N, Act_done) HEADERS]"

definition header_state :: "nat \<Rightarrow> numbered_rq \<Rightarrow> numbered_rq" where
  "header_state N r = Finishing (N, Act_done) (Cat (Cat (Cat (Prio_all 0 0 r) (Prio_enter 0 1 line_end)) (Star HEADER)) line_end)"

definition in_name :: "nat \<Rightarrow> numbered_rq" where
  "in_name N = header_state N (Cat (Leaving (19, Act_write_field) (Star (Class token_bytes))) AFTER_NAME)"

definition at_value :: "nat \<Rightarrow> request_action state" where
  "at_value N = [header_state N (Cat (Star lws) VALUE)]"

definition in_value :: "nat \<Rightarrow> numbered_rq" where
  "in_value N = header_state N (Leaving (21, Act_write_value) (Star (Or (Class not_ctl) lws)))"

definition in_value_blank :: "nat \<Rightarrow> numbered_rq" where
  "in_value_blank N = header_state N (Leaving (21, Act_write_value) (Cat (Star (Class blanks)) (Star (Or (Class not_ctl) lws))))"

definition after_colon :: "nat \<Rightarrow> request_action state" where
  "after_colon N = [header_state N (Cat (Cat (Star (Class blanks)) (Star lws)) VALUE), in_value N, in_value_blank N]"


section \<open>Steps\<close>

lemma rq_moves_pct: "c \<noteq> CHR ''%'' \<Longrightarrow> moves c rq_pct_encoded = []" by (simp add: rq_pct_encoded_def)

lemma rq_no_pchar [simp]: "\<not> in_class (rq_pchar_bytes x) CHR ''/''" "\<not> in_class (rq_pchar_bytes x) CHR ''?''"
    "\<not> in_class (rq_pchar_bytes x) CHR ''#''" "\<not> in_class (rq_pchar_bytes x) CHR ''%''" "\<not> in_class (rq_pchar_bytes x) CHR '' ''"
  by (simp_all add: rq_pchar_bytes_def non_ascii_def rq_unreserved_def rq_sub_delims_def letters_def digits_def byte_def)

lemma rq_pchar_facts: "in_class (rq_pchar_bytes x) c \<Longrightarrow>
    c \<noteq> CHR ''%'' \<and> c \<noteq> CHR ''/'' \<and> c \<noteq> CHR ''?'' \<and> c \<noteq> CHR ''#'' \<and> c \<noteq> CHR '' ''"
  by (auto simp del: in_class_simps)

lemma rq_finals [simp]: "final (rq_segment x)" "final (rq_segments x)" "final (rq_query_chars x)" "final (rq_path_abempty x)"
    "final (rq_reg_name x)" "\<not> final rq_pct_encoded" "\<not> final (rq_pchar x)" "\<not> final line_end" "\<not> final lws"
  by (simp_all add: rq_segment_def rq_segments_def rq_query_chars_def rq_path_abempty_def rq_reg_name_def rq_pct_encoded_def
      rq_pchar_def line_end_def lws_def Plus_def)

lemma rq_shapes [simp]: "rq_segment x \<noteq> Lambda" "rq_segments x \<noteq> Lambda" "rq_query_chars x \<noteq> Lambda" "line_end \<noteq> Lambda"
  by (simp_all add: rq_segment_def rq_segments_def rq_query_chars_def line_end_def)

lemma rq_due [simp]: "due (rq_segment x) = []" "due (rq_segments x) = []" "due (rq_query_chars x) = []" "due (rq_pchar x) = []"
  by (simp_all add: rq_segment_def rq_segments_def rq_query_chars_def rq_pchar_def) (simp_all add: rq_pct_encoded_def)

lemma rq_plain_moves:
  assumes "c \<noteq> CHR ''%''"
  shows "moves c (rq_pchar x) = (if in_class (rq_pchar_bytes x) c then [([], [], Lambda)] else [])"
    "moves c (rq_segment x) = (if in_class (rq_pchar_bytes x) c then [([], [], rq_segment x)] else [])"
    "moves c (rq_query_chars x) = (if in_class (rq_pchar_bytes x) c \<or> c = CHR ''/'' \<or> c = CHR ''?'' then [([], [], rq_query_chars x)] else [])"
  using rq_moves_pct [OF assms]
  by (auto simp: rq_segment_def rq_query_chars_def rq_pchar_def simp del: in_class_simps)

lemma rq_moves_segments: "moves c (rq_segments x) = (if c = CHR ''/'' then [([], [], Cat (rq_segment x) (rq_segments x))] else [])"
  by (simp add: rq_segments_def rq_segment_def)

lemma moves_line_end: "moves c line_end = (if c = CHR 0x0D then [([], [], sym (CHR 0x0A))] else if c = CHR 0x0A then [([], [], Lambda)] else [])"
  by (simp add: line_end_def)


lemma not_final [simp]: "\<not> final HEADERS" "\<not> final (AFTER_METHOD x)" "\<not> final AFTER_TARGET" "\<not> final VERSION"
  by (simp_all add: HEADERS_def AFTER_METHOD_def AFTER_TARGET_def VERSION_def)

lemma Up_to_facts [simp]: "final (Up_to k r)" "due (Up_to k (Class b)) = []"
  by (induction k) (simp_all add: Opt_def)

lemma moves_Up_to: "moves c (Up_to (Suc k) (Class b)) = (if in_class b c then [([], [], Up_to k (Class b))] else [])"
  by (simp add: Opt_def)

lemma moves_Up_to_none: "\<not> in_class b c \<Longrightarrow> moves c (Up_to k (Class b)) = []"
  by (induction k) (simp_all add: Opt_def)

lemma method_facts: "method_char c \<Longrightarrow> in_class method_bytes c \<and> c \<noteq> CHR '' ''" "\<not> in_class method_bytes CHR '' ''"
  by (auto simp: method_char_def method_bytes_def byte_def)

lemma step_start_method:
  "\<exists>N. \<forall>c. method_char c \<longrightarrow> step c (start (http_main x)) = ([Act_mark], [in_method N x 19])"
proof -
  obtain N R where R: "start (http_main x) = [Finishing (N, Act_done) (Or (Cat (Cat METHOD (AFTER_METHOD x)) HEADERS) R)]"
      "\<And>c. in_class method_bytes c \<Longrightarrow> moves c R = []"
    using rq_start_eq by blast
  have "step c (start (http_main x)) = ([Act_mark], [in_method N x 19])" if "method_char c" for c
    using R method_facts(1) [OF that] by (simp add: METHOD_def step_def in_method_def in_order_def AFTER_METHOD_def del: Up_to.simps)
  then show ?thesis by blast
qed

lemma step_method: "method_char c \<Longrightarrow> step c [in_method N x (Suc k)] = ([], [in_method N x k])"
    "step (CHR '' '') [in_method N x k] = ([Act_request_method], [at_target N x])"
  using method_facts
  by (simp_all add: step_def in_method_def in_order_def moves_Up_to moves_Up_to_none AFTER_METHOD_def at_target_def del: Up_to.simps in_class_simps)
    

lemmas target_defs = path_state_def query_state_def root_state_def rq_in_path_def rq_at_query_def rq_in_query_def at_fragment_def rq_in_fragment_def
  at_version_def FRAGMENT_OPT_def TARGET_FRAGMENT_def Opt_def AFTER_TARGET_def

lemmas rq_moves = rq_plain_moves rq_moves_segments moves_line_end

lemma step_root: "step (CHR ''/'') [at_target N x] = ([Act_mark], root_state N x)"
  by (simp add: step_def at_target_def in_order_def REFERENCE_def TARGET_def rq_scheme_def rq_relative_part_def rq_path_absolute_def
      rq_path_noscheme_def rq_segment_nz_nc_def rq_path_empty_def Plus_def target_defs rq_moves rq_moves_pct
      letters_def digits_def rq_unreserved_def rq_sub_delims_def byte_def)

lemma path_root: "in_class (rq_pchar_bytes x) c \<Longrightarrow> step c (root_state N x) = ([], rq_in_path N x)"
  using rq_pchar_facts [of x c]
  by (simp add: step_def in_order_def target_defs rq_moves rq_segment_nz_def Plus_def rq_segment_def [symmetric] del: in_class_simps)

lemma path_loop:
  assumes "path_byte x c"
  shows "step c (rq_in_path N x) = ([], rq_in_path N x)"
proof -
  have "c \<noteq> CHR ''%''" "c \<noteq> CHR ''?''" "c \<noteq> CHR ''#''" "c \<noteq> CHR '' ''" "in_class (rq_pchar_bytes x) c \<and> c \<noteq> CHR ''/'' \<or> c = CHR ''/''"
    using assms rq_pchar_facts [of x c] by (auto simp: path_byte_def simp del: in_class_simps)
  then show ?thesis by (auto simp: step_def in_order_def target_defs rq_moves simp del: in_class_simps)
qed

lemma path_end:
  assumes "S = root_state N x \<or> S = rq_in_path N x"
  shows "step (CHR ''?'') S = ([Act_request_path], rq_at_query N x)" "step (CHR ''#'') S = ([Act_request_path, Act_request_uri], at_fragment N x)"
    "step (CHR '' '') S = ([Act_request_path, Act_request_uri], at_version N)"
  using assms by (auto simp: step_def in_order_def target_defs rq_moves rq_segment_nz_def Plus_def simp del: in_class_simps)

lemma query_facts: "query_byte x c \<Longrightarrow> c \<noteq> CHR ''%'' \<and> c \<noteq> CHR ''#'' \<and> c \<noteq> CHR '' '' \<and> (in_class (rq_pchar_bytes x) c \<or> c = CHR ''/'' \<or> c = CHR ''?'')"
  by (auto simp: query_byte_def dest: rq_pchar_facts simp del: in_class_simps)

lemma query_steps:
  assumes "query_byte x c"
  shows "step c (rq_at_query N x) = ([Act_start_query], rq_in_query N x)" "step c (rq_in_query N x) = ([], rq_in_query N x)"
    "step c (at_fragment N x) = ([Act_mark], rq_in_fragment N x)" "step c (rq_in_fragment N x) = ([], rq_in_fragment N x)"
  using query_facts [OF assms] by (auto simp: step_def in_order_def target_defs rq_moves simp del: in_class_simps)

lemma query_end:
    "step (CHR ''#'') (rq_in_query N x) = ([Act_query_string, Act_request_uri], at_fragment N x)"
    "step (CHR '' '') (rq_in_query N x) = ([Act_query_string, Act_request_uri], at_version N)"
    "step (CHR '' '') (rq_in_fragment N x) = ([Act_fragment], at_version N)"
  by (simp_all add: step_def in_order_def target_defs rq_moves del: in_class_simps)


lemma feed_version:
  assumes "v = ''HTTP/1.1'' \<or> v = ''HTTP/1.0''" and "act Act_mark p s = (False, s1)" and "act Act_http_version (p + 8) s1 = (False, s2)"
  shows "feed act (v @ [CHR 0x0D, CHR 0x0A] @ cs) p (at_version N) s = feed act cs (p + 10) (at_headers N) s2"
  using assms(1) assms(3) [unfolded eval_nat_numeral, simplified]
  by (elim disjE) (simp_all add: assms(2) eval_nat_numeral at_version_def VERSION_def step_def in_order_def moves_line_end at_headers_def)

lemmas header_defs = header_state_def in_name_def at_value_def in_value_def in_value_blank_def after_colon_def VALUE_def
  AFTER_NAME_def at_headers_def

lemma field_byte_facts: "name_byte c \<Longrightarrow> in_class token_bytes c" "name_byte c \<Longrightarrow> c \<noteq> CHR '':'' \<and> c \<noteq> CHR 0x0D \<and> c \<noteq> CHR 0x0A"
    "\<not> in_class token_bytes CHR '':''"
  by (auto simp: name_byte_def token_bytes_def byte_def)

lemma name_first: "name_byte c \<Longrightarrow> step c (at_headers N) = ([Act_start_field], [in_name N])"
  using field_byte_facts(1,2) [of c]
  by (simp add: step_def in_order_def header_defs HEADERS_def HEADER_def entry_guarded_def Plus_def rq_moves unless_overridden_def overrides_def del: in_class_simps)

lemma name_loop: "name_byte c \<Longrightarrow> step c [in_name N] = ([], [in_name N])"
  using field_byte_facts(1,2) [of c]
  by (simp add: step_def in_order_def header_defs rq_moves unless_overridden_def overrides_def del: in_class_simps)

lemma name_end: "step (CHR '':'') [in_name N] = ([Act_write_field], at_value N)"
  using field_byte_facts(3)
  by (simp add: step_def in_order_def header_defs rq_moves unless_overridden_def overrides_def del: in_class_simps)


definition blank :: "char \<Rightarrow> bool" where "blank c \<longleftrightarrow> c = CHR '' '' \<or> c = CHR 0x09"

lemma in_blanks: "in_class blanks c \<longleftrightarrow> blank c"
  using byte_inject [of c "CHR '' ''"] byte_inject [of c "CHR 0x09"] by (auto simp: blanks_def blank_def byte_def)

lemma due_lws [simp]: "due lws = []" "due line_end = []" by (simp_all add: lws_def line_end_def Plus_def)

lemma moves_lws: "c \<noteq> CHR 0x0D \<Longrightarrow> c \<noteq> CHR 0x0A \<Longrightarrow> moves c lws = (if blank c then [([], [], Star (Class blanks))] else [])"
  by (simp add: lws_def Opt_def Plus_def moves_line_end in_blanks)


lemma blank_facts: "blank c \<Longrightarrow> in_class not_ctl c" "blank c \<Longrightarrow> c \<noteq> CHR 0x0D \<and> c \<noteq> CHR 0x0A"
  by (auto simp: blank_def not_ctl_def byte_def)

lemma value_facts: "value_byte c \<Longrightarrow> in_class not_ctl c" "value_byte c \<Longrightarrow> c \<noteq> CHR 0x0D \<and> c \<noteq> CHR 0x0A"
  by (auto simp: value_byte_def)

lemmas value_step = step_def in_order_def header_defs rq_moves moves_lws in_blanks unless_overridden_def overrides_def

lemma value_blank_first: "blank c \<Longrightarrow> step c (at_value N) = ([Act_start_value], after_colon N)"
  using blank_facts [of c] by (simp add: value_step del: in_class_simps)

lemma value_first: "value_byte c \<Longrightarrow> \<not> blank c \<Longrightarrow> S = at_value N \<or> S = after_colon N \<Longrightarrow> step c S = ([Act_start_value], [in_value N])"
  using value_facts [of c] by (auto simp: value_step simp del: in_class_simps)

definition in_value_states :: "nat \<Rightarrow> request_action state \<Rightarrow> bool" where
  "in_value_states N S \<longleftrightarrow> S = [in_value N] \<or> S = [in_value N, in_value_blank N]"

lemma value_loop: "value_byte c \<Longrightarrow> in_value_states N S \<Longrightarrow> \<exists>S'. step c S = ([], S') \<and> in_value_states N S'"
  using value_facts [of c] unfolding in_value_states_def
  by (cases "blank c") (auto simp: value_step simp del: in_class_simps)

definition at_line_feed :: "nat \<Rightarrow> request_action state" where
  "at_line_feed N = [Finishing (N, Act_done) (Cat (Cat (sym (CHR 0x0A)) (Star HEADER)) line_end)]"

lemma moves_lws_end: "moves (CHR 0x0D) lws = [([], [], Cat (sym (CHR 0x0A)) (Plus (Class blanks)))]"
  by (simp add: lws_def Opt_def Plus_def moves_line_end blanks_def byte_def)

lemma value_end: "in_value_states N S \<Longrightarrow> step (CHR 0x0D) S = ([Act_write_value], at_line_feed N)"
  unfolding in_value_states_def
  by (auto simp: value_step moves_lws_end at_line_feed_def not_ctl_def byte_def blank_def Plus_def simp del: in_class_simps)

lemma line_feed: "step (CHR 0x0A) (at_line_feed N) = ([], at_headers N)"
  by (simp add: step_def in_order_def at_line_feed_def at_headers_def HEADERS_def)

definition at_last :: "nat \<Rightarrow> request_action state" where
  "at_last N = [in_name N, Finishing (N, Act_done) (sym (CHR 0x0A))]"

definition at_end :: "nat \<Rightarrow> request_action state" where
  "at_end N = [in_name N, Finishing (N, Act_done) Lambda]"

lemma sym_Cat [simp]: "Cat r s \<noteq> sym c" "sym c \<noteq> Cat r s" by (simp_all add: sym_def)

lemma token_line_end: "in_class token_bytes (CHR 0x0D)" "in_class token_bytes (CHR 0x0A)"
  by (simp_all add: token_bytes_def byte_def)

lemma final_steps: "step (CHR 0x0D) (at_headers N) = ([Act_start_field], at_last N)" "step (CHR 0x0A) (at_last N) = ([Act_done], at_end N)"
  by (simp_all add: value_step at_last_def at_end_def HEADERS_def HEADER_def entry_guarded_def Plus_def token_line_end del: in_class_simps)

lemma end_states: "accepting (at_end N)" "at_last N \<noteq> []" "at_end N \<noteq> []"
  by (simp_all add: accepting_def at_end_def at_last_def)


section \<open>Runs over the parts of a request\<close>

lemma span_part [simp]: "span_of (pre @ v @ rest) (length pre) (length pre + length v) ev = ev v"
  by (simp add: span_of_def)

text \<open>What holds of the structure while a request is read.\<close>

definition unfinished :: "http_parser \<Rightarrow> bool" where
  "unfinished h \<longleftrightarrow> hp_cs h \<noteq> [] \<and> \<not> hp_xml_sent h \<and> \<not> hp_json_sent h \<and> hp_content_len h = 0 \<and> hp_nread h = 0"

definition method_ok :: "string \<Rightarrow> bool" where
  "method_ok m \<longleftrightarrow> m \<noteq> [] \<and> length m \<le> 20 \<and> list_all method_char m"

definition target_ok :: "bool \<Rightarrow> string \<Rightarrow> bool" where
  "target_ok x p \<longleftrightarrow> p \<noteq> [] \<and> hd p = CHR ''/'' \<and> list_all (path_byte x) (tl p) \<and> (tl p \<noteq> [] \<longrightarrow> hd (tl p) \<noteq> CHR ''/'')"

lemma feed_method_loop:
  "list_all method_char xs \<Longrightarrow> length xs \<le> k \<Longrightarrow>
     feed act (xs @ cs) p [in_method N x k] s = feed act cs (p + length xs) [in_method N x (k - length xs)] s"
proof (induction xs arbitrary: p k)
  case (Cons c xs)
  then obtain k' where "k = Suc k'" by (cases k) auto
  with Cons show ?case by (simp add: step_method)
qed simp

lemma feed_method:
  assumes "method_ok m" and "\<forall>c. method_char c \<longrightarrow> step c (start (http_main x)) = ([Act_mark], [in_method N x 19])"
    and b: "b = m @ '' '' @ rest"
  shows "feed (request_act b) b 0 (start (http_main x)) (h, evs) =
    feed (request_act b) rest (length m + 1) [at_target N x] (h\<lparr>hp_mark := 0\<rparr>, evs @ [Request_method m])"
proof -
  obtain c m' where m: "m = c # m'" "method_char c" "list_all method_char m'" "length m' \<le> 19"
    using assms(1) by (cases m) (auto simp: method_ok_def)
  have "feed (request_act b) b 0 (start (http_main x)) (h, evs) =
      feed (request_act b) (m' @ '' '' @ rest) 1 [in_method N x 19] (h\<lparr>hp_mark := 0\<rparr>, evs)"
    using assms(2) m by (simp add: b)
  also have "\<dots> = feed (request_act b) ('' '' @ rest) (1 + length m') [in_method N x (19 - length m')] (h\<lparr>hp_mark := 0\<rparr>, evs)"
    using m(3,4) by (rule feed_method_loop)
  also have "\<dots> = feed (request_act b) rest (length m + 1) [at_target N x] (h\<lparr>hp_mark := 0\<rparr>, evs @ [Request_method m])"
    using m by (simp add: step_method(2) b span_of_def)
  finally show ?thesis .
qed

lemma feed_target_path:
  assumes "target_ok x p"
  shows "\<exists>S. (S = root_state N x \<or> S = rq_in_path N x)
    \<and> feed (request_act b) (p @ rest) n [at_target N x] (h, evs) = feed (request_act b) rest (n + length p) S (h\<lparr>hp_mark := n\<rparr>, evs)"
proof -
  obtain p' where p: "p = CHR ''/'' # p'" using assms by (cases p) (auto simp: target_ok_def)
  have nil: "root_state N x \<noteq> []" "rq_in_path N x \<noteq> []" by (simp_all add: root_state_def rq_in_path_def)
  have "feed (request_act b) (p @ rest) n [at_target N x] (h, evs) = feed (request_act b) (p' @ rest) (n + 1) (root_state N x) (h\<lparr>hp_mark := n\<rparr>, evs)"
    using nil by (simp add: p step_root)
  moreover have "feed (request_act b) (p' @ rest) (n + 1) (root_state N x) s = feed (request_act b) rest (n + 1 + length p') (rq_in_path N x) s"
    if "p' \<noteq> []" for s
  proof (rule feed_part [OF that])
    have "in_class (rq_pchar_bytes x) (hd p')" using assms that p by (cases p') (auto simp: target_ok_def path_byte_def)
    then show "step (hd p') (root_state N x) = ([], rq_in_path N x)" by (rule path_root)
    show "\<forall>c \<in> set (tl p'). step c (rq_in_path N x) = ([], rq_in_path N x)"
      using assms path_loop p that by (auto simp: target_ok_def list_all_iff dest: list.set_sel(2))
  qed (simp_all add: nil)
  ultimately show ?thesis using p by (cases "p' = []") auto
qed


definition rq_query_text :: "string \<Rightarrow> string" where "rq_query_text q = (if q = [] then [] else ''?'') @ q"
definition rq_fragment_text :: "string \<Rightarrow> string" where "rq_fragment_text f = (if f = [] then [] else ''#'') @ f"

definition query_events :: "string \<Rightarrow> request_event list" where "query_events q = (if q = [] then [] else [Request_query q])"
definition fragment_events :: "string \<Rightarrow> request_event list" where "fragment_events f = (if f = [] then [] else [Request_fragment f])"

lemma states_nonempty [simp]: "rq_at_query N x \<noteq> []" "rq_in_query N x \<noteq> []" "at_fragment N x \<noteq> []" "rq_in_fragment N x \<noteq> []" "at_version N \<noteq> []"
    "at_headers N \<noteq> []" "at_value N \<noteq> []" "after_colon N \<noteq> []" "at_line_feed N \<noteq> []"
  by (simp_all add: rq_at_query_def rq_in_query_def at_fragment_def rq_in_fragment_def at_version_def at_headers_def at_value_def after_colon_def
      at_line_feed_def)

lemma feed_fragment_text:
  assumes "list_all (query_byte x) f" and "f \<noteq> []" and b: "b = pre @ f @ '' '' @ rest"
  shows "feed (request_act b) (f @ '' '' @ rest) (length pre) (at_fragment N x) (h, evs) =
    feed (request_act b) rest (length pre + length f + 1) (at_version N) (h\<lparr>hp_mark := length pre\<rparr>, evs @ [Request_fragment f])"
proof -
  have "feed (request_act b) (f @ '' '' @ rest) (length pre) (at_fragment N x) (h, evs) =
      feed (request_act b) ('' '' @ rest) (length pre + length f) (rq_in_fragment N x) (h\<lparr>hp_mark := length pre\<rparr>, evs)"
    using assms(1,2) query_steps(3) [of x "hd f"] query_steps(4) [of x]
    by (intro feed_part) (auto simp: list_all_iff dest: list.set_sel(2))
  then show ?thesis by (simp add: query_end b)
qed

text \<open>From the end of the path or of the query, with the actions that are due there, to the version.\<close>

lemma feed_after_target:
  assumes "list_all (query_byte x) f"
    and "step (CHR '' '') S = (as, at_version N)" and "step (CHR ''#'') S = (as, at_fragment N x)"
    and "perform_until (request_act b) as (length pre) (h, evs) = (False, (h, evs @ es))"
    and b: "b = pre @ rq_fragment_text f @ '' '' @ rest" and "unfinished h"
  shows "\<exists>h'. unfinished h' \<and> feed (request_act b) (rq_fragment_text f @ '' '' @ rest) (length pre) S (h, evs) =
    feed (request_act b) rest (length pre + length (rq_fragment_text f) + 1) (at_version N) (h', evs @ es @ fragment_events f)"
proof (cases "f = []")
  case True
  then show ?thesis using assms by (auto simp: rq_fragment_text_def fragment_events_def)
next
  case False
  then have "feed (request_act b) (rq_fragment_text f @ '' '' @ rest) (length pre) S (h, evs) =
      feed (request_act b) (f @ '' '' @ rest) (length (pre @ ''#'')) (at_fragment N x) (h, evs @ es)"
    using assms by (simp add: rq_fragment_text_def)
  also have "\<dots> = feed (request_act b) rest (length (pre @ ''#'') + length f + 1) (at_version N)
      (h\<lparr>hp_mark := length (pre @ ''#'')\<rparr>, (evs @ es) @ [Request_fragment f])"
    using False b by (intro feed_fragment_text [OF assms(1)]) (simp_all add: rq_fragment_text_def)
  finally show ?thesis using False assms(6)
    by (intro exI [of _ "h\<lparr>hp_mark := length (pre @ ''#'')\<rparr>"]) (simp add: rq_fragment_text_def fragment_events_def unfinished_def)
qed

lemma feed_target:
  assumes p: "target_ok x p" and "list_all (query_byte x) q" and "list_all (query_byte x) f" and "unfinished h"
    and b: "b = pre @ p @ rq_query_text q @ rq_fragment_text f @ '' '' @ rest"
  shows "\<exists>h'. unfinished h' \<and> feed (request_act b) (p @ rq_query_text q @ rq_fragment_text f @ '' '' @ rest) (length pre) [at_target N x] (h, evs) =
    feed (request_act b) rest (length (pre @ p @ rq_query_text q @ rq_fragment_text f) + 1) (at_version N)
      (h', evs @ Request_path p # query_events q @ Request_uri (p @ rq_query_text q) # fragment_events f)"
proof -
  obtain S where S: "S = root_state N x \<or> S = rq_in_path N x" and
    run: "feed (request_act b) (p @ rq_query_text q @ rq_fragment_text f @ '' '' @ rest) (length pre) [at_target N x] (h, evs) =
      feed (request_act b) (rq_query_text q @ rq_fragment_text f @ '' '' @ rest) (length (pre @ p)) S (h\<lparr>hp_mark := length pre\<rparr>, evs)"
    unfolding length_append using feed_target_path [OF p, of N b "rq_query_text q @ rq_fragment_text f @ '' '' @ rest" "length pre" h evs] by blast
  have u: "unfinished (h\<lparr>hp_mark := length pre, hp_query_start := k\<rparr>)" "unfinished (h\<lparr>hp_mark := length pre\<rparr>)" for k
    using assms(4) by (simp_all add: unfinished_def)
  show ?thesis
  proof (cases "q = []")
    case True
    have "\<exists>h'. unfinished h' \<and> feed (request_act b) (rq_fragment_text f @ '' '' @ rest) (length (pre @ p)) S (h\<lparr>hp_mark := length pre\<rparr>, evs) =
      feed (request_act b) rest (length (pre @ p) + length (rq_fragment_text f) + 1) (at_version N)
        (h', evs @ [Request_path p, Request_uri p] @ fragment_events f)"
      using True b path_end [OF S] by (intro feed_after_target [where as = "[Act_request_path, Act_request_uri]", OF assms(3) _ _ _ _ u(2)]) (simp_all add: rq_query_text_def)
    then show ?thesis using run True by (simp add: rq_query_text_def query_events_def add.assoc)
  next
    case False
    let ?h = "h\<lparr>hp_mark := length pre, hp_query_start := length (pre @ p) + 1\<rparr>"
    have "feed (request_act b) (rq_query_text q @ rq_fragment_text f @ '' '' @ rest) (length (pre @ p)) S (h\<lparr>hp_mark := length pre\<rparr>, evs) =
        feed (request_act b) (q @ rq_fragment_text f @ '' '' @ rest) (length (pre @ p) + 1) (rq_at_query N x) (h\<lparr>hp_mark := length pre\<rparr>, evs @ [Request_path p])"
      using path_end [OF S] False b by (simp add: rq_query_text_def)
    also have "\<dots> = feed (request_act b) (rq_fragment_text f @ '' '' @ rest) (length (pre @ p) + 1 + length q) (rq_in_query N x)
        (?h, evs @ [Request_path p])"
      using assms(2) False query_steps(1) [of x "hd q"] query_steps(2) [of x]
      by (intro feed_part) (auto simp: list_all_iff dest: list.set_sel(2))
    finally have q: "feed (request_act b) (rq_query_text q @ rq_fragment_text f @ '' '' @ rest) (length (pre @ p)) S (h\<lparr>hp_mark := length pre\<rparr>, evs) =
        feed (request_act b) (rq_fragment_text f @ '' '' @ rest) (length (pre @ p @ ''?'' @ q)) (rq_in_query N x) (?h, evs @ [Request_path p])"
      by (simp add: add.assoc)
    have "\<exists>h'. unfinished h' \<and> feed (request_act b) (rq_fragment_text f @ '' '' @ rest) (length (pre @ p @ ''?'' @ q)) (rq_in_query N x) (?h, evs @ [Request_path p]) =
      feed (request_act b) rest (length (pre @ p @ ''?'' @ q) + length (rq_fragment_text f) + 1) (at_version N)
        (h', (evs @ [Request_path p]) @ [Request_query q, Request_uri (p @ ''?'' @ q)] @ fragment_events f)"
      using False b query_end by (intro feed_after_target [where as = "[Act_query_string, Act_request_uri]", OF assms(3) _ _ _ _ u(1)]) (simp_all add: rq_query_text_def span_of_def)
    then show ?thesis using run q False by (simp add: rq_query_text_def query_events_def add.assoc)
  qed
qed


definition field_ok :: "string \<times> string \<Rightarrow> bool" where
  "field_ok = (\<lambda>(n, v). n \<noteq> [] \<and> list_all name_byte n \<and> v \<noteq> [] \<and> list_all value_byte v \<and> \<not> blank (hd v))"

lemma feed_value_loop:
  "list_all value_byte xs \<Longrightarrow> in_value_states N S \<Longrightarrow>
     \<exists>S'. in_value_states N S' \<and> feed act (xs @ cs) p S s = feed act cs (p + length xs) S' s"
proof (induction xs arbitrary: p S)
  case (Cons c xs)
  then obtain S1 where S1: "step c S = ([], S1)" "in_value_states N S1" using value_loop by fastforce
  then obtain S' where "in_value_states N S'" "feed act (xs @ cs) (p + 1) S1 s = feed act cs (p + 1 + length xs) S' s"
    using Cons by fastforce
  moreover have "S1 \<noteq> []" using S1(2) by (auto simp: in_value_states_def)
  ultimately show ?case using S1(1) by auto
qed auto

lemma feed_header:
  assumes "field_ok (n, v)" and b: "b = pre @ n @ '': '' @ v @ CRLF @ rest" and "unfinished h"
  shows "\<exists>h'. unfinished h' \<and> feed (request_act b) (n @ '': '' @ v @ CRLF @ rest) (length pre) (at_headers N) (h, evs) =
    feed (request_act b) rest (length (pre @ n @ '': '' @ v @ CRLF)) (at_headers N) (h', evs @ [Request_field n v])"
proof -
  obtain w vs where v: "v = w # vs" "value_byte w" "\<not> blank w" "list_all value_byte vs"
    using assms(1) by (cases v) (auto simp: field_ok_def)
  let ?h1 = "h\<lparr>hp_field_start := length pre\<rparr>" and ?k = "length pre + length n"
  let ?h2 = "?h1\<lparr>hp_field_len := length n, hp_mark := ?k + 2\<rparr>"
  have "feed (request_act b) (n @ '': '' @ v @ CRLF @ rest) (length pre) (at_headers N) (h, evs) =
      feed (request_act b) ('': '' @ v @ CRLF @ rest) ?k [in_name N] (?h1, evs)"
    using assms(1) name_first [of "hd n"] name_loop
    by (intro feed_part) (auto simp: field_ok_def list_all_iff dest: list.set_sel(2))
  also have "\<dots> = feed (request_act b) (vs @ CRLF @ rest) (?k + 3) [in_value N] (?h2, evs)"
  proof -
    have "step (CHR '' '') (at_value N) = ([Act_start_value], after_colon N)" "step w (after_colon N) = ([Act_start_value], [in_value N])"
      using value_blank_first value_first [OF v(2,3)] by (simp_all add: blank_def)
    then show ?thesis by (simp add: name_end v(1) eval_nat_numeral)
  qed
  finally have "feed (request_act b) (n @ '': '' @ v @ CRLF @ rest) (length pre) (at_headers N) (h, evs) =
      feed (request_act b) (vs @ CRLF @ rest) (?k + 3) [in_value N] (?h2, evs)" .
  moreover obtain S where S: "in_value_states N S"
      "feed (request_act b) (vs @ CRLF @ rest) (?k + 3) [in_value N] (?h2, evs) = feed (request_act b) (CRLF @ rest) (?k + 3 + length vs) S (?h2, evs)"
    using feed_value_loop [OF v(4), of N "[in_value N]" "request_act b" "CRLF @ rest" "?k + 3" "(?h2, evs)"]
    unfolding in_value_states_def by blast
  moreover have "feed (request_act b) (CRLF @ rest) (?k + 3 + length vs) S (?h2, evs) =
      feed (request_act b) rest (length (pre @ n @ '': '' @ v @ CRLF)) (at_headers N) (?h2, evs @ [Request_field n v])"
    using value_end [OF S(1)] by (simp add: CRLF_def line_feed b span_of_def v eval_nat_numeral add.assoc)
  ultimately show ?thesis using assms(3) by (intro exI [of _ ?h2]) (simp add: unfinished_def)
qed


lemma feed_headers:
  assumes "list_all field_ok hs" and "b = pre @ print_headers hs @ rest" and "unfinished h"
  shows "\<exists>h'. unfinished h' \<and> feed (request_act b) (print_headers hs @ rest) (length pre) (at_headers N) (h, evs) =
    feed (request_act b) rest (length (pre @ print_headers hs)) (at_headers N) (h', evs @ map (\<lambda>(n, v). Request_field n v) hs)"
  using assms
proof (induction hs arbitrary: pre h evs)
  case (Cons nv hs)
  obtain n v where nv: "nv = (n, v)" by fastforce
  let ?line = "n @ '': '' @ v @ CRLF"
  obtain h1 where h1: "unfinished h1" "feed (request_act b) (n @ '': '' @ v @ CRLF @ print_headers hs @ rest) (length pre) (at_headers N) (h, evs) =
      feed (request_act b) (print_headers hs @ rest) (length (pre @ ?line)) (at_headers N) (h1, evs @ [Request_field n v])"
    using feed_header [of n v b pre "print_headers hs @ rest" h N evs] Cons.prems nv by auto
  have "\<exists>h'. unfinished h' \<and> feed (request_act b) (print_headers hs @ rest) (length (pre @ ?line)) (at_headers N) (h1, evs @ [Request_field n v]) =
      feed (request_act b) rest (length ((pre @ ?line) @ print_headers hs)) (at_headers N)
        (h', (evs @ [Request_field n v]) @ map (\<lambda>(n, v). Request_field n v) hs)"
    using Cons.prems nv by (intro Cons.IH [OF _ _ h1(1)]) simp_all
  then show ?case using h1 nv by (simp add: add.assoc)
qed auto

lemma feed_end:
  assumes "unfinished h" and b: "b = pre @ CRLF @ rest"
  shows "\<exists>h'. unfinished h' \<and> feed (request_act b) (CRLF @ rest) (length pre) (at_headers N) (h, evs) =
    (length pre + 2, at_end N, (h', evs @ [Request_header_done rest]))"
  using assms by (simp add: CRLF_def final_steps end_states unfinished_def)

text \<open>The text of a request, and what the scanner reports of it.\<close>

definition request_head :: "string \<Rightarrow> string \<Rightarrow> string \<Rightarrow> string \<Rightarrow> string \<Rightarrow> string" where
  "request_head m p q f v = m @ '' '' @ p @ rq_query_text q @ rq_fragment_text f @ '' '' @ v @ CRLF"

definition request_events :: "string \<Rightarrow> string \<Rightarrow> string \<Rightarrow> string \<Rightarrow> string \<Rightarrow> HttpHeaders \<Rightarrow> string \<Rightarrow> request_event list" where
  "request_events m p q f v hs rest = Request_method m # Request_path p # query_events q @ Request_uri (p @ rq_query_text q)
     # fragment_events f @ Request_version v # map (\<lambda>(n, w). Request_field n w) hs @ [Request_header_done rest]"

text \<open>From the target to the end of the header, after a method that has been read.\<close>

lemma feed_from_target:
  assumes "target_ok x p" and "list_all (query_byte x) q" and "list_all (query_byte x) f"
    and "v = ''HTTP/1.1'' \<or> v = ''HTTP/1.0''" and "list_all field_ok hs" and u: "unfinished h"
    and b: "b = request_head m p q f v @ print_headers hs @ CRLF @ rest"
  shows "\<exists>S h'. unfinished h' \<and> accepting S
    \<and> feed (request_act b) (drop (length m + 1) b) (length m + 1) [at_target N x] (h, [Request_method m]) =
      (length (request_head m p q f v @ print_headers hs @ CRLF), S, (h', request_events m p q f v hs rest))"
proof -
  let ?r3 = "print_headers hs @ CRLF @ rest" and ?p1 = "m @ '' ''"
  let ?r1 = "p @ rq_query_text q @ rq_fragment_text f @ '' '' @ v @ CRLF @ ?r3"
  let ?p2 = "?p1 @ p @ rq_query_text q @ rq_fragment_text f @ '' ''"
  let ?e1 = "[Request_method m]"
  let ?e2 = "?e1 @ Request_path p # query_events q @ Request_uri (p @ rq_query_text q) # fragment_events f"
  let ?e3 = "?e2 @ [Request_version v]" and ?p3 = "request_head m p q f v"
  let ?e4 = "?e3 @ map (\<lambda>(n, v). Request_field n v) hs"
  have 1: "drop (length m + 1) b = ?r1" using b by (simp add: request_head_def)
  obtain h2 where 2: "unfinished h2" "feed (request_act b) ?r1 (length ?p1) [at_target N x] (h, ?e1) =
      feed (request_act b) (v @ CRLF @ ?r3) (length ?p2) (at_version N) (h2, ?e2)"
    using feed_target [OF assms(1-3) u, of b ?p1 "v @ CRLF @ ?r3" N ?e1] b by (auto simp: request_head_def add.assoc)
  let ?h3 = "h2\<lparr>hp_mark := length ?p2\<rparr>"
  have "length v = 8" using assms(4) by auto
  then have ver: "request_act b Act_http_version (length ?p2 + 8) (?h3, ?e2) = (False, (?h3, ?e3))"
    using b span_part [of ?p2 v "CRLF @ ?r3" Request_version] by (simp add: request_head_def)
  have l3: "length ?p3 = length ?p2 + 10" using \<open>length v = 8\<close> by (simp add: request_head_def CRLF_def)
  have 3: "feed (request_act b) (v @ CRLF @ ?r3) (length ?p2) (at_version N) (h2, ?e2) = feed (request_act b) ?r3 (length ?p3) (at_headers N) (?h3, ?e3)"
    using feed_version [of v "request_act b" "length ?p2" "(h2, ?e2)", OF assms(4) _ ver, of ?r3 N] unfolding l3 CRLF_def by simp
  have u3: "unfinished ?h3" using 2(1) by (simp add: unfinished_def)
  obtain h4 where 4: "unfinished h4" "feed (request_act b) ?r3 (length ?p3) (at_headers N) (?h3, ?e3) =
      feed (request_act b) (CRLF @ rest) (length (?p3 @ print_headers hs)) (at_headers N) (h4, ?e4)"
    using feed_headers [OF assms(5) b u3, of N ?e3] by blast
  obtain h5 where 5: "unfinished h5" "feed (request_act b) (CRLF @ rest) (length (?p3 @ print_headers hs)) (at_headers N) (h4, ?e4) =
      (length (?p3 @ print_headers hs) + 2, at_end N, (h5, ?e4 @ [Request_header_done rest]))"
    using feed_end [OF 4(1), of b "?p3 @ print_headers hs" rest N ?e4] b by auto
  show ?thesis
    unfolding 1 using 2(2) 3 4(2) 5 end_states(1) [of N]
    by (intro exI [of _ "at_end N"] exI [of _ h5]) (simp add: request_events_def CRLF_def)
qed

lemma feed_request:
  assumes "method_ok m" and "target_ok x p" and "list_all (query_byte x) q" and "list_all (query_byte x) f"
    and "v = ''HTTP/1.1'' \<or> v = ''HTTP/1.0''" and "list_all field_ok hs" and "unfinished h"
    and b: "b = request_head m p q f v @ print_headers hs @ CRLF @ rest"
  shows "\<exists>S h'. unfinished h' \<and> accepting S \<and> feed (request_act b) b 0 (start (http_main x)) (h, []) =
    (length (request_head m p q f v @ print_headers hs @ CRLF), S, (h', request_events m p q f v hs rest))"
proof -
  obtain N where N: "\<forall>c. method_char c \<longrightarrow> step c (start (http_main x)) = ([Act_mark], [in_method N x 19])"
    using step_start_method by blast
  have u: "unfinished (h\<lparr>hp_mark := 0\<rparr>)" using assms(7) by (simp add: unfinished_def)
  have "b = m @ '' '' @ drop (length m + 1) b" using b by (simp add: request_head_def)
  from feed_method [OF assms(1) N this, of h "[]"] feed_from_target [OF assms(2-6) u b, of N] show ?thesis by simp
qed

text \<open>The same when the first bytes of the method were the end of an earlier piece: the method is what is left of it.\<close>

lemma feed_request_cut:
  assumes "list_all method_char m" and "length m \<le> k" and "target_ok x p" and "list_all (query_byte x) q" and "list_all (query_byte x) f"
    and "v = ''HTTP/1.1'' \<or> v = ''HTTP/1.0''" and "list_all field_ok hs" and "unfinished h" and "hp_mark h = 0"
    and b: "b = request_head m p q f v @ print_headers hs @ CRLF @ rest"
  shows "\<exists>S h'. unfinished h' \<and> accepting S \<and> feed (request_act b) b 0 [in_method N x k] (h, []) =
    (length (request_head m p q f v @ print_headers hs @ CRLF), S, (h', request_events m p q f v hs rest))"
proof -
  let ?r = "drop (length m + 1) b"
  have e: "b = m @ '' '' @ ?r" using b by (simp add: request_head_def)
  have "feed (request_act b) (m @ '' '' @ ?r) 0 [in_method N x k] (h, []) =
      feed (request_act b) ('' '' @ ?r) (0 + length m) [in_method N x (k - length m)] (h, [])"
    by (rule feed_method_loop [OF assms(1,2)])
  moreover have "request_act b Act_request_method (length m) (h, []) = (False, (h, [Request_method m]))"
    using span_part [of "[]" m "'' '' @ ?r" Request_method] e assms(9) by (metis append_Nil request_act.simps(6) list.size(3) add_0)
  ultimately have "feed (request_act b) b 0 [in_method N x k] (h, []) = feed (request_act b) ?r (length m + 1) [at_target N x] (h, [Request_method m])"
    using e by (simp add: step_method(2))
  then show ?thesis using feed_from_target [OF assms(3-8) b, of N] by simp
qed

end
