(* ===== verification/Http_Client_Scanner.thy ===== *)
theory Http_Client_Scanner
  imports Ragel Http_Parser
begin

text \<open>
  The scanner for HTTP responses (src/sylar/http/httpclient_parser.h, httpclient_parser.rl): its grammar, its actions and
  the functions around the machine. It is a value of \<open>response_machine\<close>, the interface over which the response parser is modelled.
\<close>

section \<open>Numbers\<close>

definition base_digit :: "char \<Rightarrow> nat option" where
  "base_digit c =
     (if 48 \<le> byte c \<and> byte c \<le> 57 then Some (byte c - 48)
      else if 65 \<le> byte c \<and> byte c \<le> 90 then Some (byte c - 55)
      else if 97 \<le> byte c \<and> byte c \<le> 122 then Some (byte c - 87) else None)"

definition digit_in :: "nat \<Rightarrow> char \<Rightarrow> bool" where
  "digit_in base c \<longleftrightarrow> (case base_digit c of None \<Rightarrow> False | Some d \<Rightarrow> d < base)"

text \<open>\<open>strtol\<close>: spaces, a sign, for base 16 an optional prefix, digits; a value out of range is cut to the nearest \<open>long\<close>.\<close>

definition strtol :: "string \<Rightarrow> nat \<Rightarrow> int" where
  "strtol s base =
     (let t = dropWhile (\<lambda>c. c \<in> {CHR '' '', CHR 0x09, CHR 0x0A, CHR 0x0B, CHR 0x0C, CHR 0x0D}) s;
          u = (if t \<noteq> [] \<and> hd t \<in> {CHR ''+'', CHR ''-''} then tl t else t);
          v = (if base = 16 \<and> take 2 u \<in> {''0x'', ''0X''} \<and> 2 < length u \<and> digit_in 16 (u ! 2) then drop 2 u else u);
          n = int (foldl (\<lambda>a c. a * base + the (base_digit c)) 0 (takeWhile (digit_in base) v))
      in if t \<noteq> [] \<and> hd t = CHR ''-'' then max (- (2 ^ 63)) (- n) else min (2 ^ 63 - 1) n)"

definition to_int :: "int \<Rightarrow> int" where
  "to_int n = signed_take_bit 31 n"

section \<open>The grammar\<close>

datatype response_action =
    Cl_mark | Cl_start_field | Cl_write_field | Cl_start_value | Cl_write_content_len | Cl_write_connection_close | Cl_write_value
  | Cl_reason_phrase | Cl_status_code | Cl_http_version | Cl_chunk_size | Cl_trans_chunked | Cl_done

type_synonym response_grammar = "response_action machine"

definition rsp_CRLF :: "'a machine" where
  "rsp_CRLF = Or (lit [CHR 0x0D, CHR 0x0A]) (lit [CHR 0x0A])"

text \<open>The ASCII bytes without the control characters and the separators.\<close>

definition rsp_token :: byte_class where
  "rsp_token = [(33, 33), (35, 39), (42, 43), (45, 46), (48, 57), (65, 90), (94, 122), (124, 124), (126, 126)]"

definition space_bytes :: byte_class where "space_bytes = [(9, 13), (32, 32)]"
definition all_bytes :: byte_class where "all_bytes = [(0, 255)]"

text \<open>A literal without regard to letter case.\<close>

primrec lit_nocase :: "string \<Rightarrow> 'a machine" where
  "lit_nocase [] = Lambda"
| "lit_nocase (c # cs) =
     (let k = Class (one_of (if 65 \<le> byte c \<and> byte c \<le> 90 then [c, char_of (byte c + 32)]
                             else if 97 \<le> byte c \<and> byte c \<le> 122 then [char_of (byte c - 32), c] else [c]))
      in if cs = [] then k else Cat k (lit_nocase cs))"

text \<open>One byte that does not contain a line end.\<close>

definition Reason_Phrase :: response_grammar where
  "Reason_Phrase = Leaving Cl_reason_phrase (Entering Cl_mark (Plus (Class [(0, 9), (11, 255)])))"

definition Status_Code :: response_grammar where
  "Status_Code = Leaving Cl_status_code (Entering Cl_mark (Plus (Class digits)))"

definition http_number :: "'a machine" where
  "http_number = Cat (Plus (Class digits)) (Cat (lit ''.'') (Plus (Class digits)))"

definition rsp_HTTP_Version :: response_grammar where
  "rsp_HTTP_Version = Leaving Cl_http_version (Entering Cl_mark (Cat (lit ''HTTP/'') http_number))"

definition Status_Line :: response_grammar where
  "Status_Line = entry_guarded 0 (Cat rsp_HTTP_Version (Cat (lit '' '') (Cat Status_Code (Cat (lit '' '') Reason_Phrase)))) rsp_CRLF"

definition rsp_field_name :: response_grammar where
  "rsp_field_name = Leaving Cl_write_field (Entering Cl_start_field (Plus (Class rsp_token)))"

definition rsp_field_value :: response_grammar where
  "rsp_field_value = Leaving Cl_write_value (Entering Cl_start_value (Star (Class all_bytes)))"

definition fields :: response_grammar where
  "fields = entry_guarded 1 (Cat rsp_field_name (Cat (lit '':'') (Cat (Star (Class space_bytes)) rsp_field_value))) rsp_CRLF"

definition content_length :: response_grammar where
  "content_length = Cat (Cat (Leaving Cl_write_field (Entering Cl_start_field (lit_nocase ''Content-Length'')))
       (Cat (lit '':'') (Cat (Star (Class space_bytes))
         (Leaving Cl_write_value (Leaving Cl_write_content_len (Entering Cl_start_value (Plus (Class digits)))))))) rsp_CRLF"

definition conn_close :: response_grammar where
  "conn_close = Cat (Cat (lit_nocase ''Connection'') (Cat (lit '':'') (Cat (Star (Class space_bytes)) (lit_nocase ''close''))))
     (Leaving Cl_write_connection_close rsp_CRLF)"

definition transfer_encoding_chunked :: response_grammar where
  "transfer_encoding_chunked = Cat (Cat (Leaving Cl_write_field (Entering Cl_start_field (lit_nocase ''Transfer-Encoding'')))
       (Cat (lit '':'') (Cat (Star (Class space_bytes))
         (Leaving Cl_write_value (Entering Cl_start_value (lit_nocase ''chunked''))))))
     (Finishing Cl_trans_chunked rsp_CRLF)"

definition rsp_message_header :: response_grammar where
  "rsp_message_header = Or transfer_encoding_chunked (Or conn_close (Or content_length fields))"

definition Response :: response_grammar where
  "Response = Cat Status_Line (Cat (Star rsp_message_header) rsp_CRLF)"

definition chunk_extension :: response_grammar where
  "chunk_extension = Star (Cat (lit '';'')
     (Cat (Leaving Cl_start_value (Leaving Cl_write_field (Entering Cl_start_field (Plus (Class rsp_token)))))
          (Leaving Cl_write_value (Opt (Cat (lit ''='') (Entering Cl_start_value (Plus (Class rsp_token))))))))"

definition Chunked_Header :: response_grammar where
  "Chunked_Header = entry_guarded 2 (Cat (Leaving Cl_chunk_size (Entering Cl_mark (Plus (Class xdigits)))) chunk_extension) rsp_CRLF"

definition httpclient_main :: response_grammar where
  "httpclient_main = Finishing Cl_done (Or Response Chunked_Header)"

section \<open>The actions\<close>

record httpclient_parser =
  hc_cs :: "response_action state"
  hc_body_start :: nat
  hc_content_len :: int
  hc_status :: int
  hc_chunked :: int
  hc_chunks_done :: int
  hc_close :: int
  hc_nread :: nat
  hc_mark :: nat
  hc_field_start :: nat
  hc_field_len :: nat

definition marked_text :: "string \<Rightarrow> nat \<Rightarrow> httpclient_parser \<Rightarrow> string" where
  "marked_text b p h = take (p - hc_mark h) (drop (hc_mark h) b)"

text \<open>The numbers are read from the mark on, to the first byte that is no digit; the text ends with NUL.\<close>

fun response_act :: "string \<Rightarrow> response_action \<Rightarrow> nat \<Rightarrow> httpclient_parser \<times> response_event list
    \<Rightarrow> bool \<times> httpclient_parser \<times> response_event list" where
  "response_act b Cl_mark p (h, evs) = (False, h\<lparr>hc_mark := p\<rparr>, evs)"
| "response_act b Cl_start_field p (h, evs) = (False, h\<lparr>hc_field_start := p\<rparr>, evs)"
| "response_act b Cl_write_field p (h, evs) = (False, h\<lparr>hc_field_len := p - hc_field_start h\<rparr>, evs)"
| "response_act b Cl_start_value p (h, evs) = (False, h\<lparr>hc_mark := p\<rparr>, evs)"
| "response_act b Cl_write_content_len p (h, evs) = (False, h\<lparr>hc_content_len := to_int (strtol (drop (hc_mark h) b) 10)\<rparr>, evs)"
| "response_act b Cl_write_connection_close p (h, evs) = (False, h\<lparr>hc_close := 1\<rparr>, evs)"
| "response_act b Cl_write_value p (h, evs) =
     (False, h, evs @ [Response_field (take (hc_field_len h) (drop (hc_field_start h) b)) (marked_text b p h)])"
| "response_act b Cl_reason_phrase p (h, evs) = (False, h, evs @ [Response_reason (marked_text b p h)])"
| "response_act b Cl_status_code p (h, evs) =
     (False, h\<lparr>hc_status := to_int (strtol (drop (hc_mark h) b) 10)\<rparr>, evs @ [Response_status (marked_text b p h)])"
| "response_act b Cl_http_version p (h, evs) = (False, h, evs @ [Response_version (marked_text b p h)])"
| "response_act b Cl_chunk_size p (h, evs) =
     (let n = to_int (strtol (drop (hc_mark h) b) 16)
      in (False, h\<lparr>hc_chunked := 1, hc_content_len := n, hc_chunks_done := if n \<le> 0 then 1 else 0\<rparr>,
          evs @ [if n \<le> 0 then Response_last_chunk (marked_text b p h) else Response_chunk_size (marked_text b p h)]))"
| "response_act b Cl_trans_chunked p (h, evs) = (False, h\<lparr>hc_chunked := 1\<rparr>, evs)"
| "response_act b Cl_done p (h, evs) = (True, h\<lparr>hc_body_start := p + 1\<rparr>, evs @ [Response_header_done (drop (p + 1) b)])"

section \<open>The functions of the scanner\<close>

text \<open>\<open>status\<close> is not initialised; it is never read.\<close>

definition httpclient_init :: httpclient_parser where
  "httpclient_init = \<lparr>hc_cs = start httpclient_main, hc_body_start = 0, hc_content_len = -1, hc_status = 0, hc_chunked = 0, hc_chunks_done = 0,
     hc_close = 0, hc_nread = 0, hc_mark = 0, hc_field_start = 0, hc_field_len = 0\<rparr>"

text \<open>
  One call on a buffer, from an offset inside it; the length is in the range of \<open>int\<close> (both of which the code asserts). A failed
  check gives \<open>-1\<close>.
\<close>

definition httpclient_execute :: "httpclient_parser \<Rightarrow> string \<Rightarrow> nat \<Rightarrow> httpclient_parser \<times> int \<times> response_event list" where
  "httpclient_execute h buffer off =
     (let h0 = h\<lparr>hc_nread := 0, hc_mark := 0, hc_field_len := 0, hc_field_start := 0\<rparr>;
          (p, S, (h1, evs)) = feed (response_act buffer) (drop off buffer) off (hc_cs h0) (h0, []);
          h2 = h1\<lparr>hc_cs := S, hc_nread := hc_nread h1 + (p - off)\<rparr>
      in if hc_mark h2 < length buffer \<and> hc_field_len h2 \<le> length buffer \<and> hc_field_start h2 < length buffer
         then (h2, int (hc_nread h2), evs) else (h2, -1, evs))"

definition httpclient_has_error :: "httpclient_parser \<Rightarrow> int" where
  "httpclient_has_error h = (if hc_cs h = [] then 1 else 0)"

text \<open>The machine has one final state: nothing can follow either end.\<close>

definition httpclient_is_finished :: "httpclient_parser \<Rightarrow> int" where
  "httpclient_is_finished h = (if accepting (hc_cs h) then 1 else 0)"

definition httpclient_finish :: "httpclient_parser \<Rightarrow> int" where
  "httpclient_finish h = (if httpclient_has_error h \<noteq> 0 then -1 else if httpclient_is_finished h \<noteq> 0 then 1 else 0)"

definition httpclient :: "httpclient_parser response_machine" where
  "httpclient = \<lparr>httpclient_parser_init = httpclient_init, httpclient_parser_execute = httpclient_execute,
     httpclient_parser_is_finished = httpclient_is_finished, httpclient_parser_has_error = httpclient_has_error,
     client_content_len = hc_content_len, client_chunked = hc_chunked, client_chunks_done = hc_chunks_done\<rparr>"

section \<open>Facts\<close>

lemma response_act_inside:
  assumes "p < n" and "hc_mark (fst s) < n \<and> hc_field_start (fst s) < n \<and> hc_field_len (fst s) \<le> n \<and> hc_nread (fst s) = 0"
  shows "hc_mark (fst (snd (response_act d a p s))) < n \<and> hc_field_start (fst (snd (response_act d a p s))) < n
    \<and> hc_field_len (fst (snd (response_act d a p s))) \<le> n \<and> hc_nread (fst (snd (response_act d a p s))) = 0"
  using assms by (cases s, cases a) (auto simp: Let_def)

text \<open>The checks at the end of a call hold on every text but the empty one.\<close>

lemma httpclient_bound:
  assumes "d \<noteq> []"
  shows "0 \<le> fst (snd (httpclient_execute h d 0)) \<and> fst (snd (httpclient_execute h d 0)) \<le> int (length d)"
proof -
  let ?s = "(h\<lparr>hc_nread := 0, hc_mark := 0, hc_field_len := 0, hc_field_start := 0\<rparr>, [])"
  let ?h = "fst (snd (snd (feed (response_act d) d 0 (hc_cs h) ?s)))"
  have "hc_mark ?h < length d \<and> hc_field_start ?h < length d \<and> hc_field_len ?h \<le> length d \<and> hc_nread ?h = 0"
    by (rule feed_keeps [where n = "length d" and
          I = "\<lambda>s. hc_mark (fst s) < length d \<and> hc_field_start (fst s) < length d \<and> hc_field_len (fst s) \<le> length d \<and> hc_nread (fst s) = 0"])
      (use assms response_act_inside in \<open>simp_all\<close>)
  then show ?thesis using feed_bound [of 0 "response_act d" d "hc_cs h" ?s]
    by (simp add: httpclient_execute_def Let_def case_prod_beta)
qed

end
