(* ===== verification/Http_Session.thy ===== *)
theory Http_Session
  imports Http_Parser Chunked_Body
begin

text \<open>
  HTTP over a socket stream: the server's session (src/sylar/http/http_session.cpp) and the
  client's connection (src/sylar/http/http_connection.cpp). The functions of the scanners are arguments, as in
  the parsers; so are \<open>lexical_cast\<close> and the reads and writes of the stream.
\<close>

section \<open>Receiving a header\<close>

text \<open>
  The loop in which \<open>recv_request\<close> and \<open>recv_response\<close> receive a message header is the same but for
  the parser: \<open>exec\<close> runs it on the received bytes and \<open>err\<close> tests it for errors. \<open>data\<close> holds the
  bytes received and not parsed. The parser's offset is trusted: one past the received bytes
  would move memory from beyond the buffer. Every exception gives a null pointer.
\<close>

partial_function (option) recv_loop ::
  "(string \<Rightarrow> nat \<Rightarrow> 'q \<Rightarrow> cpp_error + bool \<times> nat \<times> 'q) \<Rightarrow> ('q \<Rightarrow> bool) \<Rightarrow> 's reader \<Rightarrow> nat \<Rightarrow> 'q \<Rightarrow> bytes \<Rightarrow> 's
    \<Rightarrow> ('s, ('q \<times> bytes) option) outcome option" where
  "recv_loop exec err rd buff_size parser data s =
     (case rd (buff_size - length data) s of
        (Inl e, s1) \<Rightarrow> Some (Inr None, s1)
      | (Inr got, s1) \<Rightarrow>
          let buf = data @ got
          in (case exec (text_at buf) 0 parser of
               Inl e \<Rightarrow> Some (Inr None, s1)
             | Inr (finished, consumed, parser1) \<Rightarrow>
                 if length buf < consumed then Some (Inl Out_of_bounds, s1)
                 else let unparsed = drop consumed buf
                      in if err parser1 \<or> buff_size \<le> length unparsed then Some (Inr None, s1)
                         else if finished then Some (Inr (Some (parser1, unparsed)), s1)
                         else recv_loop exec err rd buff_size parser1 unparsed s1))"

declare recv_loop.simps [code]

section \<open>The server's side\<close>

definition recv_request_loop ::
  "'p request_machine \<Rightarrow> 's reader \<Rightarrow> nat \<Rightarrow> 's \<Rightarrow> ('s, ('p HttpRequestParser \<times> bytes) option) outcome option" where
  "recv_request_loop M rd buff_size s =
     recv_loop (HttpRequestParser_execute M) (HttpRequestParser_has_error M) rd buff_size (mk_HttpRequestParser M) [] s"

text \<open>The largest string: \<open>resize\<close> beyond it throws \<open>std::length_error\<close>, outside of any \<open>try\<close>.\<close>

definition max_string :: nat where
  "max_string = 2 ^ 63 - 1"

text \<open>The request, with its body when there is one.\<close>

definition finish_request :: "string option \<Rightarrow> 'p HttpRequestParser \<Rightarrow> HttpRequest" where
  "finish_request bd p =
     (case bd of
        None \<Rightarrow> rp_request (get_request p)
      | Some b \<Rightarrow> rp_request (get_request (p\<lparr>rp_request := HttpRequest_set_body b (rp_request (get_request p))\<rparr>)))"

definition recv_request_body ::
  "(string \<Rightarrow> u64 option) \<Rightarrow> 'p request_machine \<Rightarrow> 's reader \<Rightarrow> 'p HttpRequestParser \<Rightarrow> bytes \<Rightarrow> 's
    \<Rightarrow> ('s, HttpRequest option) outcome" where
  "recv_request_body lexical_cast M rd parser data s =
     (let body_length = unat (HttpRequestParser_get_content_length lexical_cast M parser)
      in if body_length = 0 then (Inr (Some (finish_request None parser)), s)
         else if max_string < body_length then (Inl Logic_error, s)
         else if body_length \<le> length data
         then (Inr (Some (finish_request (Some (text_at (take body_length data))) parser)), s)
         else case read_fix_length rd (body_length - length data) s of
                (Inl e, s1) \<Rightarrow> (Inr None, s1)
              | (Inr got, s1) \<Rightarrow> (Inr (Some (finish_request (Some (text_at (data @ got))) parser)), s1))"

definition recv_request ::
  "(string \<Rightarrow> u64 option) \<Rightarrow> 'p request_machine \<Rightarrow> 's reader \<Rightarrow> nat \<Rightarrow> 's \<Rightarrow> ('s, HttpRequest option) outcome option" where
  "recv_request lexical_cast M rd buff_size s =
     map_option (\<lambda>r. and_then r (\<lambda>x s1.
         case x of None \<Rightarrow> (Inr None, s1) | Some (parser, data) \<Rightarrow> recv_request_body lexical_cast M rd parser data s1))
       (recv_request_loop M rd buff_size s)"

text \<open>Sending swallows every exception.\<close>

definition send_response :: "'s writer \<Rightarrow> HttpResponse \<Rightarrow> 's \<Rightarrow> 's" where
  "send_response wr rsp s = snd (write_fix_length wr (map of_char (HttpResponse_to_string rsp)) s)"

section \<open>The client's side\<close>

text \<open>A negative value of the scanner would wrap to an offset beyond the buffer.\<close>

definition recv_response_loop ::
  "'p response_machine \<Rightarrow> 's reader \<Rightarrow> nat \<Rightarrow> 's \<Rightarrow> ('s, ('p HttpResponseParser \<times> bytes) option) outcome option" where
  "recv_response_loop M rd buff_size s =
     recv_loop (HttpResponseParser_execute M) (HttpResponseParser_has_error M) rd buff_size (mk_HttpResponseParser M) [] s"

definition finish_response :: "string \<Rightarrow> 'p HttpResponseParser \<Rightarrow> HttpResponse" where
  "finish_response bd p = (if bd \<noteq> [] then HttpResponse_set_body bd (sp_response p) else sp_response p)"

definition recv_response_body ::
  "(string \<Rightarrow> u64 option) \<Rightarrow> 'p response_machine \<Rightarrow> 's reader \<Rightarrow> 'p HttpResponseParser \<Rightarrow> bytes \<Rightarrow> 's
    \<Rightarrow> ('s, HttpResponse option) outcome" where
  "recv_response_body lexical_cast M rd parser data s =
     (let body_length = unat (HttpResponseParser_get_content_length lexical_cast M parser)
      in if body_length = 0 then (Inr (Some (finish_response [] parser)), s)
         else if max_string < body_length then (Inl Logic_error, s)
         else if body_length \<le> length data
         then (Inr (Some (finish_response (text_at (take body_length data)) parser)), s)
         else case read_fix_length rd (body_length - length data) s of
                (Inl e, s1) \<Rightarrow> (Inr None, s1)
              | (Inr got, s1) \<Rightarrow> (Inr (Some (finish_response (text_at (data @ got)) parser)), s1))"

text \<open>The value of \<open>read_chunked_body\<close> is not looked at: a body cut off by an error is taken as it is.\<close>

definition recv_response ::
  "(string \<Rightarrow> u64 option) \<Rightarrow> 'p response_machine \<Rightarrow> 's reader \<Rightarrow> nat \<Rightarrow> 's \<Rightarrow> ('s, HttpResponse option) outcome option" where
  "recv_response lexical_cast M rd buff_size s =
     (case recv_response_loop M rd buff_size s of
        None \<Rightarrow> None
      | Some (Inl e, s1) \<Rightarrow> Some (Inl e, s1)
      | Some (Inr None, s1) \<Rightarrow> Some (Inr None, s1)
      | Some (Inr (Some (parser, data)), s1) \<Rightarrow>
          if is_chunked M parser
          then map_option (map_outcome (\<lambda>(ok, b, remained). Some (finish_response (text_at b) parser)))
                 (read_chunked_body rd buff_size [] data s1)
          else Some (recv_response_body lexical_cast M rd parser data s1))"

definition send_request :: "'s writer \<Rightarrow> HttpRequest \<Rightarrow> 's \<Rightarrow> 's" where
  "send_request wr req s = snd (write_fix_length wr (map of_char (HttpRequest_to_string req)) s)"

section \<open>Facts\<close>

text \<open>
  What the receiving loop relies on: a parser does not claim more bytes than it was given, when it was given any.
\<close>

locale header_parser =
  fixes exec :: "string \<Rightarrow> nat \<Rightarrow> 'q \<Rightarrow> cpp_error + bool \<times> nat \<times> 'q"
  assumes claims_received: "d \<noteq> [] \<Longrightarrow> exec d 0 p = Inr (b, n, p') \<Longrightarrow> n \<le> length d"
begin

lemma claims_bytes: "d \<noteq> [] \<Longrightarrow> exec (text_at d) 0 p = Inr (b, n, p') \<Longrightarrow> n \<le> length d"
  using claims_received [of "text_at d"] by (simp add: text_at_def)

end

lemma bounded_request: "\<forall>p d. fst (snd (http_parser_execute M p d 0)) \<le> length d \<Longrightarrow> header_parser (HttpRequestParser_execute M)"
  by unfold_locales (auto simp: HttpRequestParser_execute_def case_prod_beta split: if_splits)

lemma bounded_response:
  assumes "\<forall>p d. d \<noteq> [] \<longrightarrow> 0 \<le> fst (snd (httpclient_parser_execute M p d 0)) \<and> fst (snd (httpclient_parser_execute M p d 0)) \<le> int (length d)"
  shows "header_parser (HttpResponseParser_execute M)"
proof
  fix d b n p' and p :: "'a HttpResponseParser"
  assume "d \<noteq> []" and ex: "HttpResponseParser_execute M d 0 p = Inr (b, n, p')"
  let ?n = "fst (snd (httpclient_parser_execute M (sp_parser p) d 0))"
  have n: "0 \<le> ?n" "?n \<le> int (length d)" using assms \<open>d \<noteq> []\<close> by blast+
  have "?n mod 2 ^ 64 \<le> ?n" using n(1) by (rule zmod_le_nonneg_dividend)
  then have "nat (?n mod 2 ^ 64) \<le> length d" using n(2) by (simp add: nat_le_iff)
  with ex show "n \<le> length d"
    by (simp add: HttpResponseParser_execute_def case_prod_beta)
qed

context byte_source
begin

lemma rd_prefix: "rd n s = (r, s') \<Longrightarrow> \<exists>pre. avail s = pre @ avail s'"
  using rd_ok [of n s _ s'] rd_err [of n s _ s'] by (cases r) auto

text \<open>The loop ends, keeps what the parser keeps, and takes a prefix of what arrives.\<close>

lemma recv_loop_returns:
  assumes "header_parser exec" and inv: "\<And>d off p b n p'. I p \<Longrightarrow> exec d off p = Inr (b, n, p') \<Longrightarrow> I p'"
    and stp: "\<And>n s. P s \<Longrightarrow> P (snd (rd n s))"
  shows "I p \<Longrightarrow> P s \<Longrightarrow> \<exists>x s'. recv_loop exec err rd N p data s = Some (Inr x, s') \<and> P s'
      \<and> (\<exists>pre. avail s = pre @ avail s' \<and> (x \<noteq> None \<longrightarrow> pre \<noteq> [])) \<and> (\<forall>p' d'. x = Some (p', d') \<longrightarrow> I p')"
proof (induction "length (avail s)" arbitrary: s p data rule: less_induct)
  case less
  obtain r s1 where r: "rd (N - length data) s = (r, s1)" by fastforce
  have P1: "P s1" using stp [OF less.prems(2), of "N - length data"] r by simp
  show ?case
  proof (cases r)
    case (Inl e)
    then show ?thesis using P1 r rd_prefix [OF r] by (simp add: recv_loop.simps [of exec err rd N p data s])
  next
    case (Inr got)
    have got: "got \<noteq> []" "avail s = got @ avail s1" using rd_ok r Inr by blast+
    show ?thesis
    proof (cases "exec (text_at (data @ got)) 0 p")
      case (Inl e)
      then show ?thesis using P1 r Inr got by (simp add: recv_loop.simps [of exec err rd N p data s])
    next
      case ex: (Inr y)
      obtain b n p1 where e: "exec (text_at (data @ got)) 0 p = Inr (b, n, p1)" using ex by (metis prod.exhaust)
      have n: "n \<le> length (data @ got)" using header_parser.claims_bytes [OF assms(1) _ e] got(1) by simp
      have ok: "I p1" by (rule inv [OF less.prems(1) e])
      let ?u = "drop n (data @ got)"
      have step: "recv_loop exec err rd N p data s =
          (if err p1 \<or> N \<le> length ?u then Some (Inr None, s1)
           else if b then Some (Inr (Some (p1, ?u)), s1) else recv_loop exec err rd N p1 ?u s1)"
        using r Inr e n by (simp add: recv_loop.simps [of exec err rd N p data s])
      show ?thesis
      proof (cases "err p1 \<or> N \<le> length ?u \<or> b")
        case True
        then show ?thesis using step got ok P1 by auto
      next
        case False
        have "length (avail s1) < length (avail s)" using got by simp
        from less.hyps [OF this ok P1] obtain x s' pre where x: "recv_loop exec err rd N p1 ?u s1 = Some (Inr x, s')" "P s'"
            "avail s1 = pre @ avail s'" "\<forall>p' d'. x = Some (p', d') \<longrightarrow> I p'" by blast
        then show ?thesis using step False got by (intro exI [of _ x] exI [of _ s']) auto
      qed
    qed
  qed
qed

text \<open>A header that arrives at once.\<close>

lemma recv_loop_at_once:
  assumes "rd N s = (Inr got, s1)" and "exec (text_at got) 0 p = Inr (True, n, p1)" and "n \<le> length got"
    and "\<not> err p1" and "length got - n < N"
  shows "recv_loop exec err rd N p [] s = Some (Inr (Some (p1, drop n got)), s1)"
  using assms by (simp add: recv_loop.simps [of exec err rd N p "[]" s])

lemma read_fix_loop_prefix:
  assumes stp: "\<And>n s. P s \<Longrightarrow> P (snd (rd n s))"
  shows "read_fix_loop rd len b s = (r, s') \<Longrightarrow> P s \<Longrightarrow> P s' \<and> (\<exists>pre. avail s = pre @ avail s')"
proof (induction "len - length b" arbitrary: b s rule: less_induct)
  case less
  show ?case
  proof (cases "length b < len")
    case True
    obtain q s1 where q: "rd (len - length b) s = (q, s1)" by fastforce
    have P1: "P s1" using stp [OF less.prems(2), of "len - length b"] q by simp
    show ?thesis
    proof (cases q)
      case (Inl e)
      then show ?thesis using less.prems P1 True q rd_prefix [OF q] by (simp add: read_fix_loop.simps [of rd len b s])
    next
      case (Inr got)
      have got: "got \<noteq> []" "avail s = got @ avail s1" using rd_ok q Inr by blast+
      then have "read_fix_loop rd len (b @ got) s1 = (r, s')"
        using less.prems True q Inr by (simp add: read_fix_loop.simps [of rd len b s])
      moreover have "len - length (b @ got) < len - length b" using got(1) True by (auto intro!: diff_less_mono2)
      ultimately obtain pre where "avail s1 = pre @ avail s'" "P s'" using less.hyps P1 by blast
      then show ?thesis using got(2) by simp
    qed
  qed (use less.prems in \<open>simp add: read_fix_loop.simps [of rd len b s]\<close>)
qed

lemma finish_request_ok: "request_ok (rp_request p) \<Longrightarrow> request_ok (finish_request bd p)"
  by (auto simp: finish_request_def get_request_def intro: wf_intros split: option.splits)

lemma recv_request_body_keeps:
  assumes "recv_request_body lc M rd p d s = (r, s')" and "request_ok (rp_request p)"
    and "\<And>n s. P s \<Longrightarrow> P (snd (rd n s))" and "P s"
  shows "P s'" and "\<exists>pre. avail s = pre @ avail s'" and "r = Inl Logic_error \<or> (\<exists>x. r = Inr x \<and> (\<forall>req. x = Some req \<longrightarrow> request_ok req))"
  using assms(1,4) read_fix_loop_prefix [where P = P, OF assms(3), of _ "[]" s _ s'] finish_request_ok [OF assms(2)]
  by (auto simp: recv_request_body_def Let_def read_fix_length_def split: if_splits prod.splits sum.splits)

text \<open>The whole call.\<close>

lemma recv_request_returns:
  assumes "header_parser (HttpRequestParser_execute M)" and "\<And>n s. P s \<Longrightarrow> P (snd (rd n s))" and "P s"
  shows "\<exists>r s' pre. recv_request lc M rd N s = Some (r, s') \<and> P s' \<and> avail s = pre @ avail s'
    \<and> (r = Inl Logic_error \<or> r = Inr None \<or> (\<exists>req. r = Inr (Some req) \<and> request_ok req \<and> pre \<noteq> []))"
proof -
  have "\<exists>x s'. recv_request_loop M rd N s = Some (Inr x, s') \<and> P s'
      \<and> (\<exists>pre. avail s = pre @ avail s' \<and> (x \<noteq> None \<longrightarrow> pre \<noteq> [])) \<and> (\<forall>p' d'. x = Some (p', d') \<longrightarrow> request_ok (rp_request p'))"
    unfolding recv_request_loop_def
    by (rule recv_loop_returns [where I = "\<lambda>p. request_ok (rp_request p)" and P = P])
      (fact assms execute_ok new_parser_ok)+
  then obtain x s1 pre where x: "recv_request_loop M rd N s = Some (Inr x, s1)" "P s1"
      "avail s = pre @ avail s1" "x \<noteq> None \<longrightarrow> pre \<noteq> []" "\<forall>p' d'. x = Some (p', d') \<longrightarrow> request_ok (rp_request p')" by blast
  show ?thesis
  proof (cases x)
    case None
    then show ?thesis using x by (simp add: recv_request_def)
  next
    case (Some y)
    obtain p d where y: "y = (p, d)" by fastforce
    obtain r s' where b: "recv_request_body lc M rd p d s1 = (r, s')" by fastforce
    then have "recv_request lc M rd N s = Some (r, s')" using x(1) Some y by (simp add: recv_request_def)
    moreover have "request_ok (rp_request p)" using x Some y by blast
    note keeps = recv_request_body_keeps [where P = P, OF b this assms(2) x(2)]
    moreover obtain pre' where "avail s1 = pre' @ avail s'" using keeps(2) by blast
    ultimately show ?thesis using x(3,4) Some by (intro exI [of _ r] exI [of _ s'] exI [of _ "pre @ pre'"]) auto
  qed
qed

text \<open>The body is the next bytes, whether they came with the header or after it.\<close>

lemma recv_request_body_exact:
  assumes "ready s" and n: "n = unat (HttpRequestParser_get_content_length lc M p)" "n \<le> max_string"
  shows "if n \<le> length x + length (avail s)
    then \<exists>s'. recv_request_body lc M rd p x s =
           (Inr (Some (finish_request (if n = 0 then None else Some (text_at (take n (x @ avail s)))) p)), s')
         \<and> avail s' = drop (n - length x) (avail s)
    else \<exists>s'. recv_request_body lc M rd p x s = (Inr None, s')"
proof (cases "n \<le> length x")
  case True
  then show ?thesis using n by (auto simp: recv_request_body_def Let_def)
next
  case False
  then have nz: "n \<noteq> 0" by auto
  show ?thesis
  proof (cases "n \<le> length x + length (avail s)")
    case True
    then have "n - length x \<le> length (avail s)" by simp
    from read_fix_length_exact(1) [OF assms(1) this] obtain s' where
        "read_fix_length rd (n - length x) s = (Inr (take (n - length x) (avail s)), s')"
        "avail s' = drop (n - length x) (avail s)" by blast
    then show ?thesis using True False nz n by (simp add: recv_request_body_def Let_def)
  next
    case short: False
    then have "length (avail s) < n - length x" by simp
    from read_fix_length_exact(2) [OF assms(1) this] obtain s' where
        "read_fix_length rd (n - length x) s = (Inl Runtime_error, s')" by blast
    then show ?thesis using short False nz n by (simp add: recv_request_body_def Let_def)
  qed
qed

end

text \<open>The client's call ends as well.\<close>

context tcp_transport
begin

lemma recv_response_returns:
  assumes "header_parser (HttpResponseParser_execute M)"
  shows "\<exists>r st'. recv_response lc M (SocketStream_read T) N st = Some (r, st') \<and> (r = Inl Logic_error \<or> (\<exists>q. r = Inr q))"
proof -
  obtain x s1 where x: "recv_response_loop M (SocketStream_read T) N st = Some (Inr x, s1)"
    using source.recv_loop_returns [OF assms, of "\<lambda>_. True" "\<lambda>_. True"] unfolding recv_response_loop_def by blast
  show ?thesis
  proof (cases x)
    case None
    then show ?thesis using x by (simp add: recv_response_def)
  next
    case (Some y)
    obtain p d where y: "y = (p, d)" by fastforce
    obtain ok b m s2 where c: "read_chunked_body (SocketStream_read T) N [] d s1 = Some (Inr (ok, b, m), s2)"
      using read_chunked_body_returns by blast
    have "fst (recv_response_body lc M (SocketStream_read T) p d s1) = Inl Logic_error
        \<or> (\<exists>q. fst (recv_response_body lc M (SocketStream_read T) p d s1) = Inr q)"
      by (auto simp: recv_response_body_def Let_def split: prod.splits sum.splits)
    then show ?thesis using x c Some y by (cases "recv_response_body lc M (SocketStream_read T) p d s1") (auto simp: recv_response_def)
  qed
qed

lemma read_keeps: "stream_ready up st \<longrightarrow> stream_ready up (snd (SocketStream_read T n st))"
    "out (net (snd (SocketStream_read T n st))) = out (net st)"
  using source.rd_ready [of st n] recv_keeps [of n "net st"]
  by (auto simp: SocketStream_read_def Let_def split: prod.splits)

lemma recv_request_ends:
  assumes "header_parser (HttpRequestParser_execute M)"
  shows "\<exists>r st' pre. recv_request lc M (SocketStream_read T) N st = Some (r, st')
    \<and> (stream_ready up st \<longrightarrow> stream_ready up st') \<and> out (net st') = out (net st) \<and> inc (net st) = pre @ inc (net st')
    \<and> (r = Inl Logic_error \<or> r = Inr None \<or> (\<exists>req. r = Inr (Some req) \<and> request_ok req \<and> pre \<noteq> []))"
  using source.recv_request_returns [OF assms, where P = "\<lambda>x. (stream_ready up st \<longrightarrow> stream_ready up x) \<and> out (net x) = out (net st)", of st]
    read_keeps by simp

lemma recv_request_at_once:
  assumes "stream_ready up st" and "SocketStream_read T N st = (Inr (map of_char H @ x), st1)"
    and "HttpRequestParser_execute M (H @ text_at x) 0 (mk_HttpRequestParser M) = Inr (True, length H, p)"
    and "\<not> HttpRequestParser_has_error M p" and "length x < N"
    and "n = unat (HttpRequestParser_get_content_length lc M p)" and "n \<le> max_string"
  shows "if n \<le> length x + length (inc (net st1))
    then \<exists>st'. recv_request lc M (SocketStream_read T) N st =
           Some (Inr (Some (finish_request (if n = 0 then None else Some (text_at (take n (x @ inc (net st1))))) p)), st')
         \<and> inc (net st') = drop (n - length x) (inc (net st1))
    else \<exists>st'. recv_request lc M (SocketStream_read T) N st = Some (Inr None, st')"
proof -
  have "text_at (map of_char H @ x) = H @ text_at x" using text_map [of H] by (simp add: text_at_def)
  then have "recv_request_loop M (SocketStream_read T) N st = Some (Inr (Some (p, x)), st1)"
    unfolding recv_request_loop_def using source.recv_loop_at_once [OF assms(2), of "HttpRequestParser_execute M"] assms(3-5) by simp
  then have "recv_request lc M (SocketStream_read T) N st = Some (recv_request_body lc M (SocketStream_read T) p x st1)"
    by (simp add: recv_request_def)
  moreover have "stream_ready up st1" using source.rd_ready [OF assms(1), of N] assms(2) by simp
  note source.recv_request_body_exact [OF this assms(6,7), of x]
  ultimately show ?thesis by (auto split: if_splits)
qed

end

section \<open>Properties\<close>

text \<open>A scanner that recognises a fixed header of four bytes.\<close>

definition demo_machine :: "nat request_machine" where
  "demo_machine = \<lparr>http_parser_init = 0,
     http_parser_execute = (\<lambda>p d off. if length d < 4 then (p, 0, [])
       else (1, 4, [Request_path ''/x'', Request_version ''HTTP/1.1'', Request_field ''Content-Length'' ''3''])),
     http_parser_is_finished = int, http_parser_has_error = (\<lambda>p. 0), content_len = (\<lambda>p. 0)\<rparr>"

definition demo_cast :: "string \<Rightarrow> u64 option" where
  "demo_cast s = Some (of_nat (undec s))"

definition demo_session :: "wire SocketStream" where
  "demo_session = hello_stream\<lparr>net := \<lparr>segments = [[1, 2, 3, 4, 97], [98], [99, 100]], sent = [], window = 7\<rparr>\<rparr>"

text \<open>
  The body of a request is exact. When a complete header arrives in one read, followed by the bytes
  \<open>x\<close>, the request carries the next \<open>n\<close> bytes of the connection as its body, \<open>n\<close> being its content
  length, however the rest of it is cut into pieces; when the peer closes before, the result is a
  null pointer. Bytes of \<open>x\<close> beyond the body, such as the next request of a client that
  does not wait, are lost.
\<close>

theorem request_body_exact:
  assumes "tcp_transport T inc out up" and "usable st" and "up (net st)"
    and "SocketStream_read T N st = (Inr (map of_char H @ x), st1)"
    and "HttpRequestParser_execute M (H @ text_at x) 0 (mk_HttpRequestParser M) = Inr (True, length H, p)"
    and "\<not> HttpRequestParser_has_error M p" and "length x < N"
    and "n = unat (HttpRequestParser_get_content_length lc M p)" and "n \<le> max_string"
  shows "if n \<le> length x + length (inc (net st1))
    then \<exists>st'. recv_request lc M (SocketStream_read T) N st =
           Some (Inr (Some (finish_request (if n = 0 then None else Some (text_at (take n (x @ inc (net st1))))) p)), st')
         \<and> inc (net st') = drop (n - length x) (inc (net st1))
    else \<exists>st'. recv_request lc M (SocketStream_read T) N st = Some (Inr None, st')"
proof -
  have "stream_ready up st" using assms(2,3) by (simp add: stream_ready_def)
  from tcp_transport.recv_request_at_once [OF assms(1) this assms(4-9)] show ?thesis .
qed

theorem request_body_exact_witness:
  "\<exists>req st'. recv_request demo_cast demo_machine (SocketStream_read wire_transport) 64 demo_session = Some (Inr (Some req), st')
     \<and> req_body req = ''abc'' \<and> req_path req = ''/x'' \<and> wire_inc (net st') = [100]"
proof -
  let ?st1 = "snd (SocketStream_read wire_transport 64 demo_session)"
  let ?H = "[CHR 0x01, CHR 0x02, CHR 0x03, CHR 0x04]"
  define p where "p = snd (snd (projr (HttpRequestParser_execute demo_machine (?H @ text_at [97]) 0 (mk_HttpRequestParser demo_machine))))"
  have r: "SocketStream_read wire_transport 64 demo_session = (Inr (map of_char ?H @ [97]), ?st1)" by code_simp
  have e: "HttpRequestParser_execute demo_machine (?H @ text_at [97]) 0 (mk_HttpRequestParser demo_machine) = Inr (True, length ?H, p)"
    unfolding p_def by code_simp
  have l: "3 = unat (HttpRequestParser_get_content_length demo_cast demo_machine p)" unfolding p_def by code_simp
  have err: "\<not> HttpRequestParser_has_error demo_machine p" unfolding p_def by code_simp
  have inc1: "wire_inc (net ?st1) = [98, 99, 100]" by code_simp
  have u: "usable demo_session" by code_simp
  have res: "req_body (finish_request (Some (text_at [97, 98, 99])) p) = ''abc'' \<and> req_path (finish_request (Some (text_at [97, 98, 99])) p) = ''/x''"
    unfolding p_def by code_simp
  from request_body_exact [OF wire.tcp_transport_axioms u _ r e err _ l] inc1 res show ?thesis
    by (auto simp: max_string_def)
qed

end
