(* ===== verification/Http_Wire.thy ===== *)
theory Http_Wire
  imports Http_Scanner Http_Client_Scanner Http_Session
begin

text \<open>
  Requests from the client's text to the server's object: the printed request (src/sylar/http/http.cpp), the scanner
  (http11_parser.rl), the callbacks (http_parser.cpp) and the session (http_session.cpp) together.
\<close>

section \<open>The scanner on a printed request\<close>

text \<open>The requests whose text the scanner takes apart again.\<close>

definition sendable :: "bool \<Rightarrow> HttpRequest \<Rightarrow> bool" where
  "sendable x r \<longleftrightarrow> req_method r \<notin> {HTTP_INVALID_METHOD, MSEARCH} \<and> req_version r \<in> {0x10, 0x11}
     \<and> target_ok x (req_path r) \<and> list_all (query_byte x) (req_query r) \<and> list_all (query_byte x) (req_fragment r)
     \<and> list_all field_ok (req_headers r)"

definition head_text :: "HttpRequest \<Rightarrow> string" where
  "head_text r = request_head (http_method_to_string (req_method r)) (req_path r) (req_query r) (req_fragment r) (print_version (req_version r))
     @ print_headers (req_headers r) @ CRLF"

definition head_events :: "HttpRequest \<Rightarrow> string \<Rightarrow> request_event list" where
  "head_events r rest = request_events (http_method_to_string (req_method r)) (req_path r) (req_query r) (req_fragment r)
     (print_version (req_version r)) (req_headers r) rest"

lemma request_text: "HttpRequest_to_string r = head_text r @ req_body r"
  by (simp add: HttpRequest_to_string_def head_text_def request_head_def rq_query_text_def rq_fragment_text_def print_body_eq)

lemma methods_scan: "m \<notin> {HTTP_INVALID_METHOD, MSEARCH} \<Longrightarrow> method_ok (http_method_to_string m)"
  by (cases m) (simp_all add: http_method_to_string_def HTTP_METHOD_MAP_def method_ok_def method_char_def method_bytes_def byte_def)

lemma versions_print: "v \<in> {0x10, 0x11} \<Longrightarrow> print_version v = (if v = 0x11 then ''HTTP/1.1'' else ''HTTP/1.0'')"
proof -
  have "print_version 0x11 = ''HTTP/1.1''" "print_version 0x10 = ''HTTP/1.0''" by code_simp+
  then show "v \<in> {0x10, 0x11} \<Longrightarrow> print_version v = (if v = 0x11 then ''HTTP/1.1'' else ''HTTP/1.0'')" by auto
qed

lemma unfinished_init: "unfinished (http11_init x)"
  by (simp add: unfinished_def http11_init_def start_def)

lemma scan_request:
  assumes "sendable x r"
  shows "\<exists>h. http_parser_execute (http11 x) (http_parser_init (http11 x)) (head_text r @ rest) 0 = (h, length (head_text r), head_events r rest)
    \<and> http_parser_is_finished (http11 x) h = 1 \<and> http_parser_has_error (http11 x) h = 0 \<and> content_len (http11 x) h = 0"
proof -
  let ?v = "print_version (req_version r)" and ?b = "head_text r @ rest"
  let ?h0 = "(http11_init x)\<lparr>hp_nread := 0, hp_mark := 0, hp_field_len := 0, hp_field_start := 0\<rparr>"
  have v: "?v = ''HTTP/1.1'' \<or> ?v = ''HTTP/1.0''" using assms by (auto simp: sendable_def versions_print)
  have m: "method_ok (http_method_to_string (req_method r))" using assms methods_scan by (simp add: sendable_def)
  have u: "unfinished ?h0" using unfinished_init [of x] by (simp add: unfinished_def)
  have b: "?b = request_head (http_method_to_string (req_method r)) (req_path r) (req_query r) (req_fragment r) ?v
      @ print_headers (req_headers r) @ CRLF @ rest" by (simp add: head_text_def)
  obtain S h' where S: "unfinished h'" "accepting S"
      "feed (request_act ?b) ?b 0 (start (http_main x)) (?h0, []) = (length (head_text r), S, (h', head_events r rest))"
    using feed_request [OF m _ _ _ v _ u b, of x] assms by (auto simp: sendable_def head_text_def head_events_def)
  have "S \<noteq> []" using S(2) by (auto simp: accepting_def)
  moreover have "?b \<noteq> []" by (simp add: head_text_def request_head_def)
  ultimately show ?thesis using S
    by (auto simp: http11_def http11_execute_def http11_init_def http11_has_error_def http11_is_finished_def unfinished_def Let_def)
qed

lemma act_keeps_nread: "hp_nread (fst s) = 0 \<Longrightarrow> hp_nread (fst (snd (request_act d a p s))) = 0"
  by (cases s, cases a) simp_all

lemma http11_bound: "fst (snd (http_parser_execute (http11 x) h d 0)) \<le> length d"
proof -
  let ?s = "(h\<lparr>hp_nread := 0, hp_mark := 0, hp_field_len := 0, hp_field_start := 0\<rparr>, [])"
  have "hp_nread (fst (snd (snd (feed (request_act d) d 0 (hp_cs h) ?s)))) = 0"
    by (rule feed_keeps [where I = "\<lambda>s. hp_nread (fst s) = 0" and n = "length d"]) (use act_keeps_nread in \<open>simp_all\<close>)
  then show ?thesis using feed_bound [of 0 "request_act d" d "hp_cs h" ?s]
    by (simp add: http11_def http11_execute_def Let_def case_prod_beta)
qed

text \<open>Both parsers, with the program's scanners, keep to the interface of the receiving loop.\<close>

interpretation request_scan: header_parser "HttpRequestParser_execute (http11 x)" for x
  by (rule bounded_request) (simp add: http11_bound)

interpretation response_scan: header_parser "HttpResponseParser_execute httpclient"
  by (rule bounded_response) (simp add: httpclient_def httpclient_bound)

section \<open>The callbacks on a printed request\<close>

lemma names_connection_self: "names_connection ''connection''" by (simp add: names_connection_iff)

text \<open>\<open>get_request\<close> writes the header that the flag stands for, and nothing else.\<close>

lemma get_request_eq:
  assumes "\<not> req_is_websocket (rp_request p)"
  shows "get_request p = p\<lparr>rp_request := (rp_request p)\<lparr>req_headers :=
    map_set CaseInsensitiveLess ''connection'' (connection_value (auto_close (rp_request p))) (req_headers (rp_request p))\<rparr>\<rparr>"
  using assms
  by (simp add: get_request_def HttpRequest_init_headers_def HttpRequest_set_header_eq HttpRequest_set_auto_close_eq names_connection_self Let_def)

abbreviation header_of :: "string \<Rightarrow> HttpRequest \<Rightarrow> string option" where
  "header_of n r \<equiv> map_find CaseInsensitiveLess n (req_headers r)"

text \<open>What setting the headers of a list does to a request; the flag follows the connection header.\<close>

definition takes :: "HttpHeaders \<Rightarrow> 'p HttpRequestParser \<Rightarrow> 'p HttpRequestParser \<Rightarrow> bool" where
  "takes hs p q \<longleftrightarrow> \<not> req_is_websocket (rp_request q) \<and> rp_errno q = rp_errno p
     \<and> auto_close (rp_request q) = (case map_find CaseInsensitiveLess ''connection'' hs of None \<Rightarrow> auto_close (rp_request p) | Some v \<Rightarrow> says_close v)
     \<and> (\<forall>k. fold_case k \<noteq> fold_case ''connection'' \<longrightarrow>
          header_of k (rp_request q) = (case map_find CaseInsensitiveLess k hs of None \<Rightarrow> header_of k (rp_request p) | Some v \<Rightarrow> Some v))
     \<and> req_method (rp_request q) = req_method (rp_request p) \<and> req_version (rp_request q) = req_version (rp_request p)
     \<and> req_path (rp_request q) = req_path (rp_request p) \<and> req_query (rp_request q) = req_query (rp_request p)
     \<and> req_fragment (rp_request q) = req_fragment (rp_request p) \<and> req_body (rp_request q) = req_body (rp_request p)"

lemma takes_field: "\<not> req_is_websocket (rp_request p) \<Longrightarrow> takes [(n, v)] p (on_request_http_field n v p)"
  by (auto simp: takes_def on_request_http_field_def Let_def get_request_eq HttpRequest_set_header_eq HttpRequest_set_auto_close_eq
      names_connection_iff nocase.map_find_set)

lemma takes_trans:
  assumes "takes [(n, v)] p q" and "takes hs q r" and "sorted_wrt CaseInsensitiveLess (map_keys ((n, v) # hs))"
  shows "takes ((n, v) # hs) p r"
proof -
  have "map_find CaseInsensitiveLess k hs = None" if "fold_case k = fold_case n" for k
    using assms(3) that nocase.map_find_cong [of k n hs] by (simp add: nocase.map_find_greater)
  with assms(1,2) show ?thesis unfolding takes_def by (auto split: option.splits if_splits)
qed

lemma takes_fields:
  "sorted_wrt CaseInsensitiveLess (map_keys hs) \<Longrightarrow> \<not> req_is_websocket (rp_request p) \<Longrightarrow>
     takes hs p (fold on_request_event (map (\<lambda>(n, v). Request_field n v) hs) p)"
proof (induction hs arbitrary: p)
  case (Cons nv hs)
  obtain n v where nv: "nv = (n, v)" by fastforce
  have t: "takes [(n, v)] p (on_request_http_field n v p)" using takes_field Cons.prems(2) by blast
  then have "takes hs (on_request_http_field n v p) (fold on_request_event (map (\<lambda>(n, v). Request_field n v) hs) (on_request_http_field n v p))"
    using Cons.prems nv by (intro Cons.IH) (auto simp: takes_def)
  then show ?case using takes_trans [OF t] Cons.prems(1) nv by simp
qed (simp add: takes_def)

text \<open>The callbacks of the request line.\<close>

definition line_events :: "HttpRequest \<Rightarrow> request_event list" where
  "line_events r = Request_method (http_method_to_string (req_method r)) # Request_path (req_path r) # query_events (req_query r)
     @ Request_uri (req_path r @ rq_query_text (req_query r)) # fragment_events (req_fragment r) @ [Request_version (print_version (req_version r))]"

lemma line_received:
  fixes M :: "'p request_machine"
  assumes "sendable x r"
  defines "q \<equiv> fold on_request_event (line_events r) (mk_HttpRequestParser M)"
  shows "\<not> req_is_websocket (rp_request q)" and "rp_errno q = 0" and "auto_close (rp_request q)"
    and "fold_case k \<noteq> fold_case ''connection'' \<Longrightarrow> header_of k (rp_request q) = None"
    and "req_method (rp_request q) = req_method r" "req_path (rp_request q) = req_path r" "req_query (rp_request q) = req_query r"
    "req_fragment (rp_request q) = req_fragment r" "req_version (rp_request q) = req_version r" "req_body (rp_request q) = []"
proof -
  have new: "mk_HttpRequest 0x11 True =
      \<lparr>auto_close = True, req_is_websocket = False, parse_flags = 0, req_method = GET,
       req_version = 0x11, req_path = ''/'', req_query = [], req_fragment = [], req_body = [],
       req_headers = [(''connection'', ''close'')], req_params = [], req_cookies = []\<rparr>"
    by (simp add: mk_HttpRequest_def HttpRequest_init_headers_def HttpRequest_set_header_eq HttpRequest_set_auto_close_eq
        names_connection_self Let_def connection_value_def)
      (use says_close_value [of True] in \<open>simp add: connection_value_def\<close>)
  have m: "string_to_http_method (http_method_to_string (req_method r)) = req_method r" "req_method r \<noteq> HTTP_INVALID_METHOD"
    using assms(1) method_of_name by (auto simp: sendable_def)
  have v: "print_version (req_version r) = ''HTTP/1.1'' \<and> req_version r = 0x11 \<or> print_version (req_version r) = ''HTTP/1.0'' \<and> req_version r = 0x10"
    using assms(1) versions_print by (auto simp: sendable_def)
  have cmp: "strncmp ''HTTP/1.1'' ''HTTP/1.1'' 8 = 0" "strncmp ''HTTP/1.0'' ''HTTP/1.1'' 8 \<noteq> 0" "strncmp ''HTTP/1.0'' ''HTTP/1.0'' 8 = 0"
    by code_simp+
  note q = q_def line_events_def query_events_def fragment_events_def on_request_method_def on_request_path_def on_request_query_def
    on_request_fragment_def on_request_version_def mk_HttpRequestParser_def new Let_def get_request_eq
  show "\<not> req_is_websocket (rp_request q)" "rp_errno q = 0" "auto_close (rp_request q)"
    "fold_case k \<noteq> fold_case ''connection'' \<Longrightarrow> header_of k (rp_request q) = None"
    "req_method (rp_request q) = req_method r" "req_path (rp_request q) = req_path r" "req_query (rp_request q) = req_query r"
    "req_fragment (rp_request q) = req_fragment r" "req_version (rp_request q) = req_version r" "req_body (rp_request q) = []"
    using v m cmp by (auto simp: q nocase.map_find_set)
qed

section \<open>The request that is received\<close>

text \<open>
  The same request up to the spelling of the connection header, which the parser writes itself, and to what is not sent.
\<close>

definition same_request :: "HttpRequest \<Rightarrow> HttpRequest \<Rightarrow> bool" where
  "same_request r q \<longleftrightarrow> req_method q = req_method r \<and> req_version q = req_version r \<and> req_path q = req_path r
     \<and> req_query q = req_query r \<and> req_fragment q = req_fragment r \<and> auto_close q = auto_close r
     \<and> (\<forall>k. fold_case k \<noteq> fold_case ''connection'' \<longrightarrow> header_of k q = header_of k r)"

text \<open>A request whose headers are in order and say what its flag and its body are.\<close>

definition complete :: "HttpRequest \<Rightarrow> bool" where
  "complete r \<longleftrightarrow> request_ok r \<and> \<not> req_is_websocket r \<and> (connection_header r \<noteq> None \<or> auto_close r)
     \<and> header_of ''content-length'' r = (if req_body r = [] then None else Some (dec (length (req_body r))))"

lemma head_events_eq: "head_events r rest = line_events r @ map (\<lambda>(n, v). Request_field n v) (req_headers r) @ [Request_header_done rest]"
  by (simp add: head_events_def request_events_def line_events_def)

lemma no_bad_range: "Request_bad_range \<notin> set (head_events r rest)"
  by (auto simp: head_events_eq line_events_def query_events_def fragment_events_def)

text \<open>What the parser makes of a run of any scanner that reports the events of a request.\<close>

lemma parse_scanned:
  assumes "sendable x r" and "complete r"
    and h: "http_parser_execute M (http_parser_init M) b 0 = (h, n, head_events r rest)" "http_parser_is_finished M h = 1"
      "http_parser_has_error M h = 0"
  shows "\<exists>p. HttpRequestParser_execute M b 0 (mk_HttpRequestParser M) = Inr (True, n, p) \<and> \<not> HttpRequestParser_has_error M p
    \<and> rp_parser p = h \<and> \<not> req_is_websocket (rp_request p) \<and> req_body (rp_request p) = [] \<and> same_request r (rp_request p)"
proof -
  let ?p0 = "mk_HttpRequestParser M"
  define p1 where "p1 = fold on_request_event (line_events r) ?p0"
  define p2 where "p2 = fold on_request_event (map (\<lambda>(n, v). Request_field n v) (req_headers r)) p1"
  note l = line_received [OF assms(1), where M = M, folded p1_def]
  have "takes (req_headers r) p1 p2"
    unfolding p2_def using assms(2) l(1) by (intro takes_fields) (auto simp: complete_def request_ok_def)
  then have t: "\<not> req_is_websocket (rp_request p2)" "rp_errno p2 = 0" "req_body (rp_request p2) = []" "same_request r (rp_request p2)"
    using l assms(2) by (auto simp: takes_def same_request_def complete_def request_ok_def connection_header_def split: option.splits)
  have "fold on_request_event (head_events r rest) ?p0 = p2"
    by (simp add: head_events_eq p1_def p2_def)
  moreover have "rp_parser ?p0 = http_parser_init M" by (simp add: mk_HttpRequestParser_def)
  ultimately show ?thesis using h no_bad_range [of r rest] t
    by (simp add: HttpRequestParser_execute_def HttpRequestParser_has_error_def)
qed

lemma parse_request:
  assumes "sendable x r" and "complete r"
  shows "\<exists>p. HttpRequestParser_execute (http11 x) (head_text r @ rest) 0 (mk_HttpRequestParser (http11 x)) = Inr (True, length (head_text r), p)
    \<and> \<not> HttpRequestParser_has_error (http11 x) p \<and> content_len (http11 x) (rp_parser p) = 0
    \<and> \<not> req_is_websocket (rp_request p) \<and> req_body (rp_request p) = [] \<and> same_request r (rp_request p)"
  using scan_request [OF assms(1), of rest] parse_scanned [OF assms, of "http11 x"] by blast

text \<open>The flag and the headers, once more, when the body is set.\<close>

lemma finish_same:
  assumes "\<not> req_is_websocket (rp_request p)" and "same_request r (rp_request p)" and "req_body (rp_request p) = []" and "complete r"
  shows "same_request r (finish_request (if req_body r = [] then None else Some (req_body r)) p)"
    "req_body (finish_request (if req_body r = [] then None else Some (req_body r)) p) = req_body r"
proof -
  have c: "fold_case ''content-length'' \<noteq> fold_case ''connection''" by (simp add: fold_case_def c_str_def byte_def tolower_def)
  have n: "\<not> names_connection ''content-length''" using c by (simp add: names_connection_iff)
  have h: "header_of k r = Some (dec (length (req_body r)))" if "fold_case k = fold_case ''content-length''" "req_body r \<noteq> []" for k
    using assms(4) that nocase.map_find_cong [of k "''content-length''" "req_headers r"] by (simp add: complete_def)
  show "same_request r (finish_request (if req_body r = [] then None else Some (req_body r)) p)"
    "req_body (finish_request (if req_body r = [] then None else Some (req_body r)) p) = req_body r"
    using assms(1-3) n h
    by (auto simp: finish_request_def get_request_eq same_request_def HttpRequest_set_body_def HttpRequest_set_header_eq nocase.map_find_set)
qed


text \<open>A request with a body, whose first byte arrives with the header.\<close>

definition sample_request :: HttpRequest where
  "sample_request = HttpRequest_set_body ''hi'' ((mk_HttpRequest 0x11 True)\<lparr>req_method := POST, req_path := ''/a/b'', req_query := ''k=v''\<rparr>)"

definition sample_session :: "wire SocketStream" where
  "sample_session = hello_stream\<lparr>net := \<lparr>segments = [map of_char (head_text sample_request) @ [104], [105, 33]], sent = [], window = 7\<rparr>\<rparr>"

lemma sample_request_eq: "sample_request = \<lparr>auto_close = True, req_is_websocket = False, parse_flags = 0, req_method = POST,
       req_version = 0x11, req_path = ''/a/b'', req_query = ''k=v'', req_fragment = [], req_body = ''hi'',
       req_headers = [(''connection'', ''close''), (''content-length'', ''2'')], req_params = [], req_cookies = []\<rparr>"
  by code_simp


section \<open>A header that arrives in two pieces\<close>

text \<open>The first call sees only the beginning of the method: it reports nothing and takes all of it.\<close>

lemma scan_prefix:
  assumes "method_ok (m1 @ m2)" and "m1 \<noteq> []"
  shows "\<exists>h N. http11_execute (http11_init x) m1 0 = (h, length m1, []) \<and> hp_cs h = [in_method N x (20 - length m1)]
    \<and> \<not> hp_xml_sent h \<and> \<not> hp_json_sent h \<and> hp_content_len h = 0"
proof -
  obtain N where N: "\<And>c. method_char c \<Longrightarrow> step c (start (http_main x)) = ([Act_mark], [in_method N x 19])"
    using step_start_method by blast
  obtain c m' where m: "m1 = c # m'" using assms(2) by (cases m1) auto
  have mc: "method_char c" "list_all method_char m'" "length m' \<le> 19" using assms(1) m by (auto simp: method_ok_def)
  have run: "feed (request_act m1) m1 0 (start (http_main x)) (h, []) = (length m1, [in_method N x (19 - length m')], (h\<lparr>hp_mark := 0\<rparr>, []))" for h
    using feed_method_loop [OF mc(2,3), of "request_act m1" "[]" 1 N x "(h\<lparr>hp_mark := 0\<rparr>, [])"] N [OF mc(1)] m by simp
  show ?thesis
    by (intro exI [of _ "(http11_init x)\<lparr>hp_cs := [in_method N x (19 - length m')], hp_nread := length m1\<rparr>"] exI [of _ N])
      (use run m in \<open>simp add: http11_execute_def http11_init_def http11_has_error_def start_def Let_def\<close>)
qed

text \<open>The second call reports the rest of the method as the method, and then the request.\<close>

lemma scan_cut:
  assumes "sendable x r" and "http_method_to_string (req_method r) = m1 @ m2" and "m1 \<noteq> []"
    and h: "hp_cs h = [in_method N x (20 - length m1)]" "\<not> hp_xml_sent h" "\<not> hp_json_sent h" "hp_content_len h = 0"
  shows "\<exists>h'. http11_execute h (drop (length m1) (head_text r)) 0 =
      (h', length (head_text r) - length m1, Request_method m2 # tl (head_events r [])) \<and> hp_content_len h' = 0
    \<and> http11_is_finished h' = 1 \<and> http11_has_error h' = 0"
proof -
  let ?b = "drop (length m1) (head_text r)" and ?v = "print_version (req_version r)"
  let ?h0 = "h\<lparr>hp_nread := 0, hp_mark := 0, hp_field_len := 0, hp_field_start := 0\<rparr>"
  have v: "?v = ''HTTP/1.1'' \<or> ?v = ''HTTP/1.0''" using assms(1) by (auto simp: sendable_def versions_print)
  have m: "list_all method_char m2" "length m2 \<le> 20 - length m1"
    using assms(1,2) methods_scan [of "req_method r"] by (auto simp: sendable_def method_ok_def)
  have u: "unfinished ?h0" "hp_mark ?h0 = 0" using h by (simp_all add: unfinished_def)
  have b: "?b = request_head m2 (req_path r) (req_query r) (req_fragment r) ?v @ print_headers (req_headers r) @ CRLF @ []"
    by (simp add: head_text_def request_head_def assms(2))
  obtain S h' where S: "unfinished h'" "accepting S" "feed (request_act ?b) ?b 0 [in_method N x (20 - length m1)] (?h0, []) =
      (length ?b, S, (h', request_events m2 (req_path r) (req_query r) (req_fragment r) ?v (req_headers r) []))"
    using feed_request_cut [OF m _ _ _ v _ u b, of x N] b assms(1) by (auto simp: sendable_def)
  have "S \<noteq> []" using S(2) by (auto simp: accepting_def)
  moreover have "?b \<noteq> []" unfolding b by (simp add: request_head_def)
  moreover have "request_events m2 (req_path r) (req_query r) (req_fragment r) ?v (req_headers r) [] = Request_method m2 # tl (head_events r [])"
    by (simp add: request_events_def head_events_def)
  ultimately show ?thesis using S h(1)
    by (auto simp: http11_execute_def http11_has_error_def http11_is_finished_def unfinished_def Let_def)
qed

lemma errno_sticks: "rp_errno p \<noteq> 0 \<Longrightarrow> rp_errno (fold on_request_event evs p) \<noteq> 0"
proof (induction evs arbitrary: p)
  case (Cons e evs)
  have "rp_errno (on_request_event e p) \<noteq> 0" using Cons.prems
    by (cases e) (simp_all add: on_request_method_def on_request_fragment_def on_request_path_def on_request_query_def
        on_request_version_def on_request_http_field_def get_request_def Let_def)
  then show ?case using Cons.IH by simp
qed simp

text \<open>Cutting the method turns the request into one with what is left of it.\<close>

lemma cut_request:
  assumes "sendable x r" and "complete r" and "http_method_to_string (req_method r) = m1 @ m2"
    and "string_to_http_method m2 \<noteq> HTTP_INVALID_METHOD"
  defines "r' \<equiv> r\<lparr>req_method := string_to_http_method m2\<rparr>"
  shows "sendable x r'" and "complete r'" and "head_events r' [] = Request_method m2 # tl (head_events r [])"
proof -
  have n: "http_method_to_string (string_to_http_method m2) = m2" by (rule name_of_method [OF assms(4)])
  have "list_all method_char m2" using assms(1,3) methods_scan [of "req_method r"] by (auto simp: sendable_def method_ok_def)
  moreover have "\<not> list_all method_char (http_method_to_string MSEARCH)"
    by (simp add: http_method_to_string_def HTTP_METHOD_MAP_def method_char_def method_bytes_def byte_def)
  ultimately have "string_to_http_method m2 \<noteq> MSEARCH" using n by metis
  then show "sendable x r'" using assms(1,4) by (simp add: sendable_def r'_def)
  show "complete r'" using assms(2) by (auto simp: complete_def request_ok_def connection_header_def r'_def)
  show "head_events r' [] = Request_method m2 # tl (head_events r [])" using n by (simp add: head_events_def request_events_def r'_def)
qed

text \<open>The two rounds of the receiving loop.\<close>

lemma cut_rounds:
  assumes "sendable x r" and "http_method_to_string (req_method r) = m1 @ m2" and "m1 \<noteq> []" and "0 < N"
    and "rd N s = (Inr (map of_char m1), s1)" and "rd N s1 = (Inr (map of_char (drop (length m1) (head_text r))), s2)"
  defines "b \<equiv> drop (length m1) (head_text r)"
  obtains h h' where "http11_execute h b 0 = (h', length b, Request_method m2 # tl (head_events r []))" "hp_content_len h' = 0"
    "http11_is_finished h' = 1" "http11_has_error h' = 0"
    "\<And>p. HttpRequestParser_execute (http11 x) b 0 ((mk_HttpRequestParser (http11 x))\<lparr>rp_parser := h\<rparr>) = Inr (True, length b, p) \<Longrightarrow>
      recv_request_loop (http11 x) rd N s = Some (Inr (if HttpRequestParser_has_error (http11 x) p then None else Some (p, [])), s2)"
proof -
  let ?M = "http11 x"
  have m: "method_ok (m1 @ m2)" using assms(1,2) methods_scan [of "req_method r"] by (simp add: sendable_def)
  obtain h N' where h: "http11_execute (http11_init x) m1 0 = (h, length m1, [])" "hp_cs h = [in_method N' x (20 - length m1)]"
      "\<not> hp_xml_sent h" "\<not> hp_json_sent h" "hp_content_len h = 0"
    using scan_prefix [OF m assms(3)] by blast
  let ?p1 = "(mk_HttpRequestParser ?M)\<lparr>rp_parser := h\<rparr>"
  let ?loop = "recv_loop (HttpRequestParser_execute ?M) (HttpRequestParser_has_error ?M) rd N"
  have fin: "http11_is_finished h = 0" "http11_has_error h = 0"
    using h(2) by (simp_all add: http11_is_finished_def http11_has_error_def accepting_def in_method_def)
  have e1: "HttpRequestParser_execute ?M m1 0 (mk_HttpRequestParser ?M) = Inr (False, length m1, ?p1)"
    using h(1) fin by (simp add: HttpRequestParser_execute_def mk_HttpRequestParser_def http11_def)
  have "\<not> HttpRequestParser_has_error ?M ?p1" using fin by (simp add: HttpRequestParser_has_error_def mk_HttpRequestParser_def http11_def)
  then have l1: "?loop (mk_HttpRequestParser ?M) [] s = ?loop ?p1 [] s1"
    using assms(4,5) e1 by (simp add: recv_loop.simps [of _ _ rd N "mk_HttpRequestParser ?M" "[]" s] text_map)
  have "recv_request_loop ?M rd N s = Some (Inr (if HttpRequestParser_has_error ?M p then None else Some (p, [])), s2)"
    if "HttpRequestParser_execute ?M b 0 ?p1 = Inr (True, length b, p)" for p
    using that assms(4,6) l1 by (simp add: recv_request_loop_def recv_loop.simps [of _ _ rd N ?p1 "[]" s1] text_map b_def)
  then show thesis using scan_cut [OF assms(1-3) h(2-5)] that by (auto simp: b_def)
qed

text \<open>
  C36. A request whose method is cut by two reads is misread. The scanner forgets its mark between two calls and the session drops the
  bytes it has scanned, so what is left of the method counts as the method: when it is the
  name of no method the request is dropped without an answer, and when it is one, the request that is received is another
  one than was sent. \<open>UNLOCK\<close>, cut after two bytes, arrives as \<open>LOCK\<close>.
\<close>

theorem cut_method_misread:
  assumes "sendable x r" and "complete r" and "req_body r = []" and "http_method_to_string (req_method r) = m1 @ m2" and "m1 \<noteq> []" and "0 < N"
    and "rd N s = (Inr (map of_char m1), s1)" and "rd N s1 = (Inr (map of_char (drop (length m1) (head_text r))), s2)"
  shows "if string_to_http_method m2 = HTTP_INVALID_METHOD
    then recv_request lc (http11 x) rd N s = Some (Inr None, s2)
    else \<exists>q. recv_request lc (http11 x) rd N s = Some (Inr (Some q), s2) \<and> same_request (r\<lparr>req_method := string_to_http_method m2\<rparr>) q"
proof -
  let ?M = "http11 x" and ?b = "drop (length m1) (head_text r)" and ?rest = "Request_method m2 # tl (head_events r [])"
  obtain h h' where h': "http11_execute h ?b 0 = (h', length ?b, ?rest)" "hp_content_len h' = 0" "http11_is_finished h' = 1" "http11_has_error h' = 0"
    and again: "\<And>p. HttpRequestParser_execute ?M ?b 0 ((mk_HttpRequestParser ?M)\<lparr>rp_parser := h\<rparr>) = Inr (True, length ?b, p) \<Longrightarrow>
      recv_request_loop ?M rd N s = Some (Inr (if HttpRequestParser_has_error ?M p then None else Some (p, [])), s2)"
    using cut_rounds [where rd = rd and N = N and s = s, OF assms(1,4-8)] by metis
  let ?p1 = "(mk_HttpRequestParser ?M)\<lparr>rp_parser := h\<rparr>"
  show ?thesis
  proof (cases "string_to_http_method m2 = HTTP_INVALID_METHOD")
    case True
    let ?p = "(fold on_request_event ?rest ?p1)\<lparr>rp_parser := h'\<rparr>"
    have "Request_bad_range \<notin> set (tl (head_events r []))" using no_bad_range [of r "[]"] by (cases "head_events r []") auto
    then have e2: "HttpRequestParser_execute ?M ?b 0 ?p1 = Inr (True, length ?b, ?p)"
      using h'(1,3) by (simp add: HttpRequestParser_execute_def http11_def)
    have "rp_errno ?p \<noteq> 0"
      using errno_sticks [of "on_request_method m2 ?p1" "tl (head_events r [])"] True by (simp add: on_request_method_def Let_def)
    then have "HttpRequestParser_has_error ?M ?p" by (simp add: HttpRequestParser_has_error_def)
    then show ?thesis using again [OF e2] True by (simp add: recv_request_def)
  next
    case False
    let ?r' = "r\<lparr>req_method := string_to_http_method m2\<rparr>" and ?M' = "?M\<lparr>http_parser_init := h\<rparr>"
    note c = cut_request [OF assms(1,2,4) False]
    have M': "mk_HttpRequestParser ?M' = ?p1" "HttpRequestParser_execute ?M' = HttpRequestParser_execute ?M"
        "HttpRequestParser_has_error ?M' = HttpRequestParser_has_error ?M"
      by (auto simp: mk_HttpRequestParser_def HttpRequestParser_execute_def HttpRequestParser_has_error_def fun_eq_iff case_prod_beta)
    have "\<exists>p. HttpRequestParser_execute ?M' ?b 0 (mk_HttpRequestParser ?M') = Inr (True, length ?b, p) \<and> \<not> HttpRequestParser_has_error ?M' p
        \<and> rp_parser p = h' \<and> \<not> req_is_websocket (rp_request p) \<and> req_body (rp_request p) = [] \<and> same_request ?r' (rp_request p)"
      using h' by (intro parse_scanned [OF c(1,2), where rest = "[]"]) (simp_all add: c(3) http11_def)
    then obtain p where p: "HttpRequestParser_execute ?M ?b 0 ?p1 = Inr (True, length ?b, p)" "\<not> HttpRequestParser_has_error ?M p" "rp_parser p = h'"
        "\<not> req_is_websocket (rp_request p)" "req_body (rp_request p) = []" "same_request ?r' (rp_request p)"
      unfolding M' by blast
    have "HttpRequestParser_get_content_length lc ?M p = 0"
      using p(3,6) h'(2) c(2) assms(3)
      by (auto simp: HttpRequestParser_get_content_length_def HttpRequest_get_header_as_def get_value_as_def same_request_def complete_def
          http11_def fold_case_def c_str_def byte_def tolower_def)
    then have "recv_request lc ?M rd N s = Some (Inr (Some (finish_request None p)), s2)"
      using again [OF p(1)] p(2) by (simp add: recv_request_def recv_request_body_def)
    moreover have "same_request ?r' (finish_request None p)" using finish_same(1) [OF p(4,6,5) c(2)] assms(3) by simp
    ultimately show ?thesis using False by auto
  qed
qed

definition unlock_request :: HttpRequest where
  "unlock_request = (mk_HttpRequest 0x11 True)\<lparr>req_method := UNLOCK, req_path := ''/f''\<rparr>"

definition unlock_session :: "wire SocketStream" where
  "unlock_session = hello_stream\<lparr>net := \<lparr>segments = [map of_char ''UN'', map of_char (drop 2 (head_text unlock_request))], sent = [], window = 7\<rparr>\<rparr>"

theorem cut_method_misread_witness:
  "\<exists>q st'. recv_request demo_cast (http11 False) (SocketStream_read wire_transport) 256 unlock_session = Some (Inr (Some q), st')
    \<and> req_method q = LOCK \<and> req_path q = ''/f''"
proof -
  let ?r1 = "SocketStream_read wire_transport 256 unlock_session"
  have 1: "?r1 = (Inr (map of_char ''UN''), snd ?r1)" by code_simp
  have 2: "SocketStream_read wire_transport 256 (snd ?r1) =
      (Inr (map of_char (drop (length ''UN'') (head_text unlock_request))), snd (SocketStream_read wire_transport 256 (snd ?r1)))" by code_simp
  have s: "sendable False unlock_request" by code_simp
  have eq: "unlock_request = \<lparr>auto_close = True, req_is_websocket = False, parse_flags = 0, req_method = UNLOCK,
       req_version = 0x11, req_path = ''/f'', req_query = [], req_fragment = [], req_body = [],
       req_headers = [(''connection'', ''close'')], req_params = [], req_cookies = []\<rparr>" by code_simp
  have "says_close ''close''" "header_of ''content-length'' unlock_request = None" by code_simp+
  then have c: "complete unlock_request" unfolding complete_def request_ok_def by (simp add: eq connection_header_def)
  have m: "http_method_to_string (req_method unlock_request) = ''UN'' @ ''LOCK''" "string_to_http_method ''LOCK'' = LOCK" by code_simp+
  show ?thesis
    using cut_method_misread [where lc = demo_cast and rd = "SocketStream_read wire_transport" and N = 256 and s = unlock_session, OF s c _ m(1) _ _ 1 2] m(2) by (auto simp: eq same_request_def)
qed



end
