(* ===== verification/Http_Server.thy ===== *)
theory Http_Server
  imports Http_Wire Servlet
begin

text \<open>
  The HTTP server (src/sylar/http/http_server.h, http_server.cpp): the loop that serves one client, from
  receiving a request through the servlets to sending the response.
\<close>

section \<open>Serving a client\<close>

record 'w HttpServer =
  is_keepalive :: bool
  servlet_dispatch :: "'w ServletDispatch"
  server_name :: string

definition mk_HttpServer :: "'w HttpServer" where
  "mk_HttpServer = \<lparr>is_keepalive = False, servlet_dispatch = mk_ServletDispatch, server_name = []\<rparr>"

definition set_keepalive :: "bool \<Rightarrow> 'w HttpServer \<Rightarrow> 'w HttpServer" where
  "set_keepalive v h = h\<lparr>is_keepalive := v\<rparr>"

text \<open>The answer to one request; an exception of a servlet is not caught.\<close>

definition answer_request ::
  "(string \<Rightarrow> string \<Rightarrow> int) \<Rightarrow> 's HttpServer \<Rightarrow> HttpRequest \<Rightarrow> 's \<Rightarrow> ('s, HttpResponse) outcome" where
  "answer_request fnmatch h req s =
     (let rsp = HttpResponse_set_header ''Server'' (server_name h)
                  (mk_HttpResponse (req_version req) (\<not> is_keepalive h \<or> auto_close req))
      in case ServletDispatch_handle_request fnmatch (servlet_dispatch h) (req, rsp, s) of
           (Inl e, (req1, rsp1, s1)) \<Rightarrow> (Inl e, s1)
         | (Inr ok, (req1, rsp1, s1)) \<Rightarrow>
             (Inr (if ok then rsp1 else HttpResponse_set_body ''500 Internal Server Error'' (rsp1\<lparr>rsp_status := 500\<rparr>)), s1))"

partial_function (option) serve ::
  "(string \<Rightarrow> string \<Rightarrow> int) \<Rightarrow> (string \<Rightarrow> u64 option) \<Rightarrow> 'p request_machine \<Rightarrow> 's reader \<Rightarrow> 's writer \<Rightarrow> nat
    \<Rightarrow> 's HttpServer \<Rightarrow> 's \<Rightarrow> ('s, unit) outcome option" where
  "serve fnmatch lc M rd wr buff_size h s =
     (case recv_request lc M rd buff_size s of
        None \<Rightarrow> None
      | Some (Inl e, s1) \<Rightarrow> Some (Inl e, s1)
      | Some (Inr None, s1) \<Rightarrow> Some (Inr (), s1)
      | Some (Inr (Some req), s1) \<Rightarrow>
          (case answer_request fnmatch h req s1 of
             (Inl e, s2) \<Rightarrow> Some (Inl e, s2)
           | (Inr rsp, s2) \<Rightarrow>
               let s3 = send_response wr rsp s2
               in if close_flag rsp then Some (Inr (), s3) else serve fnmatch lc M rd wr buff_size h s3))"

declare serve.simps [code]

text \<open>Closing the stream closes its socket; leaving by an exception does it in the destructor.\<close>

definition SocketStream_close :: "'n SocketStream \<times> os \<Rightarrow> ('n SocketStream \<times> os, unit) outcome" where
  "SocketStream_close x =
     (let (st, k) = x
      in case socket st of
           None \<Rightarrow> (Inl Null_deref, x)
         | Some sock \<Rightarrow> let (ok, sock1, k1) = Socket_close (sock, k) in (Inr (), (st\<lparr>socket := Some sock1\<rparr>, k1)))"

definition HttpServer_handle_client ::
  "(string \<Rightarrow> string \<Rightarrow> int) \<Rightarrow> (string \<Rightarrow> u64 option) \<Rightarrow> 'p request_machine \<Rightarrow> 'n transport \<Rightarrow> http_sizes
    \<Rightarrow> 'n SocketStream HttpServer \<Rightarrow> 'n SocketStream \<times> os \<Rightarrow> ('n SocketStream \<times> os, unit) outcome option" where
  "HttpServer_handle_client fnmatch lc M T sizes h x =
     map_option (\<lambda>(r, st). let (c, x1) = SocketStream_close (st, snd x) in (case r of Inl e \<Rightarrow> Inl e | Inr _ \<Rightarrow> c, x1))
       (serve fnmatch lc M (SocketStream_read T) (SocketStream_write T) (unat (get_request_buffer_size sizes)) h (fst x))"

section \<open>Facts\<close>

definition printed :: "HttpResponse \<Rightarrow> bytes" where
  "printed rsp = map of_char (HttpResponse_to_string rsp)"

text \<open>Servlets that answer through the response and leave the session alone.\<close>

definition quiet_servlets :: "(string \<Rightarrow> string \<Rightarrow> int) \<Rightarrow> 's HttpServer \<Rightarrow> bool" where
  "quiet_servlets fnmatch h \<longleftrightarrow> (\<forall>req rsp s. \<exists>ok req' rsp'.
     ServletDispatch_handle_request fnmatch (servlet_dispatch h) (req, rsp, s) = (Inr ok, (req', rsp', s)) \<and> close_flag rsp' = close_flag rsp)"

lemma answer_quiet:
  assumes "quiet_servlets fnmatch h"
  shows "\<exists>rsp. answer_request fnmatch h req s = (Inr rsp, s) \<and> close_flag rsp = (\<not> is_keepalive h \<or> auto_close req)"
proof -
  let ?rsp = "HttpResponse_set_header ''Server'' (server_name h) (mk_HttpResponse (req_version req) (\<not> is_keepalive h \<or> auto_close req))"
  obtain ok req' rsp' where "ServletDispatch_handle_request fnmatch (servlet_dispatch h) (req, ?rsp, s) = (Inr ok, (req', rsp', s))"
      "close_flag rsp' = close_flag ?rsp" using assms unfolding quiet_servlets_def by blast
  then show ?thesis
    by (auto simp: answer_request_def Let_def HttpResponse_set_header_def HttpResponse_set_body_def mk_HttpResponse_def
        HttpResponse_init_headers_def)
qed

lemma Socket_close_disconnects: "sockfd (fst (snd (Socket_close x))) \<noteq> -1 \<longrightarrow> \<not> is_connected (fst (snd (Socket_close x)))"
proof -
  have "\<not> is_connected (fst (snd (Socket_to_string ((fst x)\<lparr>is_connected := False\<rparr>, snd x))))"
    using same_to_string [of "((fst x)\<lparr>is_connected := False\<rparr>, snd x)"] by (simp add: same_socket_def)
  then show ?thesis by (cases x) (simp add: Socket_close_def Let_def split: prod.splits)
qed

context tcp_transport
begin

lemma write_keeps_inc: "inc (net (snd (write_fix_loop (SocketStream_write T) d i st))) = inc (net st)"
proof (induction "length d - i" arbitrary: i st rule: less_induct)
  case less
  show ?case
  proof (cases "i < length d")
    case True
    obtain r st1 where r: "SocketStream_write T (drop i d) st = (r, st1)" by fastforce
    have keep: "inc (net st1) = inc (net st)"
      using r send_keeps [of "drop i d" "net st"] by (auto simp: SocketStream_write_def Let_def split: if_splits prod.splits)
    show ?thesis
    proof (cases r)
      case (Inr n)
      then have "inc (net (snd (write_fix_loop (SocketStream_write T) d (i + n) st1))) = inc (net st1)" if "0 < n"
        using less.hyps [of "i + n" st1] True that by simp
      then show ?thesis using True r Inr keep by (simp add: write_fix_loop.simps [of _ d i st])
    qed (use True r keep in \<open>simp add: write_fix_loop.simps [of _ d i st]\<close>)
  qed (simp add: write_fix_loop.simps)
qed

lemma send_response_spec:
  assumes "stream_ready up st"
  shows "stream_ready up (send_response (SocketStream_write T) rsp st)"
    and "out (net (send_response (SocketStream_write T) rsp st)) = out (net st) @ printed rsp"
    and "inc (net (send_response (SocketStream_write T) rsp st)) = inc (net st)"
  using sink.write_fix_length_exact [OF assms, of "printed rsp"] write_keeps_inc [of "printed rsp" 0 st]
  by (auto simp: send_response_def printed_def write_fix_length_def)

lemma serve_answers:
  assumes b: "header_parser (HttpRequestParser_execute M)" and q: "quiet_servlets fnmatch h"
  shows "stream_ready up st \<Longrightarrow> \<exists>r rsps st'. serve fnmatch lc M (SocketStream_read T) (SocketStream_write T) N h st = Some (r, st')
      \<and> (r = Inr () \<or> r = Inl Logic_error) \<and> stream_ready up st' \<and> out (net st') = out (net st) @ concat (map printed rsps)
      \<and> length rsps \<le> length (inc (net st)) \<and> (\<forall>rsp \<in> set (butlast rsps). \<not> close_flag rsp)
      \<and> (\<not> is_keepalive h \<longrightarrow> length rsps \<le> 1)"
proof (induction "length (inc (net st))" arbitrary: st rule: less_induct)
  case less
  note serve_eq = serve.simps [of fnmatch lc M "SocketStream_read T" "SocketStream_write T" N h st]
  obtain r st1 pre where r: "recv_request lc M (SocketStream_read T) N st = Some (r, st1)" "stream_ready up st1"
      "out (net st1) = out (net st)" "inc (net st) = pre @ inc (net st1)"
      "r = Inl Logic_error \<or> r = Inr None \<or> (\<exists>req. r = Inr (Some req) \<and> pre \<noteq> [])"
    using recv_request_ends [OF b, of lc N st] less.prems by blast
  show ?case
  proof (cases "\<exists>req. r = Inr (Some req)")
    case False
    then obtain q where "serve fnmatch lc M (SocketStream_read T) (SocketStream_write T) N h st = Some (q, st1)"
        "q = Inr () \<or> q = Inl Logic_error" using r by (auto simp: serve_eq)
    then show ?thesis using r by (intro exI [of _ q] exI [of _ "[]"] exI [of _ st1]) simp
  next
    case True
    then obtain req where req: "r = Inr (Some req)" "pre \<noteq> []" using r(5) by auto
    obtain rsp where rsp: "answer_request fnmatch h req st1 = (Inr rsp, st1)" "close_flag rsp = (\<not> is_keepalive h \<or> auto_close req)"
      using answer_quiet [OF q] by blast
    let ?st2 = "send_response (SocketStream_write T) rsp st1"
    note sent = send_response_spec [OF r(2), of rsp]
    have one: "serve fnmatch lc M (SocketStream_read T) (SocketStream_write T) N h st =
        (if close_flag rsp then Some (Inr (), ?st2) else serve fnmatch lc M (SocketStream_read T) (SocketStream_write T) N h ?st2)"
      using r(1) req rsp by (simp add: serve_eq Let_def)
    show ?thesis
    proof (cases "close_flag rsp")
      case True
      then show ?thesis using one sent r req by (intro exI [of _ "Inr ()"] exI [of _ "[rsp]"] exI [of _ ?st2]) (simp add: Suc_le_eq)
    next
      case False
      have "length (inc (net ?st2)) < length (inc (net st))" using sent(3) r(4) req(2) by simp
      from less.hyps [OF this sent(1)] obtain r' rsps st' where
          "serve fnmatch lc M (SocketStream_read T) (SocketStream_write T) N h ?st2 = Some (r', st')"
          "r' = Inr () \<or> r' = Inl Logic_error" "stream_ready up st'" "out (net st') = out (net ?st2) @ concat (map printed rsps)"
          "length rsps \<le> length (inc (net ?st2))" "\<forall>rsp \<in> set (butlast rsps). \<not> close_flag rsp" by blast
      then show ?thesis using one False sent r req rsp(2)
        by (intro exI [of _ r'] exI [of _ "rsp # rsps"] exI [of _ st']) (auto simp: neq_Nil_conv)
    qed
  qed
qed

end

section \<open>Properties\<close>


lemma default_servlets_quiet: "quiet_servlets fnmatch mk_HttpServer"
  unfolding quiet_servlets_def
  by (simp add: mk_HttpServer_def mk_ServletDispatch_def ServletDispatch_handle_request_def get_servlet_def get_exact_servlet_def
      get_fuzzy_servlet_def get_default_servlet_def mk_NotFoundServlet_def NotFoundServlet_handle_request_def Let_def
      HttpResponse_set_header_def HttpResponse_set_body_def) blast

definition demo_sizes :: http_sizes where
  "demo_sizes = \<lparr>t_http_request_buffer_size = 64, t_http_request_max_body_size = 64,
     t_http_response_buffer_size = 64, t_http_response_max_body_size = 64\<rparr>"


end
