(* ===== verification/Tcp_Server.thy ===== *)
theory Tcp_Server
  imports Socket
begin

text \<open>
  The TCP server (src/sylar/tcp_server.h, tcp_server.cpp): binding, starting and stopping, the loop
  that accepts clients and the default handler. Sockets are shared between the server and the
  fibers it starts, so they live in a store and are referred to by number; the calls on the two
  IO managers are recorded in order.
\<close>

section \<open>State and operations\<close>

datatype call = Add_accept nat | Add_client nat | Cancel_all int

record tcp_server =
  ts_recv_timeout :: u64
  ts_is_stop :: bool
  ts_listen :: "nat list"
  ts_sockets :: "Socket list"
  ts_calls :: "call list"
  ts_kernel :: os
  ts_log_info :: bool

definition mk_TcpServer :: "u64 \<Rightarrow> os \<Rightarrow> bool \<Rightarrow> tcp_server" where
  "mk_TcpServer recv_timeout k info =
     \<lparr>ts_recv_timeout = recv_timeout, ts_is_stop = True, ts_listen = [], ts_sockets = [], ts_calls = [], ts_kernel = k,
      ts_log_info = info\<rparr>"

definition SOMAXCONN :: int where
  "SOMAXCONN = 4096"

text \<open>One address; a socket that is not kept is destroyed, which closes it.\<close>

definition bind_one :: "Address \<Rightarrow> tcp_server \<Rightarrow> (tcp_server, bool) outcome" where
  "bind_one addr s =
     (case Socket_bind (Some addr) (mk_Socket (get_family addr) SOCK_STREAM 0, ts_kernel s) of
        (Inl e, x1) \<Rightarrow> (Inl e, s\<lparr>ts_kernel := snd x1\<rparr>)
      | (Inr bound, x1) \<Rightarrow>
          if \<not> bound then (Inr False, s\<lparr>ts_kernel := snd (snd (Socket_close x1))\<rparr>)
          else let (ok, x2) = Socket_listen SOMAXCONN x1
               in if \<not> ok then (Inr False, s\<lparr>ts_kernel := snd (snd (Socket_close x2))\<rparr>)
                  else (Inr True, s\<lparr>ts_listen := ts_listen s @ [length (ts_sockets s)], ts_sockets := ts_sockets s @ [fst x2],
                                    ts_kernel := snd x2\<rparr>))"

text \<open>The result, and the addresses that failed.\<close>

fun bind_addrs :: "Address list \<Rightarrow> tcp_server \<Rightarrow> (tcp_server, bool \<times> Address list) outcome" where
  "bind_addrs [] s = (Inr (True, []), s)"
| "bind_addrs (a # as) s =
     and_then (bind_one a s) (\<lambda>ok s1.
       map_outcome (\<lambda>(rt, fails). (ok \<and> rt, if ok then fails else a # fails)) (bind_addrs as s1))"

definition TcpServer_bind :: "Address \<Rightarrow> tcp_server \<Rightarrow> (tcp_server, bool) outcome" where
  "TcpServer_bind addr s = map_outcome fst (bind_addrs [addr] s)"

definition TcpServer_start :: "tcp_server \<Rightarrow> bool \<times> tcp_server" where
  "TcpServer_start s =
     (if \<not> ts_is_stop s then (True, s)
      else (True, s\<lparr>ts_calls := ts_calls s @ map Add_accept (ts_listen s), ts_is_stop := False\<rparr>))"

definition stop_one :: "nat \<Rightarrow> tcp_server \<Rightarrow> tcp_server" where
  "stop_one i s =
     (let sock = ts_sockets s ! i; (ok, sock1, k1) = Socket_close (sock, ts_kernel s)
      in s\<lparr>ts_calls := ts_calls s @ [Cancel_all (sockfd sock)], ts_sockets := (ts_sockets s)[i := sock1], ts_kernel := k1\<rparr>)"

definition TcpServer_stop :: "tcp_server \<Rightarrow> bool \<times> tcp_server" where
  "TcpServer_stop s =
     (if ts_is_stop s then (True, s)
      else (True, (fold stop_one (ts_listen s) s)\<lparr>ts_listen := [], ts_is_stop := True\<rparr>))"

definition SO_RCVTIMEO :: int where
  "SO_RCVTIMEO = 20"

text \<open>
  One round of \<open>on_accepted\<close>. The message about a new client prints both of its addresses, the local one
  without a test for the null pointer.
\<close>

definition accept_round :: "nat \<Rightarrow> tcp_server \<Rightarrow> (tcp_server, unit) outcome" where
  "accept_round i s =
     (let (client, sock1, k1) = Socket_accept (ts_sockets s ! i, ts_kernel s);
          s1 = s\<lparr>ts_sockets := (ts_sockets s)[i := sock1], ts_kernel := k1\<rparr>
      in case client of
           None \<Rightarrow> (Inr (), s1)
         | Some c \<Rightarrow>
             let (remote, x2) = (if ts_log_info s then get_remote_address (c, k1) else (Some (create_family 0), (c, k1)));
                 (local, x3) = (if ts_log_info s then get_local_address x2 else (Some (create_family 0), x2))
             in if remote = None \<or> local = None then (Inl Null_deref, s1\<lparr>ts_kernel := snd x3\<rparr>)
                else let x4 = snd (set_option SOL_SOCKET_level SO_RCVTIMEO x3)
                     in (Inr (), s1\<lparr>ts_sockets := ts_sockets s1 @ [fst x4], ts_kernel := snd x4,
                                    ts_calls := ts_calls s1 @ [Add_client (length (ts_sockets s1))]\<rparr>))"

text \<open>
  The loop. While it waits for a client other fibers run; what they did by the time of the \<open>n\<close>-th round is
  \<open>others n\<close>.
\<close>

partial_function (option) on_accepted :: "(nat \<Rightarrow> tcp_server \<Rightarrow> tcp_server) \<Rightarrow> nat \<Rightarrow> nat \<Rightarrow> tcp_server \<Rightarrow> (tcp_server, unit) outcome option" where
  "on_accepted others i n s =
     (if ts_is_stop s then Some (Inr (), s)
      else case accept_round i (others n s) of
             (Inl e, s1) \<Rightarrow> Some (Inl e, s1)
           | (Inr _, s1) \<Rightarrow> on_accepted others i (Suc n) s1)"

declare on_accepted.simps [code]

text \<open>
  The default handler receives once into 1024 bytes of zeros, prints them as a string and closes.
  \<open>got\<close> is what arrives.
\<close>

definition TcpServer_handle_client :: "bool \<Rightarrow> bytes \<Rightarrow> sock_state \<Rightarrow> (sock_state, unit) outcome" where
  "TcpServer_handle_client info got x =
     (let x0 = (if info then snd (Socket_to_string x) else x);
          (n, x1) = Socket_recv x0;
          buf = take 1024 (take (nat n) got @ replicate 1024 0)
      in if info \<and> 0 \<notin> set buf then (Inl Out_of_bounds, x1) else (Inr (), snd (Socket_close x1)))"

section \<open>Facts\<close>

definition listening :: "tcp_server \<Rightarrow> nat \<Rightarrow> bool" where
  "listening s i \<longleftrightarrow> i < length (ts_sockets s) \<and> is_valid (ts_sockets s ! i) \<and> \<not> is_connected (ts_sockets s ! i)"

text \<open>The system calls made from \<open>s\<close> to \<open>s'\<close> do not close anything.\<close>

definition no_close :: "os \<Rightarrow> os \<Rightarrow> bool" where
  "no_close k k' \<longleftrightarrow> (\<exists>t. trace k' = trace k @ t \<and> (\<forall>f. Sys_close f \<notin> set t))"

lemma no_close_refl [simp]: "no_close k k"
  by (simp add: no_close_def)

lemma no_close_trans: "no_close k k1 \<Longrightarrow> no_close k1 k2 \<Longrightarrow> no_close k k2"
  by (auto simp: no_close_def)

lemma same_no_close: "same_socket x y \<Longrightarrow> no_close (snd x) (snd y)"
  by (auto simp: same_socket_def no_close_def)

text \<open>A socket that is not connected is not closed.\<close>

lemma close_unconnected: "\<not> is_connected (fst x) \<Longrightarrow> Socket_close x = (True, x)"
  by (cases x) (simp add: Socket_close_def)

lemma Socket_bind_unconnected:
  assumes "Socket_bind (Some a) (mk_Socket f t 0, k) = (r, x)"
  shows "\<exists>b. r = Inr b \<and> (b \<longrightarrow> is_valid (fst x))" and "\<not> is_connected (fst x)" and "no_close k (snd x)"
proof -
  let ?x0 = "(mk_Socket f t 0, k)"
  have e: "ensure_fd ?x0 = snd (Socket_init (-1) ?x0)" by (simp add: ensure_fd_def is_valid_def mk_Socket_def)
  obtain b y where y: "Socket_init (-1) ?x0 = (b, y)" by (metis prod.exhaust)
  note init = Socket_init_fields [OF y]
  let ?z = "(fst y, snd (sys (Sys_bind (sockfd (fst y)) a) (snd y)))"
  have eq: "(r, x) = (if \<not> is_valid (fst y) \<or> get_family a \<noteq> family (fst y) then (Inr False, log_socket y)
      else if fst (sys (Sys_bind (sockfd (fst y)) a) (snd y)) \<noteq> 0 then (Inr False, log_socket ?z) else (Inr True, ?z))"
    using assms by (cases "sys (Sys_bind (sockfd (fst y)) a) (snd y)") (simp add: Socket_bind_def e y Let_def, auto split: if_splits)
  have x: "x \<in> {log_socket y, ?z, log_socket ?z}" using eq by (simp split: if_splits)
  have r: "\<exists>b. r = Inr b \<and> (b \<longrightarrow> is_valid (fst x))" using eq by (auto split: if_splits)
  have "same_socket y ?z" by (rule same_socket_sys) simp
  from this same_socket_trans [OF this same_log] have same: "same_socket y x" using x same_log [of y] by auto
  show "\<exists>b. r = Inr b \<and> (b \<longrightarrow> is_valid (fst x))" by (rule r)
  show "\<not> is_connected (fst x)" using same init(1) by (simp add: same_socket_def)
  have "no_close k (snd y)" using init(4) by (auto simp: no_close_def)
  then show "no_close k (snd x)" using same_no_close [OF same] no_close_trans by blast
qed

lemma Socket_listen_unconnected:
  assumes "Socket_listen n x = (b, y)"
  shows "is_valid (fst y) = is_valid (fst x)" "is_connected (fst y) = is_connected (fst x)" "no_close (snd x) (snd y)"
proof -
  let ?z = "(fst x, snd (sys (Sys_listen (sockfd (fst x)) n) (snd x)))"
  have y: "y \<in> {log_socket x, ?z, log_socket ?z}"
    using assms by (auto simp: Socket_listen_def Let_def split: if_splits prod.splits)
  have "same_socket x ?z" by (rule same_socket_sys) simp
  from this same_socket_trans [OF this same_log] have "same_socket x y" using y same_log [of x] by auto
  then show "is_valid (fst y) = is_valid (fst x)" "is_connected (fst y) = is_connected (fst x)" "no_close (snd x) (snd y)"
    by (auto simp: same_socket_def is_valid_def no_close_def)
qed

text \<open>What binding an address does to the server.\<close>

lemma bind_one_spec:
  assumes "bind_one a s = (r, s')"
  shows "\<exists>ok. r = Inr ok \<and> no_close (ts_kernel s) (ts_kernel s') \<and> ts_is_stop s' = ts_is_stop s \<and> ts_calls s' = ts_calls s \<and> ts_log_info s' = ts_log_info s
    \<and> (if ok then ts_listen s' = ts_listen s @ [length (ts_sockets s)] \<and> listening s' (length (ts_sockets s))
         \<and> (\<exists>c. ts_sockets s' = ts_sockets s @ [c]) else ts_listen s' = ts_listen s \<and> ts_sockets s' = ts_sockets s)"
proof -
  obtain q x1 where b: "Socket_bind (Some a) (mk_Socket (get_family a) SOCK_STREAM 0, ts_kernel s) = (q, x1)" by (metis prod.exhaust)
  note bind = Socket_bind_unconnected [OF b]
  obtain bound where q: "q = Inr bound" "bound \<longrightarrow> is_valid (fst x1)" using bind(1) by blast
  obtain ok x2 where l: "Socket_listen SOMAXCONN x1 = (ok, x2)" by (metis prod.exhaust)
  note listen = Socket_listen_unconnected [OF l]
  have u: "\<not> is_connected (fst x2)" using listen(2) bind(2) by simp
  have k: "no_close (ts_kernel s) (snd x2)" by (rule no_close_trans [OF bind(3) listen(3)])
  note res = assms [unfolded bind_one_def b q(1) prod.case sum.case l Let_def]
  consider "\<not> bound" | "bound" "\<not> ok" | "bound" "ok" by blast
  then show ?thesis
  proof cases
    case 1
    then have "r = Inr False" "s' = s\<lparr>ts_kernel := snd x1\<rparr>" using res close_unconnected [OF bind(2)] by simp_all
    then show ?thesis using bind(3) by (intro exI [of _ False]) simp
  next
    case 2
    then have "r = Inr False" "s' = s\<lparr>ts_kernel := snd x2\<rparr>" using res close_unconnected [OF u] by simp_all
    then show ?thesis using k by (intro exI [of _ False]) simp
  next
    case 3
    then have "r = Inr True" "s' = s\<lparr>ts_listen := ts_listen s @ [length (ts_sockets s)], ts_sockets := ts_sockets s @ [fst x2],
        ts_kernel := snd x2\<rparr>" using res by simp_all
    then show ?thesis using 3 k u listen(1) q(2) by (intro exI [of _ True]) (simp add: listening_def)
  qed
qed

definition tcp_inv :: "tcp_server \<Rightarrow> bool" where
  "tcp_inv s \<longleftrightarrow> (\<forall>i \<in> set (ts_listen s). listening s i) \<and> distinct (ts_listen s)"

lemma listening_append: "listening s i \<Longrightarrow> ts_sockets s' = ts_sockets s @ cs \<Longrightarrow> listening s' i"
  by (simp add: listening_def nth_append)

lemma bind_one_inv: "bind_one a s = (r, s') \<Longrightarrow> tcp_inv s \<Longrightarrow> tcp_inv s'"
  using bind_one_spec [of a s r s'] listening_append [of s]
  by (fastforce simp: tcp_inv_def listening_def nth_append split: if_splits)

lemma bind_addrs_spec:
  "tcp_inv s \<Longrightarrow> \<exists>rt fails s'. bind_addrs as s = (Inr (rt, fails), s') \<and> rt = (fails = []) \<and> tcp_inv s'
     \<and> (\<exists>new. ts_listen s' = ts_listen s @ new \<and> length new + length fails = length as) \<and> set fails \<subseteq> set as
     \<and> ts_is_stop s' = ts_is_stop s \<and> ts_calls s' = ts_calls s \<and> ts_log_info s' = ts_log_info s \<and> no_close (ts_kernel s) (ts_kernel s')"
proof (induction as arbitrary: s)
  case (Cons a as)
  obtain r s1 where b: "bind_one a s = (r, s1)" by fastforce
  obtain ok0 where ok0: "r = Inr ok0" using bind_one_spec [OF b] by blast
  have "\<exists>new1. ts_listen s1 = ts_listen s @ new1 \<and> length new1 = (if ok0 then 1 else 0)"
    using bind_one_spec [OF b] ok0 by (cases ok0) auto
  with bind_one_spec [OF b] ok0 obtain ok new1 where ok: "r = Inr ok" "no_close (ts_kernel s) (ts_kernel s1)" "ts_is_stop s1 = ts_is_stop s"
      "ts_calls s1 = ts_calls s" "ts_log_info s1 = ts_log_info s" "ts_listen s1 = ts_listen s @ new1" "length new1 = (if ok then 1 else 0)" by (metis sum.inject(2))
  from Cons.IH [OF bind_one_inv [OF b Cons.prems]] obtain rt fails s' new where
      i: "bind_addrs as s1 = (Inr (rt, fails), s')" "rt = (fails = [])" "tcp_inv s'" "ts_listen s' = ts_listen s1 @ new"
      "length new + length fails = length as" "set fails \<subseteq> set as" "ts_is_stop s' = ts_is_stop s1" "ts_calls s' = ts_calls s1"
      "ts_log_info s' = ts_log_info s1" "no_close (ts_kernel s1) (ts_kernel s')" by blast
  let ?f = "if ok then fails else a # fails"
  have "bind_addrs (a # as) s = (Inr (ok \<and> rt, ?f), s')" using b ok(1) i(1) by simp
  moreover have "ts_listen s' = ts_listen s @ new1 @ new" "length (new1 @ new) + length ?f = length (a # as)"
    using ok(6,7) i(4,5) by auto
  moreover have "no_close (ts_kernel s) (ts_kernel s')" using no_close_trans ok(2) i(10) by blast
  ultimately show ?case using i ok by (intro exI [of _ "ok \<and> rt"] exI [of _ ?f] exI [of _ s']) auto
qed auto

text \<open>Stopping does not close a listening socket, since it is not connected.\<close>

lemma stop_one_listening:
  "listening s i \<Longrightarrow> stop_one i s = s\<lparr>ts_calls := ts_calls s @ [Cancel_all (sockfd (ts_sockets s ! i))]\<rparr>"
  using close_unconnected [of "(ts_sockets s ! i, ts_kernel s)"] by (simp add: stop_one_def listening_def)

lemma stop_all_listening:
  "\<forall>i \<in> set is. listening s i \<Longrightarrow>
     fold stop_one is s = s\<lparr>ts_calls := ts_calls s @ map (\<lambda>i. Cancel_all (sockfd (ts_sockets s ! i))) is\<rparr>"
proof (induction "is" arbitrary: s)
  case (Cons i "is")
  let ?s1 = "s\<lparr>ts_calls := ts_calls s @ [Cancel_all (sockfd (ts_sockets s ! i))]\<rparr>"
  have "\<forall>j \<in> set is. listening ?s1 j" using Cons.prems by (simp add: listening_def)
  from Cons.IH [OF this] show ?case using Cons.prems by (simp add: stop_one_listening)
qed simp

text \<open>A round that accepts a client registers exactly it; one that does not changes nothing else.\<close>

definition clients :: "call list \<Rightarrow> nat list" where
  "clients cs = List.map_filter (\<lambda>c. case c of Add_client j \<Rightarrow> Some j | _ \<Rightarrow> None) cs"

lemma clients_simps [simp]: "clients [] = []" "clients (cs @ ds) = clients cs @ clients ds" "clients [Add_client j] = [j]"
  "clients [Add_accept j] = []" "clients [Cancel_all f] = []"
  by (simp_all add: clients_def map_filter_def)

text \<open>The clients that have been taken on since \<open>s0\<close>: connected, with the timeout set, and each handed over once, in order.\<close>

definition taken_on :: "tcp_server \<Rightarrow> Socket list \<Rightarrow> tcp_server \<Rightarrow> bool" where
  "taken_on s0 cs s \<longleftrightarrow> ts_sockets s = ts_sockets s0 @ cs
     \<and> clients (ts_calls s) = clients (ts_calls s0) @ [length (ts_sockets s0)..<length (ts_sockets s0) + length cs]
     \<and> (\<exists>t. trace (ts_kernel s) = trace (ts_kernel s0) @ t)
     \<and> (\<forall>c \<in> set cs. is_connected c \<and> is_valid c \<and> Sys_setsockopt (sockfd c) SOL_SOCKET_level SO_RCVTIMEO \<in> set (trace (ts_kernel s)))"

lemma taken_on_refl: "taken_on s [] s"
  by (simp add: taken_on_def)

lemma taken_on_trans:
  assumes "taken_on s0 cs s1" and "taken_on s1 ds s2"
  shows "taken_on s0 (cs @ ds) s2"
proof -
  have "[length (ts_sockets s0)..<length (ts_sockets s0) + length cs] @ [length (ts_sockets s1)..<length (ts_sockets s1) + length ds]
      = [length (ts_sockets s0)..<length (ts_sockets s0) + length (cs @ ds)]"
    using assms(1) upt_add_eq_append [of "length (ts_sockets s0)" "length (ts_sockets s0) + length cs" "length ds"]
    by (simp add: taken_on_def add.assoc)
  then show ?thesis using assms by (auto simp: taken_on_def)
qed

lemma sys_trace: "trace (snd (sys c k)) = trace k @ [c]"
  by (simp add: sys_def)

lemma Socket_accept_trace:
  assumes "Socket_accept (sk, k) = (c, y)"
  shows "fst y = sk" and "\<exists>t. trace (snd y) = trace k @ t"
proof -
  show "fst y = sk" using assms by (auto simp: Socket_accept_def Let_def split: prod.splits if_splits)
  obtain f k1 where f: "sys (Sys_accept (sockfd sk)) k = (f, k1)" by fastforce
  have k1: "trace k1 = trace k @ [Sys_accept (sockfd sk)]" using sys_trace [of "Sys_accept (sockfd sk)" k] f by simp
  let ?x = "((mk_Socket (family sk) (sock_type sk) (protocol sk))\<lparr>remote_address := Some (peer_at k f)\<rparr>, k1)"
  obtain b z where z: "Socket_init f ?x = (b, z)" by (metis prod.exhaust)
  have "snd y = k1 \<or> snd y = snd z" using assms f z by (auto simp: Socket_accept_def Let_def split: if_splits prod.splits)
  then show "\<exists>t. trace (snd y) = trace k @ t" using Socket_init_fields(4) [OF z] k1 by auto
qed

lemma accept_round_takes:
  assumes "i < length (ts_sockets s)" and "\<not> ts_log_info s"
  shows "\<exists>cs s'. accept_round i s = (Inr (), s') \<and> taken_on s cs s' \<and> ts_is_stop s' = ts_is_stop s \<and> ts_listen s' = ts_listen s
    \<and> ts_log_info s' = ts_log_info s \<and> length cs = (if fst (Socket_accept (ts_sockets s ! i, ts_kernel s)) = None then 0 else 1)"
proof -
  obtain c y where a: "Socket_accept (ts_sockets s ! i, ts_kernel s) = (c, y)" by (metis prod.exhaust)
  note t = Socket_accept_trace [OF a]
  have same: "(ts_sockets s)[i := fst y] = ts_sockets s" using t(1) by simp
  show ?thesis
  proof (cases c)
    case None
    let ?s = "s\<lparr>ts_kernel := snd y\<rparr>"
    have "accept_round i s = (Inr (), ?s)" using a None same by (cases y) (simp add: accept_round_def)
    moreover have "taken_on s [] ?s" using t(2) by (simp add: taken_on_def)
    ultimately show ?thesis using a None by (intro exI [of _ "[]"] exI [of _ ?s]) simp
  next
    case (Some d)
    let ?k = "snd (sys (Sys_setsockopt (sockfd d) SOL_SOCKET_level SO_RCVTIMEO) (snd y))"
    let ?s = "s\<lparr>ts_sockets := ts_sockets s @ [d], ts_kernel := ?k, ts_calls := ts_calls s @ [Add_client (length (ts_sockets s))]\<rparr>"
    have "accept_round i s = (Inr (), ?s)"
      using a Some same assms(2) by (cases y) (simp add: accept_round_def set_option_def Let_def case_prod_beta)
    moreover have "is_connected d" "is_valid d" using accepted_socket [of "(ts_sockets s ! i, ts_kernel s)" d y] a Some by simp_all
    then have "taken_on s [d] ?s" using t(2) by (auto simp: taken_on_def sys_trace)
    ultimately show ?thesis using a Some by (intro exI [of _ "[d]"] exI [of _ ?s]) simp
  qed
qed

lemma stop_takes:
  assumes "tcp_inv s" and "\<not> ts_is_stop s"
  shows "taken_on s [] (snd (TcpServer_stop s)) \<and> ts_is_stop (snd (TcpServer_stop s)) \<and> ts_log_info (snd (TcpServer_stop s)) = ts_log_info s"
proof -
  have "clients (map (\<lambda>i. Cancel_all (f i)) is) = []" for f and "is" :: "nat list"
    by (induction "is") (simp_all add: clients_def map_filter_def)
  then show ?thesis using assms by (simp add: TcpServer_stop_def stop_all_listening tcp_inv_def taken_on_def)
qed

text \<open>The other fibers stop the server while the loop waits in round \<open>N\<close>.\<close>

definition stop_at :: "nat \<Rightarrow> nat \<Rightarrow> tcp_server \<Rightarrow> tcp_server" where
  "stop_at N n s = (if n = N then snd (TcpServer_stop s) else s)"

lemma on_accepted_ends:
  "n \<le> N \<Longrightarrow> tcp_inv s \<Longrightarrow> \<not> ts_is_stop s \<Longrightarrow> \<not> ts_log_info s \<Longrightarrow> i < length (ts_sockets s) \<Longrightarrow>
     \<exists>cs s'. on_accepted (stop_at N) i n s = Some (Inr (), s') \<and> ts_is_stop s' \<and> taken_on s cs s' \<and> length cs \<le> Suc N - n"
proof (induction "N - n" arbitrary: n s)
  case 0
  let ?s1 = "snd (TcpServer_stop s)"
  note st = stop_takes [OF 0(3,4)]
  have "i < length (ts_sockets ?s1)" using st 0(6) by (simp add: taken_on_def)
  then obtain cs s' where r: "accept_round i ?s1 = (Inr (), s')" "taken_on ?s1 cs s'" "ts_is_stop s'" "length cs \<le> 1"
    using accept_round_takes [of i ?s1] st 0(5) by (auto split: if_splits)
  have "n = N" using 0 by simp
  then have "on_accepted (stop_at N) i n s = on_accepted (stop_at N) i (Suc n) s'"
    using r(1) 0(4) by (simp add: on_accepted.simps [of _ i N s] stop_at_def)
  also have "\<dots> = Some (Inr (), s')" using r(3) by (simp add: on_accepted.simps [of _ i "Suc n" s'])
  finally show ?case using taken_on_trans [of s "[]" ?s1 cs s'] st r \<open>n = N\<close> by (intro exI [of _ cs] exI [of _ s']) simp
next
  case (Suc d)
  obtain cs s1 where r: "accept_round i s = (Inr (), s1)" "taken_on s cs s1" "ts_is_stop s1 = ts_is_stop s" "ts_listen s1 = ts_listen s"
      "ts_log_info s1 = ts_log_info s" "length cs \<le> 1"
    using accept_round_takes [OF Suc.prems(5,4)] by (auto split: if_splits)
  have "tcp_inv s1" using Suc.prems(2) r(2,4) listening_append [of s _ s1 cs] by (auto simp: tcp_inv_def taken_on_def)
  moreover have "i < length (ts_sockets s1)" using Suc.prems(5) r(2) by (simp add: taken_on_def)
  ultimately obtain ds s' where i: "on_accepted (stop_at N) i (Suc n) s1 = Some (Inr (), s')" "ts_is_stop s'" "taken_on s1 ds s'"
      "length ds \<le> Suc N - Suc n" using Suc.hyps(1) [of "Suc n" s1] Suc.prems r \<open>Suc d = N - n\<close>
    by (metis Suc_diff_Suc Suc_leI Suc_inject zero_less_Suc zero_less_diff)
  have "n \<noteq> N" using Suc.hyps(2) by auto
  then have "on_accepted (stop_at N) i n s = on_accepted (stop_at N) i (Suc n) s1"
    using r(1) Suc.prems(3) by (simp add: on_accepted.simps [of _ i n s] stop_at_def)
  then show ?case using i taken_on_trans [OF r(2) i(3)] r(6) Suc.hyps(2) by (intro exI [of _ "cs @ ds"] exI [of _ s']) auto
qed

section \<open>Properties\<close>



end
