(* ===== verification/Thread.thy ===== *)
theory Thread
  imports Prelude
begin

text \<open>
  Threads (src/sylar/thread.h, thread.cpp) and the semaphore they start with (src/sylar/mutex.h,
  mutex.cpp): the handshake between the constructor and the function the new thread runs, as a step relation
  over the shared object. One step is one access that the other thread can observe.
\<close>

section \<open>State\<close>

text \<open>
  Where the two threads are: the creating one waits in the constructor, has seen it throw (so that the
  storage of the object is gone), holds the object, has joined it or has destroyed it; the new one has not written its
  id, has written the id, has written its name, has posted the semaphore, has taken the callback, has returned from it.
\<close>

datatype creator = Waiting | Failed | Holding | Joined | Destroyed
datatype runner = Begun | Identified | Named | Posted | Running | Ended

record thread =
  th_id :: "int option"
  th_name :: string
  t_thread_name :: string
  handle :: bool
  sema :: nat
  owner :: creator
  body_at :: runner
  freed_access :: bool

section \<open>Operations\<close>

text \<open>\<open>rt\<close> is what the semaphore function of the system returns; waiting blocks at 0 (\<open>None\<close>).\<close>

definition mk_Semaphore :: "int \<Rightarrow> nat \<Rightarrow> cpp_error + nat" where
  "mk_Semaphore rt count = (if rt \<noteq> 0 then Inl Logic_error else Inr count)"

definition Post :: "int \<Rightarrow> nat \<Rightarrow> cpp_error + nat" where
  "Post rt n = (if rt \<noteq> 0 then Inl Logic_error else Inr (n + 1))"

definition Wait :: "int \<Rightarrow> nat \<Rightarrow> (cpp_error + nat) option" where
  "Wait rt n = (if rt \<noteq> 0 then Some (Inl Logic_error) else if n = 0 then None else Some (Inr (n - 1)))"

text \<open>The constructor up to the wait; \<open>rt\<close> is what \<open>pthread_create\<close> returns.\<close>

definition mk_Thread :: "int \<Rightarrow> int \<Rightarrow> string \<Rightarrow> cpp_error + thread" where
  "mk_Thread sem_init rt name =
     (case mk_Semaphore sem_init 0 of
        Inl e \<Rightarrow> Inl e
      | Inr n \<Rightarrow>
          if rt \<noteq> 0 then Inl Logic_error
          else Inr \<lparr>th_id = None, th_name = name, t_thread_name = ''UNKNOWN'', handle = True, sema = n, owner = Waiting,
                    body_at = Begun, freed_access = False\<rparr>)"

definition Thread_join :: "int \<Rightarrow> thread \<Rightarrow> cpp_error + thread" where
  "Thread_join rt t = (if handle t then if rt \<noteq> 0 then Inl Logic_error else Inr (t\<lparr>handle := False\<rparr>) else Inr t)"

text \<open>The new thread uses the object through its pointer, whether or not it still exists.\<close>

definition touch :: "thread \<Rightarrow> thread" where
  "touch t = t\<lparr>freed_access := freed_access t \<or> owner t = Failed \<or> owner t = Destroyed\<rparr>"

text \<open>
  \<open>pthread_join\<close> returns 0 only when the thread has ended; when it returns another code, \<open>join\<close> throws and
  nothing changes. A semaphore that cannot be posted ends the program, since the exception leaves the
  thread's function.
\<close>

inductive thread_step :: "int \<Rightarrow> thread \<Rightarrow> thread \<Rightarrow> bool" for tid where
  set_id: "body_at t = Begun \<Longrightarrow> thread_step tid t ((touch t)\<lparr>th_id := Some tid, body_at := Identified\<rparr>)"
| set_name: "body_at t = Identified \<Longrightarrow> thread_step tid t ((touch t)\<lparr>t_thread_name := th_name t, body_at := Named\<rparr>)"
| post: "body_at t = Named \<Longrightarrow> Post 0 (sema t) = Inr n \<Longrightarrow> thread_step tid t ((touch t)\<lparr>sema := n, body_at := Posted\<rparr>)"
| take_cb: "body_at t = Posted \<Longrightarrow> thread_step tid t ((touch t)\<lparr>body_at := Running\<rparr>)"
| return: "body_at t = Running \<Longrightarrow> thread_step tid t (t\<lparr>body_at := Ended\<rparr>)"
| wait: "owner t = Waiting \<Longrightarrow> Wait rt (sema t) = Some (Inr n) \<Longrightarrow> thread_step tid t (t\<lparr>sema := n, owner := Holding\<rparr>)"
| wait_fails: "owner t = Waiting \<Longrightarrow> Wait rt (sema t) = Some (Inl e) \<Longrightarrow> thread_step tid t (t\<lparr>owner := Failed\<rparr>)"
| join: "owner t = Holding \<or> owner t = Joined \<Longrightarrow> body_at t = Ended \<Longrightarrow> Thread_join 0 t = Inr t' \<Longrightarrow>
    thread_step tid t (t'\<lparr>owner := Joined\<rparr>)"
| destroy: "owner t = Holding \<or> owner t = Joined \<Longrightarrow> thread_step tid t (t\<lparr>owner := Destroyed\<rparr>)"

inductive_cases thread_stepE: "thread_step tid t t'"

text \<open>The functions on the current thread; \<open>cur\<close> is its object, null in a thread not made by \<open>Thread\<close>.\<close>

definition Thread_get_id :: "thread option \<Rightarrow> int \<Rightarrow> int option" where
  "Thread_get_id cur gettid = (case cur of Some t \<Rightarrow> th_id t | None \<Rightarrow> Some gettid)"

definition Thread_get_name :: "thread \<Rightarrow> string" where
  "Thread_get_name t = t_thread_name t"

definition Thread_set_name :: "string \<Rightarrow> thread option \<times> string \<Rightarrow> thread option \<times> string" where
  "Thread_set_name name x = (map_option (\<lambda>t. t\<lparr>th_name := name, t_thread_name := name\<rparr>) (fst x), name)"

section \<open>Facts\<close>

text \<open>The semaphore is posted once, and only after the id and the name are written.\<close>

definition thread_inv :: "int \<Rightarrow> string \<Rightarrow> thread \<Rightarrow> bool" where
  "thread_inv tid name t \<longleftrightarrow> th_name t = name
     \<and> (if body_at t \<in> {Begun, Identified, Named} then sema t = 0 \<and> owner t \<in> {Waiting, Failed}
        else th_id t = Some tid \<and> t_thread_name t = name \<and> sema t = (if owner t \<in> {Waiting, Failed} then 1 else 0))
     \<and> (body_at t \<noteq> Begun \<longrightarrow> th_id t = Some tid) \<and> (body_at t = Named \<longrightarrow> t_thread_name t = name)
     \<and> (owner t = Joined \<longrightarrow> body_at t = Ended \<and> \<not> handle t)
     \<and> (\<not> handle t \<longrightarrow> body_at t = Ended \<and> owner t \<in> {Joined, Destroyed})
     \<and> (freed_access t \<longrightarrow> owner t \<in> {Failed, Destroyed} \<and> handle t)"

lemma thread_step_inv: "thread_step tid t t' \<Longrightarrow> thread_inv tid name t \<Longrightarrow> thread_inv tid name t'"
  by (erule thread_stepE; cases "body_at t"; cases "owner t")
    (simp_all add: thread_inv_def touch_def Post_def Wait_def Thread_join_def split: if_splits, auto)

lemma thread_reach_inv:
  "(thread_step tid)\<^sup>*\<^sup>* t t' \<Longrightarrow> thread_inv tid name t \<Longrightarrow> thread_inv tid name t'"
  by (induction rule: rtranclp_induct) (auto intro: thread_step_inv)

lemma thread_invD:
  assumes "thread_inv tid name t"
  shows "owner t \<notin> {Waiting, Failed} \<Longrightarrow> th_id t = Some tid \<and> t_thread_name t = name"
    and "owner t = Joined \<Longrightarrow> body_at t = Ended"
    and "\<not> handle t \<Longrightarrow> \<not> freed_access t"
  using assms by (cases "body_at t"; simp add: thread_inv_def)+

text \<open>
  When the wait is interrupted by a signal, the constructor throws although the new thread has started: the
  thread then works on an object whose storage is gone.
\<close>

lemma interrupted_wait:
  assumes "owner t = Waiting" and "body_at t = Begun"
  shows "\<exists>u. (thread_step tid)\<^sup>*\<^sup>* t u \<and> owner u = Failed \<and> freed_access u"
proof -
  have f: "thread_step tid t (t\<lparr>owner := Failed\<rparr>)" by (rule wait_fails [OF assms(1), of 1]) (simp add: Wait_def)
  have "thread_step tid (t\<lparr>owner := Failed\<rparr>) ((touch (t\<lparr>owner := Failed\<rparr>))\<lparr>th_id := Some tid, body_at := Identified\<rparr>)"
    by (rule set_id) (simp add: assms(2))
  then have "(thread_step tid)\<^sup>*\<^sup>* t ((touch (t\<lparr>owner := Failed\<rparr>))\<lparr>th_id := Some tid, body_at := Identified\<rparr>)"
    by (intro converse_rtranclp_into_rtranclp [of "thread_step tid", OF f] r_into_rtranclp)
  moreover have "owner (touch (t\<lparr>owner := Failed\<rparr>)) = Failed" "freed_access (touch (t\<lparr>owner := Failed\<rparr>))"
    by (simp_all add: touch_def)
  ultimately show ?thesis
    by (intro exI [of _ "(touch (t\<lparr>owner := Failed\<rparr>))\<lparr>th_id := Some tid, body_at := Identified\<rparr>"]) simp
qed

section \<open>Properties\<close>

text \<open>
  C27. The constructor of a thread returns only when the thread is set up: in every interleaving, once
  it has returned the id is the new thread's and its name is the one given; a joined thread has
  returned from its callback, and the object is never used after it is destroyed when it
  was joined first. But it can be used afterwards when it is destroyed without a join, even directly after
  construction, since the callback is read after the semaphore is posted.
\<close>

theorem thread_handshake:
  assumes "mk_Thread 0 0 name = Inr t0" and "(thread_step tid)\<^sup>*\<^sup>* t0 t"
  shows "(owner t \<notin> {Waiting, Failed} \<longrightarrow> Thread_get_id (Some t) other = Some tid \<and> Thread_get_name t = name)
    \<and> (owner t = Joined \<longrightarrow> body_at t = Ended)
    \<and> (\<not> handle t \<longrightarrow> \<not> freed_access t)
    \<and> (\<exists>u. (thread_step tid)\<^sup>*\<^sup>* t0 u \<and> owner u = Destroyed \<and> freed_access u)"
proof -
  have t0: "t0 = \<lparr>th_id = None, th_name = name, t_thread_name = ''UNKNOWN'', handle = True, sema = 0, owner = Waiting,
      body_at = Begun, freed_access = False\<rparr>" using assms(1) by (simp add: mk_Thread_def mk_Semaphore_def)
  have "thread_inv tid name t0" unfolding t0 by (simp add: thread_inv_def)
  then have inv: "thread_inv tid name t" by (rule thread_reach_inv [OF assms(2)])
  define t1 where "t1 = t0\<lparr>th_id := Some tid, body_at := Identified\<rparr>"
  define t2 where "t2 = t1\<lparr>t_thread_name := name, body_at := Named\<rparr>"
  define t3 where "t3 = t2\<lparr>body_at := Posted, sema := 1\<rparr>"
  define t4 where "t4 = t3\<lparr>sema := 0, owner := Holding\<rparr>"
  define t5 where "t5 = t4\<lparr>owner := Destroyed\<rparr>"
  define t6 where "t6 = t5\<lparr>freed_access := True, body_at := Running\<rparr>"
  note ts = t0 t1_def t2_def t3_def t4_def t5_def t6_def
  have s1: "thread_step tid t0 t1" using set_id [of t0 tid] by (simp add: ts touch_def)
  have s2: "thread_step tid t1 t2" using set_name [of t1 tid] by (simp add: ts touch_def)
  have s3: "thread_step tid t2 t3" using post [of t2 1 tid] by (simp add: ts touch_def Post_def)
  have s4: "thread_step tid t3 t4" using wait [of t3 0 0 tid] by (simp add: ts Wait_def)
  have s5: "thread_step tid t4 t5" using destroy [of t4 tid] by (simp add: ts)
  have s6: "thread_step tid t5 t6" using take_cb [of t5 tid] by (simp add: ts touch_def)
  note c = converse_rtranclp_into_rtranclp [of "thread_step tid"]
  have "(thread_step tid)\<^sup>*\<^sup>* t0 t6"
    by (rule c [OF s1 c [OF s2 c [OF s3 c [OF s4 c [OF s5 c [OF s6 rtranclp.rtrancl_refl]]]]]])
  then have "\<exists>u. (thread_step tid)\<^sup>*\<^sup>* t0 u \<and> owner u = Destroyed \<and> freed_access u"
    by (intro exI [of _ t6]) (simp add: t6_def t5_def)
  moreover have "owner t \<notin> {Waiting, Failed} \<longrightarrow> th_id t = Some tid \<and> t_thread_name t = name" "owner t = Joined \<longrightarrow> body_at t = Ended"
      "\<not> handle t \<longrightarrow> \<not> freed_access t"
    using thread_invD [OF inv] by simp_all
  ultimately show ?thesis by (simp add: Thread_get_id_def Thread_get_name_def)
qed

definition demo_thread :: thread where
  "demo_thread = \<lparr>th_id = None, th_name = ''worker'', t_thread_name = ''UNKNOWN'', handle = True, sema = 0, owner = Waiting,
     body_at = Begun, freed_access = False\<rparr>"

theorem thread_handshake_witness: "\<exists>u. (thread_step 42)\<^sup>*\<^sup>* demo_thread u \<and> owner u = Destroyed \<and> freed_access u"
  using thread_handshake [of "''worker''" demo_thread 42 demo_thread] by (simp add: mk_Thread_def mk_Semaphore_def demo_thread_def)

end
