(* ===== verification/Mutex.thy ===== *)
theory Mutex
  imports Prelude
begin

text \<open>
  The lock classes and their scoped guards (src/sylar/mutex.h): \<open>Mutex\<close>, \<open>RWMutex\<close> and \<open>SpinLock\<close> forward to the
  pthread functions, which are parameters here; \<open>LockGuard\<close>, \<open>ReadLockGuard\<close> and \<open>WriteLockGuard\<close> take
  the lock in their constructor and release it in their destructor. Any number of threads open and
  close guards on one lock, one step at a time.
\<close>

section \<open>Locks and guards\<close>

text \<open>
  A function that takes the lock answers a code and the new state of the lock, or \<open>None\<close> while it blocks.
  The number is the calling thread.
\<close>

type_synonym 'l locking = "nat \<Rightarrow> 'l \<Rightarrow> (int \<times> 'l) option"
type_synonym 'l unlocking = "nat \<Rightarrow> 'l \<Rightarrow> int \<times> 'l"

record 'l lock_class =
  rlock :: "'l locking"
  wlock :: "'l locking"
  unlock :: "'l unlocking"

definition RWMutex :: "'l locking \<Rightarrow> 'l locking \<Rightarrow> 'l unlocking \<Rightarrow> 'l lock_class" where
  "RWMutex pthread_rwlock_rdlock pthread_rwlock_wrlock pthread_rwlock_unlock =
     \<lparr>rlock = pthread_rwlock_rdlock, wlock = pthread_rwlock_wrlock, unlock = pthread_rwlock_unlock\<rparr>"

text \<open>These two have one way to take the lock, which excludes everybody.\<close>

definition Mutex :: "'l locking \<Rightarrow> 'l unlocking \<Rightarrow> 'l lock_class" where
  "Mutex pthread_mutex_lock pthread_mutex_unlock =
     \<lparr>rlock = \<lambda>_ _. None, wlock = pthread_mutex_lock, unlock = pthread_mutex_unlock\<rparr>"

definition SpinLock :: "'l locking \<Rightarrow> 'l unlocking \<Rightarrow> 'l lock_class" where
  "SpinLock pthread_spin_lock pthread_spin_unlock =
     \<lparr>rlock = \<lambda>_ _. None, wlock = pthread_spin_lock, unlock = pthread_spin_unlock\<rparr>"

text \<open>
  What the guards make of it: the constructors do not look at the code (it is kept beside the
  state to speak about it), the destructors do not either.
\<close>

definition ReadLockGuard :: "'l lock_class \<Rightarrow> nat \<Rightarrow> 'l \<Rightarrow> (int \<times> 'l) option" where
  "ReadLockGuard c t l = rlock c t l"

definition WriteLockGuard :: "'l lock_class \<Rightarrow> nat \<Rightarrow> 'l \<Rightarrow> (int \<times> 'l) option" where
  "WriteLockGuard c t l = wlock c t l"

definition LockGuard :: "'l lock_class \<Rightarrow> nat \<Rightarrow> 'l \<Rightarrow> (int \<times> 'l) option" where
  "LockGuard c t l = wlock c t l"

definition end_guard :: "'l lock_class \<Rightarrow> nat \<Rightarrow> 'l \<Rightarrow> 'l" where
  "end_guard c t l = snd (unlock c t l)"

text \<open>The guards each thread has open, innermost first, and whether some constructor got an error code.\<close>

datatype mode = Shared | Exclusive

record 'l section_state =
  lk :: 'l
  scopes :: "nat \<Rightarrow> mode list"
  ignored_error :: bool

definition enter :: "mode \<Rightarrow> nat \<Rightarrow> int \<times> 'l \<Rightarrow> 'l section_state \<Rightarrow> 'l section_state" where
  "enter md t r s = s\<lparr>lk := snd r, scopes := (scopes s)(t := md # scopes s t),
     ignored_error := (ignored_error s \<or> fst r \<noteq> 0)\<rparr>"

inductive guard_step :: "'l lock_class \<Rightarrow> 'l section_state \<Rightarrow> 'l section_state \<Rightarrow> bool" for c where
  read_guard: "ReadLockGuard c t (lk s) = Some r \<Longrightarrow> guard_step c s (enter Shared t r s)"
| write_guard: "WriteLockGuard c t (lk s) = Some r \<Longrightarrow> guard_step c s (enter Exclusive t r s)"
| lock_guard: "LockGuard c t (lk s) = Some r \<Longrightarrow> guard_step c s (enter Exclusive t r s)"
| close_guard: "scopes s t = md # rest \<Longrightarrow>
    guard_step c s (s\<lparr>lk := end_guard c t (lk s), scopes := (scopes s)(t := rest)\<rparr>)"

inductive_cases guard_stepE: "guard_step c s s'"

section \<open>What POSIX says of the locks\<close>

text \<open>
  The documented behaviour of the three kinds of lock, over the number of times each thread holds
  the lock shared and the thread that holds it exclusively. A lock is granted (code 0) shared when nobody holds
  it exclusively, and exclusively when nobody holds it; a holder that unlocks gives up one hold.
\<close>

record 'l holding =
  readers :: "'l \<Rightarrow> nat \<Rightarrow> nat"
  writer :: "'l \<Rightarrow> nat option"

definition posix_lock :: "'l holding \<Rightarrow> 'l lock_class \<Rightarrow> bool" where
  "posix_lock h c \<longleftrightarrow>
     (\<forall>t l l'. rlock c t l = Some (0, l') \<longrightarrow>
        writer h l = None \<and> writer h l' = None \<and> readers h l' = (readers h l)(t := readers h l t + 1))
   \<and> (\<forall>t l l'. wlock c t l = Some (0, l') \<longrightarrow>
        writer h l = None \<and> readers h l = (\<lambda>_. 0) \<and> writer h l' = Some t \<and> readers h l' = (\<lambda>_. 0))
   \<and> (\<forall>t l. writer h l = Some t \<longrightarrow>
        writer h (snd (unlock c t l)) = None \<and> readers h (snd (unlock c t l)) = readers h l)
   \<and> (\<forall>t l. writer h l = None \<and> 0 < readers h l t \<longrightarrow>
        writer h (snd (unlock c t l)) = None
        \<and> readers h (snd (unlock c t l)) = (readers h l)(t := readers h l t - 1))"

lemma posix_lockD:
  assumes "posix_lock h c"
  shows "rlock c t l = Some (0, l') \<Longrightarrow>
      writer h l = None \<and> writer h l' = None \<and> readers h l' = (readers h l)(t := readers h l t + 1)"
    and "wlock c t l = Some (0, l') \<Longrightarrow>
      writer h l = None \<and> readers h l = (\<lambda>_. 0) \<and> writer h l' = Some t \<and> readers h l' = (\<lambda>_. 0)"
    and "writer h l = Some t \<Longrightarrow>
      writer h (snd (unlock c t l)) = None \<and> readers h (snd (unlock c t l)) = readers h l"
    and "writer h l = None \<Longrightarrow> 0 < readers h l t \<Longrightarrow>
      writer h (snd (unlock c t l)) = None \<and> readers h (snd (unlock c t l)) = (readers h l)(t := readers h l t - 1)"
  using assms unfolding posix_lock_def by blast+

section \<open>The invariant of the guards\<close>

text \<open>
  The open guards are the holds of the lock: the thread with the exclusive hold has one open guard
  and nobody else has any; otherwise every thread has as many shared guards open as it has holds.
\<close>

definition guard_inv :: "'l holding \<Rightarrow> 'l section_state \<Rightarrow> bool" where
  "guard_inv h s \<longleftrightarrow>
     (case writer h (lk s) of
        Some t \<Rightarrow> readers h (lk s) = (\<lambda>_. 0) \<and> scopes s = (\<lambda>_. [])(t := [Exclusive])
      | None \<Rightarrow> (\<forall>t. scopes s t = replicate (readers h (lk s) t) Shared))"

lemma guard_step_error: "guard_step c s s' \<Longrightarrow> ignored_error s \<Longrightarrow> ignored_error s'"
  by (erule guard_stepE) (simp_all add: enter_def)

lemma guard_step_inv:
  assumes h: "posix_lock h c" and step: "guard_step c s s'" and inv: "guard_inv h s" and ok: "\<not> ignored_error s'"
  shows "guard_inv h s'"
  using step
proof (cases rule: guard_step.cases)
  case (read_guard t r)
  then have r: "rlock c t (lk s) = Some (0, snd r)" "fst r = 0"
    using ok by (cases r, simp add: ReadLockGuard_def enter_def)+
  show ?thesis using posix_lockD(1) [OF h r(1)] inv read_guard ok by (auto simp: guard_inv_def enter_def)
next
  case (write_guard t r)
  then have r: "wlock c t (lk s) = Some (0, snd r)" "fst r = 0"
    using ok by (cases r, simp add: WriteLockGuard_def enter_def)+
  show ?thesis using posix_lockD(2) [OF h r(1)] inv write_guard ok by (auto simp: guard_inv_def enter_def)
next
  case (lock_guard t r)
  then have r: "wlock c t (lk s) = Some (0, snd r)" "fst r = 0"
    using ok by (cases r, simp add: LockGuard_def enter_def)+
  show ?thesis using posix_lockD(2) [OF h r(1)] inv lock_guard ok by (auto simp: guard_inv_def enter_def)
next
  case (close_guard t md rest)
  show ?thesis
  proof (cases "writer h (lk s)")
    case None
    then have "0 < readers h (lk s) t" "rest = replicate (readers h (lk s) t - 1) Shared"
      using inv close_guard by (cases "readers h (lk s) t"; force simp: guard_inv_def)+
    then show ?thesis using posix_lockD(4) [OF h None] inv None close_guard ok
      by (auto simp: guard_inv_def end_guard_def)
  next
    case (Some u)
    then have "u = t" "rest = []" using inv close_guard by (auto simp: guard_inv_def split: if_splits)
    then show ?thesis using posix_lockD(3) [OF h, of "lk s" t] inv Some close_guard ok
      by (auto simp: guard_inv_def end_guard_def)
  qed
qed

lemma guard_reach_inv:
  assumes "(guard_step c)\<^sup>*\<^sup>* s s'" and "posix_lock h c" and "guard_inv h s" and "\<not> ignored_error s'"
  shows "guard_inv h s'"
  using assms(1,4)
proof (induction rule: rtranclp_induct)
  case (step y z)
  then have "\<not> ignored_error y" using guard_step_error [OF step.hyps(2)] by blast
  then show ?case using guard_step_inv [OF assms(2) step.hyps(2) step.IH step.prems] by simp
qed (rule assms(3))

section \<open>A lock of this kind\<close>

text \<open>
  A reader-writer lock as the C library has it: the shared holds and the exclusive one; a thread that asks
  for the lock while it holds it exclusively gets \<open>EDEADLK\<close>, and unlocking does not ask who unlocks.
\<close>

datatype rwlock = Shared_by "nat list" | Exclusive_by nat

definition EDEADLK :: int where "EDEADLK = 35"

fun rdlock_of :: "rwlock locking" where
  "rdlock_of t (Shared_by ts) = Some (0, Shared_by (t # ts))"
| "rdlock_of t (Exclusive_by u) = (if u = t then Some (EDEADLK, Exclusive_by u) else None)"

fun wrlock_of :: "rwlock locking" where
  "wrlock_of t (Shared_by ts) = (if ts = [] then Some (0, Exclusive_by t) else None)"
| "wrlock_of t (Exclusive_by u) = (if u = t then Some (EDEADLK, Exclusive_by u) else None)"

fun unlock_of :: "rwlock unlocking" where
  "unlock_of t (Shared_by ts) = (0, Shared_by (remove1 t ts))"
| "unlock_of t (Exclusive_by u) = (0, Shared_by [])"

definition rw_class :: "rwlock lock_class" where
  "rw_class = RWMutex rdlock_of wrlock_of unlock_of"

definition rw_holding :: "rwlock holding" where
  "rw_holding = \<lparr>readers = \<lambda>l t. case l of Shared_by ts \<Rightarrow> count_list ts t | Exclusive_by _ \<Rightarrow> 0,
     writer = \<lambda>l. case l of Shared_by _ \<Rightarrow> None | Exclusive_by t \<Rightarrow> Some t\<rparr>"

lemma count_list_remove1: "count_list (remove1 x xs) y = (if x = y then count_list xs y - 1 else count_list xs y)"
proof (induction xs)
  case (Cons a xs)
  show ?case
  proof (cases "a = y")
    case True
    then show ?thesis using Cons.IH by (cases "count_list xs y") (auto simp: count_list_0_iff)
  qed (use Cons.IH in auto)
qed simp

definition idle_rwlock :: "rwlock section_state" where
  "idle_rwlock = \<lparr>lk = Shared_by [], scopes = \<lambda>_. [], ignored_error = False\<rparr>"

text \<open>
  The guards do not look at the code, so a thread that opens a guard inside its own exclusive guard gets past
  it without a hold, and closing the inner guard gives up the outer one's: another
  thread enters while the first is still in its exclusive section.
\<close>

lemma nested_guard_breaks_exclusion:
  "\<exists>s. (guard_step rw_class)\<^sup>*\<^sup>* idle_rwlock s \<and> Exclusive \<in> set (scopes s 0) \<and> Exclusive \<in> set (scopes s 1)"
proof -
  define s1 where "s1 = enter Exclusive 0 (0, Exclusive_by 0) idle_rwlock"
  define s2 where "s2 = enter Shared 0 (EDEADLK, lk s1) s1"
  define s3 where "s3 = s2\<lparr>lk := Shared_by [], scopes := (scopes s2)(0 := [Exclusive])\<rparr>"
  define s4 where "s4 = enter Exclusive 1 (0, Exclusive_by 1) s3"
  note ss = s1_def s2_def s3_def s4_def idle_rwlock_def enter_def rw_class_def RWMutex_def
  have t1: "guard_step rw_class idle_rwlock s1" unfolding s1_def
    by (rule write_guard) (simp add: ss WriteLockGuard_def)
  have t2: "guard_step rw_class s1 s2" unfolding s2_def
    by (rule read_guard) (simp add: ss ReadLockGuard_def)
  have t3: "guard_step rw_class s2 s3"
    using close_guard [of s2 0 Shared "[Exclusive]" rw_class] by (simp add: ss end_guard_def)
  have t4: "guard_step rw_class s3 s4" unfolding s4_def
    by (rule write_guard) (simp add: ss WriteLockGuard_def)
  note c = converse_rtranclp_into_rtranclp [of "guard_step rw_class"]
  have "(guard_step rw_class)\<^sup>*\<^sup>* idle_rwlock s4" by (rule c [OF t1 c [OF t2 c [OF t3 c [OF t4 rtranclp.rtrancl_refl]]]])
  then show ?thesis by (intro exI [of _ s4]) (simp add: ss)
qed

section \<open>Property\<close>


lemma rw_class_posix: "posix_lock rw_holding rw_class"
  unfolding posix_lock_def rw_holding_def rw_class_def RWMutex_def
  by (auto simp: EDEADLK_def fun_eq_iff count_list_remove1 elim!: rdlock_of.elims wrlock_of.elims split: rwlock.splits if_splits)


end
