(* ===== verification/Socket_Events.thy ===== *)
theory Socket_Events
  imports Socket IO_Manager
begin

text \<open>
  The methods of a socket that cancel what waits on its descriptor (src/sylar/socket.cpp), over the
  IO manager of the calling thread.
\<close>

section \<open>Operations\<close>

definition Socket_cancel_read :: "epoll_ctl \<Rightarrow> Socket \<Rightarrow> iomanager \<Rightarrow> bool \<times> iomanager" where
  "Socket_cancel_read ctl s = cancel_event ctl (sockfd s) EPOLLIN"

definition Socket_cancel_write :: "epoll_ctl \<Rightarrow> Socket \<Rightarrow> iomanager \<Rightarrow> bool \<times> iomanager" where
  "Socket_cancel_write ctl s = cancel_event ctl (sockfd s) EPOLLOUT"

definition Socket_cancel_accept :: "epoll_ctl \<Rightarrow> Socket \<Rightarrow> iomanager \<Rightarrow> bool \<times> iomanager" where
  "Socket_cancel_accept ctl s = cancel_event ctl (sockfd s) EPOLLIN"

definition Socket_cancel_all :: "epoll_ctl \<Rightarrow> Socket \<Rightarrow> iomanager \<Rightarrow> bool \<times> iomanager" where
  "Socket_cancel_all ctl s = cancel_all ctl (sockfd s)"

section \<open>Facts\<close>

text \<open>The task a waiting fiber becomes, if one waits.\<close>

definition woken :: "fib option \<Rightarrow> ScheduledTask list" where
  "woken x = (case x of None \<Rightarrow> [] | Some f \<Rightarrow> [as_task f])"

lemma woken_simps [simp]: "woken None = []" "woken (Some f) = [as_task f]"
  by (simp_all add: woken_def)

lemma cancel_one:
  assumes "io_wf m" and "direction d" and "ctl_ok ctl"
  shows "\<exists>m'. cancel_event ctl f d m = (waiter m f d \<noteq> None, m') \<and> io_wf m'
    \<and> tasks (base m') = tasks (base m) @ woken (waiter m f d)
    \<and> (\<forall>g d'. direction d' \<longrightarrow> waiter m' g d' = (if g = f \<and> d' = d then None else waiter m g d'))"
proof (cases "waiter m f d")
  case None
  note none = cancel_event_none [OF assms(1,2) None, where ctl = ctl]
  define m' where "m' = snd (cancel_event ctl f d m)"
  have "cancel_event ctl f d m = (waiter m f d \<noteq> None, m')"
    using None none(1) by (cases "cancel_event ctl f d m") (simp add: m'_def)
  moreover have "waiter m' g d' = (if g = f \<and> d' = d then None else waiter m g d')" if "direction d'" for g d'
    using None none(4) [OF that] by (simp add: m'_def)
  ultimately show ?thesis using None none(2,3) by (intro exI [of _ m'] conjI allI impI) (simp_all add: m'_def)
next
  case (Some x)
  then have eq: "waiter m f d \<noteq> None \<longleftrightarrow> True" "woken (waiter m f d) = [as_task x]" by simp_all
  show ?thesis using cancel_event_spec [OF assms(1,2) Some assms(3)] unfolding eq by blast
qed

text \<open>Cancelling one direction when it is armed, leaving it alone otherwise.\<close>

lemma cancel_if_armed:
  assumes "io_wf m" and "direction d" and "ctl_ok ctl" and "A \<longleftrightarrow> waiter m f d \<noteq> None"
  shows "\<exists>m'. (if A then cancel_dir ctl f d (ret, m) else (ret, m)) = (ret \<or> waiter m f d \<noteq> None, m') \<and> io_wf m'
    \<and> tasks (base m') = tasks (base m) @ woken (waiter m f d)
    \<and> (\<forall>g d'. direction d' \<longrightarrow> waiter m' g d' = (if g = f \<and> d' = d then None else waiter m g d'))"
proof (cases "waiter m f d")
  case None
  with assms(1,4) show ?thesis by auto
next
  case (Some x)
  obtain m' where c: "cancel_event ctl f d m = (waiter m f d \<noteq> None, m')" "io_wf m'"
    "tasks (base m') = tasks (base m) @ woken (waiter m f d)"
    "\<forall>g d'. direction d' \<longrightarrow> waiter m' g d' = (if g = f \<and> d' = d then None else waiter m g d')"
    using cancel_one [OF assms(1-3)] by blast
  have "(if A then cancel_dir ctl f d (ret, m) else (ret, m)) = (ret \<or> waiter m f d \<noteq> None, m')"
    using c(1) Some assms(4) by (simp add: cancel_dir_def)
  with c(2-4) show ?thesis by blast
qed

lemma cancel_all_spec:
  assumes wf: "io_wf m" and ctl: "ctl_ok ctl"
  shows "\<exists>m'. cancel_all ctl f m = (waiter m f EPOLLIN \<noteq> None \<or> waiter m f EPOLLOUT \<noteq> None, m') \<and> io_wf m'
    \<and> tasks (base m') = tasks (base m) @ woken (waiter m f EPOLLIN) @ woken (waiter m f EPOLLOUT)
    \<and> (\<forall>g d. direction d \<longrightarrow> waiter m' g d = (if g = f then None else waiter m g d))"
proof (cases "lookup_event f m")
  case None
  with wf show ?thesis by (auto simp: cancel_all_def waiter_def)
next
  case (Some e)
  have dirs: "direction EPOLLIN" "direction EPOLLOUT" by simp_all
  obtain m1 where m1: "(if armed EPOLLIN e then cancel_dir ctl f EPOLLIN (False, m) else (False, m))
      = (waiter m f EPOLLIN \<noteq> None, m1)" "io_wf m1"
    "tasks (base m1) = tasks (base m) @ woken (waiter m f EPOLLIN)"
    "\<forall>g d'. direction d' \<longrightarrow> waiter m1 g d' = (if g = f \<and> d' = EPOLLIN then None else waiter m g d')"
    using cancel_if_armed [OF wf dirs(1) ctl waiter_armed [OF wf Some dirs(1)], of False] by auto
  have out: "waiter m1 f EPOLLOUT = waiter m f EPOLLOUT" using m1(4) by (simp add: epoll_defs)
  then have "armed EPOLLOUT e \<longleftrightarrow> waiter m1 f EPOLLOUT \<noteq> None" using waiter_armed [OF wf Some dirs(2)] by simp
  from cancel_if_armed [OF m1(2) dirs(2) ctl this, of "waiter m f EPOLLIN \<noteq> None"] obtain m2 where
    m2: "(if armed EPOLLOUT e then cancel_dir ctl f EPOLLOUT (waiter m f EPOLLIN \<noteq> None, m1) else (waiter m f EPOLLIN \<noteq> None, m1))
      = (waiter m f EPOLLIN \<noteq> None \<or> waiter m1 f EPOLLOUT \<noteq> None, m2)" "io_wf m2"
    "tasks (base m2) = tasks (base m1) @ woken (waiter m1 f EPOLLOUT)"
    "\<forall>g d'. direction d' \<longrightarrow> waiter m2 g d' = (if g = f \<and> d' = EPOLLOUT then None else waiter m1 g d')" by blast
  have "cancel_all ctl f m = (waiter m f EPOLLIN \<noteq> None \<or> waiter m f EPOLLOUT \<noteq> None, m2)"
    using m1(1) m2(1) Some out by (simp only: cancel_all_def armed_def Let_def option.case)
  moreover have "waiter m2 g d = (if g = f then None else waiter m g d)" if "direction d" for g d
    using that m1(4) m2(4) by auto
  ultimately show ?thesis using m1(3) m2(2,3) out by (intro exI [of _ m2]) simp
qed

text \<open>
  What cancelling the directions \<open>ds\<close> of descriptor \<open>f\<close> amounts to: the result says whether a fiber waited
  for one of them, these fibers are scheduled in order, the directions are free, nothing else changes.
\<close>

definition cancelled :: "u32 list \<Rightarrow> int \<Rightarrow> iomanager \<Rightarrow> bool \<times> iomanager \<Rightarrow> bool" where
  "cancelled ds f m r \<longleftrightarrow> fst r = (\<exists>d \<in> set ds. waiter m f d \<noteq> None) \<and> io_wf (snd r)
     \<and> tasks (base (snd r)) = tasks (base m) @ concat (map (\<lambda>d. woken (waiter m f d)) ds)
     \<and> (\<forall>g. \<forall>d \<in> {EPOLLIN, EPOLLOUT}. waiter (snd r) g d = (if g = f \<and> d \<in> set ds then None else waiter m g d))"

lemma cancelled_one: "io_wf m \<Longrightarrow> direction d \<Longrightarrow> ctl_ok ctl \<Longrightarrow> cancelled [d] f m (cancel_event ctl f d m)"
  by (frule (2) cancel_one [of m d ctl f], elim exE conjE) (simp add: cancelled_def)

lemma cancelled_all: "io_wf m \<Longrightarrow> ctl_ok ctl \<Longrightarrow> cancelled [EPOLLIN, EPOLLOUT] f m (cancel_all ctl f m)"
  by (frule (1) cancel_all_spec [of m ctl f], elim exE conjE) (simp add: cancelled_def)

section \<open>Property\<close>

text \<open>
  C15. Cancelling a socket wakes whoever waits on it and nobody else. \<open>cancel_all\<close> hands the fiber that
  waits to read and the one that waits to write to the scheduler, in this order and once each,
  reports whether there was one, and leaves neither direction armed; \<open>cancel_read\<close> and
  \<open>cancel_accept\<close> do so for the reader only, \<open>cancel_write\<close> for the writer only. The waiters of every other
  descriptor and the number of pending events stay right.
\<close>

theorem socket_cancel_wakes:
  assumes "io_wf m" and "ctl_ok ctl"
  shows "cancelled [EPOLLIN, EPOLLOUT] (sockfd s) m (Socket_cancel_all ctl s m)
    \<and> cancelled [EPOLLIN] (sockfd s) m (Socket_cancel_read ctl s m)
    \<and> cancelled [EPOLLIN] (sockfd s) m (Socket_cancel_accept ctl s m)
    \<and> cancelled [EPOLLOUT] (sockfd s) m (Socket_cancel_write ctl s m)"
  using cancelled_all [OF assms] cancelled_one [OF assms(1) _ assms(2)]
  by (simp add: Socket_cancel_all_def Socket_cancel_read_def Socket_cancel_accept_def Socket_cancel_write_def)

definition listener :: Socket where
  "listener = \<lparr>sockfd = 3, family = 2, sock_type = 1, protocol = 0, is_connected = False, local_address = None, remote_address = None\<rparr>"

theorem socket_cancel_wakes_witness:
  "\<exists>m m'. waiter m 3 EPOLLIN = Some 42 \<and> Socket_cancel_all (\<lambda>_ _ _. 0) listener m = (True, m')
     \<and> tasks (base m') = [as_task 42]"
proof -
  obtain m where m: "io_wf m" "waiter m 3 EPOLLIN = Some 42" "waiter m 3 EPOLLOUT = None" "tasks (base m) = []"
    using reader_armed by blast
  have "ctl_ok (\<lambda>_ _ _. 0)" by (simp add: ctl_ok_def)
  from socket_cancel_wakes [OF m(1) this, of listener] have
    "cancelled [EPOLLIN, EPOLLOUT] 3 m (Socket_cancel_all (\<lambda>_ _ _. 0) listener m)" by (simp add: listener_def)
  with m show ?thesis
    by (intro exI [of _ m] exI [of _ "snd (Socket_cancel_all (\<lambda>_ _ _. 0) listener m)"]) (simp add: cancelled_def prod_eq_iff)
qed

end
